(* ===== verification/Prelude.thy ===== *)
theory Prelude
  imports Main "HOL-Library.Word" "HOL-Library.Monad_Syntax" "HOL-Library.Signed_Division"
begin

text \<open>
  Shared vocabulary of the development: the C integer types as words, C arrays whose elements may
  be uninitialised, bounds-checked reads and writes, counted loops, and the lemmas that let the
  simplifier execute code over such arrays.

  A computation is a value of an option type. \<^term>\<open>None\<close> stands for every execution that has no
  defined result in C: an access outside an array, a read of an element that was never written, a
  failed assertion, a loop that never ends. A theorem that states \<^term>\<open>Some\<close> therefore states
  memory safety, initialisation and termination together.
\<close>

unbundle bit_operations_syntax

named_theorems c_mem \<open>evaluation of array accesses\<close>
named_theorems c_arith \<open>conversions between C integers and bytes\<close>

section \<open>C integers\<close>

type_synonym u8 = "8 word"
type_synonym u16 = "16 word"
type_synonym u32 = "32 word"

text \<open>Conversion of an \<open>int\<close> to \<open>uint8_t\<close> keeps the low eight bits; \<open>>>\<close> on \<open>int\<close> is arithmetic.\<close>

definition byte :: "int \<Rightarrow> u8" where
  "byte v = word_of_int v"

definition hi_byte :: "int \<Rightarrow> u8" where
  "hi_byte v = byte (drop_bit 8 v)"

definition lo_byte :: "int \<Rightarrow> u8" where
  "lo_byte v = byte (v AND 0x00FF)"

text \<open>\<open>(hi << 8) + lo\<close> on two bytes promoted to \<open>int\<close>.\<close>

definition be16 :: "u8 \<Rightarrow> u8 \<Rightarrow> int" where
  "be16 h l = push_bit 8 (uint h) + uint l"

text \<open>\<open>(nb / 8) + ((nb % 8) ? 1 : 0)\<close> with the truncating division of C.\<close>

definition byte_count_of_bits :: "int \<Rightarrow> int" where
  "byte_count_of_bits nb = nb sdiv 8 + (if nb smod 8 \<noteq> 0 then 1 else 0)"

lemma uint_u8_range [simp]: "0 \<le> uint (x :: u8)" "uint (x :: u8) < 256"
  using uint_bounded [of x] by auto

lemma unat_u8_less [simp]: "unat (x :: u8) < 256"
  using unsigned_less [of x, where ?'a = nat] by simp

lemma xor_cancel_right: "(a XOR b = c XOR b) = (a = c)" for a b c :: "'a::len word"
  by (metis xor.assoc xor_self_eq xor.right_neutral)

lemma xor_cancel_left: "(b XOR a = b XOR c) = (a = c)" for a b c :: "'a::len word"
  by (simp add: xor.commute [of b] xor_cancel_right)

lemma be16_eq [c_arith]: "be16 h l = uint h * 256 + uint l"
  by (simp add: be16_def push_bit_eq_mult)

lemma be16_range [simp]: "0 \<le> be16 h l" "be16 h l < 65536"
proof -
  have "uint h < 256" "uint l < 256" "0 \<le> uint h" "0 \<le> uint l" by simp_all
  then show "0 \<le> be16 h l" "be16 h l < 65536"
    unfolding be16_eq by linarith+
qed

lemma uint_byte [c_arith]: "uint (byte v) = v mod 256"
  by (simp add: byte_def uint_word_of_int)

lemma uint_hi_byte [c_arith]: "uint (hi_byte v) = v div 256 mod 256"
  by (simp add: hi_byte_def uint_byte drop_bit_eq_div)

lemma and_255_mod: "(v :: int) AND 255 = v mod 256"
proof -
  have "v AND mask 8 = v mod 256"
    by (simp only: take_bit_eq_mask [symmetric] take_bit_eq_mod) simp
  then show ?thesis
    by (simp add: mask_eq_exp_minus_1)
qed

lemma uint_lo_byte [c_arith]: "uint (lo_byte v) = v mod 256"
  by (simp add: lo_byte_def uint_byte and_255_mod)

lemma be16_bytes [simp]: "0 \<le> v \<Longrightarrow> v < 65536 \<Longrightarrow> be16 (hi_byte v) (lo_byte v) = v"
  by (simp add: be16_eq uint_hi_byte uint_lo_byte)

lemma hi_byte_mod [simp]: "hi_byte (t mod 65536) = hi_byte t"
proof -
  have "t mod 65536 div 256 = t div 256 mod 256"
    using zmod_zmult2_eq [of 256 t 256] by simp
  then show ?thesis
    by (simp add: word_uint_eq_iff uint_hi_byte)
qed

lemma lo_byte_mod [simp]: "lo_byte (t mod 65536) = lo_byte t"
  by (simp add: word_uint_eq_iff uint_lo_byte mod_mod_cancel)

lemma be16_hi_lo: "be16 (hi_byte t) (lo_byte t) = t mod 65536"
  using zmod_zmult2_eq [of 256 t 256] by (simp add: be16_eq uint_hi_byte uint_lo_byte)

lemma byte_uint [simp]: "byte (uint x) = x"
  by (simp add: byte_def)

lemma byte_or_push [c_arith]: "byte (uint a OR push_bit n (uint b)) = a OR push_bit n b"
  by (rule bit_word_eqI)
     (auto simp: byte_def bit_word_of_int_iff bit_or_iff bit_push_bit_iff bit_uint_iff)

lemma byte_count_nonneg:
  "0 \<le> nb \<Longrightarrow> byte_count_of_bits nb = nb div 8 + (if nb mod 8 \<noteq> 0 then 1 else 0)"
  by (simp add: byte_count_of_bits_def signed_divide_int_def signed_modulo_int_def sgn_if)

lemma byte_count_bounds:
  assumes "0 \<le> nb"
  shows "nb \<le> 8 * byte_count_of_bits nb" "8 * byte_count_of_bits nb < nb + 8"
  unfolding byte_count_nonneg [OF assms] by presburger+

section \<open>Arrays with uninitialised elements\<close>

type_synonym 'a cbuf = "'a option list"

text \<open>A local array of \<open>n\<close> elements, and an array whose elements are all set.\<close>

definition fresh :: "nat \<Rightarrow> 'a cbuf" where
  "fresh n = replicate n None"

definition init :: "'a list \<Rightarrow> 'a cbuf" where
  "init xs = map Some xs"

definition rd :: "'a cbuf \<Rightarrow> int \<Rightarrow> 'a option" where
  "rd b i = (if 0 \<le> i \<and> i < int (length b) then b ! nat i else None)"

definition wr :: "'a cbuf \<Rightarrow> int \<Rightarrow> 'a \<Rightarrow> 'a cbuf option" where
  "wr b i x = (if 0 \<le> i \<and> i < int (length b) then Some (b[nat i := Some x]) else None)"

text \<open>Reads and writes of a run of consecutive elements (\<open>memcpy\<close>, \<open>read\<close>, \<open>write\<close>).\<close>

fun rds :: "'a cbuf \<Rightarrow> int \<Rightarrow> nat \<Rightarrow> 'a list option" where
  "rds b i 0 = Some []"
| "rds b i (Suc n) = do { x \<leftarrow> rd b i; xs \<leftarrow> rds b (i + 1) n; Some (x # xs) }"

fun wrs :: "'a cbuf \<Rightarrow> int \<Rightarrow> 'a list \<Rightarrow> 'a cbuf option" where
  "wrs b i [] = Some b"
| "wrs b i (x # xs) = do { b' \<leftarrow> wr b i x; wrs b' (i + 1) xs }"

definition memcpy :: "'a cbuf \<Rightarrow> int \<Rightarrow> 'a cbuf \<Rightarrow> int \<Rightarrow> int \<Rightarrow> 'a cbuf option" where
  "memcpy dst d src s n =
     (if n < 0 then None else do { bs \<leftarrow> rds src s (nat n); wrs dst d bs })"

text \<open>
  \<open>mkb n ys\<close> is an array of \<open>n\<close> elements that was written up to \<open>length ys\<close>: the shape every
  message builder keeps. Writing at the end appends, writing before the end updates.
\<close>

definition mkb :: "nat \<Rightarrow> 'a option list \<Rightarrow> 'a cbuf" where
  "mkb n ys = ys @ replicate (n - length ys) None"

lemma fresh_mkb: "fresh n = mkb n []"
  by (simp add: fresh_def mkb_def)

lemma length_mkb [simp]: "length ys \<le> n \<Longrightarrow> length (mkb n ys) = n"
  by (simp add: mkb_def)

lemma length_fresh [simp]: "length (fresh n) = n"
  by (simp add: fresh_def)

lemma length_init [simp]: "length (init xs) = length xs"
  by (simp add: init_def)

lemma wr_mkb_end [c_mem]:
  assumes "i = int (length ys)" "length ys < n"
  shows "wr (mkb n ys) i x = Some (mkb n (ys @ [Some x]))"
proof -
  obtain k where k: "n - length ys = Suc k"
    using assms(2) by (metis Suc_diff_Suc)
  have "n - Suc (length ys) = k"
    using k by simp
  with k show ?thesis
    using assms by (simp add: wr_def mkb_def list_update_append)
qed

text \<open>A write beyond the end leaves the elements between unset.\<close>

lemma wr_mkb_gap:
  assumes "int (length ys) \<le> i" "nat i < n"
  shows "wr (mkb n ys) i x = Some (mkb n (ys @ replicate (nat i - length ys) None @ [Some x]))"
proof -
  obtain k where k: "nat i = length ys + k"
    using assms(1) by (metis le_Suc_ex le_nat_iff of_nat_0_le_iff order_trans)
  define r where "r = n - length ys - Suc k"
  have r: "n - length ys = k + Suc r"
    using assms(2) k by (simp add: r_def)
  have "0 \<le> i" using assms(1) by linarith
  moreover have "(replicate (k + Suc r) None)[k := Some x] = replicate k None @ Some x # replicate r None"
    by (simp only: replicate_add list_update_append length_replicate) simp
  moreover have "n - (length ys + Suc k) = r"
    using r by simp
  ultimately show ?thesis
    using k r assms by (simp add: wr_def mkb_def list_update_append del: replicate_Suc)
qed

lemma wr_mkb_in [c_mem]:
  assumes "0 \<le> i" "nat i < length ys" "length ys \<le> n"
  shows "wr (mkb n ys) i x = Some (mkb n (ys[nat i := Some x]))"
  using assms by (simp add: wr_def mkb_def list_update_append)

lemma rd_mkb [c_mem]:
  "0 \<le> i \<Longrightarrow> nat i < length ys \<Longrightarrow> rd (mkb n ys) i = ys ! nat i"
  by (auto simp: rd_def mkb_def nth_append nat_less_iff)

lemma rd_init [c_mem]:
  "0 \<le> i \<Longrightarrow> nat i < length xs \<Longrightarrow> rd (init xs) i = Some (xs ! nat i)"
  by (simp add: rd_def init_def)

lemma init_append: "init (xs @ ys) = init xs @ init ys"
  by (simp add: init_def)

lemma rd_init_append [c_mem]:
  "0 \<le> i \<Longrightarrow> nat i < length xs \<Longrightarrow> rd (init xs @ rest) i = Some (xs ! nat i)"
  by (simp add: rd_def init_def nth_append nat_less_iff)

lemma rd_mkb_init [c_mem]:
  "0 \<le> i \<Longrightarrow> nat i < length xs \<Longrightarrow> rd (mkb n (map Some xs)) i = Some (xs ! nat i)"
  by (simp add: rd_mkb)

lemma rd_SomeD: "rd b i = Some x \<Longrightarrow> 0 \<le> i \<and> nat i < length b \<and> b ! nat i = Some x"
  by (auto simp: rd_def split: if_splits)

lemma rd_out [c_mem]: "i < 0 \<or> int (length b) \<le> i \<Longrightarrow> rd b i = None"
  by (auto simp: rd_def)

lemma wr_SomeD: "wr b i x = Some b' \<Longrightarrow> 0 \<le> i \<and> nat i < length b \<and> b' = b[nat i := Some x]"
  by (auto simp: wr_def split: if_splits)

lemma wr_length: "wr b i x = Some b' \<Longrightarrow> length b' = length b"
  by (auto dest: wr_SomeD)

lemma mkb_init: "mkb n (map Some xs) = init xs @ replicate (n - length xs) None"
  by (simp add: mkb_def init_def)

lemma rds_init_append:
  "k + m \<le> length xs \<Longrightarrow> rds (init xs @ rest) (int k) m = Some (take m (drop k xs))"
proof (induction m arbitrary: k)
  case 0
  then show ?case by simp
next
  case (Suc m)
  then have "rds (init xs @ rest) (int (Suc k)) m = Some (take m (drop (Suc k) xs))"
    by (intro Suc.IH) auto
  then have tail: "rds (init xs @ rest) (int k + 1) m = Some (take m (drop (Suc k) xs))"
    by (simp only: of_nat_Suc add.commute)
  have "drop k xs = xs ! k # drop (Suc k) xs"
    using Suc.prems by (intro Cons_nth_drop_Suc [symmetric]) simp
  then show ?case
    using Suc.prems by (simp add: rd_init_append tail)
qed

lemma rds_init_drop:
  "n \<le> length xs - k \<Longrightarrow> k \<le> length xs \<Longrightarrow> rds (init xs) (int k) n = Some (take n (drop k xs))"
  using rds_init_append [of k n xs "[]"] by simp

lemma rds_mkb_init [c_mem]:
  "k + m \<le> length xs \<Longrightarrow> rds (mkb n (map Some xs)) (int k) m = Some (take m (drop k xs))"
  unfolding mkb_init by (rule rds_init_append)

lemma rds_mkb_init_0: "rds (mkb n (map Some xs)) 0 (length xs) = Some xs"
  using rds_mkb_init [of 0 "length xs" xs n] by simp

lemma rds_append:
  "rds b i (m + n) = do { xs \<leftarrow> rds b i m; ys \<leftarrow> rds b (i + int m) n; Some (xs @ ys) }"
proof (induction m arbitrary: i)
  case 0
  then show ?case by (cases "rds b i n") auto
next
  case (Suc m)
  then show ?case
    by (cases "rd b i"; cases "rds b (i + 1) m"; cases "rds b (i + (1 + int m)) n")
       (simp_all add: algebra_simps)
qed

lemma two_at_end: "2 \<le> length bs \<Longrightarrow> \<exists>cs x y. bs = cs @ [x, y]"
  by (cases bs rule: rev_cases; cases "butlast bs" rule: rev_cases) auto

lemma rds_length: "rds b i n = Some xs \<Longrightarrow> length xs = n"
  by (induction n arbitrary: i xs) (auto simp: Option.bind_eq_Some_conv)

lemma wrs_length: "wrs b i xs = Some b' \<Longrightarrow> length b' = length b"
  by (induction xs arbitrary: b i) (auto simp: Option.bind_eq_Some_conv dest: wr_length)

lemma wrs_mkb_end [c_mem]:
  "i = int (length ys) \<Longrightarrow> length ys + length xs \<le> n \<Longrightarrow>
   wrs (mkb n ys) i xs = Some (mkb n (ys @ map Some xs))"
proof (induction xs arbitrary: ys i)
  case Nil
  then show ?case by simp
next
  case (Cons x xs)
  then have "wrs (mkb n (ys @ [Some x])) (int (length (ys @ [Some x]))) xs
      = Some (mkb n ((ys @ [Some x]) @ map Some xs))"
    by (intro Cons.IH) auto
  with Cons.prems show ?case
    by (simp add: wr_mkb_end algebra_simps)
qed

section \<open>Overwriting a run of elements\<close>

text \<open>\<open>fill b a xs\<close> is \<open>b\<close> with the elements from position \<open>a\<close> on overwritten by \<open>xs\<close>.\<close>

definition fill :: "'a cbuf \<Rightarrow> nat \<Rightarrow> 'a list \<Rightarrow> 'a cbuf" where
  "fill b a xs = take a b @ map Some xs @ drop (a + length xs) b"

lemma fill_Nil [simp]: "fill b a [] = b"
  by (simp add: fill_def)

lemma length_fill [simp]: "a + length xs \<le> length b \<Longrightarrow> length (fill b a xs) = length b"
  by (simp add: fill_def)

lemma fill_nth_in [simp]:
  "a \<le> i \<Longrightarrow> i < a + length xs \<Longrightarrow> a \<le> length b \<Longrightarrow> fill b a xs ! i = Some (xs ! (i - a))"
  by (auto simp: fill_def nth_append)

lemma fill_nth_before [simp]: "i < a \<Longrightarrow> a \<le> length b \<Longrightarrow> fill b a xs ! i = b ! i"
  by (simp add: fill_def nth_append)

lemma fill_nth_after [simp]:
  "a + length xs \<le> i \<Longrightarrow> i < length b \<Longrightarrow> fill b a xs ! i = b ! i"
  by (auto simp: fill_def nth_append min_def)

lemma fill_snoc:
  "a + length xs < length b \<Longrightarrow> (fill b a xs)[a + length xs := Some x] = fill b a (xs @ [x])"
  by (rule nth_equalityI) (auto simp: fill_def nth_append nth_list_update min_def)

lemma wr_fill [c_mem]:
  "i = int (a + length xs) \<Longrightarrow> a + length xs < length b \<Longrightarrow>
   wr (fill b a xs) i x = Some (fill b a (xs @ [x]))"
  by (simp add: wr_def fill_snoc nat_plus_as_int [symmetric] del: nat_int_add flip: of_nat_add)

lemma wrs_fill_more:
  "i = int (a + length xs) \<Longrightarrow> a + length xs + length ys \<le> length b \<Longrightarrow>
   wrs (fill b a xs) i ys = Some (fill b a (xs @ ys))"
proof (induction ys arbitrary: xs i)
  case Nil
  then show ?case by simp
next
  case (Cons y ys)
  then have "wrs (fill b a (xs @ [y])) (int (a + length (xs @ [y]))) ys
      = Some (fill b a ((xs @ [y]) @ ys))"
    by (intro Cons.IH) auto
  with Cons.prems show ?case
    by (simp add: wr_fill algebra_simps)
qed

lemma wrs_fill [c_mem]:
  "a + length xs \<le> length b \<Longrightarrow> wrs b (int a) xs = Some (fill b a xs)"
  using wrs_fill_more [of "int a" a "[]" xs b] by simp

section \<open>Counted loops\<close>

text \<open>\<open>for (i = a; i < n; i++) body\<close> over a loop state.\<close>

function for_range :: "int \<Rightarrow> int \<Rightarrow> (int \<Rightarrow> 's \<Rightarrow> 's option) \<Rightarrow> 's \<Rightarrow> 's option" where
  "for_range i n f s =
     (if i < n then do { s' \<leftarrow> f i s; for_range (i + 1) n f s' } else Some s)"
  by pat_completeness auto
termination
  by (relation "measure (\<lambda>(i, n, f, s). nat (n - i))") auto

declare for_range.simps [simp del]

lemma for_range_done [simp]: "n \<le> i \<Longrightarrow> for_range i n f s = Some s"
  by (simp add: for_range.simps)

lemma for_range_step: "i < n \<Longrightarrow> for_range i n f s = do { s' \<leftarrow> f i s; for_range (i + 1) n f s' }"
  by (subst for_range.simps) simp

text \<open>If each iteration takes the state from \<open>g i\<close> to \<open>g (i + 1)\<close>, the loop takes it to \<open>g n\<close>.\<close>

lemma for_range_steps:
  assumes "a \<le> n" and "\<And>i. a \<le> i \<Longrightarrow> i < n \<Longrightarrow> f i (g i) = Some (g (i + 1))"
  shows "for_range a n f (g a) = Some (g n)"
  using assms
proof (induction "nat (n - a)" arbitrary: a)
  case 0
  then show ?case by simp
next
  case (Suc k)
  then have "a < n" by simp
  moreover have "for_range (a + 1) n f (g (a + 1)) = Some (g n)"
    using Suc by (intro Suc.hyps(1)) auto
  ultimately show ?case
    using Suc.prems(2) [of a] by (simp add: for_range_step)
qed

text \<open>An invariant of the iterations holds for every final state.\<close>

lemma for_range_inv:
  assumes "for_range a n f s = Some t" "I a s" "a \<le> n"
    and "\<And>i u v. a \<le> i \<Longrightarrow> i < n \<Longrightarrow> I i u \<Longrightarrow> f i u = Some v \<Longrightarrow> I (i + 1) v"
  shows "I n t"
  using assms
proof (induction "nat (n - a)" arbitrary: a s)
  case 0
  then show ?case by simp
next
  case (Suc k)
  then have "a < n" by simp
  with Suc.prems obtain u where u: "f a s = Some u" "for_range (a + 1) n f u = Some t"
    by (auto simp: for_range_step Option.bind_eq_Some_conv)
  show ?case
  proof (rule Suc.hyps(1) [of "a + 1" u])
    show "I (a + 1) u"
      using Suc.prems(4) [of a s u] Suc.prems(2) u(1) \<open>a < n\<close> by simp
  qed (use Suc u \<open>a < n\<close> in auto)
qed

text \<open>Each iteration succeeds and keeps an invariant: so does the loop.\<close>

lemma for_range_total:
  assumes "a \<le> n" "I a s" "\<And>i u. a \<le> i \<Longrightarrow> i < n \<Longrightarrow> I i u \<Longrightarrow> \<exists>v. f i u = Some v \<and> I (i + 1) v"
  shows "\<exists>t. for_range a n f s = Some t \<and> I n t"
  using assms
proof (induction "nat (n - a)" arbitrary: a s)
  case 0
  then show ?case by simp
next
  case (Suc k)
  then have "a < n" by simp
  with Suc.prems obtain u where u: "f a s = Some u" "I (a + 1) u" by (meson order_refl)
  have "\<exists>t. for_range (a + 1) n f u = Some t \<and> I n t"
    by (rule Suc.hyps(1)) (use Suc u \<open>a < n\<close> in auto)
  with u(1) \<open>a < n\<close> show ?case by (simp add: for_range_step)
qed

end
