(* ===== verification/Modbus_Types.thy ===== *)
theory Modbus_Types
  imports Prelude
begin

text \<open>
  The data model of \<open>library/modbus\<close>: the protocol constants of \<open>modbus.h\<close> and
  \<open>modbus-private.h\<close>, the context \<open>modbus_t\<close> with its backend data, the table of backend operations
  \<open>modbus_backend_t\<close>, and the operating system calls the library makes. The calls are a record
  of functions over an abstract world and a parameter of everything that uses them.
\<close>

section \<open>Protocol constants\<close>

definition MODBUS_BROADCAST_ADDRESS :: int where [simp]: "MODBUS_BROADCAST_ADDRESS = 0"
definition MODBUS_MAX_READ_BITS :: int where [simp]: "MODBUS_MAX_READ_BITS = 2000"
definition MODBUS_MAX_WRITE_BITS :: int where [simp]: "MODBUS_MAX_WRITE_BITS = 1968"
definition MODBUS_MAX_READ_REGISTERS :: int where [simp]: "MODBUS_MAX_READ_REGISTERS = 125"
definition MODBUS_MAX_WRITE_REGISTERS :: int where [simp]: "MODBUS_MAX_WRITE_REGISTERS = 123"
definition MODBUS_MAX_RW_WRITE_REGISTERS :: int where [simp]: "MODBUS_MAX_RW_WRITE_REGISTERS = 121"

definition MAX_MESSAGE_LENGTH :: nat where [simp]: "MAX_MESSAGE_LENGTH = 260"
definition MIN_REQ_LENGTH :: nat where [simp]: "MIN_REQ_LENGTH = 12"
definition REPORT_SLAVE_ID :: int where [simp]: "REPORT_SLAVE_ID = 180"
definition RESPONSE_TIMEOUT :: int where [simp]: "RESPONSE_TIMEOUT = 10000"
definition BYTE_TIMEOUT :: int where [simp]: "BYTE_TIMEOUT = 10000"
definition MSG_LENGTH_UNDEFINED :: int where [simp]: "MSG_LENGTH_UNDEFINED = -1"

text \<open>Function codes.\<close>

definition FC_READ_COILS :: int where [simp]: "FC_READ_COILS = 0x01"
definition FC_READ_DISCRETE_INPUTS :: int where [simp]: "FC_READ_DISCRETE_INPUTS = 0x02"
definition FC_READ_HOLDING_REGISTERS :: int where [simp]: "FC_READ_HOLDING_REGISTERS = 0x03"
definition FC_READ_INPUT_REGISTERS :: int where [simp]: "FC_READ_INPUT_REGISTERS = 0x04"
definition FC_WRITE_SINGLE_COIL :: int where [simp]: "FC_WRITE_SINGLE_COIL = 0x05"
definition FC_WRITE_SINGLE_REGISTER :: int where [simp]: "FC_WRITE_SINGLE_REGISTER = 0x06"
definition FC_READ_EXCEPTION_STATUS :: int where [simp]: "FC_READ_EXCEPTION_STATUS = 0x07"
definition FC_WRITE_MULTIPLE_COILS :: int where [simp]: "FC_WRITE_MULTIPLE_COILS = 0x0F"
definition FC_WRITE_MULTIPLE_REGISTERS :: int where [simp]: "FC_WRITE_MULTIPLE_REGISTERS = 0x10"
definition FC_REPORT_SLAVE_ID :: int where [simp]: "FC_REPORT_SLAVE_ID = 0x11"
definition FC_WRITE_AND_READ_REGISTERS :: int where [simp]: "FC_WRITE_AND_READ_REGISTERS = 0x17"

text \<open>Exception codes, in the order of the enumeration.\<close>

definition MODBUS_EXCEPTION_ILLEGAL_FUNCTION :: int where
  [simp]: "MODBUS_EXCEPTION_ILLEGAL_FUNCTION = 1"
definition MODBUS_EXCEPTION_ILLEGAL_DATA_ADDRESS :: int where
  [simp]: "MODBUS_EXCEPTION_ILLEGAL_DATA_ADDRESS = 2"
definition MODBUS_EXCEPTION_ILLEGAL_DATA_VALUE :: int where
  [simp]: "MODBUS_EXCEPTION_ILLEGAL_DATA_VALUE = 3"
definition MODBUS_EXCEPTION_SLAVE_OR_SERVER_FAILURE :: int where
  [simp]: "MODBUS_EXCEPTION_SLAVE_OR_SERVER_FAILURE = 4"
definition MODBUS_EXCEPTION_ACKNOWLEDGE :: int where
  [simp]: "MODBUS_EXCEPTION_ACKNOWLEDGE = 5"
definition MODBUS_EXCEPTION_SLAVE_OR_SERVER_BUSY :: int where
  [simp]: "MODBUS_EXCEPTION_SLAVE_OR_SERVER_BUSY = 6"
definition MODBUS_EXCEPTION_NEGATIVE_ACKNOWLEDGE :: int where
  [simp]: "MODBUS_EXCEPTION_NEGATIVE_ACKNOWLEDGE = 7"
definition MODBUS_EXCEPTION_MEMORY_PARITY :: int where
  [simp]: "MODBUS_EXCEPTION_MEMORY_PARITY = 8"
definition MODBUS_EXCEPTION_NOT_DEFINED :: int where
  [simp]: "MODBUS_EXCEPTION_NOT_DEFINED = 9"
definition MODBUS_EXCEPTION_GATEWAY_PATH :: int where
  [simp]: "MODBUS_EXCEPTION_GATEWAY_PATH = 10"
definition MODBUS_EXCEPTION_GATEWAY_TARGET :: int where
  [simp]: "MODBUS_EXCEPTION_GATEWAY_TARGET = 11"
definition MODBUS_EXCEPTION_MAX :: int where [simp]: "MODBUS_EXCEPTION_MAX = 12"

section \<open>Error numbers\<close>

text \<open>The values of the C library on Linux, and those of the library above \<open>MODBUS_ENOBASE\<close>.\<close>

definition EINTR :: int where [simp]: "EINTR = 4"
definition EBADF :: int where [simp]: "EBADF = 9"
definition ENOMEM :: int where [simp]: "ENOMEM = 12"
definition EINVAL :: int where [simp]: "EINVAL = 22"
definition EPIPE :: int where [simp]: "EPIPE = 32"
definition ENOPROTOOPT :: int where [simp]: "ENOPROTOOPT = 92"
definition ENOTSUP :: int where [simp]: "ENOTSUP = 95"
definition ECONNRESET :: int where [simp]: "ECONNRESET = 104"
definition ETIMEDOUT :: int where [simp]: "ETIMEDOUT = 110"
definition ECONNREFUSED :: int where [simp]: "ECONNREFUSED = 111"

definition MODBUS_ENOBASE :: int where [simp]: "MODBUS_ENOBASE = 112345678"
definition EMBXILFUN :: int where [simp]: "EMBXILFUN = MODBUS_ENOBASE + MODBUS_EXCEPTION_ILLEGAL_FUNCTION"
definition EMBXILADD :: int where [simp]: "EMBXILADD = MODBUS_ENOBASE + MODBUS_EXCEPTION_ILLEGAL_DATA_ADDRESS"
definition EMBXILVAL :: int where [simp]: "EMBXILVAL = MODBUS_ENOBASE + MODBUS_EXCEPTION_ILLEGAL_DATA_VALUE"
definition EMBXSFAIL :: int where [simp]: "EMBXSFAIL = MODBUS_ENOBASE + MODBUS_EXCEPTION_SLAVE_OR_SERVER_FAILURE"
definition EMBXACK :: int where [simp]: "EMBXACK = MODBUS_ENOBASE + MODBUS_EXCEPTION_ACKNOWLEDGE"
definition EMBXSBUSY :: int where [simp]: "EMBXSBUSY = MODBUS_ENOBASE + MODBUS_EXCEPTION_SLAVE_OR_SERVER_BUSY"
definition EMBXNACK :: int where [simp]: "EMBXNACK = MODBUS_ENOBASE + MODBUS_EXCEPTION_NEGATIVE_ACKNOWLEDGE"
definition EMBXMEMPAR :: int where [simp]: "EMBXMEMPAR = MODBUS_ENOBASE + MODBUS_EXCEPTION_MEMORY_PARITY"
definition EMBXGPATH :: int where [simp]: "EMBXGPATH = MODBUS_ENOBASE + MODBUS_EXCEPTION_GATEWAY_PATH"
definition EMBXGTAR :: int where [simp]: "EMBXGTAR = MODBUS_ENOBASE + MODBUS_EXCEPTION_GATEWAY_TARGET"
definition EMBBADCRC :: int where [simp]: "EMBBADCRC = EMBXGTAR + 1"
definition EMBBADDATA :: int where [simp]: "EMBBADDATA = EMBXGTAR + 2"
definition EMBBADEXC :: int where [simp]: "EMBBADEXC = EMBXGTAR + 3"
definition EMBUNKEXC :: int where [simp]: "EMBUNKEXC = EMBXGTAR + 4"
definition EMBMDATA :: int where [simp]: "EMBMDATA = EMBXGTAR + 5"

section \<open>Contexts\<close>

record timeval =
  tv_sec :: int
  tv_usec :: int

record termios =
  c_iflag :: u32
  c_oflag :: u32
  c_cflag :: u32
  c_lflag :: u32
  c_vmin :: u8
  c_vtime :: u8
  c_ispeed :: u32
  c_ospeed :: u32

text \<open>\<open>modbus_rtu_t\<close>; \<open>None\<close> in \<open>old_tios\<close> and \<open>serial_mode\<close> is memory that was never written.\<close>

record modbus_rtu_t =
  rtu_device :: "char cbuf"
  rtu_baud :: int
  rtu_data_bit :: u8
  rtu_stop_bit :: u8
  rtu_parity :: char
  rtu_old_tios :: "termios option"
  rtu_serial_mode :: "int option"

record modbus_tcp_t =
  tcp_port :: int
  tcp_ip :: "char cbuf"

record modbus_tcp_pi_t =
  pi_node :: "char cbuf"
  pi_service :: "char cbuf"

datatype backend_data =
    NoData
  | RtuData modbus_rtu_t
  | TcpData modbus_tcp_t
  | TcpPiData modbus_tcp_pi_t

datatype backend_type = BACKEND_TYPE_RTU | BACKEND_TYPE_TCP

text \<open>\<open>struct _modbus\<close> but for its \<open>backend\<close> pointer, which is an argument of the operations.\<close>

record modbus_t =
  mb_slave :: int
  mb_s :: int
  mb_debug :: int
  mb_error_recovery :: int
  mb_response_timeout :: timeval
  mb_byte_timeout :: timeval
  mb_backend_data :: backend_data

definition MODBUS_ERROR_RECOVERY_NONE :: int where [simp]: "MODBUS_ERROR_RECOVERY_NONE = 0"
definition MODBUS_ERROR_RECOVERY_LINK :: int where [simp]: "MODBUS_ERROR_RECOVERY_LINK = 2"
definition MODBUS_ERROR_RECOVERY_PROTOCOL :: int where [simp]: "MODBUS_ERROR_RECOVERY_PROTOCOL = 4"

text \<open>
  The state of a thread of execution: the context, \<open>errno\<close>, the \<open>static uint16_t t_id\<close> of the TCP
  request builder, and the world outside the process.
\<close>

record 'w mstate =
  ctx :: modbus_t
  errno :: int
  tcp_t_id :: u16
  world :: 'w

type_synonym ('w, 'a) exec = "'w mstate \<Rightarrow> ('a \<times> 'w mstate) option"

record sft_t =
  sft_slave :: int
  sft_function :: int
  sft_t_id :: int

text \<open>The string a C array holds: its elements up to the terminator, if they were all written.\<close>

definition NUL :: char where "NUL = CHR 0x00"

fun c_str :: "char cbuf \<Rightarrow> string option" where
  "c_str [] = None"
| "c_str (None # b) = None"
| "c_str (Some c # b) = (if c = NUL then Some [] else map_option (Cons c) (c_str b))"

section \<open>The operating system\<close>

text \<open>
  Each call maps its arguments and the world to a result and the next world. \<open>Inl e\<close> is the return
  value -1 with \<open>errno = e\<close>. A read returns the bytes it stored, \<open>select\<close> and \<open>nanosleep\<close> also
  the time left, as on Linux.
\<close>

datatype sockaddr = Inet string int | Addr string

record addrinfo =
  ai_family_inet :: bool
  ai_addr :: sockaddr

datatype sockopt = TCP_NODELAY | IP_TOS_LOWDELAY | SO_REUSEADDR

record serial_rs485 =
  rs485_flags :: u32

record 'w os =
  sys_write :: "int \<Rightarrow> u8 list \<Rightarrow> 'w \<Rightarrow> (int + int) \<times> 'w"
  sys_read :: "int \<Rightarrow> int \<Rightarrow> 'w \<Rightarrow> (int + u8 list) \<times> 'w"
  sys_send :: "int \<Rightarrow> u8 list \<Rightarrow> 'w \<Rightarrow> (int + int) \<times> 'w"
  sys_recv :: "int \<Rightarrow> int \<Rightarrow> bool \<Rightarrow> 'w \<Rightarrow> (int + u8 list) \<times> 'w"
  sys_select :: "int \<Rightarrow> timeval option \<Rightarrow> 'w \<Rightarrow> ((int + int) \<times> timeval option) \<times> 'w"
  sys_nanosleep :: "int \<times> int \<Rightarrow> 'w \<Rightarrow> (int \<times> (int \<times> int) + unit) \<times> 'w"
  sys_tcflush :: "int \<Rightarrow> 'w \<Rightarrow> (int + int) \<times> 'w"
  sys_open :: "string \<Rightarrow> 'w \<Rightarrow> (int + int) \<times> 'w"
  sys_close :: "int \<Rightarrow> 'w \<Rightarrow> (int + int) \<times> 'w"
  sys_tcgetattr :: "int \<Rightarrow> 'w \<Rightarrow> (int + termios) \<times> 'w"
  sys_tcsetattr :: "int \<Rightarrow> termios \<Rightarrow> 'w \<Rightarrow> (int + int) \<times> 'w"
  sys_ioctl_rs485 :: "int \<Rightarrow> serial_rs485 \<Rightarrow> 'w \<Rightarrow> (int + int) \<times> 'w"
  sys_socket :: "bool \<Rightarrow> 'w \<Rightarrow> (int + int) \<times> 'w"
  sys_setsockopt :: "int \<Rightarrow> sockopt \<Rightarrow> 'w \<Rightarrow> (int + int) \<times> 'w"
  sys_connect :: "int \<Rightarrow> sockaddr \<Rightarrow> 'w \<Rightarrow> (int + int) \<times> 'w"
  sys_shutdown :: "int \<Rightarrow> 'w \<Rightarrow> (int + int) \<times> 'w"
  sys_bind :: "int \<Rightarrow> sockaddr \<Rightarrow> 'w \<Rightarrow> (int + int) \<times> 'w"
  sys_listen :: "int \<Rightarrow> int \<Rightarrow> 'w \<Rightarrow> (int + int) \<times> 'w"
  sys_accept :: "int \<Rightarrow> 'w \<Rightarrow> (int + int) \<times> 'w"
  sys_getaddrinfo :: "string option \<Rightarrow> string \<Rightarrow> bool \<Rightarrow> 'w \<Rightarrow> (int + addrinfo list) \<times> 'w"

text \<open>The C return value of a call: -1 and \<open>errno\<close> on failure.\<close>

definition c_ret :: "(int + int) \<times> 'w \<Rightarrow> 'w mstate \<Rightarrow> int \<times> 'w mstate" where
  "c_ret r st =
     (case fst r of
        Inl e \<Rightarrow> (-1, st\<lparr>errno := e, world := snd r\<rparr>)
      | Inr v \<Rightarrow> (v, st\<lparr>world := snd r\<rparr>))"

section \<open>Backends\<close>

text \<open>
  \<open>modbus_backend_t\<close>. An array argument that an operation writes is returned updated;
  \<open>be_recv msg pos n\<close> is the call \<open>recv(ctx, msg + pos, n)\<close>.
\<close>

record 'w modbus_backend =
  be_type :: backend_type
  header_length :: int
  checksum_length :: int
  max_adu_length :: int
  be_set_slave :: "int \<Rightarrow> ('w, int) exec"
  be_build_request_basis :: "int \<Rightarrow> int \<Rightarrow> int \<Rightarrow> u8 cbuf \<Rightarrow> ('w, int \<times> u8 cbuf) exec"
  be_build_response_basis :: "sft_t \<Rightarrow> u8 cbuf \<Rightarrow> (int \<times> u8 cbuf) option"
  be_prepare_response_tid :: "u8 cbuf \<Rightarrow> int \<Rightarrow> (int \<times> int) option"
  be_send_msg_pre :: "u8 cbuf \<Rightarrow> int \<Rightarrow> (int \<times> u8 cbuf) option"
  be_send :: "u8 cbuf \<Rightarrow> int \<Rightarrow> ('w, int) exec"
  be_recv :: "u8 cbuf \<Rightarrow> int \<Rightarrow> int \<Rightarrow> ('w, int \<times> u8 cbuf) exec"
  be_check_integrity :: "u8 cbuf \<Rightarrow> int \<Rightarrow> ('w, int) exec"
  be_pre_check_confirmation :: "(u8 cbuf \<Rightarrow> u8 cbuf \<Rightarrow> int \<Rightarrow> ('w, int) exec) option"
  be_connect :: "('w, int) exec"
  be_close :: "('w, unit) exec"
  be_flush :: "('w, int) exec"
  be_select :: "timeval option \<Rightarrow> int \<Rightarrow> ('w, int \<times> timeval option) exec"
  be_filter_request :: "int \<Rightarrow> ('w, int) exec"

end
