(* ===== verification/Context.thy ===== *)
theory Context
  imports Modbus_Types
begin

text \<open>
  The parts of \<open>library/modbus/modbus.c\<close> that handle a context: initial values, setters and
  getters, dispatch to the backend, the allocation of the register mapping, error messages, and
  the string copy \<open>strlcpy\<close> the constructors use.
\<close>

section \<open>Initial values, setters and getters\<close>

definition modbus_init_common :: "modbus_t \<Rightarrow> modbus_t" where
  "modbus_init_common c = c\<lparr>
     mb_slave := -1,
     mb_s := -1,
     mb_debug := 0,
     mb_error_recovery := MODBUS_ERROR_RECOVERY_NONE,
     mb_response_timeout := \<lparr>tv_sec = 0, tv_usec = RESPONSE_TIMEOUT\<rparr>,
     mb_byte_timeout := \<lparr>tv_sec = 0, tv_usec = BYTE_TIMEOUT\<rparr>\<rparr>"

definition set_ctx :: "(modbus_t \<Rightarrow> modbus_t) \<Rightarrow> 'w mstate \<Rightarrow> 'w mstate" where
  "set_ctx f st = st\<lparr>ctx := f (ctx st)\<rparr>"

text \<open>The recovery mode is an unsigned enumeration narrowed to \<open>uint8_t\<close>.\<close>

definition modbus_set_error_recovery :: "int \<Rightarrow> ('w, int) exec" where
  "modbus_set_error_recovery error_recovery st =
     Some (0, set_ctx (\<lambda>c. c\<lparr>mb_error_recovery := uint (byte error_recovery)\<rparr>) st)"

definition modbus_set_socket :: "int \<Rightarrow> ('w, unit) exec" where
  "modbus_set_socket sock st = Some ((), set_ctx (\<lambda>c. c\<lparr>mb_s := sock\<rparr>) st)"

definition modbus_get_socket :: "('w, int) exec" where
  "modbus_get_socket st = Some (mb_s (ctx st), st)"

definition modbus_get_response_timeout :: "('w, timeval) exec" where
  "modbus_get_response_timeout st = Some (mb_response_timeout (ctx st), st)"

definition modbus_set_response_timeout :: "timeval \<Rightarrow> ('w, unit) exec" where
  "modbus_set_response_timeout tv st = Some ((), set_ctx (\<lambda>c. c\<lparr>mb_response_timeout := tv\<rparr>) st)"

definition modbus_get_byte_timeout :: "('w, timeval) exec" where
  "modbus_get_byte_timeout st = Some (mb_byte_timeout (ctx st), st)"

definition modbus_set_byte_timeout :: "timeval \<Rightarrow> ('w, unit) exec" where
  "modbus_set_byte_timeout tv st = Some ((), set_ctx (\<lambda>c. c\<lparr>mb_byte_timeout := tv\<rparr>) st)"

definition modbus_set_debug :: "int \<Rightarrow> ('w, unit) exec" where
  "modbus_set_debug b st = Some ((), set_ctx (\<lambda>c. c\<lparr>mb_debug := b\<rparr>) st)"

section \<open>Dispatch to the backend\<close>

definition modbus_set_slave :: "'w modbus_backend \<Rightarrow> int \<Rightarrow> ('w, int) exec" where
  "modbus_set_slave be slave = be_set_slave be slave"

definition modbus_get_header_length :: "'w modbus_backend \<Rightarrow> int" where
  "modbus_get_header_length be = header_length be"

definition modbus_connect :: "'w modbus_backend \<Rightarrow> ('w, int) exec" where
  "modbus_connect be = be_connect be"

definition modbus_close :: "'w modbus_backend \<Rightarrow> ('w, unit) exec" where
  "modbus_close be = be_close be"

definition modbus_flush :: "'w modbus_backend \<Rightarrow> ('w, int) exec" where
  "modbus_flush be = be_flush be"

text \<open>\<open>ctx->error_recovery & MODBUS_ERROR_RECOVERY_LINK\<close> and \<open>\<dots>_PROTOCOL\<close>.\<close>

definition recovery_link :: "'w mstate \<Rightarrow> bool" where
  "recovery_link st \<longleftrightarrow> mb_error_recovery (ctx st) AND MODBUS_ERROR_RECOVERY_LINK \<noteq> 0"

definition recovery_protocol :: "'w mstate \<Rightarrow> bool" where
  "recovery_protocol st \<longleftrightarrow> mb_error_recovery (ctx st) AND MODBUS_ERROR_RECOVERY_PROTOCOL \<noteq> 0"

section \<open>Transfer shared by the backends\<close>

text \<open>A read stores the bytes it returns at the given position.\<close>

definition store_read :: "(int + u8 list) \<times> 'w \<Rightarrow> u8 cbuf \<Rightarrow> int \<Rightarrow> ('w, int \<times> u8 cbuf) exec" where
  "store_read r rsp pos st =
     (case fst r of
        Inl e \<Rightarrow> Some ((-1, rsp), st\<lparr>errno := e, world := snd r\<rparr>)
      | Inr bs \<Rightarrow>
          do { rsp \<leftarrow> wrs rsp pos bs; Some ((int (length bs), rsp), st\<lparr>world := snd r\<rparr>) })"

text \<open>
  The wait for input shared by both backends: \<open>select\<close> is repeated while it is interrupted by a
  signal, with the time that is left; no event is \<open>ETIMEDOUT\<close>.
\<close>

partial_function (option) select_loop :: "'w os \<Rightarrow> timeval option \<Rightarrow> ('w, int \<times> timeval option) exec" where
  "select_loop os tv st =
     (let r = sys_select os (mb_s (ctx st)) tv (world st)
      in case fst (fst r) of
           Inl e \<Rightarrow>
             if e = EINTR then select_loop os (snd (fst r)) (st\<lparr>errno := e, world := snd r\<rparr>)
             else Some ((-1, snd (fst r)), st\<lparr>errno := e, world := snd r\<rparr>)
         | Inr n \<Rightarrow>
             if n = 0 then Some ((-1, snd (fst r)), st\<lparr>errno := ETIMEDOUT, world := snd r\<rparr>)
             else Some ((n, snd (fst r)), st\<lparr>world := snd r\<rparr>))"

section \<open>Error messages\<close>

text \<open>\<open>None\<close> is the message of the C library.\<close>

definition modbus_strerror :: "int \<Rightarrow> string option" where
  "modbus_strerror errnum =
     (if errnum = EMBXILFUN then Some ''Illegal function''
      else if errnum = EMBXILADD then Some ''Illegal data address''
      else if errnum = EMBXILVAL then Some ''Illegal data value''
      else if errnum = EMBXSFAIL then Some ''Slave device or server failure''
      else if errnum = EMBXACK then Some ''Acknowledge''
      else if errnum = EMBXSBUSY then Some ''Slave device or server is busy''
      else if errnum = EMBXNACK then Some ''Negative acknowledge''
      else if errnum = EMBXMEMPAR then Some ''Memory parity error''
      else if errnum = EMBXGPATH then Some ''Gateway path unavailable''
      else if errnum = EMBXGTAR then Some ''Target device failed to respond''
      else if errnum = EMBBADCRC then Some ''Invalid CRC''
      else if errnum = EMBBADDATA then Some ''Invalid data''
      else if errnum = EMBBADEXC then Some ''Invalid exception code''
      else if errnum = EMBMDATA then Some ''Too many data''
      else None)"

section \<open>The register mapping\<close>

text \<open>The tables a server answers from; an empty list is the null pointer of an empty table.\<close>

record modbus_mapping_t =
  nb_bits :: int
  nb_input_bits :: int
  nb_input_registers :: int
  nb_registers :: int
  tab_bits :: "u8 cbuf"
  tab_input_bits :: "u8 cbuf"
  tab_input_registers :: "u16 cbuf"
  tab_registers :: "u16 cbuf"

text \<open>
  \<open>malloc\<close> of a number of bytes: it fails for a negative argument, whose conversion to
  \<open>size_t\<close> exceeds every object, and may fail for any other (the predicate). The table is zeroed. A mapping
  takes 32 bytes with the four-byte pointers of the target.
\<close>

definition calloc_table :: "(int \<Rightarrow> bool) \<Rightarrow> int \<Rightarrow> int \<Rightarrow> ('a::zero) cbuf option" where
  "calloc_table malloc_ok nb width =
     (if nb = 0 then Some []
      else if nb < 0 \<or> \<not> malloc_ok (nb * width) then None
      else Some (replicate (nat nb) (Some 0)))"

definition SIZEOF_MAPPING :: int where [simp]: "SIZEOF_MAPPING = 32"

definition modbus_mapping_new ::
  "(int \<Rightarrow> bool) \<Rightarrow> int \<Rightarrow> int \<Rightarrow> int \<Rightarrow> int \<Rightarrow> modbus_mapping_t option" where
  "modbus_mapping_new malloc_ok nbits ninput_bits nregisters ninput_registers =
     do { _ \<leftarrow> (if malloc_ok SIZEOF_MAPPING then Some () else None);
          bits \<leftarrow> calloc_table malloc_ok nbits 1;
          input_bits \<leftarrow> calloc_table malloc_ok ninput_bits 1;
          registers \<leftarrow> calloc_table malloc_ok nregisters 2;
          input_registers \<leftarrow> calloc_table malloc_ok ninput_registers 2;
          Some \<lparr>nb_bits = nbits, nb_input_bits = ninput_bits,
                nb_input_registers = ninput_registers, nb_registers = nregisters,
                tab_bits = bits, tab_input_bits = input_bits,
                tab_input_registers = input_registers, tab_registers = registers\<rparr> }"

text \<open>What the server relies on: each table has the announced number of elements, all set.\<close>

definition mapping_ok :: "modbus_mapping_t \<Rightarrow> bool" where
  "mapping_ok m \<longleftrightarrow>
     nb_bits m = int (length (tab_bits m)) \<and> None \<notin> set (tab_bits m) \<and>
     nb_input_bits m = int (length (tab_input_bits m)) \<and> None \<notin> set (tab_input_bits m) \<and>
     nb_input_registers m = int (length (tab_input_registers m)) \<and> None \<notin> set (tab_input_registers m) \<and>
     nb_registers m = int (length (tab_registers m)) \<and> None \<notin> set (tab_registers m)"

section \<open>String copy\<close>

text \<open>
  The source is the string with its terminator. The loop returns the destination, the position
  behind the last character written, the rest of the source and the room left.
\<close>

fun strlcpy_loop :: "char cbuf \<Rightarrow> int \<Rightarrow> char list \<Rightarrow> nat \<Rightarrow> (char cbuf \<times> int \<times> char list \<times> nat) option" where
  "strlcpy_loop d i [] n = None"
| "strlcpy_loop d i (c # s) n =
     do { d \<leftarrow> wr d i c;
          if c = NUL then Some (d, i + 1, s, n)
          else if n - 1 \<noteq> 0 then strlcpy_loop d (i + 1) s (n - 1)
          else Some (d, i + 1, s, 0) }"

text \<open>\<open>while (*s++) ;\<close>: the source behind the first terminator.\<close>

fun skip_string :: "char list \<Rightarrow> char list option" where
  "skip_string [] = None"
| "skip_string (c # s) = (if c = NUL then Some s else skip_string s)"

definition strlcpy :: "char cbuf \<Rightarrow> char list \<Rightarrow> nat \<Rightarrow> (nat \<times> char cbuf) option" where
  "strlcpy dest src dest_size =
     do { (d, i, s, n) \<leftarrow>
            (if dest_size \<noteq> 0 \<and> dest_size - 1 \<noteq> 0 then strlcpy_loop dest 0 src (dest_size - 1)
             else Some (dest, 0, src, 0));
          if n = 0 then
            do { d \<leftarrow> (if dest_size \<noteq> 0 then wr d i NUL else Some d);
                 s \<leftarrow> skip_string s;
                 Some (length src - length s - 1, d) }
          else Some (length src - length s - 1, d) }"

section \<open>Correctness\<close>

lemma init_common_slave [simp]: "mb_slave (modbus_init_common c) = -1"
  by (simp add: modbus_init_common_def)

lemma recovery_none: "mb_error_recovery (ctx st) = 0 \<Longrightarrow> \<not> recovery_link st \<and> \<not> recovery_protocol st"
  by (simp add: recovery_link_def recovery_protocol_def)

lemma calloc_table_length:
  "calloc_table ok nb sz = Some t \<Longrightarrow> int (length t) = nb \<and> None \<notin> set t \<and> set t \<subseteq> {Some 0}"
  by (auto simp: calloc_table_def split: if_splits)

lemma skip_string_NUL: "NUL \<notin> set s \<Longrightarrow> skip_string (s @ NUL # r) = Some r"
  by (induction s) auto

lemma strlcpy_loop_fits:
  assumes "NUL \<notin> set s" "length s < n" "a + length xs + length s < length d"
  shows "strlcpy_loop (fill d a xs) (int (a + length xs)) (s @ [NUL]) n
     = Some (fill d a (xs @ s @ [NUL]), int (a + length xs + length s + 1), [], n - length s)"
  using assms
proof (induction s arbitrary: xs n)
  case Nil
  then show ?case by (simp add: wr_fill)
next
  case (Cons c s)
  then have "n - 1 \<noteq> 0" "c \<noteq> NUL" by auto
  with Cons.prems Cons.IH [of "n - 1" "xs @ [c]"] show ?case
    by (simp add: wr_fill algebra_simps)
qed

lemma strlcpy_loop_full:
  assumes "NUL \<notin> set s" "0 < n" "n \<le> length s" "a + length xs + n \<le> length d"
  shows "strlcpy_loop (fill d a xs) (int (a + length xs)) (s @ [NUL]) n
     = Some (fill d a (xs @ take n s), int (a + length xs + n), drop n s @ [NUL], 0)"
  using assms
proof (induction s arbitrary: xs n)
  case Nil
  then show ?case by simp
next
  case (Cons c s)
  then have "c \<noteq> NUL" by auto
  show ?case
  proof (cases "n = 1")
    case True
    with Cons.prems \<open>c \<noteq> NUL\<close> show ?thesis by (simp add: wr_fill)
  next
    case False
    with Cons.prems obtain k where "n = Suc k" "0 < k" by (cases n) auto
    with Cons.prems Cons.IH [of k "xs @ [c]"] \<open>c \<noteq> NUL\<close> show ?thesis
      by (simp add: wr_fill algebra_simps)
  qed
qed

text \<open>A copy that fits stores the string and its terminator; one that does not stores as much as
  fits and the terminator. Both return the length of the source.\<close>

lemma strlcpy_fits:
  assumes "NUL \<notin> set s" "length s < room" "room \<le> length d"
  shows "strlcpy d (s @ [NUL]) room = Some (length s, fill d 0 (s @ [NUL]))"
proof (cases "room = 1")
  case True
  with assms have "s = []" "d \<noteq> []" by auto
  with True show ?thesis
    using wr_fill [of 0 0 "[]" d NUL] by (simp add: strlcpy_def)
next
  case False
  with assms strlcpy_loop_fits [of s "room - 1" 0 "[]" d] show ?thesis
  proof (cases "length s < room - 1")
    case True
    with False assms strlcpy_loop_fits [of s "room - 1" 0 "[]" d] show ?thesis
      by (simp add: strlcpy_def)
  next
    case no: False
    with assms have l: "length s = room - 1" by simp
    with False assms strlcpy_loop_full [of s "room - 1" 0 "[]" d] show ?thesis
      by (simp add: strlcpy_def wr_fill skip_string_NUL [of "[]", simplified] l)
  qed
qed

lemma strlcpy_truncates:
  assumes "NUL \<notin> set s" "0 < room" "room \<le> length s" "room \<le> length d"
  shows "strlcpy d (s @ [NUL]) room = Some (length s, fill d 0 (take (room - 1) s @ [NUL]))"
proof (cases "room = 1")
  case True
  with assms wr_fill [of 0 0 "[]" d NUL] show ?thesis
    by (cases d) (simp_all add: strlcpy_def skip_string_NUL)
next
  case False
  have "NUL \<notin> set (drop (room - 1) s)"
    using assms(1) by (meson in_set_dropD)
  with False assms strlcpy_loop_full [of s "room - 1" 0 "[]" d] show ?thesis
    by (simp add: strlcpy_def wr_fill skip_string_NUL)
qed

lemma c_str_Some: "NUL \<notin> set s \<Longrightarrow> c_str (map Some s @ Some NUL # r) = Some s"
  by (induction s) auto

lemma c_str_fill: "NUL \<notin> set s \<Longrightarrow> c_str (fill d 0 (s @ [NUL])) = Some s"
  by (simp add: fill_def c_str_Some)

text \<open>
  \<open>strlcpy\<close> stores the longest prefix of the source that fits with a
  terminator behind it and returns the length of the whole source, so truncation shows as a
  result of at least the room of the destination.
\<close>

theorem strlcpy_correct:
  assumes "NUL \<notin> set s" and "0 < room" and "room \<le> length d"
  shows "\<exists>d'. strlcpy d (s @ [NUL]) room = Some (length s, d') \<and>
           c_str d' = Some (take (room - 1) s) \<and> length d' = length d"
proof (cases "length s < room")
  case True
  with assms strlcpy_fits [of s room d] show ?thesis
    by (simp add: c_str_fill)
next
  case False
  have "NUL \<notin> set (take (room - 1) s)"
    using assms(1) by (meson in_set_takeD)
  with False assms strlcpy_truncates [of s room d] show ?thesis
    by (simp add: c_str_fill)
qed

theorem strlcpy_correct_witness:
  "\<exists>d'. strlcpy (fresh 16) (''/dev/ttyS1'' @ [NUL]) 16 = Some (length ''/dev/ttyS1'', d') \<and>
           c_str d' = Some (take (16 - 1) ''/dev/ttyS1'') \<and> length d' = length (fresh 16 :: char cbuf)"
  by (rule strlcpy_correct) (simp_all add: NUL_def)

text \<open>
  C23: a mapping that \<open>modbus_mapping_new\<close> returns has tables of exactly the
  requested sizes, with every element zero.
\<close>

theorem mapping_new_correct:
  assumes "modbus_mapping_new malloc_ok b ib r ir = Some m"
  shows "mapping_ok m \<and> nb_bits m = b \<and> nb_input_bits m = ib \<and> nb_registers m = r \<and>
         nb_input_registers m = ir \<and> set (tab_bits m) \<subseteq> {Some 0} \<and> set (tab_input_bits m) \<subseteq> {Some 0} \<and>
         set (tab_registers m) \<subseteq> {Some 0} \<and> set (tab_input_registers m) \<subseteq> {Some 0}"
  using assms
  by (auto simp: modbus_mapping_new_def mapping_ok_def Option.bind_eq_Some_conv dest!: calloc_table_length split: if_splits)

theorem mapping_new_correct_witness:
  "\<exists>m. modbus_mapping_new (\<lambda>_. True) 2 1 3 0 = Some m \<and>
        mapping_ok m \<and> nb_bits m = 2 \<and> nb_input_bits m = 1 \<and> nb_registers m = 3 \<and>
        nb_input_registers m = 0 \<and> set (tab_bits m) \<subseteq> {Some 0} \<and> set (tab_input_bits m) \<subseteq> {Some 0} \<and>
        set (tab_registers m) \<subseteq> {Some 0} \<and> set (tab_input_registers m) \<subseteq> {Some 0}"
proof -
  have "\<exists>m. modbus_mapping_new (\<lambda>_. True) 2 1 3 0 = Some m"
    by (simp add: modbus_mapping_new_def calloc_table_def)
  then obtain m where m: "modbus_mapping_new (\<lambda>_. True) 2 1 3 0 = Some m" ..
  from m mapping_new_correct [OF m] show ?thesis by blast
qed

end
