(* ===== verification/Framing.thy ===== *)
theory Framing
  imports Context
begin

text \<open>
  What the message layer, the server and the client rely on in a backend: how it turns a protocol
  data unit (function code and data) into the frame on the wire and back. The laws are the interface
  between \<open>modbus.c\<close> and \<open>modbus-rtu.c\<close>, \<open>modbus-tcp.c\<close>; the two backend theories discharge
  them for the code's own operation tables.
\<close>

section \<open>Sending and receiving frames\<close>

text \<open>
  \<open>hdr t a\<close> is what a builder has written in front of the function code (elements still unset are
  filled in when the frame is finished), \<open>frame t a pdu\<close> the finished frame of transaction \<open>t\<close> and
  unit \<open>a\<close>. \<open>H\<close> and \<open>C\<close> are the lengths of header and checksum, \<open>put\<close> and \<open>get\<close> the calls that
  move bytes.
\<close>

locale framing =
  fixes be :: "'w modbus_backend"
    and os :: "'w os"
    and H C :: nat
    and hdr :: "int \<Rightarrow> u8 \<Rightarrow> u8 option list"
    and frame :: "int \<Rightarrow> u8 \<Rightarrow> u8 list \<Rightarrow> u8 list"
    and put :: "int \<Rightarrow> u8 list \<Rightarrow> 'w \<Rightarrow> (int + int) \<times> 'w"
    and get :: "int \<Rightarrow> int \<Rightarrow> 'w \<Rightarrow> (int + u8 list) \<times> 'w"
  assumes header_length: "header_length be = int H"
    and checksum_length: "checksum_length be = int C"
    and max_adu: "max_adu_length be = int (H + 253 + C)"
    and room: "0 < H" "H + 253 + C \<le> 260"
    and length_hdr: "length (hdr t a) = H"
    and length_frame: "length (frame t a pdu) = H + length pdu + C"
    and frame_slave: "frame t a pdu ! (H - 1) = a"
    and frame_pdu: "i < length pdu \<Longrightarrow> frame t a pdu ! (H + i) = pdu ! i"
    and finish: "pdu \<noteq> [] \<Longrightarrow> length pdu \<le> 253 \<Longrightarrow> H + length pdu + C \<le> n \<Longrightarrow>
       be_send_msg_pre be (mkb n (hdr t a @ map Some pdu)) (int (H + length pdu))
         = Some (int (H + length pdu + C), mkb n (map Some (frame t a pdu)))"
    and intact: "pdu \<noteq> [] \<Longrightarrow> length pdu \<le> 253 \<Longrightarrow> H + length pdu + C \<le> n \<Longrightarrow>
       be_check_integrity be (mkb n (map Some (frame t a pdu))) (int (H + length pdu + C)) st
         = Some (int (H + length pdu + C), st)"
    and checked: "int (length bs) \<le> max_adu_length be \<Longrightarrow> H + 1 + C \<le> length bs \<Longrightarrow>
       length bs \<le> n \<Longrightarrow> \<exists>rc st'. be_check_integrity be (mkb n (map Some bs)) (int (length bs)) st
         = Some (rc, st') \<and> (rc = int (length bs) \<or> rc = -1)"
    and transmit: "length bs \<le> n \<Longrightarrow>
       be_send be (mkb n (map Some bs)) (int (length bs)) st
         = Some (c_ret (put (mb_s (ctx st)) bs (world st)) st)"
    and await: "be_select be tv len st = select_loop os tv st"
    and fetch: "be_recv be buf pos len st = store_read (get (mb_s (ctx st)) len (world st)) buf pos st"

section \<open>Answering and asking\<close>

text \<open>A server takes the transaction from the request and answers it in a frame of the same kind.\<close>

locale server_link = framing be os H C hdr frame put get
  for be :: "'w modbus_backend" and os H C hdr frame put get +
  fixes reply_tid :: "int \<Rightarrow> int"
    and accepts :: "modbus_t \<Rightarrow> u8 \<Rightarrow> bool"
  assumes response_basis: "H + 1 \<le> n \<Longrightarrow>
       be_build_response_basis be sft (fresh n)
         = Some (int (H + 1), mkb n (hdr (sft_t_id sft) (byte (sft_slave sft)) @
                                     map Some [byte (sft_function sft)]))"
    and response_tid: "be_prepare_response_tid be (init (frame t a pdu) @ rest) len
         = Some (reply_tid t, len - int C)"
    and frame_reply_tid: "frame (reply_tid t) a pdu = frame t a pdu"
    and echo: "pdu \<noteq> [] \<Longrightarrow> length pdu \<le> 253 \<Longrightarrow> H + length pdu + C \<le> n \<Longrightarrow>
       be_send_msg_pre be (mkb n (map Some (take (H + length pdu) (frame t a pdu)))) (int (H + length pdu))
         = Some (int (H + length pdu + C), mkb n (map Some (frame t a pdu)))"
    and filter_request: "be_filter_request be (uint a) st = Some (if accepts (ctx st) a then 0 else 1, st)"

text \<open>A client numbers its transactions: \<open>tick\<close> is the state after a request was begun.\<close>

locale client_link = framing be os H C hdr frame put get
  for be :: "'w modbus_backend" and os H C hdr frame put get +
  fixes usable :: "modbus_t \<Rightarrow> bool"
    and tick :: "'w mstate \<Rightarrow> 'w mstate"
    and request_tid :: "'w mstate \<Rightarrow> int"
  assumes request_basis: "usable (ctx st) \<Longrightarrow> H + 5 \<le> n \<Longrightarrow>
       be_build_request_basis be function addr nb (fresh n) st
         = Some ((int (H + 5), mkb n (hdr (request_tid st) (byte (mb_slave (ctx st))) @
              map Some [byte function, hi_byte addr, lo_byte addr, hi_byte nb, lo_byte nb])), tick st)"
    and tick_keeps: "ctx (tick st) = ctx st" "errno (tick st) = errno st" "world (tick st) = world st"
    and confirm_tid: "be_pre_check_confirmation be = Some f \<Longrightarrow>
       H + length q + C \<le> n \<Longrightarrow> H + length p + C \<le> m \<Longrightarrow>
       f (mkb n (map Some (frame t a q))) (mkb m (map Some (frame t a' p))) k st = Some (0, st)"

section \<open>Consequences\<close>

context framing
begin

lemma rd_frame:
  "k < length pdu \<Longrightarrow> rd (init (frame t a pdu) @ rest) (int H + int k) = Some (pdu ! k)"
  using rd_init_append [of "int H + int k" "frame t a pdu" rest]
  by (simp add: length_frame nat_add_distrib frame_pdu)

lemma rd_frame_slave: "rd (init (frame t a pdu) @ rest) (int H - 1) = Some a"
  using rd_init_append [of "int H - 1" "frame t a pdu" rest] room(1)
  by (simp add: length_frame nat_diff_distrib' frame_slave [unfolded One_nat_def])

lemma rd_frame_mkb:
  "k < length pdu \<Longrightarrow> rd (mkb n (map Some (frame t a pdu))) (int H + int k) = Some (pdu ! k)"
  using rd_mkb_init [of "int H + int k" "frame t a pdu" n]
  by (simp add: length_frame nat_add_distrib frame_pdu)

end

end
