(* ===== verification/Transport.thy ===== *)
theory Transport
  imports Framing
begin

text \<open>
  The message layer of \<open>library/modbus/modbus.c\<close>, shared by client and server and by both
  transports: sending with link recovery (\<open>send_msg\<close>), receiving a frame step by step
  (\<open>receive_msg\<close>), and checking that a confirmation answers a request (\<open>check_confirmation\<close>).
  Every operation takes the backend table; the printing of the debug mode is not modelled.
\<close>

section \<open>Recovery\<close>

partial_function (option) nanosleep_loop :: "'w os \<Rightarrow> int \<times> int \<Rightarrow> 'w mstate \<Rightarrow> 'w mstate option" where
  "nanosleep_loop os request st =
     (let r = sys_nanosleep os request (world st)
      in case fst r of
           Inr u \<Rightarrow> Some (st\<lparr>world := snd r\<rparr>)
         | Inl er \<Rightarrow>
             if fst er = EINTR
             then nanosleep_loop os (snd er) (st\<lparr>errno := fst er, world := snd r\<rparr>)
             else Some (st\<lparr>errno := fst er, world := snd r\<rparr>))"

definition sleep_and_flush :: "'w os \<Rightarrow> 'w modbus_backend \<Rightarrow> ('w, int) exec" where
  "sleep_and_flush os be st =
     do { let tv = mb_response_timeout (ctx st);
          st \<leftarrow> nanosleep_loop os (tv_sec tv, (tv_usec tv smod 1000000) * 1000) st;
          modbus_flush be st }"

section \<open>Sending\<close>

definition send_recover :: "'w os \<Rightarrow> 'w modbus_backend \<Rightarrow> 'w mstate \<Rightarrow> 'w mstate option" where
  "send_recover os be st =
     (let saved_errno = errno st in
      do { st \<leftarrow> (if errno st = EBADF \<or> errno st = ECONNRESET \<or> errno st = EPIPE
                 then do { (_, st) \<leftarrow> modbus_close be st;
                           (_, st) \<leftarrow> modbus_connect be st; Some st }
                 else do { (_, st) \<leftarrow> sleep_and_flush os be st; Some st });
           Some (st\<lparr>errno := saved_errno\<rparr>) })"

text \<open>The do-while loop: in recovery mode it repeats until the message is sent.\<close>

partial_function (option) send_loop :: "'w os \<Rightarrow> 'w modbus_backend \<Rightarrow> u8 cbuf \<Rightarrow> int \<Rightarrow> ('w, int) exec" where
  "send_loop os be msg msg_length st =
     do { (rc, st) \<leftarrow> be_send be msg msg_length st;
          st \<leftarrow> (if rc = -1 \<and> recovery_link st then send_recover os be st else Some st);
          if recovery_link st \<and> rc = -1 then send_loop os be msg msg_length st
          else Some (rc, st) }"

definition send_msg :: "'w os \<Rightarrow> 'w modbus_backend \<Rightarrow> u8 cbuf \<Rightarrow> int \<Rightarrow> ('w, int \<times> u8 cbuf) exec" where
  "send_msg os be msg msg_length st =
     do { (msg_length, msg) \<leftarrow> be_send_msg_pre be msg msg_length;
          (rc, st) \<leftarrow> send_loop os be msg msg_length st;
          Some ((rc, msg), st) }"

definition modbus_send_raw_request :: "'w os \<Rightarrow> 'w modbus_backend \<Rightarrow> u8 cbuf \<Rightarrow> int \<Rightarrow> ('w, int) exec" where
  "modbus_send_raw_request os be raw_req raw_req_length st =
     (if raw_req_length < 2 then Some (-1, st\<lparr>errno := EINVAL\<rparr>)
      else do {
        slave \<leftarrow> rd raw_req 0;
        function \<leftarrow> rd raw_req 1;
        let sft = \<lparr>sft_slave = uint slave, sft_function = uint function, sft_t_id = 0\<rparr>;
        (req_length, req) \<leftarrow> be_build_response_basis be sft (fresh MAX_MESSAGE_LENGTH);
        (req_length, req) \<leftarrow>
           (if raw_req_length > 2 then do {
              req \<leftarrow> memcpy req req_length raw_req 2 (raw_req_length - 2);
              Some (req_length + (raw_req_length - 2), req) }
            else Some (req_length, req));
        ((rc, _), st) \<leftarrow> send_msg os be req req_length st;
        Some (rc, st) })"

section \<open>Receiving\<close>

datatype step_t = STEP_FUNCTION | STEP_META | STEP_DATA

datatype msg_type_t = MSG_INDICATION | MSG_CONFIRMATION

definition compute_meta_length_after_function :: "int \<Rightarrow> msg_type_t \<Rightarrow> int" where
  "compute_meta_length_after_function function msg_type =
     (if msg_type = MSG_INDICATION then
        (if function \<le> FC_WRITE_SINGLE_REGISTER then 4
         else if function = FC_WRITE_MULTIPLE_COILS \<or> function = FC_WRITE_MULTIPLE_REGISTERS then 5
         else if function = FC_WRITE_AND_READ_REGISTERS then 9
         else 0)
      else
        (if function = FC_WRITE_SINGLE_COIL \<or> function = FC_WRITE_SINGLE_REGISTER \<or>
            function = FC_WRITE_MULTIPLE_COILS \<or> function = FC_WRITE_MULTIPLE_REGISTERS then 4
         else 1))"

definition compute_data_length_after_meta :: "'w modbus_backend \<Rightarrow> u8 cbuf \<Rightarrow> msg_type_t \<Rightarrow> int option" where
  "compute_data_length_after_meta be msg msg_type =
     do { f \<leftarrow> rd msg (header_length be);
          let function = uint f;
          length \<leftarrow>
            (if msg_type = MSG_INDICATION then
               (if function = FC_WRITE_MULTIPLE_COILS \<or> function = FC_WRITE_MULTIPLE_REGISTERS
                then map_option uint (rd msg (header_length be + 5))
                else if function = FC_WRITE_AND_READ_REGISTERS
                then map_option uint (rd msg (header_length be + 9))
                else Some 0)
             else
               (if function \<le> FC_READ_INPUT_REGISTERS \<or> function = FC_REPORT_SLAVE_ID \<or>
                   function = FC_WRITE_AND_READ_REGISTERS
                then map_option uint (rd msg (header_length be + 1))
                else Some 0));
          Some (length + checksum_length be) }"

text \<open>
  What the loop does when a step is complete: the next step and its length, or \<open>Inl\<close> when the
  frame would exceed the maximum of the transport.
\<close>

definition data_step :: "'w modbus_backend \<Rightarrow> u8 cbuf \<Rightarrow> msg_type_t \<Rightarrow> int \<Rightarrow> (unit + step_t \<times> int) option" where
  "data_step be msg msg_type msg_length =
     do { length_to_read \<leftarrow> compute_data_length_after_meta be msg msg_type;
          if msg_length + length_to_read > max_adu_length be then Some (Inl ())
          else Some (Inr (STEP_DATA, length_to_read)) }"

definition next_step ::
  "'w modbus_backend \<Rightarrow> u8 cbuf \<Rightarrow> msg_type_t \<Rightarrow> step_t \<Rightarrow> int \<Rightarrow> (unit + step_t \<times> int) option" where
  "next_step be msg msg_type step msg_length =
     (case step of
        STEP_FUNCTION \<Rightarrow>
          do { f \<leftarrow> rd msg (header_length be);
               let length_to_read = compute_meta_length_after_function (uint f) msg_type;
               if length_to_read \<noteq> 0 then Some (Inr (STEP_META, length_to_read))
               else data_step be msg msg_type msg_length }
      | STEP_META \<Rightarrow> data_step be msg msg_type msg_length
      | STEP_DATA \<Rightarrow> Some (Inr (STEP_DATA, 0)))"

definition select_recover :: "'w os \<Rightarrow> 'w modbus_backend \<Rightarrow> 'w mstate \<Rightarrow> 'w mstate option" where
  "select_recover os be st =
     (if recovery_link st then
        (let saved_errno = errno st in
         do { st \<leftarrow> (if errno st = ETIMEDOUT
                    then do { (_, st) \<leftarrow> sleep_and_flush os be st; Some st }
                    else if errno st = EBADF
                    then do { (_, st) \<leftarrow> modbus_close be st;
                              (_, st) \<leftarrow> modbus_connect be st; Some st }
                    else Some st);
              Some (st\<lparr>errno := saved_errno\<rparr>) })
      else Some st)"

definition recv_recover :: "'w modbus_backend \<Rightarrow> 'w mstate \<Rightarrow> 'w mstate option" where
  "recv_recover be st =
     (if recovery_link st \<and>
         (errno st = ECONNRESET \<or> errno st = ECONNREFUSED \<or> errno st = EBADF)
      then (let saved_errno = errno st in
            do { (_, st) \<leftarrow> modbus_close be st;
                 (_, st) \<leftarrow> modbus_connect be st;
                 Some (st\<lparr>errno := saved_errno\<rparr>) })
      else Some st)"

text \<open>\<open>p_tv\<close> is \<open>None\<close> while the wait is unbounded; the byte timeout bounds it from the second read on.\<close>

definition byte_timer :: "'w mstate \<Rightarrow> int \<Rightarrow> timeval option \<Rightarrow> timeval option" where
  "byte_timer st length_to_read p_tv =
     (if length_to_read > 0 \<and> tv_sec (mb_byte_timeout (ctx st)) \<noteq> -1
      then Some (mb_byte_timeout (ctx st)) else p_tv)"

partial_function (option) receive_loop ::
  "'w os \<Rightarrow> 'w modbus_backend \<Rightarrow> msg_type_t \<Rightarrow> u8 cbuf \<Rightarrow> int \<Rightarrow> int \<Rightarrow> step_t \<Rightarrow> timeval option
   \<Rightarrow> ('w, int \<times> u8 cbuf) exec" where
  "receive_loop os be msg_type msg msg_length length_to_read step p_tv st =
     (if length_to_read = 0 then
        do { (rc, st) \<leftarrow> be_check_integrity be msg msg_length st; Some ((rc, msg), st) }
      else do {
        ((rc, p_tv), st) \<leftarrow> be_select be p_tv length_to_read st;
        if rc = -1 then do { st \<leftarrow> select_recover os be st; Some ((-1, msg), st) }
        else do {
          ((rc, msg), st) \<leftarrow> be_recv be msg msg_length length_to_read st;
          if rc = 0 \<or> rc = -1 then do {
            st \<leftarrow> recv_recover be (if rc = 0 then st\<lparr>errno := ECONNRESET\<rparr> else st);
            Some ((-1, msg), st) }
          else do {
            let msg_length = msg_length + rc;
            let length_to_read = length_to_read - rc;
            nxt \<leftarrow> (if length_to_read = 0 then next_step be msg msg_type step msg_length
                    else Some (Inr (step, length_to_read)));
            (case nxt of
               Inl u \<Rightarrow> Some ((-1, msg), st\<lparr>errno := EMBBADDATA\<rparr>)
             | Inr sl \<Rightarrow>
                 receive_loop os be msg_type msg msg_length (snd sl) (fst sl)
                   (byte_timer st (snd sl) p_tv) st) } } })"

definition receive_msg :: "'w os \<Rightarrow> 'w modbus_backend \<Rightarrow> u8 cbuf \<Rightarrow> msg_type_t \<Rightarrow> ('w, int \<times> u8 cbuf) exec" where
  "receive_msg os be msg msg_type st =
     receive_loop os be msg_type msg 0 (header_length be + 1) STEP_FUNCTION
       (if msg_type = MSG_INDICATION then None else Some (mb_response_timeout (ctx st))) st"

definition modbus_receive :: "'w os \<Rightarrow> 'w modbus_backend \<Rightarrow> u8 cbuf \<Rightarrow> ('w, int \<times> u8 cbuf) exec" where
  "modbus_receive os be req = receive_msg os be req MSG_INDICATION"

definition modbus_receive_confirmation :: "'w os \<Rightarrow> 'w modbus_backend \<Rightarrow> u8 cbuf \<Rightarrow> ('w, int \<times> u8 cbuf) exec" where
  "modbus_receive_confirmation os be rsp = receive_msg os be rsp MSG_CONFIRMATION"

section \<open>Checking a confirmation\<close>

definition compute_response_length_from_request :: "'w modbus_backend \<Rightarrow> u8 cbuf \<Rightarrow> int option" where
  "compute_response_length_from_request be req =
     (let offset = header_length be in
      do { f \<leftarrow> rd req offset;
           let function = uint f;
           if function = FC_READ_COILS \<or> function = FC_READ_DISCRETE_INPUTS then do {
             h \<leftarrow> rd req (offset + 3); l \<leftarrow> rd req (offset + 4);
             Some (offset + (2 + byte_count_of_bits (be16 h l)) + checksum_length be) }
           else if function = FC_WRITE_AND_READ_REGISTERS \<or> function = FC_READ_HOLDING_REGISTERS \<or>
                   function = FC_READ_INPUT_REGISTERS then do {
             h \<leftarrow> rd req (offset + 3); l \<leftarrow> rd req (offset + 4);
             Some (offset + (2 + 2 * be16 h l) + checksum_length be) }
           else if function = FC_READ_EXCEPTION_STATUS then Some (offset + 3 + checksum_length be)
           else if function = FC_REPORT_SLAVE_ID then Some MSG_LENGTH_UNDEFINED
           else Some (offset + 5 + checksum_length be) })"

text \<open>The quantities the request asks for and the response announces.\<close>

definition confirmation_values :: "int \<Rightarrow> u8 cbuf \<Rightarrow> u8 cbuf \<Rightarrow> int \<Rightarrow> (int \<times> int) option" where
  "confirmation_values offset req rsp function =
     (if function = FC_READ_COILS \<or> function = FC_READ_DISCRETE_INPUTS then do {
        h \<leftarrow> rd req (offset + 3); l \<leftarrow> rd req (offset + 4); n \<leftarrow> rd rsp (offset + 1);
        Some (byte_count_of_bits (be16 h l), uint n) }
      else if function = FC_WRITE_AND_READ_REGISTERS \<or> function = FC_READ_HOLDING_REGISTERS \<or>
              function = FC_READ_INPUT_REGISTERS then do {
        h \<leftarrow> rd req (offset + 3); l \<leftarrow> rd req (offset + 4); n \<leftarrow> rd rsp (offset + 1);
        Some (be16 h l, uint n div 2) }
      else if function = FC_WRITE_MULTIPLE_COILS \<or> function = FC_WRITE_MULTIPLE_REGISTERS then do {
        h \<leftarrow> rd req (offset + 3); l \<leftarrow> rd req (offset + 4);
        h' \<leftarrow> rd rsp (offset + 3); l' \<leftarrow> rd rsp (offset + 4);
        Some (be16 h l, be16 h' l') }
      else if function = FC_REPORT_SLAVE_ID then do {
        n \<leftarrow> rd rsp (offset + 1);
        Some (uint n, uint n) }
      else Some (1, 1))"

text \<open>The common failure: recovery of the protocol, then \<open>EMBBADDATA\<close>.\<close>

definition confirmation_bad :: "'w os \<Rightarrow> 'w modbus_backend \<Rightarrow> ('w, int) exec" where
  "confirmation_bad os be st =
     do { (_, st) \<leftarrow> (if recovery_protocol st then sleep_and_flush os be st else Some (0, st));
          Some (-1, st\<lparr>errno := EMBBADDATA\<rparr>) }"

definition pre_check :: "'w os \<Rightarrow> 'w modbus_backend \<Rightarrow> u8 cbuf \<Rightarrow> u8 cbuf \<Rightarrow> int \<Rightarrow> ('w, int) exec" where
  "pre_check os be req rsp rsp_length st =
     (case be_pre_check_confirmation be of
        None \<Rightarrow> Some (0, st)
      | Some f \<Rightarrow> do {
          (rc, st) \<leftarrow> f req rsp rsp_length st;
          if rc = -1 then do {
            (_, st) \<leftarrow> (if recovery_protocol st then sleep_and_flush os be st else Some (0, st));
            Some (-1, st) }
          else Some (0, st) })"

definition check_confirmation ::
  "'w os \<Rightarrow> 'w modbus_backend \<Rightarrow> u8 cbuf \<Rightarrow> u8 cbuf \<Rightarrow> int \<Rightarrow> ('w, int) exec" where
  "check_confirmation os be req rsp rsp_length st =
     (let offset = header_length be in
      do { (rc, st) \<leftarrow> pre_check os be req rsp rsp_length st;
           if rc = -1 then Some (-1, st)
           else do {
             rsp_length_computed \<leftarrow> compute_response_length_from_request be req;
             if rsp_length = rsp_length_computed \<or> rsp_length_computed = MSG_LENGTH_UNDEFINED then do {
               f \<leftarrow> rd rsp offset;
               q \<leftarrow> rd req offset;
               if f \<noteq> q then confirmation_bad os be st
               else do {
                 (req_nb_value, rsp_nb_value) \<leftarrow> confirmation_values offset req rsp (uint f);
                 if req_nb_value = rsp_nb_value then Some (rsp_nb_value, st)
                 else confirmation_bad os be st } }
             else do {
               exc \<leftarrow> (if rsp_length = offset + 2 + checksum_length be
                       then do { f \<leftarrow> rd rsp offset; q \<leftarrow> rd req offset; Some (uint q = uint f - 0x80) }
                       else Some False);
               if exc then do {
                 e \<leftarrow> rd rsp (offset + 1);
                 Some (-1, st\<lparr>errno := (if uint e < MODBUS_EXCEPTION_MAX then MODBUS_ENOBASE + uint e
                                        else EMBBADEXC)\<rparr>) }
               else confirmation_bad os be st } } })"

lemma c_ret_ctx [simp]: "ctx (snd (c_ret r st)) = ctx st"
  by (simp add: c_ret_def split: sum.splits)

section \<open>Correctness of the receiver\<close>

text \<open>The length of a PDU that the receiver derives from its function code and byte count.\<close>

definition pdu_length :: "msg_type_t \<Rightarrow> u8 list \<Rightarrow> nat" where
  "pdu_length mt pdu =
     (let f = pdu ! 0 in
      if mt = MSG_INDICATION then
        (if f \<le> 0x06 then 5
         else if f = 0x0F \<or> f = 0x10 then 6 + unat (pdu ! 5)
         else if f = 0x17 then 10 + unat (pdu ! 9)
         else 1)
      else
        (if f = 0x05 \<or> f = 0x06 \<or> f = 0x0F \<or> f = 0x10 then 5
         else if f \<le> 0x04 \<or> f = 0x11 \<or> f = 0x17 then 2 + unat (pdu ! 1)
         else 2))"

definition well_formed :: "msg_type_t \<Rightarrow> u8 list \<Rightarrow> bool" where
  "well_formed mt pdu \<longleftrightarrow> pdu \<noteq> [] \<and> length pdu = pdu_length mt pdu \<and> length pdu \<le> 253"

text \<open>
  A line as the receiver sees it: \<open>line w\<close> is the pair of the bytes waiting to be read and the state
  of the peer. It delivers the bytes in order, in pieces of any size: while some are left, \<open>select\<close>
  reports input and a read returns at least one of them. Waiting and reading leave the peer alone.
\<close>

definition byte_stream ::
  "'w os \<Rightarrow> (int \<Rightarrow> int \<Rightarrow> 'w \<Rightarrow> (int + u8 list) \<times> 'w) \<Rightarrow> int \<Rightarrow> ('w \<Rightarrow> u8 list \<times> 'p) \<Rightarrow> bool" where
  "byte_stream os get fd line \<longleftrightarrow>
     (\<forall>tv w. fst (line w) \<noteq> [] \<longrightarrow>
        (\<exists>n tv' w'. sys_select os fd tv w = ((Inr n, tv'), w') \<and> 0 < n \<and> line w' = line w)) \<and>
     (\<forall>n w. fst (line w) \<noteq> [] \<longrightarrow> 0 < n \<longrightarrow>
        (\<exists>k w'. 0 < k \<and> int k \<le> n \<and> k \<le> length (fst (line w)) \<and>
           get fd n w = (Inr (take k (fst (line w))), w') \<and>
           line w' = (drop k (fst (line w)), snd (line w))))"

lemma uint_cases [simp]:
  "(uint (f :: u8) \<le> 6) = (f \<le> 6)" "(uint f \<le> 4) = (f \<le> 4)"
  "(uint f = 1) = (f = 1)" "(uint f = 2) = (f = 2)" "(uint f = 3) = (f = 3)" "(uint f = 4) = (f = 4)"
  "(uint f = 5) = (f = 5)" "(uint f = 6) = (f = 6)" "(uint f = 7) = (f = 7)"
  "(uint f = 15) = (f = 15)" "(uint f = 16) = (f = 16)" "(uint f = 17) = (f = 17)" "(uint f = 23) = (f = 23)"
  by (simp_all add: word_uint_eq_iff word_le_def)

definition meta_length :: "msg_type_t \<Rightarrow> u8 \<Rightarrow> nat" where
  "meta_length mt f = nat (compute_meta_length_after_function (uint f) mt)"

lemma meta_length: "compute_meta_length_after_function (uint f) mt = int (meta_length mt f)"
  by (simp add: meta_length_def compute_meta_length_after_function_def)

lemma meta_length_le: "well_formed mt pdu \<Longrightarrow> 1 + meta_length mt (pdu ! 0) \<le> length pdu"
  by (cases mt) (auto simp: well_formed_def pdu_length_def meta_length_def Let_def
      compute_meta_length_after_function_def split: if_splits)

lemma select_loop_ready:
  assumes "byte_stream os get (mb_s (ctx st)) line" "fst (line (world st)) \<noteq> []"
  obtains n tv' w' where "0 < n" "line w' = line (world st)"
    "select_loop os tv st = Some ((n, tv'), st\<lparr>world := w'\<rparr>)"
proof -
  from assms obtain n tv' w' where
    "sys_select os (mb_s (ctx st)) tv (world st) = ((Inr n, tv'), w')" "0 < n"
    "line w' = line (world st)"
    unfolding byte_stream_def by blast
  then show thesis
    by (intro that [of n w' tv']) (simp_all add: select_loop.simps)
qed

lemma receive_loop_step:
  assumes "n \<noteq> 0" "be_select be tv n st = Some ((r, tv'), st1)" "r \<noteq> -1"
    and "be_recv be b m n st1 = Some ((k, b'), st2)" "0 < k"
    and "(if n - k = 0 then next_step be b' mt step (m + k) else Some (Inr (step, n - k)))
       = Some (Inr (step', n'))"
  shows "receive_loop os be mt b m n step tv st
    = receive_loop os be mt b' (m + k) n' step' (byte_timer st2 n' tv') st2"
  by (subst receive_loop.simps) (use assms in simp)

lemma stream_read:
  assumes "byte_stream os get fd line" "fst (line w) \<noteq> []" "0 < n"
  obtains k w' where "0 < k" "int k \<le> n" "k \<le> length (fst (line w))"
    "get fd n w = (Inr (take k (fst (line w))), w')" "line w' = (drop k (fst (line w)), snd (line w))"
  using assms unfolding byte_stream_def by blast

context framing
begin

lemma rd_prefix:
  assumes "k < length pdu" "H + k < m"
  shows "rd (mkb n (map Some (take m (frame t a pdu)))) (int H + int k) = Some (pdu ! k)"
  using rd_mkb_init [of "int H + int k" "take m (frame t a pdu)" n] assms
  by (simp add: length_frame nat_add_distrib frame_pdu)

lemma data_length:
  assumes wf: "well_formed mt pdu" and m: "m = H + 1 + meta_length mt (pdu ! 0)"
    and rd: "\<And>k. k < length pdu \<Longrightarrow> H + k < m \<Longrightarrow> rd b (int H + int k) = Some (pdu ! k)"
  shows "compute_data_length_after_meta be b mt = Some (int (H + length pdu + C - m))"
proof -
  have "rd b (int H) = Some (pdu ! 0)"
    using rd [of 0] m wf by (simp add: well_formed_def)
  moreover note rd [of 1] rd [of 5] rd [of 9]
  ultimately show ?thesis
    using wf
    by (cases mt)
       (auto simp: compute_data_length_after_meta_def header_length checksum_length
          well_formed_def pdu_length_def m meta_length_def compute_meta_length_after_function_def
          split: if_splits)
qed
text \<open>The position at which a step of the receiver is complete.\<close>

definition step_end :: "msg_type_t \<Rightarrow> step_t \<Rightarrow> u8 list \<Rightarrow> nat" where
  "step_end mt step pdu =
     (case step of
        STEP_FUNCTION \<Rightarrow> H + 1
      | STEP_META \<Rightarrow> H + 1 + meta_length mt (pdu ! 0)
      | STEP_DATA \<Rightarrow> H + length pdu + C)"

lemma step_end_le: "well_formed mt pdu \<Longrightarrow> step_end mt step pdu \<le> H + length pdu + C"
  using meta_length_le [of mt pdu] by (cases step) (auto simp: step_end_def well_formed_def)

lemma next_step_frame:
  assumes wf: "well_formed mt pdu" and "m = step_end mt step pdu"
    and rd: "\<And>k. k < length pdu \<Longrightarrow> H + k < m \<Longrightarrow> rd b (int H + int k) = Some (pdu ! k)"
  shows "\<exists>step'. next_step be b mt step (int m)
      = Some (Inr (step', int (step_end mt step' pdu) - int m)) \<and> m \<le> step_end mt step' pdu \<and>
      (m < step_end mt step' pdu \<or> m = H + length pdu + C)"
proof -
  have data: "data_step be b mt (int m) = Some (Inr (STEP_DATA, int (H + length pdu + C) - int m))"
    if "m = H + 1 + meta_length mt (pdu ! 0)"
    using data_length [OF wf that rd] meta_length_le [OF wf] wf that
    by (simp add: data_step_def max_adu well_formed_def)
  have rd0: "rd b (int H) = Some (pdu ! 0)" if "H < m"
    using rd [of 0] wf that by (simp add: well_formed_def)
  show ?thesis
  proof (cases step)
    case STEP_FUNCTION
    then have m: "m = H + 1" using assms by (simp add: step_end_def)
    show ?thesis
    proof (cases "meta_length mt (pdu ! 0) = 0")
      case True
      with data m rd0 STEP_FUNCTION show ?thesis
        using meta_length_le [OF wf]
        by (intro exI [of _ STEP_DATA]) (auto simp: next_step_def header_length meta_length step_end_def)
    next
      case False
      with m rd0 STEP_FUNCTION show ?thesis
        by (intro exI [of _ STEP_META]) (simp add: next_step_def header_length meta_length step_end_def)
    qed
  next
    case STEP_META
    with assms data show ?thesis
      using meta_length_le [OF wf]
      by (intro exI [of _ STEP_DATA]) (auto simp: next_step_def header_length step_end_def)
  next
    case STEP_DATA
    with assms show ?thesis
      by (intro exI [of _ STEP_DATA]) (simp add: next_step_def header_length step_end_def)
  qed
qed

lemma progress_frame:
  assumes wf: "well_formed mt pdu" and m: "m + k \<le> step_end mt step pdu"
  shows "\<exists>step'. (if int (step_end mt step pdu) - int m - int k = 0
      then next_step be (mkb 260 (map Some (take (m + k) (frame t a pdu)))) mt step (int m + int k)
      else Some (Inr (step, int (step_end mt step pdu) - int m - int k)))
     = Some (Inr (step', int (step_end mt step' pdu) - int (m + k))) \<and>
     m + k \<le> step_end mt step' pdu \<and> (m + k < step_end mt step' pdu \<or> m + k = H + length pdu + C)"
proof (cases "m + k = step_end mt step pdu")
  case True
  have "rd (mkb 260 (map Some (take (m + k) (frame t a pdu)))) (int H + int j) = Some (pdu ! j)"
    if "j < length pdu" "H + j < m + k" for j
    using that by (rule rd_prefix)
  moreover have "int (step_end mt step pdu) - int m - int k = 0" using True by simp
  ultimately show ?thesis
    using next_step_frame [OF wf True] by (simp only: if_True of_nat_add simp_thms)
next
  case False
  with m show ?thesis by (intro exI [of _ step]) auto
qed

text \<open>Whatever the sizes of the reads, the receiver assembles exactly one frame.\<close>

lemma receive_loop_frame:
  assumes wf: "well_formed mt pdu" and strm: "byte_stream os get (mb_s (ctx st)) line"
    and "line (world st) = (drop m (frame t a pdu) @ rest, peer)"
    and "m \<le> step_end mt step pdu" "m < step_end mt step pdu \<or> m = H + length pdu + C"
  shows "\<exists>st'. receive_loop os be mt (mkb 260 (map Some (take m (frame t a pdu)))) (int m)
      (int (step_end mt step pdu) - int m) step tv st
    = Some ((int (H + length pdu + C), mkb 260 (map Some (frame t a pdu))), st') \<and>
      line (world st') = (rest, peer) \<and> ctx st' = ctx st \<and> errno st' = errno st"
  using assms(2-)
proof (induction "H + length pdu + C - m" arbitrary: m step tv st rule: less_induct)
  case less
  let ?fr = "frame t a pdu" and ?B = "step_end mt step pdu"
  have B: "?B \<le> H + length pdu + C" by (rule step_end_le [OF wf])
  have total: "H + length pdu + C \<le> 260" using wf room by (simp add: well_formed_def)
  show ?case
  proof (cases "m = ?B")
    case True
    then have "m = H + length pdu + C" using less.prems B by simp
    then show ?thesis
      using True less.prems intact [of pdu 260 t a st] wf total
      by (simp add: receive_loop.simps well_formed_def length_frame)
  next
    case False
    with less.prems have m: "m < ?B" by simp
    have "fst (line (world st)) \<noteq> []"
      using less.prems m B by (simp add: length_frame)
    from select_loop_ready [OF less.prems(1) this, of tv] obtain n tv' w' where
      sel: "0 < n" "line w' = line (world st)" "select_loop os tv st = Some ((n, tv'), st\<lparr>world := w'\<rparr>)" .
    have "0 < int (?B - m)" using m by simp
    from stream_read [OF less.prems(1) _ this, of w'] \<open>fst (line (world st)) \<noteq> []\<close> sel(2)
    obtain k w'' where
      k: "0 < k" "int k \<le> int (?B - m)" "k \<le> length (fst (line w'))"
        "get (mb_s (ctx st)) (int (?B - m)) w' = (Inr (take k (fst (line w'))), w'')"
        "line w'' = (drop k (fst (line w')), snd (line w'))"
      by auto
    let ?m = "m + k" and ?st = "st\<lparr>world := w''\<rparr>"
    have mB: "?m \<le> ?B" using k by simp
    then have "?m \<le> length ?fr" using B by (simp add: length_frame)
    have tk: "take k (fst (line w')) = take k (drop m ?fr)"
      using less.prems sel(2) \<open>?m \<le> length ?fr\<close> by simp
    have buf: "wrs (mkb 260 (map Some (take m ?fr))) (int m) (take k (fst (line w')))
        = Some (mkb 260 (map Some (take ?m ?fr)))"
      using \<open>?m \<le> length ?fr\<close> total unfolding tk
      by (subst wrs_mkb_end) (auto simp: length_frame take_add)
    have lk: "length (take k (fst (line w'))) = k" using k by simp
    have av: "line (world ?st) = (drop ?m ?fr @ rest, peer)"
      using less.prems sel k \<open>?m \<le> length ?fr\<close> by (simp add: add.commute)
    have strm: "byte_stream os get (mb_s (ctx ?st)) line" using less.prems by simp
    from progress_frame [OF wf mB] obtain step' where nxt:
      "(if int ?B - int m - int k = 0
        then next_step be (mkb 260 (map Some (take ?m ?fr))) mt step (int m + int k)
        else Some (Inr (step, int ?B - int m - int k)))
       = Some (Inr (step', int (step_end mt step' pdu) - int ?m))"
      "?m \<le> step_end mt step' pdu" "?m < step_end mt step' pdu \<or> ?m = H + length pdu + C"
      by blast
    have smaller: "H + length pdu + C - ?m < H + length pdu + C - m"
      using k m B by simp
    note IH = less.hyps [OF smaller strm av nxt(2,3)]
    have eq: "int ?B - int m = int (?B - m)" using m by simp
    have "receive_loop os be mt (mkb 260 (map Some (take m ?fr))) (int m) (int ?B - int m) step tv st
      = receive_loop os be mt (mkb 260 (map Some (take ?m ?fr))) (int m + int k)
          (int (step_end mt step' pdu) - int ?m) step'
          (byte_timer ?st (int (step_end mt step' pdu) - int ?m) tv') ?st"
    proof (rule receive_loop_step)
      show "be_select be tv (int ?B - int m) st = Some ((n, tv'), st\<lparr>world := w'\<rparr>)"
        using sel(3) by (simp only: await)
      show "be_recv be (mkb 260 (map Some (take m ?fr))) (int m) (int ?B - int m) (st\<lparr>world := w'\<rparr>)
          = Some ((int k, mkb 260 (map Some (take ?m ?fr))), ?st)"
        using k(4) buf lk unfolding eq by (simp add: fetch store_read_def)
    qed (use m sel(1) k(1) nxt(1) in simp_all)
    with IH show ?thesis by simp
  qed
qed

text \<open>The receiver's bookkeeping on arbitrary input: \<open>xs\<close> was read and \<open>n\<close> bytes are due.\<close>

definition receiving :: "msg_type_t \<Rightarrow> step_t \<Rightarrow> u8 list \<Rightarrow> nat \<Rightarrow> bool" where
  "receiving mt step xs n \<longleftrightarrow>
     (case step of
        STEP_FUNCTION \<Rightarrow> 0 < n \<and> length xs + n = H + 1
      | STEP_META \<Rightarrow> 0 < n \<and> H + 1 \<le> length xs \<and> length xs + n = H + 1 + meta_length mt (xs ! H)
      | STEP_DATA \<Rightarrow> H + 1 + C \<le> length xs + n \<and> length xs + n \<le> H + 253 + C)"

lemma meta_length_bound: "meta_length mt f \<le> 9"
  by (auto simp: meta_length_def compute_meta_length_after_function_def)

lemma receiving_fits: "receiving mt step xs n \<Longrightarrow> length xs + n \<le> H + 253 + C"
  using meta_length_bound [of mt "xs ! H"] by (cases step) (auto simp: receiving_def)

lemma rd_received:
  "H + k < length xs \<Longrightarrow> rd (mkb 260 (map Some xs)) (int H + int k) = Some (xs ! (H + k))"
  using rd_mkb_init [of "int H + int k" xs 260] by (simp add: nat_add_distrib)

lemma data_length_any:
  assumes "length xs = H + 1 + meta_length mt (xs ! H)"
  obtains d where "compute_data_length_after_meta be (mkb 260 (map Some xs)) mt = Some (int d + int C)"
proof -
  have "rd (mkb 260 (map Some xs)) (int H) = Some (xs ! H)"
    using rd_received [of 0 xs] assms by simp
  moreover note rd_received [of 1 xs] rd_received [of 5 xs] rd_received [of 9 xs]
  ultimately have "case compute_data_length_after_meta be (mkb 260 (map Some xs)) mt of
      None \<Rightarrow> False | Some v \<Rightarrow> int C \<le> v"
    using assms
    by (cases mt)
       (auto simp: compute_data_length_after_meta_def header_length checksum_length
          meta_length_def compute_meta_length_after_function_def split: if_splits)
  then obtain v where "compute_data_length_after_meta be (mkb 260 (map Some xs)) mt = Some v" "int C \<le> v"
    by (auto split: option.splits)
  with that [of "nat (v - int C)"] show thesis by simp
qed

lemma data_step_any:
  assumes "length xs = H + 1 + meta_length mt (xs ! H)"
  shows "data_step be (mkb 260 (map Some xs)) mt (int (length xs)) = Some (Inl ()) \<or>
     (\<exists>n. data_step be (mkb 260 (map Some xs)) mt (int (length xs)) = Some (Inr (STEP_DATA, int n)) \<and>
          receiving mt STEP_DATA xs n)"
proof -
  from data_length_any [OF assms] obtain d where
    d: "compute_data_length_after_meta be (mkb 260 (map Some xs)) mt = Some (int d + int C)" .
  show ?thesis
  proof (cases "length xs + d \<le> H + 253")
    case True
    with d assms show ?thesis
      by (intro disjI2 exI [of _ "d + C"]) (simp add: data_step_def max_adu receiving_def)
  next
    case False
    with d show ?thesis by (simp add: data_step_def max_adu)
  qed
qed

lemma next_step_any:
  assumes "receiving mt step xs n" "length ys = n"
  shows "next_step be (mkb 260 (map Some (xs @ ys))) mt step (int (length (xs @ ys))) = Some (Inl ()) \<or>
     (\<exists>step' n'. next_step be (mkb 260 (map Some (xs @ ys))) mt step (int (length (xs @ ys)))
          = Some (Inr (step', int n')) \<and> receiving mt step' (xs @ ys) n')"
proof (cases step)
  case STEP_FUNCTION
  let ?f = "(xs @ ys) ! H"
  have len: "length (xs @ ys) = H + 1"
    using assms STEP_FUNCTION by (simp add: receiving_def)
  then have rd0: "rd (mkb 260 (map Some (xs @ ys))) (int H) = Some ?f"
    using rd_received [of 0 "xs @ ys"] by simp
  show ?thesis
  proof (cases "meta_length mt ?f = 0")
    case True
    then have eq: "next_step be (mkb 260 (map Some (xs @ ys))) mt step (int (length (xs @ ys)))
        = data_step be (mkb 260 (map Some (xs @ ys))) mt (int (length (xs @ ys)))"
      using rd0 STEP_FUNCTION by (simp add: next_step_def header_length meta_length del: map_append)
    have "length (xs @ ys) = H + 1 + meta_length mt ?f"
      using len True by simp
    from data_step_any [OF this] show ?thesis
      unfolding eq by blast
  next
    case False
    have "next_step be (mkb 260 (map Some (xs @ ys))) mt step (int (length (xs @ ys)))
        = Some (Inr (STEP_META, int (meta_length mt ?f)))"
      using rd0 False STEP_FUNCTION by (simp add: next_step_def header_length meta_length del: map_append)
    moreover have "receiving mt STEP_META (xs @ ys) (meta_length mt ?f)"
      using len False by (simp add: receiving_def)
    ultimately show ?thesis by blast
  qed
next
  case STEP_META
  then have "length (xs @ ys) = H + 1 + meta_length mt ((xs @ ys) ! H)"
    using assms by (simp add: receiving_def nth_append)
  from data_step_any [OF this] show ?thesis
    using STEP_META by (auto simp: next_step_def)
next
  case STEP_DATA
  then have "receiving mt STEP_DATA (xs @ ys) 0"
    using assms by (simp add: receiving_def)
  moreover have "next_step be (mkb 260 (map Some (xs @ ys))) mt step (int (length (xs @ ys)))
      = Some (Inr (STEP_DATA, int 0))"
    using STEP_DATA by (simp add: next_step_def)
  ultimately show ?thesis by blast
qed

lemma receiving_some:
  assumes "receiving mt step xs n" "length ys < n"
  shows "receiving mt step (xs @ ys) (n - length ys)"
  using assms by (cases step) (auto simp: receiving_def nth_append)

text \<open>What the loop decides after a read of \<open>ys\<close>.\<close>

lemma progress_any:
  assumes "receiving mt step xs n" "length ys \<le> n"
  defines "nxt \<equiv> (if int n - int (length ys) = 0
      then next_step be (mkb 260 (map Some (xs @ ys))) mt step (int (length xs) + int (length ys))
      else Some (Inr (step, int n - int (length ys))))"
  shows "nxt = Some (Inl ()) \<or>
    (\<exists>step' n'. nxt = Some (Inr (step', int n')) \<and> receiving mt step' (xs @ ys) n')"
proof (cases "length ys = n")
  case True
  then show ?thesis
    using next_step_any [OF assms(1) True] by (simp add: nxt_def)
next
  case False
  with assms(2) have "length ys < n" by simp
  with receiving_some [OF assms(1) this] show ?thesis
    by (intro disjI2 exI [of _ step] exI [of _ "n - length ys"]) (simp add: nxt_def)
qed

lemma receiving_done: "receiving mt step xs 0 \<Longrightarrow> H + 1 + C \<le> length xs"
  by (cases step) (auto simp: receiving_def)

end

lemma select_loop_keeps: "select_loop os tv st = Some r \<Longrightarrow> ctx (snd r) = ctx st"
  by (erule select_loop.raw_induct [rotated]) (fastforce simp: Let_def split: sum.splits if_splits)


text \<open>What totality needs of the system: no read returns more than was asked for, and \<open>select\<close> is not
  interrupted forever.\<close>

definition bounded_reads :: "(int \<Rightarrow> int \<Rightarrow> 'w \<Rightarrow> (int + u8 list) \<times> 'w) \<Rightarrow> bool" where
  "bounded_reads get \<longleftrightarrow> (\<forall>fd n w bs. 0 \<le> n \<longrightarrow> fst (get fd n w) = Inr bs \<longrightarrow> int (length bs) \<le> n)"

definition select_returns :: "'w os \<Rightarrow> bool" where
  "select_returns os \<longleftrightarrow> (\<forall>tv st. select_loop os tv st \<noteq> None)"

lemma no_recovery:
  assumes "mb_error_recovery (ctx st) = 0"
  shows "select_recover os be st = Some st" "recv_recover be st = Some st"
  using recovery_none [OF assms] by (simp_all add: select_recover_def recv_recover_def)

context framing
begin

text \<open>On arbitrary input the receiver returns, inside its array.\<close>

lemma receive_loop_total:
  assumes get: "bounded_reads get" and sel: "select_returns os"
    and "mb_error_recovery (ctx st) = 0" and "receiving mt step xs n"
  shows "\<exists>rc b st'. receive_loop os be mt (mkb 260 (map Some xs)) (int (length xs)) (int n) step tv st
      = Some ((rc, b), st') \<and> length b = 260 \<and>
      (rc = -1 \<or> int (H + 1 + C) \<le> rc \<and> rc \<le> int (H + 253 + C))"
  using assms(3-)
proof (induction "H + 253 + C - length xs" arbitrary: xs n step tv st rule: less_induct)
  case less
  note fits = receiving_fits [OF less.prems(2)]
  show ?case
  proof (cases "n = 0")
    case True
    with receiving_done [of mt step xs] less.prems(2) have "H + 1 + C \<le> length xs" by simp
    with checked [of xs 260 st] fits room True show ?thesis
      by (force simp: receive_loop.simps max_adu)
  next
    case False
    obtain r tv' st1 where s1: "select_loop os tv st = Some ((r, tv'), st1)"
      using sel unfolding select_returns_def by (metis option.exhaust surj_pair)
    then have c1: "ctx st1 = ctx st" using select_loop_keeps by fastforce
    then have nr1: "mb_error_recovery (ctx st1) = 0" using less.prems(1) by simp
    show ?thesis
    proof (cases "r = -1")
      case True
      with s1 False fits room show ?thesis
        by (simp add: receive_loop.simps await no_recovery nr1)
    next
      case r: False
      show ?thesis
      proof (cases "fst (get (mb_s (ctx st1)) (int n) (world st1))")
        case (Inl e)
        with s1 False r fits room show ?thesis
          by (simp add: receive_loop.simps await fetch store_read_def no_recovery nr1)
      next
        case (Inr ys)
        with get have len: "length ys \<le> n"
          unfolding bounded_reads_def by (metis of_nat_0_le_iff of_nat_le_iff)
        let ?st = "st1\<lparr>world := snd (get (mb_s (ctx st1)) (int n) (world st1))\<rparr>"
        have rcv: "be_recv be (mkb 260 (map Some xs)) (int (length xs)) (int n) st1
            = Some ((int (length ys), mkb 260 (map Some (xs @ ys))), ?st)"
          using Inr len fits room by (simp add: fetch store_read_def wrs_mkb_end)
        show ?thesis
        proof (cases "ys = []")
          case True
          with s1 False r fits room rcv show ?thesis
            by (simp add: receive_loop.simps await no_recovery nr1)
        next
          case ys: False
          let ?nxt = "(if int n - int (length ys) = 0
              then next_step be (mkb 260 (map Some (xs @ ys))) mt step (int (length xs) + int (length ys))
              else Some (Inr (step, int n - int (length ys))))"
          from progress_any [OF less.prems(2) len] show ?thesis
          proof (elim disjE exE conjE)
            assume "?nxt = Some (Inl ())"
            with s1 False r fits room rcv ys len show ?thesis
              by (subst receive_loop.simps) (simp add: await split: if_splits)
          next
            fix step' n'
            assume n: "?nxt = Some (Inr (step', int n'))" and rc: "receiving mt step' (xs @ ys) n'"
            have "receive_loop os be mt (mkb 260 (map Some xs)) (int (length xs)) (int n) step tv st
              = receive_loop os be mt (mkb 260 (map Some (xs @ ys))) (int (length xs) + int (length ys))
                  (int n') step' (byte_timer ?st (int n') tv') ?st"
              by (rule receive_loop_step [OF _ _ r rcv _ n]) (use False s1 ys in \<open>simp_all add: await\<close>)
            moreover have "H + 253 + C - length (xs @ ys) < H + 253 + C - length xs"
              using ys len fits False by (cases ys) auto
            ultimately show ?thesis
              using less.hyps [OF _ _ rc, of ?st "byte_timer ?st (int n') tv'"] nr1 by simp
          qed
        qed
      qed
    qed
  qed
qed

lemma receive_total:
  assumes "bounded_reads get" "select_returns os" "mb_error_recovery (ctx st) = 0"
  shows "\<exists>rc b st'. receive_msg os be (fresh 260) mt st = Some ((rc, b), st') \<and> length b = 260 \<and>
      (rc = -1 \<or> int (H + 1 + C) \<le> rc \<and> rc \<le> int (H + 253 + C))"
  using receive_loop_total [of st mt STEP_FUNCTION "[]" "H + 1"] assms
  by (simp add: receive_msg_def receiving_def header_length fresh_mkb algebra_simps)

lemma receive_frame:
  assumes "well_formed mt pdu" "byte_stream os get (mb_s (ctx st)) line"
    and "line (world st) = (frame t a pdu @ rest, peer)"
  shows "\<exists>st'. receive_msg os be (fresh 260) mt st
    = Some ((int (H + length pdu + C), mkb 260 (map Some (frame t a pdu))), st') \<and>
      line (world st') = (rest, peer) \<and> ctx st' = ctx st \<and> errno st' = errno st"
  using receive_loop_frame [OF assms(1,2), of 0 t a rest peer STEP_FUNCTION] assms(3)
  by (simp add: receive_msg_def step_end_def header_length fresh_mkb algebra_simps)

end

section \<open>A line held in memory\<close>

text \<open>
  A system whose world is the list of bytes waiting to be read: writing \<open>bs\<close> leaves \<open>peer bs\<close>
  there, as if a peer had answered at once. It shows that the hypotheses on the system can hold.
\<close>

definition line_os :: "(u8 list \<Rightarrow> u8 list) \<Rightarrow> u8 list os" where
  "line_os peer =
     \<lparr>sys_write = \<lambda>fd bs w. (Inr (int (length bs)), peer bs),
      sys_read = \<lambda>fd n w. (Inr (take (nat n) w), drop (nat n) w),
      sys_send = \<lambda>fd bs w. (Inr (int (length bs)), peer bs),
      sys_recv = \<lambda>fd n nowait w. (Inr (take (nat n) w), drop (nat n) w),
      sys_select = \<lambda>fd tv w. ((Inr 1, tv), w),
      sys_nanosleep = \<lambda>r w. (Inr (), w),
      sys_tcflush = \<lambda>fd w. (Inr 0, []),
      sys_open = \<lambda>name w. (Inr 3, w),
      sys_close = \<lambda>fd w. (Inr 0, w),
      sys_tcgetattr = \<lambda>fd w. (Inl EBADF, w),
      sys_tcsetattr = \<lambda>fd t w. (Inr 0, w),
      sys_ioctl_rs485 = \<lambda>fd r w. (Inr 0, w),
      sys_socket = \<lambda>inet w. (Inr 3, w),
      sys_setsockopt = \<lambda>fd opt w. (Inr 0, w),
      sys_connect = \<lambda>fd a w. (Inr 0, w),
      sys_shutdown = \<lambda>fd w. (Inr 0, w),
      sys_bind = \<lambda>fd a w. (Inr 0, w),
      sys_listen = \<lambda>fd n w. (Inr 0, w),
      sys_accept = \<lambda>fd w. (Inr 4, w),
      sys_getaddrinfo = \<lambda>node service passive w. (Inr [], w)\<rparr>"

lemma line_os_sel [simp]:
  "sys_write (line_os peer) fd bs w = (Inr (int (length bs)), peer bs)"
  "sys_read (line_os peer) fd n w = (Inr (take (nat n) w), drop (nat n) w)"
  "sys_send (line_os peer) fd bs w = (Inr (int (length bs)), peer bs)"
  "sys_recv (line_os peer) fd n b w = (Inr (take (nat n) w), drop (nat n) w)"
  "sys_select (line_os peer) fd tv w = ((Inr 1, tv), w)"
  by (simp_all add: line_os_def)

lemma line_os_stream:
  "byte_stream (line_os peer) (sys_read (line_os peer)) fd (\<lambda>w. (w, ()))"
  "byte_stream (line_os peer) (\<lambda>fd n. sys_recv (line_os peer) fd n False) fd (\<lambda>w. (w, ()))"
proof -
  have "\<exists>k. 0 < k \<and> int k \<le> n \<and> k \<le> length w \<and> take (nat n) w = take k w \<and> drop (nat n) w = drop k w"
    if "w \<noteq> []" "0 < n" for w :: "u8 list" and n
    using that by (intro exI [of _ "min (nat n) (length w)"]) (auto simp: min_def)
  then show "byte_stream (line_os peer) (sys_read (line_os peer)) fd (\<lambda>w. (w, ()))"
    "byte_stream (line_os peer) (\<lambda>fd n. sys_recv (line_os peer) fd n False) fd (\<lambda>w. (w, ()))"
    by (simp_all add: byte_stream_def)
qed

lemma line_os_bounded:
  "bounded_reads (sys_read (line_os peer))" "bounded_reads (\<lambda>fd n. sys_recv (line_os peer) fd n False)"
  by (auto simp: bounded_reads_def)

lemma line_os_select: "select_returns (line_os peer)"
  by (simp add: select_returns_def select_loop.simps)

definition line_state :: "int \<Rightarrow> u8 list \<Rightarrow> u8 list mstate" where
  "line_state slave w =
     \<lparr>ctx = \<lparr>mb_slave = slave, mb_s = 3, mb_debug = 0, mb_error_recovery = 0,
             mb_response_timeout = \<lparr>tv_sec = 0, tv_usec = 10000\<rparr>,
             mb_byte_timeout = \<lparr>tv_sec = 0, tv_usec = 10000\<rparr>, mb_backend_data = NoData\<rparr>,
      errno = 0, tcp_t_id = 0, world = w\<rparr>"

lemma line_state_sel [simp]:
  "mb_slave (ctx (line_state slave w)) = slave" "mb_error_recovery (ctx (line_state slave w)) = 0"
  "world (line_state slave w) = w" "tcp_t_id (line_state slave w) = 0"
  "\<not> recovery_link (line_state slave w)" "\<not> recovery_protocol (line_state slave w)"
  by (simp_all add: line_state_def recovery_link_def recovery_protocol_def)

end
