(* ===== verification/Bits.thy ===== *)
theory Bits
  imports Prelude
begin

text \<open>
  The data helpers of \<open>library/modbus/modbus-data.c\<close>: bits stored one per byte, packed into bytes
  and unpacked again, and floats stored in two registers. Bit arrays are arrays of bytes as in the
  code, a float is its 32-bit pattern (the code moves it with \<open>memcpy\<close>).
\<close>

section \<open>Unpacking bits\<close>

text \<open>\<open>value & (1 << i) ? 1 : 0\<close>\<close>

definition test_bit_of :: "u8 \<Rightarrow> int \<Rightarrow> u8" where
  "test_bit_of value i = (if uint value AND push_bit (nat i) 1 \<noteq> 0 then 1 else 0)"

definition modbus_set_bits_from_byte :: "u8 cbuf \<Rightarrow> int \<Rightarrow> u8 \<Rightarrow> u8 cbuf option" where
  "modbus_set_bits_from_byte dest index value =
     for_range 0 8 (\<lambda>i dest. wr dest (index + i) (test_bit_of value i)) dest"

text \<open>
  The loop compares \<open>int i\<close> with \<open>index + nb_bits\<close>, which is unsigned: from a negative index that
  reaches zero the comparison fails at once.
\<close>

definition set_bits_end :: "int \<Rightarrow> int \<Rightarrow> int" where
  "set_bits_end index nb_bits =
     (if index < 0 \<and> 0 \<le> index + nb_bits then index else index + nb_bits)"

definition modbus_set_bits_from_bytes ::
  "u8 cbuf \<Rightarrow> int \<Rightarrow> int \<Rightarrow> (int \<Rightarrow> u8 option) \<Rightarrow> u8 cbuf option" where
  "modbus_set_bits_from_bytes dest index nb_bits tab_byte =
     do { (dest, shift) \<leftarrow>
            for_range index (set_bits_end index nb_bits)
              (\<lambda>i (dest, shift). do {
                 b \<leftarrow> tab_byte ((i - index) div 8);
                 dest \<leftarrow> wr dest i (test_bit_of b shift);
                 Some (dest, (shift + 1) mod 8) })
              (dest, 0);
          Some dest }"

section \<open>Packing bits\<close>

text \<open>The flag is \<open>NDEBUG\<close>: when it is not set the assertion of an over-long request aborts.\<close>

definition modbus_get_byte_from_bits :: "bool \<Rightarrow> u8 cbuf \<Rightarrow> int \<Rightarrow> int \<Rightarrow> u8 option" where
  "modbus_get_byte_from_bits ndebug src index nb_bits =
     (if nb_bits > 8 \<and> \<not> ndebug \<and> \<not> nb_bits < 8 then None
      else for_range 0 (if nb_bits > 8 then 8 else nb_bits)
             (\<lambda>i value. do {
                b \<leftarrow> rd src (index + i);
                Some (byte (uint value OR push_bit (nat i) (uint b))) })
             0)"

section \<open>Floats\<close>

definition modbus_get_float :: "u16 cbuf \<Rightarrow> u32 option" where
  "modbus_get_float src =
     do { lo \<leftarrow> rd src 0; hi \<leftarrow> rd src 1;
          Some (push_bit 16 (ucast hi) + ucast lo) }"

definition modbus_set_float :: "u32 \<Rightarrow> u16 cbuf \<Rightarrow> u16 cbuf option" where
  "modbus_set_float f dest =
     do { dest \<leftarrow> wr dest 0 (ucast f); wr dest 1 (ucast (drop_bit 16 f)) }"

section \<open>Correctness\<close>

lemma test_bit_of_bit [c_arith]: "0 \<le> i \<Longrightarrow> test_bit_of v i = of_bool (bit v (nat i))"
proof -
  have "(uint v AND push_bit (nat i) 1 \<noteq> 0) = bit (uint v) (nat i)"
    by (rule bit_iff_and_push_bit_not_eq_0 [symmetric])
  also have "\<dots> = bit v (nat i)"
    using bit_imp_le_length [of v "nat i"] by (auto simp: bit_uint_iff)
  finally show ?thesis
    by (simp add: test_bit_of_def del: push_bit_of_1)
qed

text \<open>Bit number \<open>k\<close> of a list of bytes, as the code stores it.\<close>

definition bit_at :: "u8 list \<Rightarrow> nat \<Rightarrow> u8" where
  "bit_at tab k = of_bool (bit (tab ! (k div 8)) (k mod 8))"

definition unpack :: "u8 list \<Rightarrow> nat \<Rightarrow> u8 list" where
  "unpack tab n = map (bit_at tab) [0..<n]"

lemma length_unpack [simp]: "length (unpack tab n) = n"
  by (simp add: unpack_def)

lemma unpack_nth [simp]: "k < n \<Longrightarrow> unpack tab n ! k = bit_at tab k"
  by (simp add: unpack_def)

lemma unpack_Suc: "unpack tab (Suc n) = unpack tab n @ [bit_at tab n]"
  by (simp add: unpack_def)

lemma set_bits_from_bytes_fill:
  assumes len: "index + nb \<le> length dest"
    and tab: "\<And>k. k < nb \<Longrightarrow> f (int k div 8) = Some (tab ! (k div 8))"
  shows "modbus_set_bits_from_bytes dest (int index) (int nb) f = Some (fill dest index (unpack tab nb))"
proof -
  let ?body = "\<lambda>i (dest, shift). do {
                 b \<leftarrow> f ((i - int index) div 8);
                 dest \<leftarrow> wr dest i (test_bit_of b shift);
                 Some (dest, (shift + 1) mod 8) }"
  let ?g = "\<lambda>i. (fill dest index (unpack tab (nat (i - int index))), (i - int index) mod 8)"
  have step: "?body i (?g i) = Some (?g (i + 1))" if "int index \<le> i" "i < int index + int nb" for i
  proof -
    from that(1) obtain k where "i = int index + int k"
      unfolding zle_iff_zadd by blast
    with that(2) have k: "i = int index + int k" "k < nb" by simp_all
    have "nat (int k + 1) = Suc k" by simp
    moreover have "test_bit_of (tab ! (k div 8)) (int k mod 8) = bit_at tab k"
      by (simp add: c_arith bit_at_def nat_mod_distrib)
    moreover have "(1 + int k mod 8) mod 8 = (1 + int k) mod 8"
      by presburger
    ultimately show ?thesis
      using k len tab [OF k(2)] by (simp add: wr_fill unpack_Suc add.commute)
  qed
  have "for_range (int index) (int index + int nb) ?body (?g (int index)) = Some (?g (int index + int nb))"
    by (rule for_range_steps) (use step in auto)
  then show ?thesis
    by (simp add: modbus_set_bits_from_bytes_def set_bits_end_def unpack_def)
qed


lemma unpack_single: "map (\<lambda>i. test_bit_of v (int i)) [0..<8] = unpack [v] 8"
  by (auto simp: unpack_def bit_at_def c_arith)

lemma set_bits_from_byte_fill:
  assumes "index + 8 \<le> length dest"
  shows "modbus_set_bits_from_byte dest (int index) v = Some (fill dest index (unpack [v] 8))"
proof -
  let ?g = "\<lambda>i. fill dest index (unpack [v] (nat i))"
  have "for_range 0 8 (\<lambda>i dest. wr dest (int index + i) (test_bit_of v i)) (?g 0) = Some (?g 8)"
  proof (rule for_range_steps)
    fix i :: int
    assume i: "0 \<le> i" "i < 8"
    then obtain k where k: "i = int k" "k < 8"
      by (metis nat_0_le nat_less_iff of_nat_numeral)
    then have "test_bit_of v i = bit_at [v] k" "nat (int k + 1) = Suc k"
      by (auto simp: c_arith bit_at_def)
    with k assms show "wr (?g i) (int index + i) (test_bit_of v i) = Some (?g (i + 1))"
      by (simp add: wr_fill unpack_Suc)
  qed simp
  then show ?thesis
    by (simp add: modbus_set_bits_from_byte_def unpack_def)
qed

lemma take_bit_Suc_or: "take_bit (Suc n) (v :: u8) = take_bit n v OR push_bit n (of_bool (bit v n))"
  by (rule bit_word_eqI) (auto simp: bit_simps less_Suc_eq)

lemma get_byte_from_bits_take_bit:
  assumes "n \<le> 8" "\<And>k. k < n \<Longrightarrow> rd src (index + int k) = Some (of_bool (bit v k))"
  shows "modbus_get_byte_from_bits ndebug src index (int n) = Some (take_bit n v)"
proof -
  have "for_range 0 (int n) (\<lambda>i value. do {
                b \<leftarrow> rd src (index + i);
                Some (byte (uint value OR push_bit (nat i) (uint b))) })
             (take_bit (nat 0) v) = Some (take_bit (nat (int n)) v)"
  proof (rule for_range_steps)
    fix i :: int
    assume i: "0 \<le> i" "i < int n"
    then obtain k where k: "i = int k" "k < n"
      by (metis nat_0_le nat_less_iff)
    then have "nat (int k + 1) = Suc k" by simp
    with k assms(2) [OF k(2)] show
      "do { b \<leftarrow> rd src (index + i);
            Some (byte (uint (take_bit (nat i) v) OR push_bit (nat i) (uint b))) }
       = Some (take_bit (nat (i + 1)) v)"
      by (simp only: byte_or_push take_bit_Suc_or) simp
  qed simp
  then show ?thesis
    using assms(1) by (simp add: modbus_get_byte_from_bits_def)
qed

text \<open>
  \<open>modbus_set_bits_from_bytes\<close> stores bit \<open>k\<close> of the byte table
  in element \<open>index + k\<close>, for exactly the requested bits, leaves every other
  element alone, and touches no memory outside the two arrays.
\<close>

theorem set_bits_from_bytes_correct:
  assumes "index + nb \<le> length dest" and "nb \<le> 8 * length tab"
  shows "\<exists>dest'. modbus_set_bits_from_bytes dest (int index) (int nb) (rd (init tab)) = Some dest' \<and>
           length dest' = length dest \<and>
           (\<forall>k < nb. dest' ! (index + k) = Some (of_bool (bit (tab ! (k div 8)) (k mod 8)))) \<and>
           (\<forall>i < length dest. i < index \<or> index + nb \<le> i \<longrightarrow> dest' ! i = dest ! i)"
proof -
  have "rd (init tab) (int k div 8) = Some (tab ! (k div 8))" if "k < nb" for k
    using that assms(2) by (subst rd_init) (auto simp: nat_div_distrib)
  then have "modbus_set_bits_from_bytes dest (int index) (int nb) (rd (init tab))
      = Some (fill dest index (unpack tab nb))"
    by (intro set_bits_from_bytes_fill assms(1))
  then show ?thesis
    using assms(1) by (auto simp: bit_at_def)
qed

theorem set_bits_from_bytes_correct_witness:
  "\<exists>dest'. modbus_set_bits_from_bytes (init [9, 9, 9, 9, 9]) (int 1) (int 3) (rd (init [5])) = Some dest' \<and>
           length dest' = length (init [9, 9, 9, 9, 9 :: u8]) \<and>
           (\<forall>k < 3. dest' ! (1 + k) = Some (of_bool (bit ([5 :: u8] ! (k div 8)) (k mod 8)))) \<and>
           (\<forall>i < length (init [9, 9, 9, 9, 9 :: u8]). i < 1 \<or> 1 + 3 \<le> i \<longrightarrow>
              dest' ! i = init [9, 9, 9, 9, 9] ! i)"
  by (rule set_bits_from_bytes_correct) simp_all

text \<open>
  a byte unpacked into eight bits by \<open>modbus_set_bits_from_byte\<close> is read back
  by \<open>modbus_get_byte_from_bits\<close> from the same position, whatever the array held
  before.
\<close>

theorem byte_bits_roundtrip:
  assumes "index + 8 \<le> length dest"
  shows "do { dest' \<leftarrow> modbus_set_bits_from_byte dest (int index) v;
              modbus_get_byte_from_bits ndebug dest' (int index) 8 } = Some v"
proof -
  have "rd (fill dest index (unpack [v] 8)) (int index + int k) = Some (of_bool (bit v k))"
    if "k < 8" for k
    using assms that by (simp add: rd_def bit_at_def flip: of_nat_add)
  then have "modbus_get_byte_from_bits ndebug (fill dest index (unpack [v] 8)) (int index) (int 8)
      = Some (take_bit 8 v)"
    by (intro get_byte_from_bits_take_bit) auto
  then show ?thesis
    using assms by (simp add: set_bits_from_byte_fill take_bit_word_eq_self)
qed

theorem byte_bits_roundtrip_witness:
  "do { dest' \<leftarrow> modbus_set_bits_from_byte (fresh 9) (int 1) 0xA5;
        modbus_get_byte_from_bits False dest' (int 1) 8 } = Some 0xA5"
  by (rule byte_bits_roundtrip) simp

text \<open>
  a float stored into two registers by \<open>modbus_set_float\<close> is the one
  \<open>modbus_get_float\<close> reads back, bit for bit.
\<close>

theorem float_roundtrip:
  assumes "2 \<le> length dest"
  shows "do { dest' \<leftarrow> modbus_set_float f dest; modbus_get_float dest' } = Some f"
proof -
  have "push_bit 16 (ucast (ucast (drop_bit 16 f) :: u16)) + ucast (ucast f :: u16) = f"
    (is "?h + ?l = f")
  proof -
    have "?h AND ?l = 0"
      by (rule bit_word_eqI) (auto simp: bit_simps)
    then have "?h + ?l = ?h OR ?l"
      by (rule disjunctive_add_eq_or)
    also have "\<dots> = f"
      by (rule bit_word_eqI) (auto simp: bit_simps)
    finally show ?thesis .
  qed
  moreover have "dest \<noteq> []" using assms by auto
  ultimately show ?thesis
    using assms by (simp add: modbus_set_float_def modbus_get_float_def wr_def rd_def add.commute)
qed

theorem float_roundtrip_witness:
  "do { dest' \<leftarrow> modbus_set_float 0x3FC00000 (fresh 2); modbus_get_float dest' } = Some 0x3FC00000"
  by (rule float_roundtrip) simp

end
