(* ===== verification/Device.thy ===== *)
theory Device
  imports Bits
begin

text \<open>
  The abstract server: a device with two tables of bits and two of registers, and its answer to a
  request PDU (function code and data, without the framing of a transport), written on lists. The
  server theory proves that \<open>modbus_reply\<close> implements it over every transport.
\<close>

section \<open>Bits and registers in a PDU\<close>

text \<open>Eight bits per byte, least significant first; high byte of a register first.\<close>

fun pack_bits :: "bool list \<Rightarrow> u8 list" where
  "pack_bits [] = []"
| "pack_bits (b # bs) = horner_sum of_bool 2 (b # take 7 bs) # pack_bits (drop 7 bs)"

definition reg_bytes :: "u16 \<Rightarrow> u8 list" where
  "reg_bytes v = [ucast (drop_bit 8 v), ucast v]"

definition regs_pdu :: "u16 list \<Rightarrow> u8 list" where
  "regs_pdu vs = concat (map reg_bytes vs)"

fun pdu_regs :: "u8 list \<Rightarrow> u16 list" where
  "pdu_regs (h # l # bs) = word_of_int (be16 h l) # pdu_regs bs"
| "pdu_regs _ = []"

definition put_at :: "'a list \<Rightarrow> nat \<Rightarrow> 'a list \<Rightarrow> 'a list" where
  "put_at xs a ys = take a xs @ ys @ drop (a + length ys) xs"

text \<open>The sixteen-bit field at position \<open>k\<close>.\<close>

definition field :: "u8 list \<Rightarrow> nat \<Rightarrow> nat" where
  "field pdu k = nat (be16 (pdu ! k) (pdu ! (k + 1)))"

section \<open>The device\<close>

record device =
  coils :: "bool list"
  inputs :: "bool list"
  holding :: "u16 list"
  input_regs :: "u16 list"

definition exception_pdu :: "u8 \<Rightarrow> u8 \<Rightarrow> u8 list" where
  "exception_pdu f code = [f + 0x80, code]"

definition ILLEGAL_FUNCTION :: u8 where [simp]: "ILLEGAL_FUNCTION = 1"
definition ILLEGAL_ADDRESS :: u8 where [simp]: "ILLEGAL_ADDRESS = 2"
definition ILLEGAL_VALUE :: u8 where [simp]: "ILLEGAL_VALUE = 3"

definition serve_bits :: "u8 list \<Rightarrow> bool list \<Rightarrow> u8 list" where
  "serve_bits pdu tab =
     (let a = field pdu 1; q = field pdu 3; data = pack_bits (take q (drop a tab)) in
      if q < 1 \<or> 2000 < q then exception_pdu (pdu ! 0) ILLEGAL_VALUE
      else if length tab < a + q then exception_pdu (pdu ! 0) ILLEGAL_ADDRESS
      else pdu ! 0 # word_of_nat (length data) # data)"

definition serve_regs :: "u8 list \<Rightarrow> u16 list \<Rightarrow> u8 list" where
  "serve_regs pdu tab =
     (let a = field pdu 1; q = field pdu 3 in
      if q < 1 \<or> 125 < q then exception_pdu (pdu ! 0) ILLEGAL_VALUE
      else if length tab < a + q then exception_pdu (pdu ! 0) ILLEGAL_ADDRESS
      else pdu ! 0 # word_of_nat (2 * q) # regs_pdu (take q (drop a tab)))"

definition serve_write_coil :: "u8 list \<Rightarrow> device \<Rightarrow> u8 list \<times> device" where
  "serve_write_coil pdu d =
     (let a = field pdu 1; v = field pdu 3 in
      if length (coils d) \<le> a then (exception_pdu (pdu ! 0) ILLEGAL_ADDRESS, d)
      else if v = 0xFF00 \<or> v = 0 then (pdu, d\<lparr>coils := (coils d)[a := (v \<noteq> 0)]\<rparr>)
      else (exception_pdu (pdu ! 0) ILLEGAL_VALUE, d))"

definition serve_write_register :: "u8 list \<Rightarrow> device \<Rightarrow> u8 list \<times> device" where
  "serve_write_register pdu d =
     (let a = field pdu 1 in
      if length (holding d) \<le> a then (exception_pdu (pdu ! 0) ILLEGAL_ADDRESS, d)
      else (pdu, d\<lparr>holding := (holding d)[a := word_of_nat (field pdu 3)]\<rparr>))"

definition serve_write_coils :: "u8 list \<Rightarrow> device \<Rightarrow> u8 list \<times> device" where
  "serve_write_coils pdu d =
     (let a = field pdu 1; q = field pdu 3 in
      if length (coils d) < a + q then (exception_pdu (pdu ! 0) ILLEGAL_ADDRESS, d)
      else (take 5 pdu,
            d\<lparr>coils := put_at (coils d) a
                (map (\<lambda>k. bit (drop 6 pdu ! (k div 8)) (k mod 8)) [0..<q])\<rparr>))"

definition serve_write_registers :: "u8 list \<Rightarrow> device \<Rightarrow> u8 list \<times> device" where
  "serve_write_registers pdu d =
     (let a = field pdu 1; q = field pdu 3 in
      if length (holding d) < a + q then (exception_pdu (pdu ! 0) ILLEGAL_ADDRESS, d)
      else (take 5 pdu, d\<lparr>holding := put_at (holding d) a (take q (pdu_regs (drop 6 pdu)))\<rparr>))"

text \<open>The registers are written before they are read.\<close>

definition serve_write_and_read :: "u8 list \<Rightarrow> device \<Rightarrow> u8 list \<times> device" where
  "serve_write_and_read pdu d =
     (let a = field pdu 1; q = field pdu 3; aw = field pdu 5; qw = field pdu 7;
          regs = put_at (holding d) aw (take qw (pdu_regs (drop 10 pdu))) in
      if qw < 1 \<or> 121 < qw \<or> q < 1 \<or> 125 < q \<or> unat (pdu ! 9) \<noteq> 2 * qw
      then (exception_pdu (pdu ! 0) ILLEGAL_VALUE, d)
      else if length (holding d) < a + q \<or> length (holding d) < aw + qw
      then (exception_pdu (pdu ! 0) ILLEGAL_ADDRESS, d)
      else (pdu ! 0 # word_of_nat (2 * q) # regs_pdu (take q (drop a regs)), d\<lparr>holding := regs\<rparr>))"

definition slave_id_pdu :: "u8 list" where
  "slave_id_pdu = [0x11, 10, 180, 0xFF, 0x4C, 0x4D, 0x42, 0x33, 0x2E, 0x30, 0x2E, 0x35]"

text \<open>\<open>None\<close>: the request is not answered.\<close>

definition serve :: "u8 list \<Rightarrow> device \<Rightarrow> u8 list option \<times> device" where
  "serve pdu d =
     (let f = pdu ! 0 in
      if f = 0x01 then (Some (serve_bits pdu (coils d)), d)
      else if f = 0x02 then (Some (serve_bits pdu (inputs d)), d)
      else if f = 0x03 then (Some (serve_regs pdu (holding d)), d)
      else if f = 0x04 then (Some (serve_regs pdu (input_regs d)), d)
      else if f = 0x05 then map_prod Some id (serve_write_coil pdu d)
      else if f = 0x06 then map_prod Some id (serve_write_register pdu d)
      else if f = 0x0F then map_prod Some id (serve_write_coils pdu d)
      else if f = 0x10 then map_prod Some id (serve_write_registers pdu d)
      else if f = 0x11 then (Some slave_id_pdu, d)
      else if f = 0x07 then (None, d)
      else if f = 0x17 then map_prod Some id (serve_write_and_read pdu d)
      else (Some (exception_pdu f ILLEGAL_FUNCTION), d))"

section \<open>Facts about the encodings\<close>

lemma length_pack_bits: "length (pack_bits bs) = (length bs + 7) div 8"
proof (induction bs rule: pack_bits.induct)
  case 1
  then show ?case by simp
next
  case (2 b bs)
  then show ?case
    by (cases "length bs < 7") auto
qed

lemma pack_bits_byte:
  "0 < length bs \<Longrightarrow> pack_bits bs = horner_sum of_bool 2 (take 8 bs) # pack_bits (drop 8 bs)"
  by (cases bs) simp_all

lemma pack_bits_nth:
  "k < length bs \<Longrightarrow> bit (pack_bits bs ! (k div 8)) (k mod 8) = bs ! k"
proof (induction bs arbitrary: k rule: pack_bits.induct)
  case 1
  then show ?case by simp
next
  case (2 b bs)
  show ?case
  proof (cases "k < 8")
    case True
    then have "k div 8 = 0" "k mod 8 = k" by simp_all
    then have "bit (pack_bits (b # bs) ! (k div 8)) (k mod 8) = (k < 8 \<and> k < length (b # take 7 bs) \<and> (b # take 7 bs) ! k)"
      by (simp only: pack_bits.simps nth_Cons_0 bit_horner_sum_bit_iff) simp
    moreover have "(b # take 7 bs) ! k = (b # bs) ! k"
      using True by (cases k) simp_all
    moreover have "k < length (b # take 7 bs)"
      using True 2(2) by simp
    ultimately show ?thesis
      using True by (simp only: simp_thms)
  next
    case False
    then obtain j where j: "k = j + 8"
      using that [of "k - 8"] by simp
    then have "k div 8 = Suc (j div 8)" "k mod 8 = j mod 8" by simp_all
    moreover have "(b # bs) ! k = drop 7 bs ! j"
      using j 2(2) by simp
    moreover have "bit (pack_bits (drop 7 bs) ! (j div 8)) (j mod 8) = drop 7 bs ! j"
      using 2(2) j by (intro 2(1)) simp
    ultimately show ?thesis
      by (simp only: pack_bits.simps nth_Cons_Suc)
  qed
qed

lemma unpack_pack_bits: "unpack (pack_bits bs) (length bs) = map of_bool bs"
  by (rule nth_equalityI) (simp_all add: bit_at_def pack_bits_nth)

lemma length_regs_pdu [simp]: "length (regs_pdu vs) = 2 * length vs"
  by (induction vs) (simp_all add: regs_pdu_def reg_bytes_def)

lemma length_pdu_regs [simp]: "length (pdu_regs bs) = length bs div 2"
  by (induction bs rule: pdu_regs.induct) simp_all

lemma pdu_regs_nth:
  "2 * k + 1 < length bs \<Longrightarrow> pdu_regs bs ! k = word_of_int (be16 (bs ! (2 * k)) (bs ! (2 * k + 1)))"
proof (induction bs arbitrary: k rule: pdu_regs.induct)
  case (1 h l bs)
  then show ?case by (cases k) simp_all
qed simp_all

lemma reg_of_bytes: "word_of_int (be16 (ucast (drop_bit 8 v)) (ucast v)) = (v :: u16)"
proof -
  have v: "0 \<le> uint v" "uint v < 65536"
    using uint_bounded [of v] by simp_all
  then have hi: "uint v div 256 < 256" by presburger
  have "uint (ucast (drop_bit 8 v) :: u8) = uint v div 256"
    using v hi pos_imp_zdiv_nonneg_iff [of 256 "uint v"]
    by (simp add: mod_pos_pos_trivial unsigned_ucast_eq take_bit_eq_mod uint_div drop_bit_eq_div)
  moreover have "uint (ucast v :: u8) = uint v mod 256"
    by (simp add: unsigned_ucast_eq take_bit_eq_mod)
  ultimately have "be16 (ucast (drop_bit 8 v)) (ucast v) = uint v"
    by (simp add: be16_eq)
  then show ?thesis by simp
qed

lemma pdu_regs_pdu: "pdu_regs (regs_pdu vs) = vs"
  by (induction vs) (simp_all add: regs_pdu_def reg_bytes_def reg_of_bytes)

lemma length_put_at [simp]: "a + length ys \<le> length xs \<Longrightarrow> length (put_at xs a ys) = length xs"
  by (simp add: put_at_def)

lemma field_range: "field pdu k < 65536"
  by (simp add: field_def nat_less_iff)

lemma be16_field: "be16 (pdu ! k) (pdu ! (Suc k)) = int (field pdu k)"
  by (simp add: field_def)

end
