(* ===== verification/Server.thy ===== *)
theory Server
  imports Transport Device
begin

text \<open>
  The server side of \<open>library/modbus/modbus.c\<close>: \<open>modbus_reply\<close>, one definition per function code
  of its switch, and \<open>modbus_reply_exception\<close>. A case maps the request and the mapping to the
  response built so far (length and array) and the updated mapping.
\<close>

section \<open>Building blocks\<close>

text \<open>
  One iteration of the packing loop (\<open>byt\<close>, \<open>shift\<close>, the response and its offset are the loop's
  variables), and the last, incomplete byte.
\<close>

definition io_status_step ::
  "u8 cbuf \<Rightarrow> int \<Rightarrow> int \<times> int \<times> u8 cbuf \<times> int \<Rightarrow> (int \<times> int \<times> u8 cbuf \<times> int) option" where
  "io_status_step tab_io_status i = (\<lambda>(byt, shift, rsp, offset). do {
     b \<leftarrow> rd tab_io_status i;
     let byt = byt OR push_bit (nat shift) (uint b);
     if shift = 7 then do {
       rsp \<leftarrow> wr rsp offset (byte byt);
       Some (0, 0, rsp, offset + 1) }
     else Some (byt, shift + 1, rsp, offset) })"

definition io_status_last :: "int \<times> int \<times> u8 cbuf \<times> int \<Rightarrow> (int \<times> u8 cbuf) option" where
  "io_status_last = (\<lambda>(byt, shift, rsp, offset).
     if shift \<noteq> 0 then do { rsp \<leftarrow> wr rsp offset (byte byt); Some (offset + 1, rsp) }
     else Some (offset, rsp))"

definition response_io_status :: "int \<Rightarrow> int \<Rightarrow> u8 cbuf \<Rightarrow> u8 cbuf \<Rightarrow> int \<Rightarrow> (int \<times> u8 cbuf) option" where
  "response_io_status address nb tab_io_status rsp offset =
     do { r \<leftarrow> for_range address (address + nb) (io_status_step tab_io_status) (0, 0, rsp, offset);
          io_status_last r }"

definition response_exception :: "'w modbus_backend \<Rightarrow> sft_t \<Rightarrow> int \<Rightarrow> u8 cbuf \<Rightarrow> (int \<times> u8 cbuf) option" where
  "response_exception be sft exception_code rsp =
     do { let sft = sft\<lparr>sft_function := sft_function sft + 0x80\<rparr>;
          (rsp_length, rsp) \<leftarrow> be_build_response_basis be sft rsp;
          rsp \<leftarrow> wr rsp rsp_length (byte exception_code);
          Some (rsp_length + 1, rsp) }"

text \<open>Registers to response bytes, and request bytes to registers.\<close>

definition put_registers :: "u16 cbuf \<Rightarrow> int \<Rightarrow> int \<Rightarrow> int \<times> u8 cbuf \<Rightarrow> (int \<times> u8 cbuf) option" where
  "put_registers tab address nb r =
     for_range address (address + nb)
       (\<lambda>i (rsp_length, rsp). do {
          v \<leftarrow> rd tab i;
          rsp \<leftarrow> wr rsp rsp_length (ucast (drop_bit 8 v));
          rsp \<leftarrow> wr rsp (rsp_length + 1) (ucast (v AND 0xFF));
          Some (rsp_length + 2, rsp) })
       r"

definition get_registers :: "u8 cbuf \<Rightarrow> int \<Rightarrow> int \<Rightarrow> int \<Rightarrow> u16 cbuf \<Rightarrow> u16 cbuf option" where
  "get_registers req pos address nb tab =
     do { (tab, j) \<leftarrow>
            for_range address (address + nb)
              (\<lambda>i (tab, j). do {
                 h \<leftarrow> rd req j; l \<leftarrow> rd req (j + 1);
                 tab \<leftarrow> wr tab i (word_of_int (be16 h l));
                 Some (tab, j + 2) })
              (tab, pos);
          Some tab }"

section \<open>Function codes\<close>

text \<open>The two bit tables are answered by the same code over different tables.\<close>

definition reply_bits ::
  "'w modbus_backend \<Rightarrow> sft_t \<Rightarrow> u8 cbuf \<Rightarrow> int \<Rightarrow> int \<Rightarrow> u8 cbuf \<Rightarrow> (int \<times> u8 cbuf) option" where
  "reply_bits be sft req address nb_table tab =
     (let offset = header_length be; rsp = fresh MAX_MESSAGE_LENGTH in
      do { h \<leftarrow> rd req (offset + 3); l \<leftarrow> rd req (offset + 4);
           let nb = be16 h l;
           if nb < 1 \<or> MODBUS_MAX_READ_BITS < nb
           then response_exception be sft MODBUS_EXCEPTION_ILLEGAL_DATA_VALUE rsp
           else if address + nb > nb_table
           then response_exception be sft MODBUS_EXCEPTION_ILLEGAL_DATA_ADDRESS rsp
           else do {
             (rsp_length, rsp) \<leftarrow> be_build_response_basis be sft rsp;
             rsp \<leftarrow> wr rsp rsp_length (byte (byte_count_of_bits nb));
             response_io_status address nb tab rsp (rsp_length + 1) } })"

definition reply_read_coils where
  "reply_read_coils be sft req address m =
     do { r \<leftarrow> reply_bits be sft req address (nb_bits m) (tab_bits m); Some (r, m) }"

definition reply_read_discrete_inputs where
  "reply_read_discrete_inputs be sft req address m =
     do { r \<leftarrow> reply_bits be sft req address (nb_input_bits m) (tab_input_bits m); Some (r, m) }"

definition reply_registers ::
  "'w modbus_backend \<Rightarrow> sft_t \<Rightarrow> u8 cbuf \<Rightarrow> int \<Rightarrow> int \<Rightarrow> u16 cbuf \<Rightarrow> (int \<times> u8 cbuf) option" where
  "reply_registers be sft req address nb_table tab =
     (let offset = header_length be; rsp = fresh MAX_MESSAGE_LENGTH in
      do { h \<leftarrow> rd req (offset + 3); l \<leftarrow> rd req (offset + 4);
           let nb = be16 h l;
           if nb < 1 \<or> MODBUS_MAX_READ_REGISTERS < nb
           then response_exception be sft MODBUS_EXCEPTION_ILLEGAL_DATA_VALUE rsp
           else if address + nb > nb_table
           then response_exception be sft MODBUS_EXCEPTION_ILLEGAL_DATA_ADDRESS rsp
           else do {
             (rsp_length, rsp) \<leftarrow> be_build_response_basis be sft rsp;
             rsp \<leftarrow> wr rsp rsp_length (byte (push_bit 1 nb));
             put_registers tab address nb (rsp_length + 1, rsp) } })"

definition reply_read_holding_registers where
  "reply_read_holding_registers be sft req address m =
     do { r \<leftarrow> reply_registers be sft req address (nb_registers m) (tab_registers m); Some (r, m) }"

definition reply_read_input_registers where
  "reply_read_input_registers be sft req address m =
     do { r \<leftarrow> reply_registers be sft req address (nb_input_registers m) (tab_input_registers m);
          Some (r, m) }"

text \<open>A single write echoes the request.\<close>

definition echo_request :: "u8 cbuf \<Rightarrow> int \<Rightarrow> (int \<times> u8 cbuf) option" where
  "echo_request req req_length =
     do { rsp \<leftarrow> memcpy (fresh MAX_MESSAGE_LENGTH) 0 req 0 req_length; Some (req_length, rsp) }"

definition reply_write_single_coil ::
  "'w modbus_backend \<Rightarrow> sft_t \<Rightarrow> u8 cbuf \<Rightarrow> int \<Rightarrow> int \<Rightarrow> modbus_mapping_t
   \<Rightarrow> ((int \<times> u8 cbuf) \<times> modbus_mapping_t) option" where
  "reply_write_single_coil be sft req req_length address m =
     (let offset = header_length be; rsp = fresh MAX_MESSAGE_LENGTH in
      if address \<ge> nb_bits m then do {
        r \<leftarrow> response_exception be sft MODBUS_EXCEPTION_ILLEGAL_DATA_ADDRESS rsp; Some (r, m) }
      else do {
        h \<leftarrow> rd req (offset + 3); l \<leftarrow> rd req (offset + 4);
        let data = be16 h l;
        if data = 0xFF00 \<or> data = 0x0 then do {
          tab \<leftarrow> wr (tab_bits m) address (if data \<noteq> 0 then 1 else 0);
          r \<leftarrow> echo_request req req_length;
          Some (r, m\<lparr>tab_bits := tab\<rparr>) }
        else do {
          r \<leftarrow> response_exception be sft MODBUS_EXCEPTION_ILLEGAL_DATA_VALUE rsp; Some (r, m) } })"

definition reply_write_single_register ::
  "'w modbus_backend \<Rightarrow> sft_t \<Rightarrow> u8 cbuf \<Rightarrow> int \<Rightarrow> int \<Rightarrow> modbus_mapping_t
   \<Rightarrow> ((int \<times> u8 cbuf) \<times> modbus_mapping_t) option" where
  "reply_write_single_register be sft req req_length address m =
     (let offset = header_length be; rsp = fresh MAX_MESSAGE_LENGTH in
      if address \<ge> nb_registers m then do {
        r \<leftarrow> response_exception be sft MODBUS_EXCEPTION_ILLEGAL_DATA_ADDRESS rsp; Some (r, m) }
      else do {
        h \<leftarrow> rd req (offset + 3); l \<leftarrow> rd req (offset + 4);
        tab \<leftarrow> wr (tab_registers m) address (word_of_int (be16 h l));
        r \<leftarrow> echo_request req req_length;
        Some (r, m\<lparr>tab_registers := tab\<rparr>) })"

text \<open>A multiple write answers with the four bytes of address and quantity of the request.\<close>

definition reply_written :: "'w modbus_backend \<Rightarrow> sft_t \<Rightarrow> u8 cbuf \<Rightarrow> (int \<times> u8 cbuf) option" where
  "reply_written be sft req =
     do { (rsp_length, rsp) \<leftarrow> be_build_response_basis be sft (fresh MAX_MESSAGE_LENGTH);
          rsp \<leftarrow> memcpy rsp rsp_length req rsp_length 4;
          Some (rsp_length + 4, rsp) }"

definition reply_write_multiple_coils ::
  "'w modbus_backend \<Rightarrow> sft_t \<Rightarrow> u8 cbuf \<Rightarrow> int \<Rightarrow> modbus_mapping_t
   \<Rightarrow> ((int \<times> u8 cbuf) \<times> modbus_mapping_t) option" where
  "reply_write_multiple_coils be sft req address m =
     (let offset = header_length be in
      do { h \<leftarrow> rd req (offset + 3); l \<leftarrow> rd req (offset + 4);
           let nb = be16 h l;
           if address + nb > nb_bits m then do {
             r \<leftarrow> response_exception be sft MODBUS_EXCEPTION_ILLEGAL_DATA_ADDRESS
                   (fresh MAX_MESSAGE_LENGTH);
             Some (r, m) }
           else do {
             tab \<leftarrow> modbus_set_bits_from_bytes (tab_bits m) address nb (\<lambda>k. rd req (offset + 6 + k));
             r \<leftarrow> reply_written be sft req;
             Some (r, m\<lparr>tab_bits := tab\<rparr>) } })"

definition reply_write_multiple_registers ::
  "'w modbus_backend \<Rightarrow> sft_t \<Rightarrow> u8 cbuf \<Rightarrow> int \<Rightarrow> modbus_mapping_t
   \<Rightarrow> ((int \<times> u8 cbuf) \<times> modbus_mapping_t) option" where
  "reply_write_multiple_registers be sft req address m =
     (let offset = header_length be in
      do { h \<leftarrow> rd req (offset + 3); l \<leftarrow> rd req (offset + 4);
           let nb = be16 h l;
           if address + nb > nb_registers m then do {
             r \<leftarrow> response_exception be sft MODBUS_EXCEPTION_ILLEGAL_DATA_ADDRESS
                   (fresh MAX_MESSAGE_LENGTH);
             Some (r, m) }
           else do {
             tab \<leftarrow> get_registers req (offset + 6) address nb (tab_registers m);
             r \<leftarrow> reply_written be sft req;
             Some (r, m\<lparr>tab_registers := tab\<rparr>) } })"

text \<open>\<open>"LMB" LIBMODBUS_VERSION_STRING\<close>\<close>

definition LMB_VERSION :: "u8 list" where
  "LMB_VERSION = [0x4C, 0x4D, 0x42, 0x33, 0x2E, 0x30, 0x2E, 0x35]"

definition reply_report_slave_id :: "'w modbus_backend \<Rightarrow> sft_t \<Rightarrow> (int \<times> u8 cbuf) option" where
  "reply_report_slave_id be sft =
     do { (rsp_length, rsp) \<leftarrow> be_build_response_basis be sft (fresh MAX_MESSAGE_LENGTH);
          let byte_count_pos = rsp_length;
          let rsp_length = rsp_length + 1;
          rsp \<leftarrow> wr rsp rsp_length (byte REPORT_SLAVE_ID);
          let rsp_length = rsp_length + 1;
          rsp \<leftarrow> wr rsp rsp_length 0xFF;
          let rsp_length = rsp_length + 1;
          let str_len = int (length LMB_VERSION);
          rsp \<leftarrow> wrs rsp rsp_length LMB_VERSION;
          let rsp_length = rsp_length + str_len;
          rsp \<leftarrow> wr rsp byte_count_pos (byte (rsp_length - byte_count_pos - 1));
          Some (rsp_length, rsp) }"

definition reply_write_and_read_registers ::
  "'w modbus_backend \<Rightarrow> sft_t \<Rightarrow> u8 cbuf \<Rightarrow> int \<Rightarrow> modbus_mapping_t
   \<Rightarrow> ((int \<times> u8 cbuf) \<times> modbus_mapping_t) option" where
  "reply_write_and_read_registers be sft req address m =
     (let offset = header_length be; rsp = fresh MAX_MESSAGE_LENGTH in
      do { h \<leftarrow> rd req (offset + 3); l \<leftarrow> rd req (offset + 4);
           let nb = be16 h l;
           h \<leftarrow> rd req (offset + 5); l \<leftarrow> rd req (offset + 6);
           let address_write = be16 h l;
           h \<leftarrow> rd req (offset + 7); l \<leftarrow> rd req (offset + 8);
           let nb_write = be16 h l;
           c \<leftarrow> rd req (offset + 9);
           let nb_write_bytes = uint c;
           if nb_write < 1 \<or> MODBUS_MAX_RW_WRITE_REGISTERS < nb_write \<or>
              nb < 1 \<or> MODBUS_MAX_READ_REGISTERS < nb \<or> nb_write_bytes \<noteq> nb_write * 2
           then do {
             r \<leftarrow> response_exception be sft MODBUS_EXCEPTION_ILLEGAL_DATA_VALUE rsp; Some (r, m) }
           else if address + nb > nb_registers m \<or> address_write + nb_write > nb_registers m
           then do {
             r \<leftarrow> response_exception be sft MODBUS_EXCEPTION_ILLEGAL_DATA_ADDRESS rsp; Some (r, m) }
           else do {
             (rsp_length, rsp) \<leftarrow> be_build_response_basis be sft rsp;
             rsp \<leftarrow> wr rsp rsp_length (byte (push_bit 1 nb));
             tab \<leftarrow> get_registers req (offset + 10) address_write nb_write (tab_registers m);
             r \<leftarrow> put_registers tab address nb (rsp_length + 1, rsp);
             Some (r, m\<lparr>tab_registers := tab\<rparr>) } })"

section \<open>The handler\<close>

text \<open>
  The switch. \<open>None\<close> in the first component is the unimplemented function
  \<open>_FC_READ_EXCEPTION_STATUS\<close>, which sends nothing and fails with \<open>ENOPROTOOPT\<close>.
\<close>

definition reply_switch ::
  "'w modbus_backend \<Rightarrow> sft_t \<Rightarrow> u8 cbuf \<Rightarrow> int \<Rightarrow> int option \<Rightarrow> modbus_mapping_t
   \<Rightarrow> ((int \<times> u8 cbuf) option \<times> modbus_mapping_t) option" where
  "reply_switch be sft req req_length addr m =
     (let function = sft_function sft; send = map_option (map_prod Some id) in
      if function = FC_READ_COILS
      then send (do { a \<leftarrow> addr; reply_read_coils be sft req a m })
      else if function = FC_READ_DISCRETE_INPUTS
      then send (do { a \<leftarrow> addr; reply_read_discrete_inputs be sft req a m })
      else if function = FC_READ_HOLDING_REGISTERS
      then send (do { a \<leftarrow> addr; reply_read_holding_registers be sft req a m })
      else if function = FC_READ_INPUT_REGISTERS
      then send (do { a \<leftarrow> addr; reply_read_input_registers be sft req a m })
      else if function = FC_WRITE_SINGLE_COIL
      then send (do { a \<leftarrow> addr; reply_write_single_coil be sft req req_length a m })
      else if function = FC_WRITE_SINGLE_REGISTER
      then send (do { a \<leftarrow> addr; reply_write_single_register be sft req req_length a m })
      else if function = FC_WRITE_MULTIPLE_COILS
      then send (do { a \<leftarrow> addr; reply_write_multiple_coils be sft req a m })
      else if function = FC_WRITE_MULTIPLE_REGISTERS
      then send (do { a \<leftarrow> addr; reply_write_multiple_registers be sft req a m })
      else if function = FC_REPORT_SLAVE_ID
      then send (do { r \<leftarrow> reply_report_slave_id be sft; Some (r, m) })
      else if function = FC_READ_EXCEPTION_STATUS then Some (None, m)
      else if function = FC_WRITE_AND_READ_REGISTERS
      then send (do { a \<leftarrow> addr; reply_write_and_read_registers be sft req a m })
      else send (do { r \<leftarrow> response_exception be sft MODBUS_EXCEPTION_ILLEGAL_FUNCTION
                              (fresh MAX_MESSAGE_LENGTH);
                      Some (r, m) }))"

text \<open>
  The handler computes \<open>address\<close> before it looks at the function code. A request that carries no
  address leaves those two bytes of the array unset: the value is then indeterminate (\<open>None\<close>) and
  harmless, since the cases of such requests do not use it. The array must be long enough.
\<close>

definition modbus_reply ::
  "'w os \<Rightarrow> 'w modbus_backend \<Rightarrow> u8 cbuf \<Rightarrow> int \<Rightarrow> modbus_mapping_t \<Rightarrow> ('w, int \<times> modbus_mapping_t) exec" where
  "modbus_reply os be req req_length m st =
     (let offset = header_length be;
          address = do { h \<leftarrow> rd req (offset + 1); l \<leftarrow> rd req (offset + 2); Some (be16 h l) } in
      if int (length req) \<le> offset + 2 then None
      else do {
        s \<leftarrow> rd req (offset - 1);
        f \<leftarrow> rd req offset;
        (filtered, st) \<leftarrow> be_filter_request be (uint s) st;
        if filtered = 1 then Some ((0, m), st)
        else do {
          (t_id, req_length) \<leftarrow> be_prepare_response_tid be req req_length;
          let sft = \<lparr>sft_slave = uint s, sft_function = uint f, sft_t_id = t_id\<rparr>;
          (r, m) \<leftarrow> reply_switch be sft req req_length address m;
          (case r of
             None \<Rightarrow> Some ((-1, m), st\<lparr>errno := ENOPROTOOPT\<rparr>)
           | Some (rsp_length, rsp) \<Rightarrow> do {
               ((rc, _), st) \<leftarrow> send_msg os be rsp rsp_length st;
               Some ((rc, m), st) }) } })"

text \<open>The code is an \<open>unsigned int\<close>.\<close>

definition modbus_reply_exception ::
  "'w os \<Rightarrow> 'w modbus_backend \<Rightarrow> u8 cbuf \<Rightarrow> int \<Rightarrow> ('w, int) exec" where
  "modbus_reply_exception os be req exception_code st =
     (let offset = header_length be in
      do { s \<leftarrow> rd req (offset - 1);
           f \<leftarrow> rd req offset;
           (filtered, st) \<leftarrow> be_filter_request be (uint s) st;
           if filtered = 1 then Some (0, st)
           else do {
             (t_id, _) \<leftarrow> be_prepare_response_tid be req 99;
             let sft = \<lparr>sft_slave = uint s, sft_function = uint f + 0x80, sft_t_id = t_id\<rparr>;
             (rsp_length, rsp) \<leftarrow> be_build_response_basis be sft (fresh MAX_MESSAGE_LENGTH);
             if exception_code < MODBUS_EXCEPTION_MAX then do {
               rsp \<leftarrow> wr rsp rsp_length (byte exception_code);
               ((rc, _), st) \<leftarrow> send_msg os be rsp (rsp_length + 1) st;
               Some (rc, st) }
             else Some (-1, st\<lparr>errno := EINVAL\<rparr>) } })"

section \<open>Correctness of the building blocks\<close>

lemma byte_horner: "byte (horner_sum of_bool 2 bs) = horner_sum of_bool 2 bs"
  by (induction bs) (simp_all add: byte_def)

lemma horner_snoc:
  "horner_sum of_bool 2 bs OR push_bit (length bs) (of_bool b) = (horner_sum of_bool 2 (bs @ [b]) :: int)"
  by (rule bit_eqI)
     (auto simp: bit_simps bit_horner_sum_bit_iff nth_append less_Suc_eq bit_1_iff of_bool_def split: if_splits)

lemma io_status_loop:
  assumes "length acc < 8" "length ys + length (pack_bits (acc @ bs)) \<le> n"
    and "\<And>k. k < length bs \<Longrightarrow> rd tab (a + int k) = Some (of_bool (bs ! k))"
  shows "do { r \<leftarrow> for_range a (a + int (length bs)) (io_status_step tab)
                (horner_sum of_bool 2 acc, int (length acc), mkb n ys, int (length ys));
              io_status_last r }
     = Some (int (length ys + length (pack_bits (acc @ bs))), mkb n (ys @ map Some (pack_bits (acc @ bs))))"
  using assms
proof (induction bs arbitrary: acc ys a)
  case Nil
  show ?case
  proof (cases "acc = []")
    case True
    then show ?thesis by (simp add: io_status_last_def)
  next
    case False
    with Nil have "pack_bits acc = [horner_sum of_bool 2 acc]"
      by (simp add: pack_bits_byte)
    with False Nil show ?thesis
      by (simp add: io_status_last_def byte_horner wr_mkb_end)
  qed
next
  case (Cons b bs)
  let ?acc = "acc @ [b]"
  have rest: "rd tab (a + 1 + int k) = Some (of_bool (bs ! k))" if "k < length bs" for k
    using Cons.prems(3) [of "Suc k"] that by (simp add: algebra_simps)
  have rd: "rd tab a = Some (of_bool b)"
    using Cons.prems(3) [of 0] by simp
  have range: "a + int (length (b # bs)) = (a + 1) + int (length bs)" by simp
  have h: "horner_sum of_bool 2 acc OR push_bit (nat (int (length acc))) (uint (of_bool b :: u8))
      = horner_sum of_bool 2 ?acc"
    using horner_snoc [of acc b] by (cases b) (simp_all only: nat_int unsigned_0 unsigned_1 of_bool_eq)
  show ?case
  proof (cases "length acc = 7")
    case True
    then have pk: "pack_bits (acc @ b # bs) = horner_sum of_bool 2 ?acc # pack_bits bs"
      by (simp add: pack_bits_byte)
    then have step: "io_status_step tab a
        (horner_sum of_bool 2 acc, int (length acc), mkb n ys, int (length ys))
       = Some (0, 0, mkb n (ys @ [Some (horner_sum of_bool 2 ?acc)]), int (length ys) + 1)"
      using True Cons.prems(2) h by (simp add: io_status_step_def rd byte_horner wr_mkb_end del: horner_sum_append)
    show ?thesis
      using Cons.IH [of "[]" "ys @ [Some (horner_sum of_bool 2 ?acc)]" "a + 1"] Cons.prems(2) rest pk
      by (simp add: for_range_step step range ac_simps del: length_Cons)
  next
    case False
    then have step: "io_status_step tab a
        (horner_sum of_bool 2 acc, int (length acc), mkb n ys, int (length ys))
       = Some (horner_sum of_bool 2 ?acc, int (length ?acc), mkb n ys, int (length ys))"
      using h by (simp add: io_status_step_def rd)
    show ?thesis
      using Cons.IH [of ?acc ys "a + 1"] Cons.prems False rest
      by (simp add: for_range_step step range ac_simps del: length_Cons)
  qed
qed

lemma response_io_status_pack:
  assumes "a + q \<le> length bs" "length ys + length (pack_bits (take q (drop a bs))) \<le> n"
  shows "response_io_status (int a) (int q) (init (map of_bool bs)) (mkb n ys) (int (length ys))
     = Some (int (length ys + length (pack_bits (take q (drop a bs)))),
             mkb n (ys @ map Some (pack_bits (take q (drop a bs)))))"
proof -
  have "rd (init (map of_bool bs)) (int a + int k) = Some (of_bool (take q (drop a bs) ! k))"
    if "k < length (take q (drop a bs))" for k
    using that assms(1) by (simp add: rd_init nat_add_distrib)
  from io_status_loop [of "[]", OF _ _ this] assms show ?thesis
    by (simp add: response_io_status_def)
qed

lemma reg_low: "ucast (v AND 255) = (ucast (v :: u16) :: u8)"
proof -
  have m: "(255 :: u16) = mask 8" by (simp add: mask_eq_exp_minus_1)
  show ?thesis
    unfolding m by (rule bit_word_eqI) (auto simp: bit_simps)
qed

lemma put_registers_correct:
  assumes "length ys + 2 * length vs \<le> n"
    and "\<And>k. k < length vs \<Longrightarrow> rd tab (a + int k) = Some (vs ! k)"
  shows "put_registers tab a (int (length vs)) (int (length ys), mkb n ys)
     = Some (int (length ys + 2 * length vs), mkb n (ys @ map Some (regs_pdu vs)))"
  using assms
proof (induction vs arbitrary: a ys)
  case Nil
  then show ?case by (simp add: put_registers_def regs_pdu_def)
next
  case (Cons v vs)
  let ?ys = "ys @ [Some (ucast (drop_bit 8 v)), Some (ucast v)]"
  have "rd tab (a + 1 + int k) = Some (vs ! k)" if "k < length vs" for k
    using Cons.prems(2) [of "Suc k"] that by (simp add: algebra_simps)
  with Cons.IH [of ?ys "a + 1"] Cons.prems(1)
  have IH: "put_registers tab (a + 1) (int (length vs)) (int (length ?ys), mkb n ?ys)
      = Some (int (length ?ys + 2 * length vs), mkb n (?ys @ map Some (regs_pdu vs)))"
    by simp
  have rd: "rd tab a = Some v" using Cons.prems(2) [of 0] by simp
  have range: "a + int (length (v # vs)) = (a + 1) + int (length vs)" by simp
  from IH Cons.prems(1) show ?case
    unfolding put_registers_def range
    by (simp add: for_range_step rd wr_mkb_end reg_low regs_pdu_def reg_bytes_def algebra_simps
         del: length_Cons)
qed

lemma put_at_Nil [simp]: "put_at xs a [] = xs"
  by (simp add: put_at_def)

lemma fill_init: "a + length ys \<le> length xs \<Longrightarrow> fill (init xs) a ys = init (put_at xs a ys)"
  by (simp add: fill_def init_def put_at_def take_map drop_map)

lemma get_registers_correct:
  assumes "a + q \<le> length xs" "q \<le> length bs div 2"
    and "\<And>k. k < length bs \<Longrightarrow> rd req (p + int k) = Some (bs ! k)"
  shows "get_registers req p (int a) (int q) (init xs) = Some (init (put_at xs a (take q (pdu_regs bs))))"
proof -
  let ?body = "\<lambda>i (tab, j). do {
                 h \<leftarrow> rd req j; l \<leftarrow> rd req (j + 1);
                 tab \<leftarrow> wr tab i (word_of_int (be16 h l));
                 Some (tab, j + 2) }"
  let ?g = "\<lambda>i. (fill (init xs) a (take (nat (i - int a)) (pdu_regs bs)), p + 2 * (i - int a))"
  have step: "?body i (?g i) = Some (?g (i + 1))" if i: "int a \<le> i" "i < int a + int q" for i
  proof -
    from i obtain k where k: "i = int a + int k" "k < q"
      by (metis zle_iff_zadd add_less_cancel_left of_nat_less_iff)
    have "rd req (p + 2 * int k) = Some (bs ! (2 * k))" "rd req (p + 2 * int k + 1) = Some (bs ! (2 * k + 1))"
      using assms(3) [of "2 * k"] assms(3) [of "2 * k + 1"] k assms(2) by (simp_all add: algebra_simps)
    moreover have "take (Suc k) (pdu_regs bs) = take k (pdu_regs bs) @ [word_of_int (be16 (bs ! (2 * k)) (bs ! (2 * k + 1)))]"
      using k assms(2) by (simp add: take_Suc_conv_app_nth pdu_regs_nth)
    moreover have "nat (int k + 1) = Suc k" by simp
    ultimately show ?thesis
      using k assms(1,2) by (simp add: wr_fill algebra_simps)
  qed
  have "for_range (int a) (int a + int q) ?body (?g (int a)) = Some (?g (int a + int q))"
    by (rule for_range_steps) (use step in auto)
  then show ?thesis
    using assms(1,2) by (simp add: get_registers_def fill_init)
qed

section \<open>The server implements the device\<close>

text \<open>The mapping that represents a device.\<close>

definition of_device :: "device \<Rightarrow> modbus_mapping_t" where
  "of_device d =
     \<lparr>nb_bits = int (length (coils d)), nb_input_bits = int (length (inputs d)),
      nb_input_registers = int (length (input_regs d)), nb_registers = int (length (holding d)),
      tab_bits = init (map of_bool (coils d)), tab_input_bits = init (map of_bool (inputs d)),
      tab_input_registers = init (input_regs d), tab_registers = init (holding d)\<rparr>"

text \<open>
  The requests the theorem covers: frames the receiver accepts whose byte count covers the quantity
  of a multiple write. The handler does not check the latter (unlike the read-write request), so
  without it it would read request bytes that were never received.
\<close>

definition request_ok :: "u8 list \<Rightarrow> bool" where
  "request_ok pdu \<longleftrightarrow> well_formed MSG_INDICATION pdu \<and>
     (pdu ! 0 = 0x0F \<longrightarrow> field pdu 3 \<le> 8 * unat (pdu ! 5)) \<and>
     (pdu ! 0 = 0x10 \<longrightarrow> 2 * field pdu 3 \<le> unat (pdu ! 5))"

text \<open>A response, finished by the backend, is the frame; and a send that the recovery mode does not repeat.\<close>

definition builds :: "'w modbus_backend \<Rightarrow> int \<times> u8 cbuf \<Rightarrow> u8 list \<Rightarrow> bool" where
  "builds be r fr \<longleftrightarrow>
     be_send_msg_pre be (snd r) (fst r) = Some (int (length fr), mkb 260 (map Some fr))"

definition sends :: "(int \<Rightarrow> u8 list \<Rightarrow> 'w \<Rightarrow> (int + int) \<times> 'w) \<Rightarrow> 'w mstate \<Rightarrow> bool" where
  "sends put st \<longleftrightarrow> (recovery_link st \<longrightarrow>
     (\<forall>bs. fst (c_ret (put (mb_s (ctx st)) bs (world st)) st) \<noteq> -1))"

lemma recovery_link_c_ret [simp]: "recovery_link (snd (c_ret r st)) = recovery_link st"
  by (simp add: recovery_link_def)

lemma byte_exception: "byte (uint f + 0x80) = f + 0x80"
  by (simp add: byte_def)

lemma byte_of_nat: "byte (int n) = word_of_nat n"
  by (simp add: byte_def)

lemma ceil_div_8: "x div 8 + (if x mod 8 \<noteq> 0 then 1 else 0) = (x + 7) div 8" for x :: int
proof -
  define q r where "q = x div 8" "r = x mod 8"
  then have x: "x = r + q * 8" "0 \<le> r" "r < 8" by simp_all
  have "(x + 7) div 8 = q + (r + 7) div 8"
    unfolding x(1) by (simp add: algebra_simps)
  moreover have "(r + 7) div 8 = (if r \<noteq> 0 then 1 else 0)"
    using x(2,3) by (simp add: div_pos_geq)
  ultimately show ?thesis by (simp add: q_r_def)
qed

lemma byte_count_pack: "byte_count_of_bits (int (length bs)) = int (length (pack_bits bs))"
  by (simp only: byte_count_nonneg ceil_div_8 length_pack_bits zdiv_int of_nat_0_le_iff of_nat_add of_nat_numeral)

context framing
begin

text \<open>A message under construction: the header and the PDU built so far, in an array of \<open>n\<close>.\<close>

definition draft :: "nat \<Rightarrow> int \<Rightarrow> u8 \<Rightarrow> u8 list \<Rightarrow> u8 cbuf" where
  "draft n t a pdu = mkb n (hdr t a @ map Some pdu)"

lemma finish_draft:
  "pdu \<noteq> [] \<Longrightarrow> length pdu \<le> 253 \<Longrightarrow> H + length pdu + C \<le> n \<Longrightarrow>
   be_send_msg_pre be (draft n t a pdu) (int (H + length pdu))
     = Some (int (H + length pdu + C), mkb n (map Some (frame t a pdu)))"
  unfolding draft_def by (rule finish)

lemma builds_draft:
  "pdu \<noteq> [] \<Longrightarrow> length pdu \<le> 253 \<Longrightarrow>
   builds be (int (H + length pdu), draft 260 t a pdu) (frame t a pdu)"
  using finish_draft [of pdu 260 t a] room by (simp add: builds_def length_frame)

lemma put_byte:
  "i = int (H + length pdu) \<Longrightarrow> H + length pdu < n \<Longrightarrow>
   wr (draft n t a pdu) i x = Some (draft n t a (pdu @ [x]))"
  using wr_mkb_end [of i "hdr t a @ map Some pdu" n x] by (simp add: length_hdr draft_def)

lemma put_bytes:
  "i = int (H + length pdu) \<Longrightarrow> H + length pdu + length xs \<le> n \<Longrightarrow>
   wrs (draft n t a pdu) i xs = Some (draft n t a (pdu @ xs))"
  using wrs_mkb_end [of i "hdr t a @ map Some pdu" xs n] by (simp add: length_hdr draft_def)

lemma replace_byte:
  assumes "k < length pdu" "H + length pdu \<le> n"
  shows "wr (draft n t a pdu) (int (H + k)) x = Some (draft n t a (pdu[k := x]))"
proof -
  have "(hdr t a @ map Some pdu)[H + k := Some x] = hdr t a @ map Some (pdu[k := x])"
    using length_hdr [of t a] by (simp add: list_update_append map_update)
  with wr_mkb_in [of "int (H + k)" "hdr t a @ map Some pdu" n x] assms show ?thesis
    by (simp add: length_hdr draft_def nat_add_distrib)
qed

lemma put_bits:
  assumes "i = int (H + length pdu)" "data = pack_bits (take q (drop k bs))"
    and "k + q \<le> length bs" "H + length pdu + length data \<le> n"
  shows "response_io_status (int k) (int q) (init (map of_bool bs)) (draft n t a pdu) i
     = Some (int (H + length (pdu @ data)), draft n t a (pdu @ data))"
  using response_io_status_pack [of k q bs "hdr t a @ map Some pdu" n] assms
  by (simp add: draft_def length_hdr)

lemma put_regs:
  assumes "i = int (H + length pdu)" "q = int (length vs)"
    and "\<And>k. k < length vs \<Longrightarrow> rd tab (p + int k) = Some (vs ! k)"
    and "H + length pdu + 2 * length vs \<le> n"
  shows "put_registers tab p q (i, draft n t a pdu)
     = Some (int (H + length (pdu @ regs_pdu vs)), draft n t a (pdu @ regs_pdu vs))"
  using put_registers_correct [of "hdr t a @ map Some pdu" vs n tab p] assms
  by (simp add: draft_def length_hdr)

lemma send_built:
  assumes "builds be (len, buf) fr" "length fr \<le> 260" "sends put st"
  defines "r \<equiv> c_ret (put (mb_s (ctx st)) fr (world st)) st"
  shows "send_msg os be buf len st = Some ((fst r, mkb 260 (map Some fr)), snd r)"
proof -
  have "be_send be (mkb 260 (map Some fr)) (int (length fr)) st = Some r"
    using transmit [of fr 260 st] assms(2) by (simp add: r_def)
  moreover have "\<not> (fst r = -1 \<and> recovery_link (snd r))"
    using assms(3) by (auto simp: r_def sends_def)
  ultimately have "send_loop os be (mkb 260 (map Some fr)) (int (length fr)) st = Some r"
    by (subst send_loop.simps) (cases r; auto)
  with assms(1) show ?thesis
    by (cases r) (simp add: send_msg_def builds_def)
qed

end

text \<open>No answer of the device exceeds the 253 bytes of a PDU.\<close>

lemma exception_length: "length (exception_pdu f c) = 2"
  by (simp add: exception_pdu_def)

lemma serve_bits_length: "length (serve_bits pdu tab) \<le> 252"
proof -
  have "field pdu 3 \<le> 2000 \<Longrightarrow> length (pack_bits (take (field pdu 3) (drop (field pdu 1) tab))) \<le> 250"
    unfolding length_pack_bits by (simp only: length_take)
  then show ?thesis
    by (auto simp: serve_bits_def Let_def exception_length)
qed

lemma serve_regs_length: "length (serve_regs pdu tab) \<le> 252"
  by (auto simp: serve_regs_def Let_def exception_length)

lemma serve_length:
  assumes "request_ok pdu" "fst (serve pdu d) = Some rsp"
  shows "length rsp \<le> 253"
proof -
  have "length pdu \<le> 253"
    using assms(1) by (simp add: request_ok_def well_formed_def)
  moreover have "length (serve_bits pdu tab) \<le> 253" "length (serve_regs pdu tab') \<le> 253" for tab tab'
    using serve_bits_length [of pdu tab] serve_regs_length [of pdu tab'] by simp_all
  ultimately show ?thesis
    using assms(2)
    by (auto simp: serve_def Let_def exception_length serve_write_coil_def serve_write_register_def
        serve_write_coils_def serve_write_registers_def serve_write_and_read_def slave_id_pdu_def
        split: if_splits)
qed

context server_link
begin

text \<open>The request as a case of the switch sees it: an array that reads as the PDU behind the header.\<close>

definition carries :: "u8 cbuf \<Rightarrow> u8 list \<Rightarrow> bool" where
  "carries b pdu \<longleftrightarrow> (\<forall>k < length pdu. rd b (int H + int k) = Some (pdu ! k))"

definition sft_of :: "int \<Rightarrow> u8 \<Rightarrow> u8 \<Rightarrow> sft_t" where
  "sft_of t a f = \<lparr>sft_slave = uint a, sft_function = uint f, sft_t_id = reply_tid t\<rparr>"

lemma carries_rd: "carries b pdu \<Longrightarrow> k < length pdu \<Longrightarrow> rd b (int H + int k) = Some (pdu ! k)"
  by (simp add: carries_def)

lemma carries_quantity:
  assumes "carries b pdu" "5 \<le> length pdu"
  shows "rd b (int H + 3) = Some (pdu ! 3)" "rd b (int H + 4) = Some (pdu ! 4)"
    "be16 (pdu ! 3) (pdu ! 4) = int (field pdu 3)"
  using carries_rd [OF assms(1), of 3] carries_rd [OF assms(1), of 4] assms(2) by (simp_all add: field_def)

lemma basis_of:
  "be_build_response_basis be (sft_of t a f) (fresh 260) = Some (int (H + 1), draft 260 (reply_tid t) a [f])"
  using response_basis [of 260 "sft_of t a f"] room by (simp add: sft_of_def draft_def)

lemma reply_builds:
  "pdu \<noteq> [] \<Longrightarrow> length pdu \<le> 253 \<Longrightarrow> i = int (H + length pdu) \<Longrightarrow>
   builds be (i, draft 260 (reply_tid t) a pdu) (frame t a pdu)"
  using builds_draft [of pdu "reply_tid t" a] by (simp add: frame_reply_tid)

lemma exception_builds:
  "\<exists>r. response_exception be (sft_of t a f) (int code) (fresh 260) = Some r \<and>
     builds be r (frame t a (exception_pdu f (word_of_nat code)))"
proof -
  have "be_build_response_basis be ((sft_of t a f)\<lparr>sft_function := uint f + 0x80\<rparr>) (fresh 260)
     = Some (int (H + 1), draft 260 (reply_tid t) a [f + 0x80])"
    using response_basis [of 260 "(sft_of t a f)\<lparr>sft_function := uint f + 0x80\<rparr>"] room
    by (simp add: sft_of_def draft_def byte_exception)
  then have "response_exception be (sft_of t a f) (int code) (fresh 260)
     = Some (int (H + 2), draft 260 (reply_tid t) a (exception_pdu f (word_of_nat code)))"
    using room
    by (simp add: response_exception_def sft_of_def put_byte byte_of_nat exception_pdu_def)
  with reply_builds [of "exception_pdu f (word_of_nat code)" "int (H + 2)" t a] show ?thesis
    by (simp add: exception_pdu_def)
qed

lemma illegal_value:
  "\<exists>r. response_exception be (sft_of t a f) 3 (fresh 260) = Some r \<and>
     builds be r (frame t a (exception_pdu f ILLEGAL_VALUE))"
  using exception_builds [of t a f 3] by simp

lemma illegal_address:
  "\<exists>r. response_exception be (sft_of t a f) 2 (fresh 260) = Some r \<and>
     builds be r (frame t a (exception_pdu f ILLEGAL_ADDRESS))"
  using exception_builds [of t a f 2] by simp

lemma illegal_function:
  "\<exists>r. response_exception be (sft_of t a f) 1 (fresh 260) = Some r \<and>
     builds be r (frame t a (exception_pdu f ILLEGAL_FUNCTION))"
  using exception_builds [of t a f 1] by simp

lemma bits_reply:
  assumes "carries b pdu" "length pdu = 5"
  shows "\<exists>r. reply_bits be (sft_of t a (pdu ! 0)) b (int (field pdu 1)) (int (length tab))
      (init (map of_bool tab)) = Some r \<and> builds be r (frame t a (serve_bits pdu tab))"
proof -
  let ?q = "field pdu 3" and ?f = "pdu ! 0"
  let ?data = "pack_bits (take ?q (drop (field pdu 1) tab))"
  note q = carries_quantity [OF assms(1)]
  consider (bad) "?q < 1 \<or> 2000 < ?q"
    | (address) "1 \<le> ?q" "?q \<le> 2000" "length tab < field pdu 1 + ?q"
    | (data) "1 \<le> ?q" "?q \<le> 2000" "field pdu 1 + ?q \<le> length tab"
    by linarith
  then show ?thesis
  proof cases
    case bad
    with q assms(2) illegal_value [of t a ?f] show ?thesis
      by (simp add: reply_bits_def serve_bits_def header_length Let_def)
  next
    case address
    with q assms(2) illegal_address [of t a ?f] show ?thesis
      by (simp add: reply_bits_def serve_bits_def header_length Let_def flip: of_nat_add)
  next
    case data
    let ?rsp = "?f # word_of_nat (length ?data) # ?data"
    have n: "length (take ?q (drop (field pdu 1) tab)) = ?q" using data by (auto simp: min_def)
    have "(?q + 7) div 8 \<le> 250" using data by linarith
    moreover have "length ?data = (?q + 7) div 8" by (simp only: length_pack_bits n)
    ultimately have len: "length ?rsp \<le> 253" by (simp only: length_Cons)
    have "byte (byte_count_of_bits (int ?q)) = word_of_nat (length ?data)"
      using byte_count_pack [of "take ?q (drop (field pdu 1) tab)"] n by (simp only: byte_of_nat)
    then have "reply_bits be (sft_of t a ?f) b (int (field pdu 1)) (int (length tab)) (init (map of_bool tab))
       = Some (int (H + length ?rsp), draft 260 (reply_tid t) a ?rsp)"
      using data assms(2) q len room
        put_bits [of _ "[?f, word_of_nat (length ?data)]" _ ?q "field pdu 1" tab 260]
      by (simp add: reply_bits_def header_length basis_of put_byte not_less flip: of_nat_add)
    moreover have "serve_bits pdu tab = ?rsp"
      using data by (simp add: serve_bits_def Let_def not_less)
    ultimately show ?thesis
      using reply_builds [OF _ len refl, of t a] by simp
  qed
qed

lemma registers_reply:
  assumes "carries b pdu" "length pdu = 5"
  shows "\<exists>r. reply_registers be (sft_of t a (pdu ! 0)) b (int (field pdu 1)) (int (length tab))
      (init tab) = Some r \<and> builds be r (frame t a (serve_regs pdu tab))"
proof -
  let ?q = "field pdu 3" and ?f = "pdu ! 0"
  let ?data = "take ?q (drop (field pdu 1) tab)"
  note q = carries_quantity [OF assms(1)]
  consider (bad) "?q < 1 \<or> 125 < ?q"
    | (address) "1 \<le> ?q" "?q \<le> 125" "length tab < field pdu 1 + ?q"
    | (data) "1 \<le> ?q" "?q \<le> 125" "field pdu 1 + ?q \<le> length tab"
    by linarith
  then show ?thesis
  proof cases
    case bad
    with q assms(2) illegal_value [of t a ?f] show ?thesis
      by (simp add: reply_registers_def serve_regs_def header_length Let_def)
  next
    case address
    with q assms(2) illegal_address [of t a ?f] show ?thesis
      by (simp add: reply_registers_def serve_regs_def header_length Let_def flip: of_nat_add)
  next
    case data
    let ?rsp = "?f # word_of_nat (2 * ?q) # regs_pdu ?data"
    have n: "length ?data = ?q" using data by (auto simp: min_def)
    then have len: "length ?rsp \<le> 253" using data by (simp del: length_take)
    have "byte (push_bit 1 (int ?q)) = word_of_nat (2 * ?q)"
      by (simp add: push_bit_eq_mult byte_def)
    moreover have "put_registers (init tab) (int (field pdu 1)) (int ?q)
        (int (H + 2), draft 260 (reply_tid t) a [?f, word_of_nat (2 * ?q)])
      = Some (int (H + length ?rsp), draft 260 (reply_tid t) a ?rsp)"
      using put_regs [of "int (H + 2)" "[?f, word_of_nat (2 * ?q)]" "int ?q" ?data "init tab" "int (field pdu 1)" 260 "reply_tid t" a]
        data n room by (simp add: rd_init nat_add_distrib del: length_take)
    ultimately have "reply_registers be (sft_of t a ?f) b (int (field pdu 1)) (int (length tab)) (init tab)
       = Some (int (H + length ?rsp), draft 260 (reply_tid t) a ?rsp)"
      using data assms(2) q room
      by (simp add: reply_registers_def header_length basis_of put_byte not_less flip: of_nat_add)
    moreover have "serve_regs pdu tab = ?rsp"
      using data by (simp add: serve_regs_def Let_def not_less)
    ultimately show ?thesis
      using reply_builds [OF _ len refl, of t a] by simp
  qed
qed

lemma wr_init: "k < length xs \<Longrightarrow> wr (init xs) (int k) x = Some (init (xs[k := x]))"
  by (simp add: wr_def init_def map_update)

text \<open>The single writes echo the request.\<close>

lemma echo_builds:
  assumes "0 < length pdu" "length pdu \<le> 253"
  shows "\<exists>r. echo_request (mkb 260 (map Some (frame t a pdu))) (int (H + length pdu)) = Some r \<and>
     builds be r (frame t a pdu)"
proof -
  have "rds (mkb 260 (map Some (frame t a pdu))) 0 (H + length pdu) = Some (take (H + length pdu) (frame t a pdu))"
    using rds_mkb_init [of 0 "H + length pdu" "frame t a pdu" 260] by (simp add: length_frame)
  moreover have "wrs (fresh 260) 0 (take (H + length pdu) (frame t a pdu))
      = Some (mkb 260 (map Some (take (H + length pdu) (frame t a pdu))))"
    using wrs_mkb_end [of 0 "[]" "take (H + length pdu) (frame t a pdu)" 260] assms(2) room
    by (simp add: fresh_mkb length_frame)
  ultimately have "echo_request (mkb 260 (map Some (frame t a pdu))) (int (H + length pdu))
      = Some (int (H + length pdu), mkb 260 (map Some (take (H + length pdu) (frame t a pdu))))"
    by (simp add: echo_request_def memcpy_def nat_add_distrib)
  with echo [of pdu 260 t a] assms room show ?thesis
    by (simp add: builds_def length_frame)
qed

lemma coil_reply:
  assumes "carries (mkb 260 (map Some (frame t a pdu))) pdu" "length pdu = 5"
  shows "\<exists>r. reply_write_single_coil be (sft_of t a (pdu ! 0)) (mkb 260 (map Some (frame t a pdu)))
       (int (H + length pdu)) (int (field pdu 1)) (of_device d)
     = Some (r, of_device (snd (serve_write_coil pdu d))) \<and>
       builds be r (frame t a (fst (serve_write_coil pdu d)))"
proof -
  note q = carries_quantity [OF assms(1)]
  consider (address) "length (coils d) \<le> field pdu 1"
    | (bad) "field pdu 1 < length (coils d)" "field pdu 3 \<noteq> 0xFF00" "field pdu 3 \<noteq> 0"
    | (ok) "field pdu 1 < length (coils d)" "field pdu 3 = 0xFF00 \<or> field pdu 3 = 0"
    by linarith
  then show ?thesis
  proof cases
    case address
    with illegal_address [of t a "pdu ! 0"] show ?thesis
      by (auto simp: reply_write_single_coil_def serve_write_coil_def of_device_def Let_def)
  next
    case bad
    with q assms(2) illegal_value [of t a "pdu ! 0"] show ?thesis
      by (auto simp: reply_write_single_coil_def serve_write_coil_def of_device_def header_length Let_def)
  next
    case ok
    from echo_builds [of pdu t a] assms(2) obtain r where
      r: "echo_request (mkb 260 (map Some (frame t a pdu))) (int (H + length pdu)) = Some r"
        "builds be r (frame t a pdu)" by auto
    from ok have "wr (init (map of_bool (coils d))) (int (field pdu 1)) (if int (field pdu 3) \<noteq> 0 then 1 else 0)
      = Some (init (map of_bool ((coils d)[field pdu 1 := (field pdu 3 \<noteq> 0)])) :: u8 cbuf)"
      by (simp add: wr_init map_update)
    with ok r q assms(2) show ?thesis
      by (auto simp: reply_write_single_coil_def serve_write_coil_def of_device_def header_length Let_def)
  qed
qed

lemma register_reply:
  assumes "carries (mkb 260 (map Some (frame t a pdu))) pdu" "length pdu = 5"
  shows "\<exists>r. reply_write_single_register be (sft_of t a (pdu ! 0)) (mkb 260 (map Some (frame t a pdu)))
       (int (H + length pdu)) (int (field pdu 1)) (of_device d)
     = Some (r, of_device (snd (serve_write_register pdu d))) \<and>
       builds be r (frame t a (fst (serve_write_register pdu d)))"
proof (cases "length (holding d) \<le> field pdu 1")
  case True
  with illegal_address [of t a "pdu ! 0"] show ?thesis
    by (auto simp: reply_write_single_register_def serve_write_register_def of_device_def Let_def)
next
  case False
  note q = carries_quantity [OF assms(1)]
  from echo_builds [of pdu t a] assms(2) obtain r where
    r: "echo_request (mkb 260 (map Some (frame t a pdu))) (int (H + length pdu)) = Some r"
      "builds be r (frame t a pdu)" by auto
  with False q assms(2) show ?thesis
    by (auto simp: reply_write_single_register_def serve_write_register_def of_device_def header_length
        Let_def wr_init)
qed

text \<open>The multiple writes answer with the head of the request.\<close>

lemma rds_carries:
  "carries b pdu \<Longrightarrow> k + m \<le> length pdu \<Longrightarrow> rds b (int H + int k) m = Some (take m (drop k pdu))"
proof (induction m arbitrary: k)
  case 0
  then show ?case by simp
next
  case (Suc m)
  then have "rds b (int H + int (Suc k)) m = Some (take m (drop (Suc k) pdu))"
    by (intro Suc.IH) auto
  then have tail: "rds b (int H + int k + 1) m = Some (take m (drop (Suc k) pdu))"
    by (simp only: of_nat_Suc ac_simps)
  have "drop k pdu = pdu ! k # drop (Suc k) pdu"
    using Suc.prems by (intro Cons_nth_drop_Suc [symmetric]) simp
  then show ?case
    using Suc.prems carries_rd [of b pdu k] by (simp add: tail)
qed

lemma written_builds:
  assumes "carries b pdu" "5 \<le> length pdu"
  shows "\<exists>r. reply_written be (sft_of t a (pdu ! 0)) b = Some r \<and> builds be r (frame t a (take 5 pdu))"
proof -
  have hd: "take 5 pdu = pdu ! 0 # take 4 (drop 1 pdu)"
    using assms(2) by (cases pdu) simp_all
  have "rds b (int (H + 1)) 4 = Some (take 4 (drop 1 pdu))"
    using rds_carries [OF assms(1), of 1 4] assms(2) by (simp add: add.commute)
  moreover have "wrs (draft 260 (reply_tid t) a [pdu ! 0]) (int (H + 1)) (take 4 (drop 1 pdu))
      = Some (draft 260 (reply_tid t) a (take 5 pdu))"
    using put_bytes [of "int (H + 1)" "[pdu ! 0]" "take 4 (drop 1 pdu)" 260 "reply_tid t" a] room
    by (simp add: hd)
  ultimately have "reply_written be (sft_of t a (pdu ! 0)) b
      = Some (int (H + 5), draft 260 (reply_tid t) a (take 5 pdu))"
    by (simp add: reply_written_def basis_of memcpy_def)
  with reply_builds [of "take 5 pdu" "int (H + 5)" t a] assms(2) show ?thesis
    by (cases "pdu = []") simp_all
qed

lemma carries_tail:
  "carries b pdu \<Longrightarrow> n + k < length pdu \<Longrightarrow> rd b (int H + int n + int k) = Some (drop n pdu ! k)"
  using carries_rd [of b pdu "n + k"] by (simp add: ac_simps)

lemma coils_reply:
  assumes "carries b pdu" "length pdu = 6 + unat (pdu ! 5)" "field pdu 3 \<le> 8 * unat (pdu ! 5)"
  shows "\<exists>r. reply_write_multiple_coils be (sft_of t a (pdu ! 0)) b (int (field pdu 1)) (of_device d)
     = Some (r, of_device (snd (serve_write_coils pdu d))) \<and>
       builds be r (frame t a (fst (serve_write_coils pdu d)))"
proof (cases "length (coils d) < field pdu 1 + field pdu 3")
  case True
  with carries_quantity [OF assms(1)] assms(2) illegal_address [of t a "pdu ! 0"] show ?thesis
    by (auto simp: reply_write_multiple_coils_def serve_write_coils_def of_device_def header_length Let_def
        simp flip: of_nat_add)
next
  case False
  let ?bits = "map (\<lambda>k. bit (drop 6 pdu ! (k div 8)) (k mod 8)) [0..<field pdu 3]"
  have "rd b (int H + 6 + int k div 8) = Some (drop 6 pdu ! (k div 8))" if "k < field pdu 3" for k
    using carries_tail [OF assms(1), of 6 "k div 8"] that assms(2,3) by (simp add: zdiv_int)
  then have "modbus_set_bits_from_bytes (init (map of_bool (coils d))) (int (field pdu 1)) (int (field pdu 3))
      (\<lambda>k. rd b (int H + 6 + k))
     = Some (fill (init (map of_bool (coils d))) (field pdu 1) (unpack (drop 6 pdu) (field pdu 3)))"
    using False by (intro set_bits_from_bytes_fill) simp_all
  also have "unpack (drop 6 pdu) (field pdu 3) = map of_bool ?bits"
    by (simp add: unpack_def bit_at_def)
  also have "fill (init (map of_bool (coils d))) (field pdu 1) (map of_bool ?bits)
     = init (map of_bool (put_at (coils d) (field pdu 1) ?bits))"
    using False by (subst fill_init) (auto simp: put_at_def take_map drop_map)
  finally have set: "modbus_set_bits_from_bytes (init (map of_bool (coils d))) (int (field pdu 1))
      (int (field pdu 3)) (\<lambda>k. rd b (int H + 6 + k))
     = Some (init (map of_bool (put_at (coils d) (field pdu 1) ?bits)))" .
  from written_builds [OF assms(1), of t a] assms(2) obtain r where
    "reply_written be (sft_of t a (pdu ! 0)) b = Some r" "builds be r (frame t a (take 5 pdu))" by auto
  with False set carries_quantity [OF assms(1)] assms(2) show ?thesis
    by (auto simp: reply_write_multiple_coils_def serve_write_coils_def of_device_def header_length Let_def
        simp flip: of_nat_add)
qed

lemma write_registers_reply:
  assumes "carries b pdu" "length pdu = 6 + unat (pdu ! 5)" "2 * field pdu 3 \<le> unat (pdu ! 5)"
  shows "\<exists>r. reply_write_multiple_registers be (sft_of t a (pdu ! 0)) b (int (field pdu 1)) (of_device d)
     = Some (r, of_device (snd (serve_write_registers pdu d))) \<and>
       builds be r (frame t a (fst (serve_write_registers pdu d)))"
proof (cases "length (holding d) < field pdu 1 + field pdu 3")
  case True
  with carries_quantity [OF assms(1)] assms(2) illegal_address [of t a "pdu ! 0"] show ?thesis
    by (auto simp: reply_write_multiple_registers_def serve_write_registers_def of_device_def header_length Let_def
        simp flip: of_nat_add)
next
  case False
  have "get_registers b (int H + 6) (int (field pdu 1)) (int (field pdu 3)) (init (holding d))
     = Some (init (put_at (holding d) (field pdu 1) (take (field pdu 3) (pdu_regs (drop 6 pdu)))))"
    using False assms(2,3) carries_tail [OF assms(1), of 6]
    by (intro get_registers_correct) auto
  moreover from written_builds [OF assms(1), of t a] assms(2) obtain r where
    "reply_written be (sft_of t a (pdu ! 0)) b = Some r" "builds be r (frame t a (take 5 pdu))" by auto
  ultimately show ?thesis
    using False carries_quantity [OF assms(1)] assms(2,3)
    by (auto simp: reply_write_multiple_registers_def serve_write_registers_def of_device_def header_length Let_def
        min_def simp flip: of_nat_add)
qed

text \<open>The byte count of the slave identification is written last, into the gap left for it.\<close>

lemma slave_id_reply:
  "\<exists>r. reply_report_slave_id be (sft_of t a 0x11) = Some r \<and> builds be r (frame t a slave_id_pdu)"
proof -
  let ?h = "hdr (reply_tid t) a @ [Some 0x11]"
  let ?ys = "?h @ [None, Some 180, Some 0xFF] @ map Some LMB_VERSION"
  have h: "length (hdr (reply_tid t) a) = H" by (rule length_hdr)
  have ver: "length LMB_VERSION = 8" by (simp add: LMB_VERSION_def)
  have w1: "wr (mkb 260 ?h) (int H + 2) (byte 180) = Some (mkb 260 (?h @ [None, Some 180]))"
    using room h by (simp add: wr_mkb_gap byte_def nat_add_distrib)
  have w2: "wr (mkb 260 (?h @ [None, Some 180])) (int H + 3) 0xFF = Some (mkb 260 (?h @ [None, Some 180, Some 0xFF]))"
    using room h by (simp add: wr_mkb_end)
  have w3: "wrs (mkb 260 (?h @ [None, Some 180, Some 0xFF])) (int H + 4) LMB_VERSION = Some (mkb 260 ?ys)"
    using room h ver by (subst wrs_mkb_end) simp_all
  have w4: "wr (mkb 260 ?ys) (int H + 1) (byte 10) = Some (draft 260 (reply_tid t) a slave_id_pdu)"
    using room h ver
    by (subst wr_mkb_in)
       (simp_all add: byte_def nat_add_distrib list_update_append draft_def slave_id_pdu_def LMB_VERSION_def)
  have "reply_report_slave_id be (sft_of t a 0x11)
      = Some (int (H + length slave_id_pdu), draft 260 (reply_tid t) a slave_id_pdu)"
    using w1 w2 w3 w4 ver
    by (simp add: reply_report_slave_id_def basis_of Let_def slave_id_pdu_def ac_simps)
       (simp add: draft_def)
  with reply_builds [of slave_id_pdu _ t a, OF _ _ refl] show ?thesis
    by (simp add: slave_id_pdu_def)
qed

lemma write_and_read_reply:
  assumes "carries b pdu" "length pdu = 10 + unat (pdu ! 9)"
  shows "\<exists>r. reply_write_and_read_registers be (sft_of t a (pdu ! 0)) b (int (field pdu 1)) (of_device d)
     = Some (r, of_device (snd (serve_write_and_read pdu d))) \<and>
       builds be r (frame t a (fst (serve_write_and_read pdu d)))"
proof -
  let ?f = "pdu ! 0" and ?a = "field pdu 1" and ?q = "field pdu 3" and ?aw = "field pdu 5"
    and ?qw = "field pdu 7" and ?n = "length (holding d)"
  let ?regs = "put_at (holding d) ?aw (take ?qw (pdu_regs (drop 10 pdu)))"
  let ?data = "take ?q (drop ?a ?regs)"
  note q = carries_quantity [OF assms(1)]
  have w: "rd b (int H + 5) = Some (pdu ! 5)" "rd b (int H + 6) = Some (pdu ! 6)"
    "rd b (int H + 7) = Some (pdu ! 7)" "rd b (int H + 8) = Some (pdu ! 8)"
    "rd b (int H + 9) = Some (pdu ! 9)"
    using carries_rd [OF assms(1), of 5] carries_rd [OF assms(1), of 6] carries_rd [OF assms(1), of 7]
      carries_rd [OF assms(1), of 8] carries_rd [OF assms(1), of 9] assms(2) by simp_all
  have f: "be16 (pdu ! 5) (pdu ! 6) = int ?aw" "be16 (pdu ! 7) (pdu ! 8) = int ?qw"
    by (simp_all add: field_def)
  have unat_num: "uint (pdu ! 9) = int (unat (pdu ! 9))" by simp
  have cnt: "(uint (pdu ! 9) \<noteq> int ?qw * 2) = (unat (pdu ! 9) \<noteq> 2 * ?qw)"
    unfolding unat_num by arith
  let ?bad = "?qw < 1 \<or> 121 < ?qw \<or> ?q < 1 \<or> 125 < ?q \<or> unat (pdu ! 9) \<noteq> 2 * ?qw"
  note evaluate = reply_write_and_read_registers_def of_device_def header_length Let_def q w f cnt
  consider (bad) ?bad | (address) "\<not> ?bad" "?n < ?a + ?q \<or> ?n < ?aw + ?qw"
    | (data) "\<not> ?bad" "?a + ?q \<le> ?n" "?aw + ?qw \<le> ?n"
    by linarith
  then show ?thesis
  proof cases
    case bad
    then have "serve_write_and_read pdu d = (exception_pdu ?f ILLEGAL_VALUE, d)"
      by (simp add: serve_write_and_read_def Let_def)
    with bad assms(2) illegal_value [of t a ?f] show ?thesis
      by (auto simp: evaluate)
  next
    case address
    then have "serve_write_and_read pdu d = (exception_pdu ?f ILLEGAL_ADDRESS, d)"
      by (simp add: serve_write_and_read_def Let_def)
    with address assms(2) illegal_address [of t a ?f] show ?thesis
      by (auto simp: evaluate simp flip: of_nat_add)
  next
    case data
    let ?rsp = "?f # word_of_nat (2 * ?q) # regs_pdu ?data"
    have regs: "length ?regs = ?n" using data assms(2) by simp
    have n: "length ?data = ?q" using data by (simp only: length_take length_drop regs)
    then have len: "length ?rsp \<le> 253" using data by (simp del: length_take)
    have "byte (push_bit 1 (int ?q)) = word_of_nat (2 * ?q)"
      by (simp add: push_bit_eq_mult byte_def)
    moreover have "get_registers b (int H + 10) (int ?aw) (int ?qw) (init (holding d)) = Some (init ?regs)"
      using data assms(2) carries_tail [OF assms(1), of 10] by (intro get_registers_correct) auto
    moreover have "put_registers (init ?regs) (int ?a) (int ?q)
        (int (H + 2), draft 260 (reply_tid t) a [?f, word_of_nat (2 * ?q)])
      = Some (int (H + length ?rsp), draft 260 (reply_tid t) a ?rsp)"
    proof -
      have "rd (init ?regs) (int ?a + int k) = Some (?data ! k)" if "k < length ?data" for k
      proof -
        have "k < ?q" using that unfolding n .
        then show ?thesis
          using data regs by (simp add: rd_init nat_add_distrib)
      qed
      with put_regs [of "int (H + 2)" "[?f, word_of_nat (2 * ?q)]" "int ?q" ?data "init ?regs" "int ?a" 260 "reply_tid t" a]
        data n room show ?thesis by (simp del: length_take)
    qed
    ultimately have "reply_write_and_read_registers be (sft_of t a ?f) b (int ?a) (of_device d)
       = Some ((int (H + length ?rsp), draft 260 (reply_tid t) a ?rsp), of_device (d\<lparr>holding := ?regs\<rparr>))"
      using data assms(2) room regs
      by (simp add: evaluate basis_of put_byte not_less flip: of_nat_add)
    moreover have "serve_write_and_read pdu d = (?rsp, d\<lparr>holding := ?regs\<rparr>)"
      using data by (simp add: serve_write_and_read_def Let_def not_less)
    ultimately show ?thesis
      using reply_builds [OF _ len refl, of t a] by simp
  qed
qed

text \<open>The whole switch: the response it builds is the frame of the device's answer.\<close>

lemma switch_serves:
  assumes ok: "request_ok pdu" and b: "b = mkb 260 (map Some (frame t a pdu))"
  shows "\<exists>r. reply_switch be (sft_of t a (pdu ! 0)) b (int (H + length pdu))
       (do { h \<leftarrow> rd b (int H + 1); l \<leftarrow> rd b (int H + 2); Some (be16 h l) }) (of_device d)
     = Some (r, of_device (snd (serve pdu d))) \<and>
       (case fst (serve pdu d) of
          None \<Rightarrow> r = None
        | Some rsp \<Rightarrow> \<exists>r'. r = Some r' \<and> builds be r' (frame t a rsp))"
proof -
  let ?f = "pdu ! 0"
  have crr: "carries b pdu"
    by (simp add: carries_def b rd_frame_mkb)
  have addr: "do { h \<leftarrow> rd b (int H + 1); l \<leftarrow> rd b (int H + 2); Some (be16 h l) } = Some (int (field pdu 1))"
    if "3 \<le> length pdu"
    using carries_rd [OF crr, of 1] carries_rd [OF crr, of 2] that by (simp add: field_def numeral_2_eq_2)
  have tables: "nb_bits (of_device d) = int (length (coils d))" "tab_bits (of_device d) = init (map of_bool (coils d))"
    "nb_input_bits (of_device d) = int (length (inputs d))" "tab_input_bits (of_device d) = init (map of_bool (inputs d))"
    "nb_registers (of_device d) = int (length (holding d))" "tab_registers (of_device d) = init (holding d)"
    "nb_input_registers (of_device d) = int (length (input_regs d))" "tab_input_registers (of_device d) = init (input_regs d)"
    by (simp_all add: of_device_def)
  have fn: "sft_function (sft_of t a f) = uint f" for f by (simp add: sft_of_def)
  have l5: "length pdu = 5" if "?f \<le> 6"
    using ok that by (simp add: request_ok_def well_formed_def pdu_length_def)
  consider (c1) "?f = 1" | (c2) "?f = 2" | (c3) "?f = 3" | (c4) "?f = 4" | (c5) "?f = 5" | (c6) "?f = 6"
    | (c15) "?f = 15" | (c16) "?f = 16" | (c17) "?f = 17" | (c7) "?f = 7" | (c23) "?f = 23"
    | (other) "?f \<notin> {1, 2, 3, 4, 5, 6, 7, 15, 16, 17, 23}"
    by auto
  then show ?thesis
  proof cases
    case c1
    with bits_reply [OF crr, of t a "coils d"] l5 addr show ?thesis
      by (auto simp: reply_switch_def serve_def fn reply_read_coils_def tables Let_def)
  next
    case c2
    with bits_reply [OF crr, of t a "inputs d"] l5 addr show ?thesis
      by (auto simp: reply_switch_def serve_def fn reply_read_discrete_inputs_def tables Let_def)
  next
    case c3
    with registers_reply [OF crr, of t a "holding d"] l5 addr show ?thesis
      by (auto simp: reply_switch_def serve_def fn reply_read_holding_registers_def tables Let_def)
  next
    case c4
    with registers_reply [OF crr, of t a "input_regs d"] l5 addr show ?thesis
      by (auto simp: reply_switch_def serve_def fn reply_read_input_registers_def tables Let_def)
  next
    case c5
    with coil_reply [of t a pdu d] crr l5 addr show ?thesis
      by (auto simp: reply_switch_def serve_def fn b Let_def)
  next
    case c6
    with register_reply [of t a pdu d] crr l5 addr show ?thesis
      by (auto simp: reply_switch_def serve_def fn b Let_def)
  next
    case c15
    then have "length pdu = 6 + unat (pdu ! 5)" "field pdu 3 \<le> 8 * unat (pdu ! 5)"
      using ok by (simp_all add: request_ok_def well_formed_def pdu_length_def)
    with c15 coils_reply [OF crr, of t a d] addr show ?thesis
      by (auto simp: reply_switch_def serve_def fn Let_def)
  next
    case c16
    then have "length pdu = 6 + unat (pdu ! 5)" "2 * field pdu 3 \<le> unat (pdu ! 5)"
      using ok by (simp_all add: request_ok_def well_formed_def pdu_length_def)
    with c16 write_registers_reply [OF crr, of t a d] addr show ?thesis
      by (auto simp: reply_switch_def serve_def fn Let_def)
  next
    case c17
    with slave_id_reply [of t a] show ?thesis
      by (auto simp: reply_switch_def serve_def fn Let_def)
  next
    case c7
    then show ?thesis
      by (simp add: reply_switch_def serve_def fn Let_def)
  next
    case c23
    then have "length pdu = 10 + unat (pdu ! 9)"
      using ok by (simp add: request_ok_def well_formed_def pdu_length_def)
    with c23 write_and_read_reply [OF crr, of t a d] addr show ?thesis
      by (auto simp: reply_switch_def serve_def fn Let_def)
  next
    case other
    with illegal_function [of t a ?f] show ?thesis
      by (auto simp: reply_switch_def serve_def fn Let_def)
  qed
qed

text \<open>The refinement: handling a request frame is sending the frame of the device's answer.\<close>

lemma reply_refines:
  assumes ok: "request_ok pdu" and "sends put st"
  shows "modbus_reply os be (mkb 260 (map Some (frame t a pdu))) (int (H + length pdu + C)) (of_device d) st
    = (if \<not> accepts (ctx st) a then Some ((0, of_device d), st)
       else case serve pdu d of
         (None, d') \<Rightarrow> Some ((-1, of_device d'), st\<lparr>errno := ENOPROTOOPT\<rparr>)
       | (Some rsp, d') \<Rightarrow>
           let r = c_ret (put (mb_s (ctx st)) (frame t a rsp) (world st)) st
           in Some ((fst r, of_device d'), snd r))"
proof -
  let ?b = "mkb 260 (map Some (frame t a pdu))"
  have len: "length (frame t a pdu) \<le> 260" "pdu \<noteq> []"
    using ok room by (auto simp: request_ok_def well_formed_def length_frame)
  have s: "rd ?b (int H - 1) = Some a"
    using rd_frame_slave [of t a pdu "replicate (260 - length (frame t a pdu)) None"] by (simp add: mkb_init)
  have f: "rd ?b (int H) = Some (pdu ! 0)"
    using rd_frame_mkb [of 0 pdu 260 t a] len by simp
  have tid: "be_prepare_response_tid be ?b l = Some (reply_tid t, l - int C)" for l
    using response_tid [of t a pdu _ l] by (simp add: mkb_init)
  from switch_serves [OF ok refl, of t a d] obtain r where
    sw: "reply_switch be (sft_of t a (pdu ! 0)) ?b (int (H + length pdu))
       (do { h \<leftarrow> rd ?b (int H + 1); l \<leftarrow> rd ?b (int H + 2); Some (be16 h l) }) (of_device d)
     = Some (r, of_device (snd (serve pdu d)))" and
    r: "case fst (serve pdu d) of
          None \<Rightarrow> r = None
        | Some rsp \<Rightarrow> \<exists>r'. r = Some r' \<and> builds be r' (frame t a rsp)"
    by blast
  obtain o' d' where sd: "serve pdu d = (o', d')" by (cases "serve pdu d")
  show ?thesis
  proof (cases "accepts (ctx st) a")
    case False
    with s f len room show ?thesis
      by (simp add: modbus_reply_def header_length filter_request Let_def)
  next
    case True
    show ?thesis
    proof (cases o')
      case None
      with True s f len room tid sw r sd show ?thesis
        by (simp add: modbus_reply_def header_length filter_request Let_def sft_of_def)
    next
      case (Some rsp)
      with r sd obtain n buf where r': "r = Some (n, buf)" "builds be (n, buf) (frame t a rsp)" by auto
      have "length (frame t a rsp) \<le> 260"
        using serve_length [OF ok, of d rsp] sd Some room by (simp add: length_frame)
      from send_built [OF r'(2) this assms(2)] True s f len room tid sw sd Some r'(1) show ?thesis
        by (simp add: modbus_reply_def header_length filter_request Let_def sft_of_def)
    qed
  qed
qed

text \<open>An exception sent on the application's request.\<close>

lemma reply_exception_frame:
  assumes "pdu \<noteq> []" "length pdu \<le> 253" "sends put st" "0 \<le> code"
  shows "modbus_reply_exception os be (mkb 260 (map Some (frame t a pdu))) code st
    = (if \<not> accepts (ctx st) a then Some (0, st)
       else if code < 12 then
         Some (c_ret (put (mb_s (ctx st)) (frame t a (exception_pdu (pdu ! 0) (byte code))) (world st)) st)
       else Some (-1, st\<lparr>errno := EINVAL\<rparr>))"
proof -
  let ?b = "mkb 260 (map Some (frame t a pdu))"
  let ?sft = "\<lparr>sft_slave = uint a, sft_function = uint (pdu ! 0) + 0x80, sft_t_id = reply_tid t\<rparr>"
  have s: "rd ?b (int H - 1) = Some a"
    using rd_frame_slave [of t a pdu "replicate (260 - length (frame t a pdu)) None"] by (simp add: mkb_init)
  have f: "rd ?b (int H) = Some (pdu ! 0)"
    using rd_frame_mkb [of 0 pdu 260 t a] assms(1) by simp
  have tid: "be_prepare_response_tid be ?b l = Some (reply_tid t, l - int C)" for l
    using response_tid [of t a pdu _ l] by (simp add: mkb_init)
  have basis: "be_build_response_basis be ?sft (fresh 260)
     = Some (int (H + 1), draft 260 (reply_tid t) a [pdu ! 0 + 0x80])"
    using response_basis [of 260 ?sft] room by (simp add: draft_def byte_exception)
  have w: "wr (draft 260 (reply_tid t) a [pdu ! 0 + 0x80]) (int (H + 1)) (byte code)
     = Some (draft 260 (reply_tid t) a (exception_pdu (pdu ! 0) (byte code)))"
    using room by (subst put_byte) (simp_all add: exception_pdu_def)
  have b: "builds be (int (H + 2), draft 260 (reply_tid t) a (exception_pdu (pdu ! 0) (byte code)))
     (frame t a (exception_pdu (pdu ! 0) (byte code)))"
    by (rule reply_builds) (simp_all add: exception_pdu_def)
  have "length (frame t a (exception_pdu (pdu ! 0) (byte code))) \<le> 260"
    using room by (simp add: length_frame exception_length)
  from send_built [OF b this assms(3)] basis w s f tid show ?thesis
    by (simp add: modbus_reply_exception_def header_length filter_request Let_def)
qed

end


end
