(* ===== verification/Client.thy ===== *)
theory Client
  imports Server
begin

text \<open>
  The client side of \<open>library/modbus/modbus.c\<close>: the requests, each of which builds a frame, sends
  it, waits for the confirmation and checks it, then unpacks the values into the caller's array.
\<close>

section \<open>One exchange\<close>

text \<open>
  The part all requests share. The array of the response is returned when a confirmation was
  received and checked; without it the result is that of the failed step.
\<close>

definition transact ::
  "'w os \<Rightarrow> 'w modbus_backend \<Rightarrow> u8 cbuf \<Rightarrow> int \<Rightarrow> ('w, int \<times> u8 cbuf option) exec" where
  "transact os be req req_length st =
     do { ((rc, req), st) \<leftarrow> send_msg os be req req_length st;
          if rc > 0 then do {
            ((rc, rsp), st) \<leftarrow> receive_msg os be (fresh MAX_MESSAGE_LENGTH) MSG_CONFIRMATION st;
            if rc = -1 then Some ((-1, None), st)
            else do {
              (rc, st) \<leftarrow> check_confirmation os be req rsp rc st;
              Some ((rc, Some rsp), st) } }
          else Some ((rc, None), st) }"

section \<open>Reading bits\<close>

text \<open>The inner loop over the bits of one byte stops at the eighth bit or the last value.\<close>

definition unpack_status_byte :: "u8 \<Rightarrow> int \<Rightarrow> int \<times> u8 cbuf \<Rightarrow> (int \<times> u8 cbuf) option" where
  "unpack_status_byte temp nb r =
     for_range 0 8
       (\<lambda>k (pos, dest).
          if pos < nb then do { dest \<leftarrow> wr dest pos (test_bit_of temp k); Some (pos + 1, dest) }
          else Some (pos, dest))
       r"

definition read_io_status ::
  "'w os \<Rightarrow> 'w modbus_backend \<Rightarrow> int \<Rightarrow> int \<Rightarrow> int \<Rightarrow> u8 cbuf \<Rightarrow> ('w, int \<times> u8 cbuf) exec" where
  "read_io_status os be function addr nb dest st =
     do { ((req_length, req), st) \<leftarrow> be_build_request_basis be function addr nb (fresh MIN_REQ_LENGTH) st;
          ((rc, rsp), st) \<leftarrow> transact os be req req_length st;
          case rsp of
            None \<Rightarrow> Some ((rc, dest), st)
          | Some rsp \<Rightarrow>
              if rc = -1 then Some ((-1, dest), st)
              else do {
                let offset = header_length be + 2;
                (_, dest) \<leftarrow> for_range offset (offset + rc)
                   (\<lambda>i r. do { temp \<leftarrow> rd rsp i; unpack_status_byte temp nb r })
                   (0, dest);
                Some ((rc, dest), st) } }"

definition modbus_read_bits ::
  "'w os \<Rightarrow> 'w modbus_backend \<Rightarrow> int \<Rightarrow> int \<Rightarrow> u8 cbuf \<Rightarrow> ('w, int \<times> u8 cbuf) exec" where
  "modbus_read_bits os be addr nb dest st =
     (if nb > MODBUS_MAX_READ_BITS then Some ((-1, dest), st\<lparr>errno := EMBMDATA\<rparr>)
      else do {
        ((rc, dest), st) \<leftarrow> read_io_status os be FC_READ_COILS addr nb dest st;
        Some ((if rc = -1 then -1 else nb, dest), st) })"

definition modbus_read_input_bits ::
  "'w os \<Rightarrow> 'w modbus_backend \<Rightarrow> int \<Rightarrow> int \<Rightarrow> u8 cbuf \<Rightarrow> ('w, int \<times> u8 cbuf) exec" where
  "modbus_read_input_bits os be addr nb dest st =
     (if nb > MODBUS_MAX_READ_BITS then Some ((-1, dest), st\<lparr>errno := EMBMDATA\<rparr>)
      else do {
        ((rc, dest), st) \<leftarrow> read_io_status os be FC_READ_DISCRETE_INPUTS addr nb dest st;
        Some ((if rc = -1 then -1 else nb, dest), st) })"

section \<open>Reading registers\<close>

text \<open>\<open>dest[i] = (rsp[offset + 2 + (i << 1)] << 8) | rsp[offset + 3 + (i << 1)]\<close> for \<open>rc\<close> registers.\<close>

definition unpack_registers :: "int \<Rightarrow> int \<Rightarrow> u8 cbuf \<Rightarrow> u16 cbuf \<Rightarrow> u16 cbuf option" where
  "unpack_registers offset rc rsp dest =
     for_range 0 rc
       (\<lambda>i dest. do {
          h \<leftarrow> rd rsp (offset + 2 + push_bit 1 i);
          l \<leftarrow> rd rsp (offset + 3 + push_bit 1 i);
          wr dest i (word_of_int (push_bit 8 (uint h) OR uint l)) })
       dest"

definition read_registers ::
  "'w os \<Rightarrow> 'w modbus_backend \<Rightarrow> int \<Rightarrow> int \<Rightarrow> int \<Rightarrow> u16 cbuf \<Rightarrow> ('w, int \<times> u16 cbuf) exec" where
  "read_registers os be function addr nb dest st =
     (if nb > MODBUS_MAX_READ_REGISTERS then Some ((-1, dest), st\<lparr>errno := EMBMDATA\<rparr>)
      else do {
        ((req_length, req), st) \<leftarrow> be_build_request_basis be function addr nb (fresh MIN_REQ_LENGTH) st;
        ((rc, rsp), st) \<leftarrow> transact os be req req_length st;
        case rsp of
          None \<Rightarrow> Some ((rc, dest), st)
        | Some rsp \<Rightarrow>
            if rc = -1 then Some ((-1, dest), st)
            else do {
              dest \<leftarrow> unpack_registers (header_length be) rc rsp dest;
              Some ((rc, dest), st) } })"

definition modbus_read_registers ::
  "'w os \<Rightarrow> 'w modbus_backend \<Rightarrow> int \<Rightarrow> int \<Rightarrow> u16 cbuf \<Rightarrow> ('w, int \<times> u16 cbuf) exec" where
  "modbus_read_registers os be addr nb dest st =
     (if nb > MODBUS_MAX_READ_REGISTERS then Some ((-1, dest), st\<lparr>errno := EMBMDATA\<rparr>)
      else read_registers os be FC_READ_HOLDING_REGISTERS addr nb dest st)"

definition modbus_read_input_registers ::
  "'w os \<Rightarrow> 'w modbus_backend \<Rightarrow> int \<Rightarrow> int \<Rightarrow> u16 cbuf \<Rightarrow> ('w, int \<times> u16 cbuf) exec" where
  "modbus_read_input_registers os be addr nb dest st =
     (if nb > MODBUS_MAX_READ_REGISTERS then Some ((-1, dest), st\<lparr>errno := EMBMDATA\<rparr>)
      else read_registers os be FC_READ_INPUT_REGISTERS addr nb dest st)"

section \<open>Writing\<close>

definition write_single :: "'w os \<Rightarrow> 'w modbus_backend \<Rightarrow> int \<Rightarrow> int \<Rightarrow> int \<Rightarrow> ('w, int) exec" where
  "write_single os be function addr value st =
     do { ((req_length, req), st) \<leftarrow> be_build_request_basis be function addr value (fresh MIN_REQ_LENGTH) st;
          ((rc, _), st) \<leftarrow> transact os be req req_length st;
          Some (rc, st) }"

definition modbus_write_bit :: "'w os \<Rightarrow> 'w modbus_backend \<Rightarrow> int \<Rightarrow> int \<Rightarrow> ('w, int) exec" where
  "modbus_write_bit os be addr status =
     write_single os be FC_WRITE_SINGLE_COIL addr (if status \<noteq> 0 then 0xFF00 else 0)"

definition modbus_write_register :: "'w os \<Rightarrow> 'w modbus_backend \<Rightarrow> int \<Rightarrow> int \<Rightarrow> ('w, int) exec" where
  "modbus_write_register os be addr value =
     write_single os be FC_WRITE_SINGLE_REGISTER addr value"

text \<open>
  One byte of packed bits at the end of the request. The code counts the bits twice, in
  \<open>bit_check\<close> and \<open>pos\<close>, which are equal until the last bit.
\<close>

definition pack_request_byte :: "u8 cbuf \<Rightarrow> int \<Rightarrow> int \<Rightarrow> int \<times> u8 cbuf \<Rightarrow> (int \<times> u8 cbuf) option" where
  "pack_request_byte src nb req_length r =
     for_range 0 8
       (\<lambda>k (pos, req).
          if pos < nb then do {
            b \<leftarrow> rd src pos;
            v \<leftarrow> rd req req_length;
            req \<leftarrow> wr req req_length
                     (if b \<noteq> 0 then v OR push_bit (nat k) 1 else v AND NOT (push_bit (nat k) 1));
            Some (pos + 1, req) }
          else Some (pos, req))
       r"

definition modbus_write_bits ::
  "'w os \<Rightarrow> 'w modbus_backend \<Rightarrow> int \<Rightarrow> int \<Rightarrow> u8 cbuf \<Rightarrow> ('w, int) exec" where
  "modbus_write_bits os be addr nb src st =
     (if nb > MODBUS_MAX_WRITE_BITS then Some (-1, st\<lparr>errno := EMBMDATA\<rparr>)
      else do {
        ((req_length, req), st) \<leftarrow>
           be_build_request_basis be FC_WRITE_MULTIPLE_COILS addr nb (fresh MAX_MESSAGE_LENGTH) st;
        let byte_count = byte_count_of_bits nb;
        req \<leftarrow> wr req req_length (byte byte_count);
        (_, req_length, req) \<leftarrow>
          for_range 0 byte_count
            (\<lambda>i (pos, req_length, req). do {
               req \<leftarrow> wr req req_length 0;
               (pos, req) \<leftarrow> pack_request_byte src nb req_length (pos, req);
               Some (pos, req_length + 1, req) })
            (0, req_length + 1, req);
        ((rc, _), st) \<leftarrow> transact os be req req_length st;
        Some (rc, st) })"

definition modbus_write_registers ::
  "'w os \<Rightarrow> 'w modbus_backend \<Rightarrow> int \<Rightarrow> int \<Rightarrow> u16 cbuf \<Rightarrow> ('w, int) exec" where
  "modbus_write_registers os be addr nb src st =
     (if nb > MODBUS_MAX_WRITE_REGISTERS then Some (-1, st\<lparr>errno := EMBMDATA\<rparr>)
      else do {
        ((req_length, req), st) \<leftarrow>
           be_build_request_basis be FC_WRITE_MULTIPLE_REGISTERS addr nb (fresh MAX_MESSAGE_LENGTH) st;
        req \<leftarrow> wr req req_length (byte (nb * 2));
        (req_length, req) \<leftarrow> put_registers src 0 nb (req_length + 1, req);
        ((rc, _), st) \<leftarrow> transact os be req req_length st;
        Some (rc, st) })"

section \<open>Writing and reading in one exchange\<close>

definition modbus_write_and_read_registers ::
  "'w os \<Rightarrow> 'w modbus_backend \<Rightarrow> int \<Rightarrow> int \<Rightarrow> u16 cbuf \<Rightarrow> int \<Rightarrow> int \<Rightarrow> u16 cbuf
   \<Rightarrow> ('w, int \<times> u16 cbuf) exec" where
  "modbus_write_and_read_registers os be write_addr write_nb src read_addr read_nb dest st =
     (if write_nb > MODBUS_MAX_RW_WRITE_REGISTERS then Some ((-1, dest), st\<lparr>errno := EMBMDATA\<rparr>)
      else if read_nb > MODBUS_MAX_READ_REGISTERS then Some ((-1, dest), st\<lparr>errno := EMBMDATA\<rparr>)
      else do {
        ((req_length, req), st) \<leftarrow>
           be_build_request_basis be FC_WRITE_AND_READ_REGISTERS read_addr read_nb
             (fresh MAX_MESSAGE_LENGTH) st;
        req \<leftarrow> wr req req_length (hi_byte write_addr);
        req \<leftarrow> wr req (req_length + 1) (lo_byte write_addr);
        req \<leftarrow> wr req (req_length + 2) (hi_byte write_nb);
        req \<leftarrow> wr req (req_length + 3) (lo_byte write_nb);
        req \<leftarrow> wr req (req_length + 4) (byte (write_nb * 2));
        (req_length, req) \<leftarrow> put_registers src 0 write_nb (req_length + 5, req);
        ((rc, rsp), st) \<leftarrow> transact os be req req_length st;
        case rsp of
          None \<Rightarrow> Some ((rc, dest), st)
        | Some rsp \<Rightarrow>
            if rc = -1 then Some ((-1, dest), st)
            else do {
              dest \<leftarrow> unpack_registers (header_length be) rc rsp dest;
              Some ((rc, dest), st) } })"

definition modbus_report_slave_id ::
  "'w os \<Rightarrow> 'w modbus_backend \<Rightarrow> u8 cbuf \<Rightarrow> ('w, int \<times> u8 cbuf) exec" where
  "modbus_report_slave_id os be dest st =
     do { ((req_length, req), st) \<leftarrow> be_build_request_basis be FC_REPORT_SLAVE_ID 0 0 (fresh MIN_REQ_LENGTH) st;
          ((rc, rsp), st) \<leftarrow> transact os be req (req_length - 4) st;
          case rsp of
            None \<Rightarrow> Some ((rc, dest), st)
          | Some rsp \<Rightarrow>
              if rc = -1 then Some ((-1, dest), st)
              else do {
                let offset = header_length be + 2;
                dest \<leftarrow> for_range 0 rc (\<lambda>i dest. do { b \<leftarrow> rd rsp (offset + i); wr dest i b }) dest;
                Some ((rc, dest), st) } }"

section \<open>The confirmation of a request\<close>

text \<open>The length of the PDU that answers a request; \<open>None\<close> is any length.\<close>

definition answer_length :: "u8 list \<Rightarrow> nat option" where
  "answer_length q =
     (let f = q ! 0 in
      if f = 0x01 \<or> f = 0x02 then Some (2 + (field q 3 + 7) div 8)
      else if f = 0x17 \<or> f = 0x03 \<or> f = 0x04 then Some (2 + 2 * field q 3)
      else if f = 0x07 then Some 3
      else if f = 0x11 then None
      else Some 5)"

text \<open>The number of values a confirmation announces, or the error that rejects it.\<close>

definition confirm :: "u8 list \<Rightarrow> u8 list \<Rightarrow> int + int" where
  "confirm q p =
     (let f = q ! 0 in
      if answer_length q = None \<or> answer_length q = Some (length p) then
        (if p ! 0 \<noteq> f then Inl EMBBADDATA
         else if f = 0x01 \<or> f = 0x02 then
           (if (field q 3 + 7) div 8 = unat (p ! 1) then Inr (uint (p ! 1)) else Inl EMBBADDATA)
         else if f = 0x17 \<or> f = 0x03 \<or> f = 0x04 then
           (if field q 3 = unat (p ! 1) div 2 then Inr (uint (p ! 1) div 2) else Inl EMBBADDATA)
         else if f = 0x0F \<or> f = 0x10 then
           (if field q 3 = field p 3 then Inr (int (field p 3)) else Inl EMBBADDATA)
         else if f = 0x11 then Inr (uint (p ! 1))
         else Inr 1)
      else if length p = 2 \<and> uint f = uint (p ! 0) - 0x80 then
        Inl (if uint (p ! 1) < MODBUS_EXCEPTION_MAX then MODBUS_ENOBASE + uint (p ! 1) else EMBBADEXC)
      else Inl EMBBADDATA)"

text \<open>A request whose quantity the confirmation check reads.\<close>

definition asks :: "u8 list \<Rightarrow> bool" where
  "asks q \<longleftrightarrow> q \<noteq> [] \<and> (5 \<le> length q \<or> q ! 0 = 0x11 \<or> q ! 0 = 0x07)"

text \<open>The line accepts the request, and then the peer has answered as given.\<close>

definition answers ::
  "(int \<Rightarrow> u8 list \<Rightarrow> 'w \<Rightarrow> (int + int) \<times> 'w) \<Rightarrow> ('w \<Rightarrow> u8 list \<times> 'p) \<Rightarrow> 'w mstate \<Rightarrow> u8 list \<Rightarrow> u8 list \<times> 'p \<Rightarrow> bool" where
  "answers put line st request response \<longleftrightarrow>
     (\<exists>k w'. put (mb_s (ctx st)) request (world st) = (Inr k, w') \<and> 0 < k \<and> line w' = response)"

lemma byte_count_nat: "byte_count_of_bits (int n) = int ((n + 7) div 8)"
  by (simp only: byte_count_nonneg ceil_div_8 zdiv_int of_nat_0_le_iff of_nat_add of_nat_numeral)

lemma field_eq: "be16 (q ! 3) (q ! 4) = int (field q 3)"
  by (simp add: field_def)

lemma recovery_off: "\<not> recovery_protocol st \<Longrightarrow> confirmation_bad os be st = Some (-1, st\<lparr>errno := EMBBADDATA\<rparr>)"
  by (simp add: confirmation_bad_def)

context framing
begin

lemma answer_length_computed:
  assumes "asks q"
    and rd: "\<And>k. k < length q \<Longrightarrow> rd b (int H + int k) = Some (q ! k)"
  shows "compute_response_length_from_request be b
    = Some (case answer_length q of None \<Rightarrow> MSG_LENGTH_UNDEFINED | Some n \<Rightarrow> int (H + n + C))"
proof -
  have f: "rd b (int H) = Some (q ! 0)"
    using rd [of 0] assms(1) by (simp add: asks_def)
  have "rd b (int H + 3) = Some (q ! 3)" "rd b (int H + 4) = Some (q ! 4)"
    if "q ! 0 \<noteq> 0x11" "q ! 0 \<noteq> 0x07"
    using rd [of 3] rd [of 4] assms(1) that by (simp_all add: asks_def)
  then show ?thesis
    using f by (auto simp: compute_response_length_from_request_def answer_length_def header_length
        checksum_length byte_count_nat field_eq Let_def)
qed

lemma confirmation_values_frame:
  assumes q: "asks q" "\<And>k. k < length q \<Longrightarrow> rd b (int H + int k) = Some (q ! k)"
    and p: "well_formed MSG_CONFIRMATION p" "\<And>k. k < length p \<Longrightarrow> rd r (int H + int k) = Some (p ! k)"
    and f: "p ! 0 = q ! 0"
  shows "\<exists>x y. confirmation_values (int H) b r (uint (q ! 0)) = Some (x, y) \<and>
     (if q ! 0 = 0x01 \<or> q ! 0 = 0x02 then x = int ((field q 3 + 7) div 8) \<and> y = uint (p ! 1)
      else if q ! 0 = 0x17 \<or> q ! 0 = 0x03 \<or> q ! 0 = 0x04 then x = int (field q 3) \<and> y = uint (p ! 1) div 2
      else if q ! 0 = 0x0F \<or> q ! 0 = 0x10 then x = int (field q 3) \<and> y = int (field p 3)
      else if q ! 0 = 0x11 then x = uint (p ! 1) \<and> y = uint (p ! 1)
      else x = 1 \<and> y = 1)"
proof -
  have "rd b (int H + 3) = Some (q ! 3)" "rd b (int H + 4) = Some (q ! 4)"
    if "q ! 0 \<noteq> 0x11" "q ! 0 \<noteq> 0x07"
    using q(2) [of 3] q(2) [of 4] q(1) that by (simp_all add: asks_def)
  moreover have "rd r (int H + 3) = Some (p ! 3)" "rd r (int H + 4) = Some (p ! 4)"
    if "q ! 0 = 0x0F \<or> q ! 0 = 0x10"
    using p(2) [of 3] p(2) [of 4] p(1) f that by (auto simp: well_formed_def pdu_length_def)
  moreover have "rd r (int H + 1) = Some (p ! 1)"
    using p(2) [of 1] p(1) by (auto simp: well_formed_def pdu_length_def Let_def split: if_splits)
  ultimately show ?thesis
    by (auto simp: confirmation_values_def field_eq byte_count_nat)
qed

end

lemma int_eq_uint: "(int k = uint (x :: u8)) = (k = unat x)"
  by (metis nat_int of_nat_unat)

lemma int_half: "uint (x :: u8) div 2 = int (unat x div 2)"
  by (simp add: zdiv_int)

context client_link
begin

lemma pre_check_frames:
  assumes "H + length q + C \<le> n" "H + length p + C \<le> 260"
  shows "pre_check os be (mkb n (map Some (frame t a q))) (mkb 260 (map Some (frame t a' p))) k st = Some (0, st)"
proof (cases "be_pre_check_confirmation be")
  case None
  then show ?thesis by (simp add: pre_check_def)
next
  case (Some f)
  from confirm_tid [OF this assms] Some show ?thesis by (simp add: pre_check_def)
qed

lemma check_frames:
  assumes q: "asks q" "H + length q + C \<le> n" and p: "well_formed MSG_CONFIRMATION p"
    and "\<not> recovery_protocol st"
  shows "check_confirmation os be (mkb n (map Some (frame t a q))) (mkb 260 (map Some (frame t a' p)))
      (int (H + length p + C)) st
    = Some (case confirm q p of Inr v \<Rightarrow> (v, st) | Inl e \<Rightarrow> (-1, st\<lparr>errno := e\<rparr>))"
proof -
  let ?b = "mkb n (map Some (frame t a q))" and ?r = "mkb 260 (map Some (frame t a' p))"
  have p0: "p \<noteq> []" "H + length p + C \<le> 260" using p room by (simp_all add: well_formed_def)
  have rq: "rd ?b (int H + int k) = Some (q ! k)" if "k < length q" for k
    by (rule rd_frame_mkb [OF that])
  have rp: "rd ?r (int H + int k) = Some (p ! k)" if "k < length p" for k
    by (rule rd_frame_mkb [OF that])
  have f: "rd ?b (int H) = Some (q ! 0)" "rd ?r (int H) = Some (p ! 0)"
    using rq [of 0] rp [of 0] q(1) p0 by (simp_all add: asks_def)
  note len = answer_length_computed [OF q(1) rq]
  define l where "l = (case answer_length q of None \<Rightarrow> MSG_LENGTH_UNDEFINED | Some n \<Rightarrow> int (H + n + C))"
  let ?fits = "answer_length q = None \<or> answer_length q = Some (length p)"
  define r where "r = int (H + length p + C)"
  have l: "(r = l \<or> l = -1) = ?fits"
    by (cases "answer_length q") (auto simp: l_def r_def)
  have r2: "(r = int H + 2 + int C) = (length p = 2)"
    by (auto simp: r_def)
  note check = check_confirmation_def header_length checksum_length pre_check_frames [OF q(2) p0(2)]
    len [folded l_def] f Let_def recovery_off [OF assms(4)] MSG_LENGTH_UNDEFINED_def l r2
  consider (vals) ?fits "p ! 0 = q ! 0" | (other) ?fits "p ! 0 \<noteq> q ! 0"
    | (exc) "\<not> ?fits" "length p = 2" | (bad) "\<not> ?fits" "length p \<noteq> 2"
    by blast
  then have "check_confirmation os be ?b ?r r st
    = Some (case confirm q p of Inr v \<Rightarrow> (v, st) | Inl e \<Rightarrow> (-1, st\<lparr>errno := e\<rparr>))"
  proof cases
    case vals
    from confirmation_values_frame [OF q(1) rq p rp vals(2)] obtain x y where
      v: "confirmation_values (int H) ?b ?r (uint (q ! 0)) = Some (x, y)"
        "if q ! 0 = 0x01 \<or> q ! 0 = 0x02 then x = int ((field q 3 + 7) div 8) \<and> y = uint (p ! 1)
         else if q ! 0 = 0x17 \<or> q ! 0 = 0x03 \<or> q ! 0 = 0x04 then x = int (field q 3) \<and> y = uint (p ! 1) div 2
         else if q ! 0 = 0x0F \<or> q ! 0 = 0x10 then x = int (field q 3) \<and> y = int (field p 3)
         else if q ! 0 = 0x11 then x = uint (p ! 1) \<and> y = uint (p ! 1)
         else x = 1 \<and> y = 1"
      by blast
    have "check_confirmation os be ?b ?r r st
        = (if x = y then Some (y, st) else Some (-1, st\<lparr>errno := EMBBADDATA\<rparr>))"
      using vals v(1) by (auto simp: check)
    moreover have "confirm q p = (if x = y then Inr y else Inl EMBBADDATA)"
      using vals v(2) by (auto simp: confirm_def Let_def int_half int_eq_uint split: if_splits)
    ultimately show ?thesis by simp
  next
    case other
    then show ?thesis by (auto simp: check confirm_def)
  next
    case exc
    have "rd ?r (int H + 1) = Some (p ! 1)"
      using rp [of 1] exc by simp
    then have "check_confirmation os be ?b ?r r st
        = (if uint (q ! 0) = uint (p ! 0) - 0x80
           then Some (-1, st\<lparr>errno := (if uint (p ! 1) < 12 then MODBUS_ENOBASE + uint (p ! 1) else EMBBADEXC)\<rparr>)
           else Some (-1, st\<lparr>errno := EMBBADDATA\<rparr>))"
      using exc by (simp only: check if_False if_True bind.simps prod.case) (simp add: f)
    then show ?thesis
      unfolding confirm_def Let_def if_not_P [OF exc(1)] using exc(2) by simp
  next
    case bad
    have "check_confirmation os be ?b ?r r st = Some (-1, st\<lparr>errno := EMBBADDATA\<rparr>)"
      using bad by (simp only: check if_False if_True bind.simps prod.case) simp
    then show ?thesis
      unfolding confirm_def Let_def if_not_P [OF bad(1)] using bad(2) by simp
  qed
  then show ?thesis by (simp only: r_def)
qed

text \<open>One exchange: the request is sent, its confirmation received and checked.\<close>

lemma transact_frames:
  assumes q: "asks q" "H + length q + C \<le> n"
    and pre: "be_send_msg_pre be buf len = Some (int (H + length q + C), mkb n (map Some (frame t a q)))"
    and ans: "answers put line st (frame t a q) (frame t a' p, peer)"
    and p: "well_formed MSG_CONFIRMATION p" and strm: "byte_stream os get (mb_s (ctx st)) line"
    and "\<not> recovery_protocol st"
  shows "\<exists>st'. transact os be buf len st
      = Some ((case confirm q p of Inr v \<Rightarrow> v | Inl e \<Rightarrow> -1, Some (mkb 260 (map Some (frame t a' p)))), st') \<and>
     ctx st' = ctx st \<and> line (world st') = ([], peer) \<and>
     errno st' = (case confirm q p of Inr v \<Rightarrow> errno st | Inl e \<Rightarrow> e)"
proof -
  from ans obtain k w' where put: "put (mb_s (ctx st)) (frame t a q) (world st) = (Inr k, w')" "0 < k"
    "line w' = (frame t a' p, peer)" by (auto simp: answers_def)
  let ?st = "st\<lparr>world := w'\<rparr>"
  have "be_send be (mkb n (map Some (frame t a q))) (int (H + length q + C)) st = Some (k, ?st)"
    using transmit [of "frame t a q" n st] q(2) put by (simp add: length_frame c_ret_def)
  then have send: "send_msg os be buf len st = Some ((k, mkb n (map Some (frame t a q))), ?st)"
    using pre put(2) by (simp add: send_msg_def send_loop.simps)
  have "byte_stream os get (mb_s (ctx ?st)) line" using strm by simp
  from receive_frame [OF p this, of t a' "[]" peer] put(3) obtain st1 where
    rcv: "receive_msg os be (fresh 260) MSG_CONFIRMATION ?st
      = Some ((int (H + length p + C), mkb 260 (map Some (frame t a' p))), st1)"
    "line (world st1) = ([], peer)" "ctx st1 = ctx st" "errno st1 = errno st" by auto
  have np: "\<not> recovery_protocol st1" using assms(7) rcv(3) by (simp add: recovery_protocol_def)
  note check = check_frames [OF q p np, of t a a']
  have "int (H + length p + C) \<noteq> -1" by simp
  with send put(2) rcv check show ?thesis
    by (cases "confirm q p") (simp_all add: transact_def del: of_nat_add)
qed

end

section \<open>Unpacking answers\<close>

lemma or_be16: "push_bit 8 (uint h) OR uint (l :: u8) = be16 h l"
proof -
  have "take_bit 8 (uint l) = uint l"
    by (simp add: take_bit_eq_mod)
  then show ?thesis
    using concat_bit_eq [of 8 "uint l" "uint h"]
    by (simp add: concat_bit_def be16_def or.commute add.commute)
qed

lemma unpack_registers_correct:
  assumes "length bs = 2 * n" "n \<le> length dest"
    and rd: "\<And>k. k < length bs \<Longrightarrow> rd rsp (off + 2 + int k) = Some (bs ! k)"
  shows "unpack_registers off (int n) rsp dest = Some (fill dest 0 (pdu_regs bs))"
proof -
  let ?body = "\<lambda>i dest. do {
          h \<leftarrow> rd rsp (off + 2 + push_bit 1 i);
          l \<leftarrow> rd rsp (off + 3 + push_bit 1 i);
          wr dest i (word_of_int (push_bit 8 (uint h) OR uint l)) }"
  let ?g = "\<lambda>i. fill dest 0 (take (nat i) (pdu_regs bs))"
  have step: "?body i (?g i) = Some (?g (i + 1))" if i: "0 \<le> i" "i < int n" for i
  proof -
    from i obtain k where k: "i = int k" "k < n" by (metis nat_0_le nat_less_iff)
    have "rd rsp (off + 2 + push_bit 1 i) = Some (bs ! (2 * k))"
      "rd rsp (off + 3 + push_bit 1 i) = Some (bs ! (2 * k + 1))"
      using rd [of "2 * k"] rd [of "2 * k + 1"] k assms(1) by (simp_all add: push_bit_eq_mult algebra_simps)
    moreover have "take (Suc k) (pdu_regs bs) = take k (pdu_regs bs) @ [word_of_int (be16 (bs ! (2 * k)) (bs ! (2 * k + 1)))]"
      using k assms(1) by (simp add: take_Suc_conv_app_nth pdu_regs_nth)
    moreover have "nat (int k + 1) = Suc k" by simp
    ultimately show ?thesis
      using k assms(1,2) by (simp add: wr_fill or_be16)
  qed
  have "for_range 0 (int n) ?body (?g 0) = Some (?g (int n))"
    by (rule for_range_steps) (use step in auto)
  then show ?thesis
    using assms(1) by (simp add: unpack_registers_def)
qed

lemma unpack_status_byte_correct:
  assumes "nb \<le> length dest" "j < length bs"
  shows "unpack_status_byte (bs ! j) (int nb) (int (min nb (8 * j)), fill dest 0 (unpack bs (min nb (8 * j))))
    = Some (int (min nb (8 * Suc j)), fill dest 0 (unpack bs (min nb (8 * Suc j))))"
proof -
  let ?p = "\<lambda>k. min nb (8 * j + nat k)"
  let ?g = "\<lambda>k. (int (?p k), fill dest 0 (unpack bs (?p k)))"
  have "for_range 0 8
       (\<lambda>k (pos, dest).
          if pos < int nb then do { dest \<leftarrow> wr dest pos (test_bit_of (bs ! j) k); Some (pos + 1, dest) }
          else Some (pos, dest)) (?g 0) = Some (?g 8)"
  proof (rule for_range_steps)
    fix i :: int
    assume i: "0 \<le> i" "i < 8"
    then obtain k where k: "i = int k" "k < 8" by (metis nat_0_le nat_less_iff of_nat_numeral)
    have n: "nat (int k + 1) = Suc k" by simp
    show "(case ?g i of (pos, dest) \<Rightarrow>
          if pos < int nb then do { dest \<leftarrow> wr dest pos (test_bit_of (bs ! j) i); Some (pos + 1, dest) }
          else Some (pos, dest)) = Some (?g (i + 1))"
    proof (cases "8 * j + k < nb")
      case True
      then have "?p i = 8 * j + k" "?p (i + 1) = Suc (8 * j + k)" using k n by simp_all
      moreover have "test_bit_of (bs ! j) i = bit_at bs (8 * j + k)"
        using k by (simp add: bit_at_def c_arith)
      ultimately show ?thesis
        using True assms(1) by (simp add: wr_fill unpack_Suc)
    next
      case False
      then have "?p i = nb" "?p (i + 1) = nb" using k n by simp_all
      then show ?thesis by simp
    qed
  qed simp
  then show ?thesis
    by (simp add: unpack_status_byte_def add.commute)
qed

lemma unpack_status_loop:
  assumes "length bs = (nb + 7) div 8" "nb \<le> length dest"
    and rd: "\<And>k. k < length bs \<Longrightarrow> rd rsp (off + int k) = Some (bs ! k)"
  shows "for_range off (off + int (length bs))
      (\<lambda>i r. do { temp \<leftarrow> rd rsp i; unpack_status_byte temp (int nb) r }) (0, dest)
    = Some (int nb, fill dest 0 (unpack bs nb))"
proof -
  let ?body = "\<lambda>i r. do { temp \<leftarrow> rd rsp i; unpack_status_byte temp (int nb) r }"
  let ?p = "\<lambda>i. min nb (8 * nat (i - off))"
  let ?g = "\<lambda>i. (int (?p i), fill dest 0 (unpack bs (?p i)))"
  have "for_range off (off + int (length bs)) ?body (?g off) = Some (?g (off + int (length bs)))"
  proof (rule for_range_steps)
    fix i
    assume i: "off \<le> i" "i < off + int (length bs)"
    then obtain k where k: "i = off + int k" "k < length bs"
      by (metis zle_iff_zadd add_less_cancel_left of_nat_less_iff)
    have "nat (int k + 1) = Suc k" by simp
    then show "?body i (?g i) = Some (?g (i + 1))"
      using k rd [OF k(2)] unpack_status_byte_correct [OF assms(2) k(2)] by (simp add: algebra_simps)
  qed simp
  moreover have "nb \<le> 8 * length bs" using assms(1) by linarith
  ultimately show ?thesis by (simp add: min_absorb1 unpack_def)
qed

section \<open>Reading\<close>

text \<open>The PDU of a request with two sixteen-bit fields.\<close>

definition request5 :: "u8 \<Rightarrow> int \<Rightarrow> int \<Rightarrow> u8 list" where
  "request5 f addr nb = [f, hi_byte addr, lo_byte addr, hi_byte nb, lo_byte nb]"

lemma request5_asks [simp]: "asks (request5 f addr nb)" "length (request5 f addr nb) = 5"
  "request5 f addr nb ! 0 = f"
  by (simp_all add: request5_def asks_def)

lemma request5_fields:
  "0 \<le> addr \<Longrightarrow> addr < 65536 \<Longrightarrow> field (request5 f addr nb) 1 = nat addr"
  "0 \<le> nb \<Longrightarrow> nb < 65536 \<Longrightarrow> field (request5 f addr nb) 3 = nat nb"
  by (simp_all add: request5_def field_def)

text \<open>What an accepted confirmation of a read contains.\<close>

lemma confirm_registers:
  assumes "q ! 0 = 0x03 \<or> q ! 0 = 0x04 \<or> q ! 0 = 0x17" "confirm q p = Inr v"
  shows "v = int (field q 3)" "length p = 2 + 2 * field q 3" "p ! 0 = q ! 0"
  using assms by (auto simp: confirm_def answer_length_def Let_def int_half split: if_splits)

lemma confirm_bits:
  assumes "q ! 0 = 0x01 \<or> q ! 0 = 0x02" "confirm q p = Inr v"
  shows "v = int ((field q 3 + 7) div 8)" "length p = 2 + (field q 3 + 7) div 8" "p ! 0 = q ! 0"
  using assms by (auto simp: confirm_def answer_length_def Let_def split: if_splits)

text \<open>
  What an exchange leaves: the context unchanged, the line empty with the peer in the given state,
  \<open>errno\<close> set on an error.
\<close>

definition settled :: "('w \<Rightarrow> u8 list \<times> 'p) \<Rightarrow> 'p \<Rightarrow> 'w mstate \<Rightarrow> int + int \<Rightarrow> 'w mstate \<Rightarrow> bool" where
  "settled line peer st r st' \<longleftrightarrow> ctx st' = ctx st \<and> line (world st') = ([], peer) \<and>
     errno st' = (case r of Inr v \<Rightarrow> errno st | Inl e \<Rightarrow> e)"

text \<open>
  The environment of one exchange, over the calls that write and read the line: the peer answers
  \<open>request\<close> with \<open>response\<close>.
\<close>

definition exchange ::
  "'w os \<Rightarrow> (int \<Rightarrow> u8 list \<Rightarrow> 'w \<Rightarrow> (int + int) \<times> 'w) \<Rightarrow> (int \<Rightarrow> int \<Rightarrow> 'w \<Rightarrow> (int + u8 list) \<times> 'w)
   \<Rightarrow> ('w \<Rightarrow> u8 list \<times> 'p) \<Rightarrow> 'w mstate \<Rightarrow> u8 list \<Rightarrow> u8 list \<times> 'p \<Rightarrow> bool" where
  "exchange os put get line st request response \<longleftrightarrow>
     \<not> recovery_protocol st \<and> byte_stream os get (mb_s (ctx st)) line \<and>
     answers put line st request response"

context client_link
begin

abbreviation my_frame :: "'w mstate \<Rightarrow> u8 list \<Rightarrow> u8 list" where
  "my_frame st q \<equiv> frame (request_tid st) (byte (mb_slave (ctx st))) q"

abbreviation my_draft :: "nat \<Rightarrow> 'w mstate \<Rightarrow> u8 list \<Rightarrow> u8 cbuf" where
  "my_draft n st q \<equiv> draft n (request_tid st) (byte (mb_slave (ctx st))) q"

lemma transact_exchange:
  assumes ex: "exchange os put get line st (my_frame st q) (frame (request_tid st) a p, peer)"
    and wf: "well_formed MSG_CONFIRMATION p"
    and q: "asks q" "length q \<le> 253" "H + length q + C \<le> n"
  shows "\<exists>st'. transact os be (my_draft n st q) (int (H + length q)) (tick st)
      = Some ((case confirm q p of Inr v \<Rightarrow> v | Inl e \<Rightarrow> -1,
               Some (mkb 260 (map Some (frame (request_tid st) a p)))), st') \<and>
     settled line peer st (confirm q p) st'"
proof -
  have "q \<noteq> []" using q(1) by (simp add: asks_def)
  note pre = finish_draft [OF this q(2,3), of "request_tid st" "byte (mb_slave (ctx st))"]
  have "answers put line (tick st) (my_frame st q) (frame (request_tid st) a p, peer)"
    using ex by (simp add: exchange_def answers_def tick_keeps)
  from transact_frames [OF q(1,3) pre this wf] ex show ?thesis
    by (cases "confirm q p") (simp_all add: exchange_def settled_def tick_keeps recovery_protocol_def)
qed

lemma basis_draft:
  assumes "usable (ctx st)" "H + 5 \<le> n"
  shows "be_build_request_basis be f addr nb (fresh n) st
    = Some ((int (H + 5), my_draft n st (request5 (byte f) addr nb)), tick st)"
  using request_basis [OF assms, of f addr nb] by (simp add: draft_def request5_def)

lemma rd_answer:
  "k < length (drop 2 p) \<Longrightarrow> rd (mkb 260 (map Some (frame t a p))) (int H + 2 + int k) = Some (drop 2 p ! k)"
  using rd_frame_mkb [of "2 + k" p 260 t a] by (simp add: add.assoc)

lemma unpack_answer:
  "length p = 2 + 2 * n \<Longrightarrow> n \<le> length dest \<Longrightarrow>
   unpack_registers (int H) (int n) (mkb 260 (map Some (frame t a p))) dest
     = Some (fill dest 0 (pdu_regs (drop 2 p)))"
  by (rule unpack_registers_correct) (simp_all add: rd_answer del: nth_drop length_drop, simp)

lemma read_registers_exchange:
  assumes u: "usable (ctx st)" and f: "f = FC_READ_HOLDING_REGISTERS \<or> f = FC_READ_INPUT_REGISTERS"
    and nb: "nb \<le> 125" "nb \<le> length dest" and q: "q = request5 (byte f) addr (int nb)"
    and ex: "exchange os put get line st (my_frame st q) (frame (request_tid st) a p, peer)"
    and wf: "well_formed MSG_CONFIRMATION p"
  shows "\<exists>st'. read_registers os be f addr (int nb) dest st
      = Some ((case confirm q p of Inr v \<Rightarrow> (int nb, fill dest 0 (pdu_regs (drop 2 p)))
                               | Inl e \<Rightarrow> (-1, dest)), st') \<and>
     settled line peer st (confirm q p) st'"
proof -
  have fq: "field q 3 = nb"
    using request5_fields(2) [of "int nb" "byte f" addr] nb(1) by (simp add: q)
  have q0: "q ! 0 = 3 \<or> q ! 0 = 4" using f by (auto simp: q byte_def)
  have "H + length q + C \<le> 12" using room by (simp add: q)
  from transact_exchange [OF ex wf _ _ this] obtain st' where
    tr: "transact os be (my_draft 12 st q) (int (H + 5)) (tick st)
      = Some ((case confirm q p of Inr v \<Rightarrow> v | Inl e \<Rightarrow> -1,
               Some (mkb 260 (map Some (frame (request_tid st) a p)))), st')"
    "settled line peer st (confirm q p) st'"
    by (auto simp: q)
  have basis: "be_build_request_basis be f addr (int nb) (fresh 12) st = Some ((int (H + 5), my_draft 12 st q), tick st)"
    using basis_draft [OF u, of 12 f addr "int nb"] room by (simp add: q)
  show ?thesis
  proof (cases "confirm q p")
    case (Inl e)
    with tr basis nb show ?thesis
      by (simp add: read_registers_def)
  next
    case (Inr v)
    have v: "v = int nb" "length p = 2 + 2 * nb"
      using confirm_registers [OF _ Inr] q0 fq by auto
    have "unpack_registers (int H) (int nb) (mkb 260 (map Some (frame (request_tid st) a p))) dest
        = Some (fill dest 0 (pdu_regs (drop 2 p)))"
      using v nb by (intro unpack_answer) simp_all
    with tr basis nb v Inr show ?thesis
      by (simp add: read_registers_def header_length)
  qed
qed

lemma read_io_status_exchange:
  assumes u: "usable (ctx st)" and f: "f = FC_READ_COILS \<or> f = FC_READ_DISCRETE_INPUTS"
    and nb: "nb \<le> 2000" "nb \<le> length dest" and q: "q = request5 (byte f) addr (int nb)"
    and ex: "exchange os put get line st (my_frame st q) (frame (request_tid st) a p, peer)"
    and wf: "well_formed MSG_CONFIRMATION p"
  shows "\<exists>st'. read_io_status os be f addr (int nb) dest st
      = Some ((case confirm q p of Inr v \<Rightarrow> (v, fill dest 0 (unpack (drop 2 p) nb))
                               | Inl e \<Rightarrow> (-1, dest)), st') \<and>
     settled line peer st (confirm q p) st'"
proof -
  have fq: "field q 3 = nb"
    using request5_fields(2) [of "int nb" "byte f" addr] nb(1) by (simp add: q)
  have q0: "q ! 0 = 1 \<or> q ! 0 = 2" using f by (auto simp: q byte_def)
  have "H + length q + C \<le> 12" using room by (simp add: q)
  from transact_exchange [OF ex wf _ _ this] obtain st' where
    tr: "transact os be (my_draft 12 st q) (int (H + 5)) (tick st)
      = Some ((case confirm q p of Inr v \<Rightarrow> v | Inl e \<Rightarrow> -1,
               Some (mkb 260 (map Some (frame (request_tid st) a p)))), st')"
    "settled line peer st (confirm q p) st'"
    by (auto simp: q)
  have basis: "be_build_request_basis be f addr (int nb) (fresh 12) st = Some ((int (H + 5), my_draft 12 st q), tick st)"
    using basis_draft [OF u, of 12 f addr "int nb"] room by (simp add: q)
  show ?thesis
  proof (cases "confirm q p")
    case (Inl e)
    with tr basis show ?thesis
      by (simp add: read_io_status_def)
  next
    case (Inr v)
    have v: "v = int ((nb + 7) div 8)" "length p = 2 + (nb + 7) div 8"
      using confirm_bits [OF q0 Inr] fq by auto
    have "for_range (int H + 2) (int H + 2 + int (length (drop 2 p)))
       (\<lambda>i r. do { temp \<leftarrow> rd (mkb 260 (map Some (frame (request_tid st) a p))) i;
                  unpack_status_byte temp (int nb) r }) (0, dest)
      = Some (int nb, fill dest 0 (unpack (drop 2 p) nb))"
      using v nb by (intro unpack_status_loop rd_answer) simp_all
    moreover have "int (length (drop 2 p)) = v" using v by simp
    ultimately show ?thesis
      using tr basis Inr v(1)
      by (simp add: read_io_status_def header_length del: length_drop)
  qed
qed

lemma write_single_exchange:
  assumes u: "usable (ctx st)" and q: "q = request5 (byte f) addr val"
    and ex: "exchange os put get line st (my_frame st q) (frame (request_tid st) a p, peer)"
    and wf: "well_formed MSG_CONFIRMATION p"
  shows "\<exists>st'. write_single os be f addr val st
      = Some ((case confirm q p of Inr v \<Rightarrow> v | Inl e \<Rightarrow> -1), st') \<and> settled line peer st (confirm q p) st'"
proof -
  have "H + length q + C \<le> 12" using room by (simp add: q)
  from transact_exchange [OF ex wf _ _ this] obtain st' where
    "transact os be (my_draft 12 st q) (int (H + 5)) (tick st)
      = Some ((case confirm q p of Inr v \<Rightarrow> v | Inl e \<Rightarrow> -1,
               Some (mkb 260 (map Some (frame (request_tid st) a p)))), st')"
    "settled line peer st (confirm q p) st'"
    by (auto simp: q)
  moreover have "be_build_request_basis be f addr val (fresh 12) st = Some ((int (H + 5), my_draft 12 st q), tick st)"
    using basis_draft [OF u, of 12 f addr val] room by (simp add: q)
  ultimately show ?thesis
    by (simp add: write_single_def)
qed

lemma write_registers_exchange:
  assumes u: "usable (ctx st)" and n: "length vs \<le> 123"
    and q: "q = request5 0x10 addr (int (length vs)) @ word_of_nat (2 * length vs) # regs_pdu vs"
    and src: "\<And>k. k < length vs \<Longrightarrow> rd src (int k) = Some (vs ! k)"
    and ex: "exchange os put get line st (my_frame st q) (frame (request_tid st) a p, peer)"
    and wf: "well_formed MSG_CONFIRMATION p"
  shows "\<exists>st'. modbus_write_registers os be addr (int (length vs)) src st
      = Some ((case confirm q p of Inr v \<Rightarrow> v | Inl e \<Rightarrow> -1), st') \<and> settled line peer st (confirm q p) st'"
proof -
  let ?q5 = "request5 0x10 addr (int (length vs))" and ?c = "word_of_nat (2 * length vs) :: u8"
  have len: "length q = 6 + 2 * length vs" by (simp add: q)
  have "asks q" by (simp add: q request5_def asks_def)
  have "length q \<le> 253" "H + length q + C \<le> 260" using n room by (simp_all add: len)
  from transact_exchange [OF ex wf \<open>asks q\<close> this] obtain st' where
    tr: "transact os be (my_draft 260 st q) (int (H + length q)) (tick st)
      = Some ((case confirm q p of Inr v \<Rightarrow> v | Inl e \<Rightarrow> -1,
               Some (mkb 260 (map Some (frame (request_tid st) a p)))), st')"
    "settled line peer st (confirm q p) st'"
    by auto
  have basis: "be_build_request_basis be 16 addr (int (length vs)) (fresh 260) st
      = Some ((int (H + 5), my_draft 260 st ?q5), tick st)"
    using basis_draft [OF u, of 260 16 addr "int (length vs)"] room by (simp add: byte_def)
  have w: "wr (my_draft 260 st ?q5) (int (H + 5)) (byte (int (length vs) * 2)) = Some (my_draft 260 st (?q5 @ [?c]))"
    using put_byte [of "int (H + 5)" ?q5 260 "request_tid st" "byte (mb_slave (ctx st))" ?c] room
    by (simp add: byte_def algebra_simps)
  have r: "put_registers src 0 (int (length vs)) (int (H + 6), my_draft 260 st (?q5 @ [?c]))
      = Some (int (H + length q), my_draft 260 st q)"
    using put_regs [of "int (H + 6)" "?q5 @ [?c]" "int (length vs)" vs src 0 260 "request_tid st" "byte (mb_slave (ctx st))"]
      room n src by (simp add: q)
  show ?thesis
    using tr basis w r n
    by (simp add: modbus_write_registers_def ac_simps)
qed

lemma write_and_read_exchange:
  assumes u: "usable (ctx st)" and n: "length vs \<le> 121" "nb \<le> 125" "nb \<le> length dest"
    and q: "q = request5 0x17 raddr (int nb) @ [hi_byte waddr, lo_byte waddr, hi_byte (int (length vs)),
       lo_byte (int (length vs)), word_of_nat (2 * length vs)] @ regs_pdu vs"
    and src: "\<And>k. k < length vs \<Longrightarrow> rd src (int k) = Some (vs ! k)"
    and ex: "exchange os put get line st (my_frame st q) (frame (request_tid st) a p, peer)"
    and wf: "well_formed MSG_CONFIRMATION p"
  shows "\<exists>st'. modbus_write_and_read_registers os be waddr (int (length vs)) src raddr (int nb) dest st
      = Some ((case confirm q p of Inr v \<Rightarrow> (int nb, fill dest 0 (pdu_regs (drop 2 p)))
                               | Inl e \<Rightarrow> (-1, dest)), st') \<and> settled line peer st (confirm q p) st'"
proof -
  let ?q5 = "request5 0x17 raddr (int nb)" and ?a = "byte (mb_slave (ctx st))"
  let ?w = "[hi_byte waddr, lo_byte waddr, hi_byte (int (length vs)), lo_byte (int (length vs)),
      word_of_nat (2 * length vs) :: u8]"
  have len: "length q = 10 + 2 * length vs" by (simp add: q)
  have "asks q" by (simp add: q request5_def asks_def)
  have "length q \<le> 253" "H + length q + C \<le> 260" using n room by (simp_all add: len)
  from transact_exchange [OF ex wf \<open>asks q\<close> this] obtain st' where
    tr: "transact os be (my_draft 260 st q) (int (H + length q)) (tick st)
      = Some ((case confirm q p of Inr v \<Rightarrow> v | Inl e \<Rightarrow> -1,
               Some (mkb 260 (map Some (frame (request_tid st) a p)))), st')"
    "settled line peer st (confirm q p) st'"
    by auto
  have basis: "be_build_request_basis be 23 raddr (int nb) (fresh 260) st
      = Some ((int (H + 5), my_draft 260 st ?q5), tick st)"
    using basis_draft [OF u, of 260 23 raddr "int nb"] room by (simp add: byte_def)
  have put: "wr (my_draft 260 st xs) (int (H + length xs)) x = Some (my_draft 260 st (xs @ [x]))"
    if "length xs < 20" for xs x
    using that room by (intro put_byte) simp_all
  have b: "byte (int (length vs) * 2) = word_of_nat (2 * length vs)"
    by (simp add: byte_def algebra_simps)
  have r: "put_registers src 0 (int (length vs)) (int (H + 10), my_draft 260 st (?q5 @ ?w))
      = Some (int (H + length q), my_draft 260 st q)"
    using put_regs [of "int (H + 10)" "?q5 @ ?w" "int (length vs)" vs src 0 260 "request_tid st" ?a]
      room n src by (simp add: q)
  have step: "modbus_write_and_read_registers os be waddr (int (length vs)) src raddr (int nb) dest st
    = do { ((rc, rsp), st) \<leftarrow> transact os be (my_draft 260 st q) (int (H + length q)) (tick st);
           case rsp of
             None \<Rightarrow> Some ((rc, dest), st)
           | Some rsp \<Rightarrow>
               if rc = -1 then Some ((-1, dest), st)
               else do {
                 dest \<leftarrow> unpack_registers (header_length be) rc rsp dest;
                 Some ((rc, dest), st) } }"
    using put [of ?q5 "hi_byte waddr"] put [of "?q5 @ [hi_byte waddr]" "lo_byte waddr"]
      put [of "?q5 @ [hi_byte waddr, lo_byte waddr]" "hi_byte (int (length vs))"]
      put [of "?q5 @ [hi_byte waddr, lo_byte waddr, hi_byte (int (length vs))]" "lo_byte (int (length vs))"]
      put [of "?q5 @ [hi_byte waddr, lo_byte waddr, hi_byte (int (length vs)), lo_byte (int (length vs))]"
        "word_of_nat (2 * length vs)"] r n
    by (simp add: modbus_write_and_read_registers_def basis b ac_simps)
  show ?thesis
  proof (cases "confirm q p")
    case (Inl e)
    with tr show ?thesis by (simp add: step)
  next
    case (Inr v)
    have "q ! 0 = 0x17" "field q 3 = nb"
      using request5_fields(2) [of "int nb" "0x17" raddr] n(2)
      by (simp_all add: q request5_def field_def)
    then have v: "v = int nb" "length p = 2 + 2 * nb"
      using confirm_registers [OF _ Inr] by auto
    have "unpack_registers (int H) (int nb) (mkb 260 (map Some (frame (request_tid st) a p))) dest
        = Some (fill dest 0 (pdu_regs (drop 2 p)))"
      using v n by (intro unpack_answer) simp_all
    with tr Inr v show ?thesis by (simp add: step header_length)
  qed
qed

end

section \<open>Packing bits into a request\<close>

lemma horner_snoc_u8:
  "length bs < 8 \<Longrightarrow> horner_sum of_bool 2 bs OR push_bit (length bs) (of_bool b) = (horner_sum of_bool 2 (bs @ [b]) :: u8)"
  by (rule bit_word_eqI)
     (auto simp: bit_simps bit_horner_sum_bit_iff nth_append less_Suc_eq bit_1_iff of_bool_def split: if_splits)

lemma horner_clear_u8:
  "length bs < 8 \<Longrightarrow> horner_sum of_bool 2 bs AND NOT (push_bit (length bs) 1) = (horner_sum of_bool 2 (bs @ [False]) :: u8)"
  by (rule bit_word_eqI)
     (auto simp: bit_simps bit_horner_sum_bit_iff nth_append less_Suc_eq bit_1_iff split: if_splits)

lemma pack_bits_byte_nth:
  "k < length (pack_bits bs) \<Longrightarrow> pack_bits bs ! k = horner_sum of_bool 2 (take 8 (drop (8 * k) bs))"
proof (induction k arbitrary: bs)
  case 0
  then show ?case by (cases bs) simp_all
next
  case (Suc k)
  then have "0 < length bs" by (cases bs) auto
  then have "pack_bits bs = horner_sum of_bool 2 (take 8 bs) # pack_bits (drop 8 bs)"
    by (rule pack_bits_byte)
  with Suc show ?case by (simp add: add.commute)
qed

lemma pack_request_byte_correct:
  assumes src: "\<And>k. k < length bs \<Longrightarrow> \<exists>v. rd src (int k) = Some v \<and> (v \<noteq> 0) = bs ! k"
    and "j \<le> length bs" "length ys < n"
  shows "pack_request_byte src (int (length bs)) (int (length ys)) (int j, mkb n (ys @ [Some 0]))
    = Some (int (min (length bs) (j + 8)), mkb n (ys @ [Some (horner_sum of_bool 2 (take 8 (drop j bs)))]))"
proof -
  let ?p = "\<lambda>k. min (length bs) (j + nat k)"
  let ?h = "\<lambda>k. horner_sum of_bool 2 (take (nat k) (drop j bs)) :: u8"
  let ?g = "\<lambda>k. (int (?p k), mkb n (ys @ [Some (?h k)]))"
  let ?i = "int (length ys)"
  let ?body = "\<lambda>k (pos, req).
          if pos < int (length bs) then do {
            b \<leftarrow> rd src pos;
            v \<leftarrow> rd req ?i;
            req \<leftarrow> wr req ?i
                     (if b \<noteq> 0 then v OR push_bit (nat k) 1 else v AND NOT (push_bit (nat k) 1));
            Some (pos + 1, req) }
          else Some (pos, req)"
  have "for_range 0 8 ?body (?g 0) = Some (?g 8)"
  proof (rule for_range_steps)
    fix i :: int
    assume i: "0 \<le> i" "i < 8"
    then obtain k where k: "i = int k" "k < 8" by (metis nat_0_le nat_less_iff of_nat_numeral)
    have n: "nat (int k + 1) = Suc k" by simp
    have "?body (int k) (?g (int k)) = Some (?g (int k + 1))"
    proof (cases "j + k < length bs")
      case True
      then have p: "?p (int k) = j + k" "?p (int k + 1) = Suc (j + k)" using k(2) n by simp_all
      have tk: "take (Suc k) (drop j bs) = take k (drop j bs) @ [bs ! (j + k)]"
        using True by (simp add: take_Suc_conv_app_nth)
      have lk: "length (take k (drop j bs)) = k" using True by simp
      from src [OF True] obtain v where v: "rd src (int (j + k)) = Some v" "(v \<noteq> 0) = bs ! (j + k)" by blast
      have r: "rd (mkb n (ys @ [Some (?h (int k))])) ?i = Some (?h (int k))"
        by (subst rd_mkb) simp_all
      have w: "wr (mkb n (ys @ [Some (?h (int k))])) ?i x = Some (mkb n (ys @ [Some x]))" for x
        using assms(3) by (subst wr_mkb_in) simp_all
      have "(if v \<noteq> 0 then ?h (int k) OR push_bit k 1 else ?h (int k) AND NOT (push_bit k 1)) = ?h (int k + 1)"
        using v(2) horner_snoc_u8 [of "take k (drop j bs)" "bs ! (j + k)"]
          horner_clear_u8 [of "take k (drop j bs)"] lk k(2) tk n by auto
      with True p v(1) r w k(2) n show ?thesis
        by (cases "v = 0") (simp_all del: push_bit_of_1)
    next
      case False
      then have "?p (int k) = length bs" "?p (int k + 1) = length bs" "?h (int k) = ?h (int k + 1)" using k(2) n by simp_all
      then show ?thesis by simp
    qed
    then show "?body i (?g i) = Some (?g (i + 1))" by (simp only: k(1))
  qed simp
  then show ?thesis
    using assms(2) by (simp add: pack_request_byte_def min_absorb2)
qed

lemma pack_request_loop:
  assumes src: "\<And>k. k < length bs \<Longrightarrow> \<exists>v. rd src (int k) = Some v \<and> (v \<noteq> 0) = bs ! k"
    and "length ys + length (pack_bits bs) \<le> n"
  shows "for_range 0 (int (length (pack_bits bs)))
      (\<lambda>i (pos, req_length, req). do {
         req \<leftarrow> wr req req_length 0;
         (pos, req) \<leftarrow> pack_request_byte src (int (length bs)) req_length (pos, req);
         Some (pos, req_length + 1, req) }) (0, int (length ys), mkb n ys)
    = Some (int (length bs), int (length ys + length (pack_bits bs)), mkb n (ys @ map Some (pack_bits bs)))"
proof -
  let ?body = "\<lambda>i (pos, req_length, req). do {
         req \<leftarrow> wr req req_length 0;
         (pos, req) \<leftarrow> pack_request_byte src (int (length bs)) req_length (pos, req);
         Some (pos, req_length + 1, req) }"
  let ?g = "\<lambda>i. (int (min (length bs) (8 * nat i)), int (length ys + nat i),
      mkb n (ys @ map Some (take (nat i) (pack_bits bs))))"
  have "for_range 0 (int (length (pack_bits bs))) ?body (?g 0) = Some (?g (int (length (pack_bits bs))))"
  proof (rule for_range_steps)
    fix i
    assume i: "0 \<le> i" "i < int (length (pack_bits bs))"
    then obtain k where k: "i = int k" "k < length (pack_bits bs)" by (metis nat_0_le nat_less_iff)
    then have le: "8 * k < length bs" by (simp add: length_pack_bits)
    have n: "nat (int k + 1) = Suc k" by simp
    let ?ys = "ys @ map Some (take k (pack_bits bs))"
    have len: "length ?ys = length ys + k" "length ?ys < n" using k(2) assms(2) by simp_all
    have w: "wr (mkb n ?ys) (int (length ?ys)) 0 = Some (mkb n (?ys @ [Some 0]))"
      using len by (intro wr_mkb_end) simp_all
    have "take (Suc k) (pack_bits bs) = take k (pack_bits bs) @ [horner_sum of_bool 2 (take 8 (drop (8 * k) bs))]"
      using k(2) by (simp add: take_Suc_conv_app_nth pack_bits_byte_nth)
    with pack_request_byte_correct [OF src _ len(2), where j = "8 * k"] w len le k n
    show "?body i (?g i) = Some (?g (i + 1))"
      by (simp add: min_def ac_simps split: if_splits)
  qed simp
  moreover have "length bs \<le> 8 * length (pack_bits bs)"
    by (simp add: length_pack_bits)
  ultimately show ?thesis by (simp add: min_absorb1)
qed

context client_link
begin

lemma write_bits_exchange:
  assumes u: "usable (ctx st)" and n: "length bs \<le> 1968"
    and q: "q = request5 0x0F addr (int (length bs)) @ word_of_nat (length (pack_bits bs)) # pack_bits bs"
    and src: "\<And>k. k < length bs \<Longrightarrow> \<exists>v. rd src (int k) = Some v \<and> (v \<noteq> 0) = bs ! k"
    and ex: "exchange os put get line st (my_frame st q) (frame (request_tid st) a p, peer)"
    and wf: "well_formed MSG_CONFIRMATION p"
  shows "\<exists>st'. modbus_write_bits os be addr (int (length bs)) src st
      = Some ((case confirm q p of Inr v \<Rightarrow> v | Inl e \<Rightarrow> -1), st') \<and> settled line peer st (confirm q p) st'"
proof -
  let ?q5 = "request5 0x0F addr (int (length bs))" and ?c = "word_of_nat (length (pack_bits bs)) :: u8"
  have pk: "length (pack_bits bs) \<le> 246" using n by (simp add: length_pack_bits)
  have len: "length q = 6 + length (pack_bits bs)" by (simp add: q)
  have "asks q" by (simp add: q request5_def asks_def)
  have "length q \<le> 253" "H + length q + C \<le> 260" using pk room by (simp_all add: len)
  from transact_exchange [OF ex wf \<open>asks q\<close> this] obtain st' where
    tr: "transact os be (my_draft 260 st q) (int (H + length q)) (tick st)
      = Some ((case confirm q p of Inr v \<Rightarrow> v | Inl e \<Rightarrow> -1,
               Some (mkb 260 (map Some (frame (request_tid st) a p)))), st')"
    "settled line peer st (confirm q p) st'"
    by auto
  have basis: "be_build_request_basis be 15 addr (int (length bs)) (fresh 260) st
      = Some ((int (H + 5), my_draft 260 st ?q5), tick st)"
    using basis_draft [OF u, of 260 15 addr "int (length bs)"] room by (simp add: byte_def)
  have w: "wr (my_draft 260 st ?q5) (int (H + 5)) (byte (int (length (pack_bits bs)))) = Some (my_draft 260 st (?q5 @ [?c]))"
    using put_byte [of "int (H + 5)" ?q5 260 "request_tid st" "byte (mb_slave (ctx st))" ?c] room
    by (simp add: byte_def)
  let ?ys = "hdr (request_tid st) (byte (mb_slave (ctx st))) @ map Some (?q5 @ [?c])"
  have ys: "length ?ys = H + 6" by (simp add: length_hdr)
  have loop: "for_range 0 (int (length (pack_bits bs)))
      (\<lambda>i (pos, req_length, req). do {
         req \<leftarrow> wr req req_length 0;
         (pos, req) \<leftarrow> pack_request_byte src (int (length bs)) req_length (pos, req);
         Some (pos, req_length + 1, req) }) (0, int (H + 6), my_draft 260 st (?q5 @ [?c]))
    = Some (int (length bs), int (H + length q), my_draft 260 st q)"
    using pack_request_loop [OF src, of ?ys 260] pk room unfolding ys by (simp add: draft_def q)
  show ?thesis
    using tr basis w loop n
    by (simp add: modbus_write_bits_def byte_count_pack ac_simps)
qed

end

end
