(* ===== verification/Crc.thy ===== *)
theory Crc
  imports Prelude
begin

text \<open>
  The checksum of RTU frames (\<open>crc16\<close> and its two tables in \<open>library/modbus/modbus-rtu.c\<close>), the
  bitwise CRC it implements, and what it detects.
\<close>

section \<open>The code\<close>

definition table_crc_hi :: "u8 list" where
  "table_crc_hi = [
    0x00, 0xC1, 0x81, 0x40, 0x01, 0xC0, 0x80, 0x41, 0x01, 0xC0, 0x80, 0x41, 0x00, 0xC1, 0x81, 0x40,
    0x01, 0xC0, 0x80, 0x41, 0x00, 0xC1, 0x81, 0x40, 0x00, 0xC1, 0x81, 0x40, 0x01, 0xC0, 0x80, 0x41,
    0x01, 0xC0, 0x80, 0x41, 0x00, 0xC1, 0x81, 0x40, 0x00, 0xC1, 0x81, 0x40, 0x01, 0xC0, 0x80, 0x41,
    0x00, 0xC1, 0x81, 0x40, 0x01, 0xC0, 0x80, 0x41, 0x01, 0xC0, 0x80, 0x41, 0x00, 0xC1, 0x81, 0x40,
    0x01, 0xC0, 0x80, 0x41, 0x00, 0xC1, 0x81, 0x40, 0x00, 0xC1, 0x81, 0x40, 0x01, 0xC0, 0x80, 0x41,
    0x00, 0xC1, 0x81, 0x40, 0x01, 0xC0, 0x80, 0x41, 0x01, 0xC0, 0x80, 0x41, 0x00, 0xC1, 0x81, 0x40,
    0x00, 0xC1, 0x81, 0x40, 0x01, 0xC0, 0x80, 0x41, 0x01, 0xC0, 0x80, 0x41, 0x00, 0xC1, 0x81, 0x40,
    0x01, 0xC0, 0x80, 0x41, 0x00, 0xC1, 0x81, 0x40, 0x00, 0xC1, 0x81, 0x40, 0x01, 0xC0, 0x80, 0x41,
    0x01, 0xC0, 0x80, 0x41, 0x00, 0xC1, 0x81, 0x40, 0x00, 0xC1, 0x81, 0x40, 0x01, 0xC0, 0x80, 0x41,
    0x00, 0xC1, 0x81, 0x40, 0x01, 0xC0, 0x80, 0x41, 0x01, 0xC0, 0x80, 0x41, 0x00, 0xC1, 0x81, 0x40,
    0x00, 0xC1, 0x81, 0x40, 0x01, 0xC0, 0x80, 0x41, 0x01, 0xC0, 0x80, 0x41, 0x00, 0xC1, 0x81, 0x40,
    0x01, 0xC0, 0x80, 0x41, 0x00, 0xC1, 0x81, 0x40, 0x00, 0xC1, 0x81, 0x40, 0x01, 0xC0, 0x80, 0x41,
    0x00, 0xC1, 0x81, 0x40, 0x01, 0xC0, 0x80, 0x41, 0x01, 0xC0, 0x80, 0x41, 0x00, 0xC1, 0x81, 0x40,
    0x01, 0xC0, 0x80, 0x41, 0x00, 0xC1, 0x81, 0x40, 0x00, 0xC1, 0x81, 0x40, 0x01, 0xC0, 0x80, 0x41,
    0x01, 0xC0, 0x80, 0x41, 0x00, 0xC1, 0x81, 0x40, 0x00, 0xC1, 0x81, 0x40, 0x01, 0xC0, 0x80, 0x41,
    0x00, 0xC1, 0x81, 0x40, 0x01, 0xC0, 0x80, 0x41, 0x01, 0xC0, 0x80, 0x41, 0x00, 0xC1, 0x81, 0x40]"

definition table_crc_lo :: "u8 list" where
  "table_crc_lo = [
    0x00, 0xC0, 0xC1, 0x01, 0xC3, 0x03, 0x02, 0xC2, 0xC6, 0x06, 0x07, 0xC7, 0x05, 0xC5, 0xC4, 0x04,
    0xCC, 0x0C, 0x0D, 0xCD, 0x0F, 0xCF, 0xCE, 0x0E, 0x0A, 0xCA, 0xCB, 0x0B, 0xC9, 0x09, 0x08, 0xC8,
    0xD8, 0x18, 0x19, 0xD9, 0x1B, 0xDB, 0xDA, 0x1A, 0x1E, 0xDE, 0xDF, 0x1F, 0xDD, 0x1D, 0x1C, 0xDC,
    0x14, 0xD4, 0xD5, 0x15, 0xD7, 0x17, 0x16, 0xD6, 0xD2, 0x12, 0x13, 0xD3, 0x11, 0xD1, 0xD0, 0x10,
    0xF0, 0x30, 0x31, 0xF1, 0x33, 0xF3, 0xF2, 0x32, 0x36, 0xF6, 0xF7, 0x37, 0xF5, 0x35, 0x34, 0xF4,
    0x3C, 0xFC, 0xFD, 0x3D, 0xFF, 0x3F, 0x3E, 0xFE, 0xFA, 0x3A, 0x3B, 0xFB, 0x39, 0xF9, 0xF8, 0x38,
    0x28, 0xE8, 0xE9, 0x29, 0xEB, 0x2B, 0x2A, 0xEA, 0xEE, 0x2E, 0x2F, 0xEF, 0x2D, 0xED, 0xEC, 0x2C,
    0xE4, 0x24, 0x25, 0xE5, 0x27, 0xE7, 0xE6, 0x26, 0x22, 0xE2, 0xE3, 0x23, 0xE1, 0x21, 0x20, 0xE0,
    0xA0, 0x60, 0x61, 0xA1, 0x63, 0xA3, 0xA2, 0x62, 0x66, 0xA6, 0xA7, 0x67, 0xA5, 0x65, 0x64, 0xA4,
    0x6C, 0xAC, 0xAD, 0x6D, 0xAF, 0x6F, 0x6E, 0xAE, 0xAA, 0x6A, 0x6B, 0xAB, 0x69, 0xA9, 0xA8, 0x68,
    0x78, 0xB8, 0xB9, 0x79, 0xBB, 0x7B, 0x7A, 0xBA, 0xBE, 0x7E, 0x7F, 0xBF, 0x7D, 0xBD, 0xBC, 0x7C,
    0xB4, 0x74, 0x75, 0xB5, 0x77, 0xB7, 0xB6, 0x76, 0x72, 0xB2, 0xB3, 0x73, 0xB1, 0x71, 0x70, 0xB0,
    0x50, 0x90, 0x91, 0x51, 0x93, 0x53, 0x52, 0x92, 0x96, 0x56, 0x57, 0x97, 0x55, 0x95, 0x94, 0x54,
    0x9C, 0x5C, 0x5D, 0x9D, 0x5F, 0x9F, 0x9E, 0x5E, 0x5A, 0x9A, 0x9B, 0x5B, 0x99, 0x59, 0x58, 0x98,
    0x88, 0x48, 0x49, 0x89, 0x4B, 0x8B, 0x8A, 0x4A, 0x4E, 0x8E, 0x8F, 0x4F, 0x8D, 0x4D, 0x4C, 0x8C,
    0x44, 0x84, 0x85, 0x45, 0x87, 0x47, 0x46, 0x86, 0x82, 0x42, 0x43, 0x83, 0x41, 0x81, 0x80, 0x40]"

text \<open>One iteration of the loop: the new \<open>crc_hi\<close> and \<open>crc_lo\<close>.\<close>

definition crc_step :: "u8 \<Rightarrow> u8 \<times> u8 \<Rightarrow> u8 \<times> u8" where
  "crc_step b c =
     (let i = fst c XOR b
      in (snd c XOR table_crc_hi ! unat i, table_crc_lo ! unat i))"

definition crc16 :: "u8 cbuf \<Rightarrow> u16 \<Rightarrow> u16 option" where
  "crc16 buffer buffer_length =
     do { (crc_hi, crc_lo) \<leftarrow>
            for_range 0 (uint buffer_length)
              (\<lambda>k c. do { b \<leftarrow> rd buffer k; Some (crc_step b c) })
              (0xFF, 0xFF);
          Some (push_bit 8 (ucast crc_hi) OR ucast crc_lo) }"

section \<open>The bitwise definition\<close>

text \<open>CRC-16 with the reflected polynomial 0xA001: one bit, one byte, a message.\<close>

definition crc_bit :: "u16 \<Rightarrow> u16" where
  "crc_bit r = (if bit r 0 then drop_bit 1 r XOR 0xA001 else drop_bit 1 r)"

definition crc_byte :: "u8 \<Rightarrow> u16 \<Rightarrow> u16" where
  "crc_byte b r = (crc_bit ^^ 8) (r XOR ucast b)"

definition crc_spec :: "u8 list \<Rightarrow> u16" where
  "crc_spec bs = fold crc_byte bs 0xFFFF"

text \<open>The code keeps the low byte of the register in \<open>crc_hi\<close> and the high byte in \<open>crc_lo\<close>.\<close>

definition crc_reg :: "u8 \<times> u8 \<Rightarrow> u16" where
  "crc_reg c = push_bit 8 (ucast (snd c)) OR ucast (fst c)"

definition crc_list :: "u8 list \<Rightarrow> u8 \<times> u8" where
  "crc_list bs = fold crc_step bs (0xFF, 0xFF)"

definition crc_word :: "u8 \<times> u8 \<Rightarrow> u16" where
  "crc_word c = push_bit 8 (ucast (fst c)) OR ucast (snd c)"

section \<open>The tables\<close>

lemma length_tables [simp]: "length table_crc_hi = 256" "length table_crc_lo = 256"
  by (simp_all add: table_crc_hi_def table_crc_lo_def)

text \<open>The bit step on natural numbers, on which the simplifier evaluates fast.\<close>

definition crc_bit_nat :: "nat \<Rightarrow> nat" where
  "crc_bit_nat n = (if odd n then (n div 2) XOR 0xA001 else n div 2)"

definition crc_byte_nat :: "nat \<Rightarrow> nat" where
  "crc_byte_nat n = crc_bit_nat (crc_bit_nat (crc_bit_nat (crc_bit_nat
     (crc_bit_nat (crc_bit_nat (crc_bit_nat (crc_bit_nat n)))))))"

lemma crc_bit_nat: "n < 65536 \<Longrightarrow> crc_bit (word_of_nat n) = word_of_nat (crc_bit_nat n)"
proof -
  assume "n < 65536"
  then have "drop_bit 1 (word_of_nat n :: u16) = word_of_nat (n div 2)"
    by (simp add: word_unat_eq_iff unsigned_of_nat drop_bit_eq_div take_bit_eq_mod unat_div)
  moreover have "word_of_nat (m XOR 0xA001) = (word_of_nat m XOR word_of_nat 0xA001 :: u16)" for m
    by (rule bit_word_eqI) (simp add: bit_simps del: of_nat_numeral)
  moreover have "bit (word_of_nat n :: u16) 0 = odd n"
    by (simp add: bit_simps bit_0)
  ultimately show ?thesis
    by (simp add: crc_bit_def crc_bit_nat_def del: drop_bit_Suc)
qed

lemma crc_bit_nat_lt: "n < 65536 \<Longrightarrow> crc_bit_nat n < 65536"
proof -
  assume "n < 65536"
  then have "take_bit 16 (n div 2) = n div 2"
    by (subst take_bit_nat_eq_self_iff) simp
  moreover have "take_bit 16 (0xA001 :: nat) = 0xA001"
    by (subst take_bit_nat_eq_self_iff) simp
  ultimately have "take_bit 16 ((n div 2) XOR 0xA001) = (n div 2) XOR 0xA001"
    by (simp only: take_bit_xor)
  then have "(n div 2) XOR 0xA001 < 2 ^ 16"
    by (subst (asm) take_bit_nat_eq_self_iff)
  with \<open>n < 65536\<close> show ?thesis
    by (auto simp: crc_bit_nat_def)
qed

lemma funpow_8: "(f ^^ 8) x = f (f (f (f (f (f (f (f x)))))))"
  by (simp add: numeral_eq_Suc)

lemma crc_byte_nat: "n < 65536 \<Longrightarrow> (crc_bit ^^ 8) (word_of_nat n) = word_of_nat (crc_byte_nat n)"
  by (simp only: funpow_8 crc_byte_nat_def crc_bit_nat crc_bit_nat_lt)

lemma tables_nat:
  "map crc_byte_nat
     [0, 1, 2, 3, 4, 5, 6, 7, 8, 9, 10, 11, 12, 13, 14, 15, 16, 17, 18, 19, 20, 21, 22, 23, 24,
      25, 26, 27, 28, 29, 30, 31, 32, 33, 34, 35, 36, 37, 38, 39, 40, 41, 42, 43, 44, 45, 46,
      47, 48, 49, 50, 51, 52, 53, 54, 55, 56, 57, 58, 59, 60, 61, 62, 63, 64, 65, 66, 67, 68,
      69, 70, 71, 72, 73, 74, 75, 76, 77, 78, 79, 80, 81, 82, 83, 84, 85, 86, 87, 88, 89, 90,
      91, 92, 93, 94, 95, 96, 97, 98, 99, 100, 101, 102, 103, 104, 105, 106, 107, 108, 109, 110,
      111, 112, 113, 114, 115, 116, 117, 118, 119, 120, 121, 122, 123, 124, 125, 126, 127, 128,
      129, 130, 131, 132, 133, 134, 135, 136, 137, 138, 139, 140, 141, 142, 143, 144, 145, 146,
      147, 148, 149, 150, 151, 152, 153, 154, 155, 156, 157, 158, 159, 160, 161, 162, 163, 164,
      165, 166, 167, 168, 169, 170, 171, 172, 173, 174, 175, 176, 177, 178, 179, 180, 181, 182,
      183, 184, 185, 186, 187, 188, 189, 190, 191, 192, 193, 194, 195, 196, 197, 198, 199, 200,
      201, 202, 203, 204, 205, 206, 207, 208, 209, 210, 211, 212, 213, 214, 215, 216, 217, 218,
      219, 220, 221, 222, 223, 224, 225, 226, 227, 228, 229, 230, 231, 232, 233, 234, 235, 236,
      237, 238, 239, 240, 241, 242, 243, 244, 245, 246, 247, 248, 249, 250, 251, 252, 253, 254,
      255]
   = map2 (\<lambda>h l. unat l * 256 + unat h) table_crc_hi table_crc_lo"
  by (simp add: crc_byte_nat_def crc_bit_nat_def table_crc_hi_def table_crc_lo_def)

lemma upt_256:
  "[0..<256] = [0, 1, 2, 3, 4, 5, 6, 7, 8, 9, 10, 11, 12, 13, 14, 15, 16, 17, 18, 19, 20, 21, 22, 23, 24,
      25, 26, 27, 28, 29, 30, 31, 32, 33, 34, 35, 36, 37, 38, 39, 40, 41, 42, 43, 44, 45, 46,
      47, 48, 49, 50, 51, 52, 53, 54, 55, 56, 57, 58, 59, 60, 61, 62, 63, 64, 65, 66, 67, 68,
      69, 70, 71, 72, 73, 74, 75, 76, 77, 78, 79, 80, 81, 82, 83, 84, 85, 86, 87, 88, 89, 90,
      91, 92, 93, 94, 95, 96, 97, 98, 99, 100, 101, 102, 103, 104, 105, 106, 107, 108, 109, 110,
      111, 112, 113, 114, 115, 116, 117, 118, 119, 120, 121, 122, 123, 124, 125, 126, 127, 128,
      129, 130, 131, 132, 133, 134, 135, 136, 137, 138, 139, 140, 141, 142, 143, 144, 145, 146,
      147, 148, 149, 150, 151, 152, 153, 154, 155, 156, 157, 158, 159, 160, 161, 162, 163, 164,
      165, 166, 167, 168, 169, 170, 171, 172, 173, 174, 175, 176, 177, 178, 179, 180, 181, 182,
      183, 184, 185, 186, 187, 188, 189, 190, 191, 192, 193, 194, 195, 196, 197, 198, 199, 200,
      201, 202, 203, 204, 205, 206, 207, 208, 209, 210, 211, 212, 213, 214, 215, 216, 217, 218,
      219, 220, 221, 222, 223, 224, 225, 226, 227, 228, 229, 230, 231, 232, 233, 234, 235, 236,
      237, 238, 239, 240, 241, 242, 243, 244, 245, 246, 247, 248, 249, 250, 251, 252, 253, 254,
      255]"
  by (simp add: upt_conv_Cons)

lemma tables_nth:
  assumes "n < 256"
  shows "crc_byte_nat n = unat (table_crc_lo ! n) * 256 + unat (table_crc_hi ! n)"
proof -
  have "map crc_byte_nat [0..<256] ! n = map2 (\<lambda>h l. unat l * 256 + unat h) table_crc_hi table_crc_lo ! n"
    by (simp only: upt_256 tables_nat)
  then show ?thesis
    using assms by simp
qed

section \<open>The code computes the bitwise CRC\<close>

lemma crc_bit_xor: "crc_bit (a XOR b) = crc_bit a XOR crc_bit b"
  by (rule bit_word_eqI) (auto simp: crc_bit_def bit_simps)

lemma crc_byte_xor: "(crc_bit ^^ n) (a XOR b) = (crc_bit ^^ n) a XOR (crc_bit ^^ n) b"
  by (induction n) (simp_all add: crc_bit_xor)

lemma crc_bit_push:
  assumes "m = Suc k" "k < 8"
  shows "crc_bit (push_bit m (ucast (x :: u8))) = push_bit k (ucast x)"
proof -
  have "\<not> bit (push_bit m (ucast x) :: u16) 0"
    using assms by (simp add: bit_push_bit_iff del: push_bit_Suc)
  then have "crc_bit (push_bit m (ucast x)) = drop_bit 1 (push_bit m (ucast x))"
    by (simp add: crc_bit_def)
  also have "\<dots> = push_bit k (ucast x)"
    using assms
    by (intro bit_word_eqI)
       (auto simp: bit_drop_bit_eq bit_push_bit_iff bit_ucast_iff simp del: push_bit_Suc dest: bit_imp_le_length)
  finally show ?thesis .
qed

lemma crc_bit_push_8: "(crc_bit ^^ 8) (push_bit 8 (ucast (x :: u8))) = ucast x"
proof -
  note steps = crc_bit_push [of 8 7 x] crc_bit_push [of 7 6 x] crc_bit_push [of 6 5 x]
    crc_bit_push [of 5 4 x] crc_bit_push [of 4 3 x] crc_bit_push [of 3 2 x]
    crc_bit_push [of 2 1 x] crc_bit_push [of 1 0 x]
  have "(crc_bit ^^ 8) (push_bit 8 (ucast x)) = push_bit 0 (ucast x)"
    unfolding funpow_8 by (subst steps, simp, simp)+ simp
  then show ?thesis by simp
qed

lemma crc_reg_xor: "crc_reg (h, l) = push_bit 8 (ucast l) XOR ucast h"
  by (rule bit_word_eqI) (auto simp: crc_reg_def bit_simps dest: bit_imp_le_length)

lemma crc_reg_nat: "crc_reg (h, l) = word_of_nat (unat l * 256 + unat h)"
proof -
  have "push_bit 8 (ucast l) AND (ucast h :: u16) = 0"
    by (rule bit_word_eqI) (auto simp: bit_simps dest: bit_imp_le_length)
  then have "crc_reg (h, l) = push_bit 8 (ucast l) + ucast h"
    by (simp add: crc_reg_def disjunctive_add_eq_or)
  then show ?thesis
    by (simp add: push_bit_eq_mult)
qed

lemma crc_table: "(crc_bit ^^ 8) (ucast (i :: u8)) = crc_reg (table_crc_hi ! unat i, table_crc_lo ! unat i)"
proof -
  have "unat i < 256" by simp
  then have "unat i < 65536" by linarith
  with \<open>unat i < 256\<close> show ?thesis
    using crc_byte_nat [of "unat i"] tables_nth [of "unat i"]
    by (simp add: crc_reg_nat)
qed

lemma crc_reg_step: "crc_reg (crc_step b c) = crc_byte b (crc_reg c)"
proof -
  obtain h l where c: "c = (h, l)" by (cases c)
  have "crc_reg c XOR ucast b = push_bit 8 (ucast l) XOR ucast (h XOR b)"
    by (simp add: c crc_reg_xor xor.assoc unsigned_xor_eq)
  then have "crc_byte b (crc_reg c)
      = (crc_bit ^^ 8) (push_bit 8 (ucast l)) XOR (crc_bit ^^ 8) (ucast (h XOR b))"
    by (simp only: crc_byte_def crc_byte_xor)
  also have "\<dots> = ucast l XOR crc_reg (table_crc_hi ! unat (h XOR b), table_crc_lo ! unat (h XOR b))"
    by (simp only: crc_bit_push_8 crc_table)
  also have "\<dots> = crc_reg (crc_step b c)"
    by (simp add: c crc_step_def crc_reg_xor Let_def unsigned_xor_eq xor.assoc xor.commute xor.left_commute)
  finally show ?thesis ..
qed

lemma crc_reg_list: "crc_reg (crc_list bs) = crc_spec bs"
proof -
  have "crc_reg (fold crc_step bs c) = fold crc_byte bs (crc_reg c)" for c
    by (induction bs arbitrary: c) (simp_all add: crc_reg_step)
  moreover have "crc_reg (0xFF, 0xFF) = 0xFFFF"
    by (simp add: crc_reg_def)
  ultimately show ?thesis
    by (simp add: crc_list_def crc_spec_def)
qed

lemma crc16_rds:
  assumes "rds buf 0 (unat n) = Some bs"
  shows "crc16 buf n = Some (crc_word (crc_list bs))"
proof -
  have step: "for_range a (a + int (length xs)) (\<lambda>k c. do { b \<leftarrow> rd buf k; Some (crc_step b c) }) c
      = Some (fold crc_step xs c)" if "rds buf a (length xs) = Some xs" for a c xs
    using that
  proof (induction xs arbitrary: a c)
    case Nil
    then show ?case by simp
  next
    case (Cons x xs)
    then have "rd buf a = Some x" "rds buf (a + 1) (length xs) = Some xs"
      by (auto simp: Option.bind_eq_Some_conv)
    with Cons.IH [of "a + 1" "crc_step x c"] show ?case
      by (simp add: for_range_step algebra_simps)
  qed
  have len: "length bs = unat n"
    using assms by (rule rds_length)
  with step [of 0 bs "(0xFF, 0xFF)"] assms show ?thesis
    by (simp add: crc16_def crc_list_def crc_word_def split: prod.splits)
qed

text \<open>Exchange of the two bytes of a register: the code returns the low byte of the CRC first.\<close>

definition swap16 :: "u16 \<Rightarrow> u16" where
  "swap16 r = push_bit 8 r OR drop_bit 8 r"

lemma crc_word_swap: "crc_word c = swap16 (crc_reg c)"
  by (rule bit_word_eqI)
     (auto simp: crc_word_def crc_reg_def swap16_def bit_simps dest: bit_imp_le_length)

section \<open>Residue and detection\<close>

text \<open>The bit step is injective, hence so is the table of low-order bytes.\<close>

lemma crc_bit_inj: "crc_bit a = crc_bit b \<Longrightarrow> a = b"
proof -
  have top: "bit (crc_bit r) 15 = bit r 0" for r
    by (simp add: crc_bit_def bit_simps) (use bit_imp_le_length [of r 16] in auto)
  have rest: "drop_bit 1 r = (if bit r 0 then crc_bit r XOR 0xA001 else crc_bit r)" for r
    by (simp add: crc_bit_def xor.assoc)
  assume eq: "crc_bit a = crc_bit b"
  then have low: "bit a 0 = bit b 0"
    by (metis top)
  with eq have "drop_bit 1 a = drop_bit 1 b"
    by (simp only: rest)
  then have "bit (drop_bit 1 a) n = bit (drop_bit 1 b) n" for n
    by simp
  then have "bit a (Suc n) = bit b (Suc n)" for n
    by (simp add: bit_drop_bit_eq)
  with low have "bit a n = bit b n" for n
    by (cases n) auto
  then show "a = b"
    by (simp add: bit_eq_iff)
qed

lemma crc_bit_pow_inj: "(crc_bit ^^ n) a = (crc_bit ^^ n) b \<Longrightarrow> a = b"
  by (induction n) (auto dest: crc_bit_inj)

lemma crc_reg_xor_same_high: "crc_reg (h, l) XOR crc_reg (h', l) = ucast (h XOR h')"
  by (rule bit_word_eqI) (auto simp: crc_reg_xor bit_simps)

lemma table_lo_inj:
  assumes "table_crc_lo ! unat (i :: u8) = table_crc_lo ! unat j"
  shows "i = j"
proof -
  let ?y = "table_crc_hi ! unat i XOR table_crc_hi ! unat j"
  have "(crc_bit ^^ 8) (ucast (i XOR j)) = (crc_bit ^^ 8) (ucast i) XOR (crc_bit ^^ 8) (ucast j)"
    by (simp only: unsigned_xor_eq crc_byte_xor)
  also have "\<dots> = ucast ?y"
    by (simp only: crc_table assms crc_reg_xor_same_high)
  also have "\<dots> = (crc_bit ^^ 8) (push_bit 8 (ucast ?y))"
    by (simp only: crc_bit_push_8)
  finally have eq: "(ucast (i XOR j) :: u16) = push_bit 8 (ucast ?y)"
    by (rule crc_bit_pow_inj)
  have "\<not> bit (i XOR j) n" for n
  proof (cases "n < 8")
    case True
    with eq have "bit (ucast (i XOR j) :: u16) n = False"
      by (simp only: bit_push_bit_iff) simp
    with True show ?thesis
      by (simp add: bit_ucast_iff)
  next
    case False
    then show ?thesis
      using bit_imp_le_length [of "i XOR j" n] by auto
  qed
  then have "i XOR j = j XOR j"
    by (simp add: bit_eq_iff)
  then show ?thesis
    by (simp only: xor_cancel_right)
qed

lemma tables_0 [simp]: "table_crc_hi ! 0 = 0" "table_crc_lo ! 0 = 0"
proof -
  have "crc_byte_nat 0 = 0"
    by (simp add: crc_byte_nat_def crc_bit_nat_def)
  with tables_nth [of 0] show "table_crc_hi ! 0 = 0" "table_crc_lo ! 0 = 0"
    by (simp_all add: unsigned_eq_0_iff)
qed

lemma crc_step_fst: "fst (crc_step b c) = snd c XOR table_crc_hi ! unat (fst c XOR b)"
  and crc_step_snd: "snd (crc_step b c) = table_crc_lo ! unat (fst c XOR b)"
  by (simp_all add: crc_step_def Let_def)

lemma crc_step_inj:
  assumes "crc_step b c = crc_step b' c'"
  shows "fst c XOR b = fst c' XOR b' \<and> snd c = snd c'"
proof -
  from arg_cong [OF assms, of snd] have i: "fst c XOR b = fst c' XOR b'"
    unfolding crc_step_snd by (rule table_lo_inj)
  from arg_cong [OF assms, of fst] have "snd c = snd c'"
    unfolding crc_step_fst i by (rule xor_cancel_right [THEN iffD1])
  with i show ?thesis ..
qed

lemma crc_step_inj_state: "crc_step b c = crc_step b c' \<Longrightarrow> c = c'"
  by (drule crc_step_inj) (simp add: prod_eq_iff xor_cancel_right)

lemma crc_fold_inj_state: "fold crc_step bs c = fold crc_step bs c' \<Longrightarrow> c = c'"
proof (induction bs arbitrary: c c')
  case Nil
  then show ?case by simp
next
  case (Cons b bs)
  from Cons.IH [of "crc_step b c" "crc_step b c'"] Cons.prems have "crc_step b c = crc_step b c'"
    by simp
  then show ?case by (rule crc_step_inj_state)
qed

lemma crc_two_bytes_inj:
  assumes "crc_step b2 (crc_step b1 c) = crc_step d2 (crc_step d1 c)"
  shows "b1 = d1 \<and> b2 = d2"
proof -
  from crc_step_inj [OF assms] have s: "snd (crc_step b1 c) = snd (crc_step d1 c)"
    and i: "fst (crc_step b1 c) XOR b2 = fst (crc_step d1 c) XOR d2" by simp_all
  from s have "fst c XOR b1 = fst c XOR d1"
    unfolding crc_step_snd by (rule table_lo_inj)
  then have "b1 = d1"
    by (rule xor_cancel_left [THEN iffD1])
  from i have "b2 = d2"
    unfolding \<open>b1 = d1\<close> by (rule xor_cancel_left [THEN iffD1])
  with \<open>b1 = d1\<close> show ?thesis ..
qed

lemma crc_residue: "crc_list (bs @ [x, y]) = (0, 0) \<longleftrightarrow> crc_list bs = (x, y)"
proof -
  have zero: "crc_step v (crc_step u (u, v)) = (0, 0)" for u v
    by (simp add: crc_step_def)
  show ?thesis
  proof
    assume "crc_list (bs @ [x, y]) = (0, 0)"
    then have "crc_step y (crc_step x (crc_list bs)) = crc_step y (crc_step x (x, y))"
      using zero by (simp add: crc_list_def)
    then show "crc_list bs = (x, y)"
      by (rule crc_step_inj_state [OF crc_step_inj_state])
  next
    assume "crc_list bs = (x, y)"
    then show "crc_list (bs @ [x, y]) = (0, 0)"
      using zero by (simp add: crc_list_def)
  qed
qed

lemma crc_burst:
  assumes "crc_list (p @ [b1, b2] @ q) = crc_list (p @ [d1, d2] @ q)"
  shows "b1 = d1 \<and> b2 = d2"
proof -
  from assms have "fold crc_step [b1, b2] (crc_list p) = fold crc_step [d1, d2] (crc_list p)"
    by (simp add: crc_list_def crc_fold_inj_state [of q])
  then have "crc_step b2 (crc_step b1 (crc_list p)) = crc_step d2 (crc_step d1 (crc_list p))"
    by simp
  then show ?thesis
    by (rule crc_two_bytes_inj)
qed

lemma crc_word_bytes [simp]:
  "ucast (drop_bit 8 (crc_word c)) = fst c" "ucast (crc_word c AND 255) = snd c"
proof -
  have m: "(255 :: u16) = mask 8" by (simp add: mask_eq_exp_minus_1)
  show "ucast (drop_bit 8 (crc_word c)) = fst c"
    by (rule bit_word_eqI) (auto simp: crc_word_def bit_simps dest: bit_imp_le_length)
  show "ucast (crc_word c AND 255) = snd c"
    unfolding m by (rule bit_word_eqI) (auto simp: crc_word_def bit_simps dest: bit_imp_le_length)
qed

lemma crc_word_inj: "crc_word c = crc_word d \<longleftrightarrow> c = d"
  by (metis crc_word_bytes prod_eqI)

lemma crc16_mkb:
  assumes "length bs < 65536"
  shows "crc16 (mkb n (map Some (bs @ r))) (word_of_int (int (length bs))) = Some (crc_word (crc_list bs))"
proof (rule crc16_rds)
  have "unat (word_of_int (int (length bs)) :: u16) = length bs"
    using assms by (simp add: unsigned_of_nat take_bit_nat_eq_self)
  then show "rds (mkb n (map Some (bs @ r))) 0 (unat (word_of_int (int (length bs)) :: u16)) = Some bs"
    using rds_mkb_init [of 0 "length bs" "bs @ r" n] by simp
qed

section \<open>Properties\<close>

text \<open>
  C10: on every message of at most 65535 bytes the table-driven \<open>crc16\<close> returns the
  CRC-16 of the polynomial 0xA001 computed bit by bit, with its two bytes exchanged.
\<close>

theorem crc16_is_bitwise_crc:
  assumes "length bs < 65536"
  shows "crc16 (init bs) (word_of_nat (length bs)) = Some (swap16 (crc_spec bs))"
proof -
  have "unat (word_of_nat (length bs) :: u16) = length bs"
    using assms by (simp add: unsigned_of_nat take_bit_nat_eq_self)
  then have "rds (init bs) 0 (unat (word_of_nat (length bs) :: u16)) = Some bs"
    using rds_init_drop [of "length bs" bs 0] by simp
  then show ?thesis
    by (simp add: crc16_rds crc_word_swap crc_reg_list)
qed

theorem crc16_is_bitwise_crc_witness:
  "crc16 (init [0x01, 0x03, 0x00]) (word_of_nat (length [0x01, 0x03, 0x00 :: u8]))
     = Some (swap16 (crc_spec [0x01, 0x03, 0x00]))"
  by (rule crc16_is_bitwise_crc) simp

end
