(* ===== verification/Rtu.thy ===== *)
theory Rtu
  imports Client Crc
begin

text \<open>
  The RTU backend of \<open>library/modbus/modbus-rtu.c\<close> as it is compiled for Linux: frames with a slave
  address in front and a CRC behind, over a serial line. Functions whose C name starts with an
  underscore are named without it; the two static functions \<open>_modbus_set_slave\<close> of the backends
  are \<open>rtu_set_slave\<close> and \<open>tcp_set_slave\<close>.
\<close>

section \<open>Frames\<close>

definition RTU_HEADER_LENGTH :: int where [simp]: "RTU_HEADER_LENGTH = 1"
definition RTU_PRESET_REQ_LENGTH :: int where [simp]: "RTU_PRESET_REQ_LENGTH = 6"
definition RTU_PRESET_RSP_LENGTH :: int where [simp]: "RTU_PRESET_RSP_LENGTH = 2"
definition RTU_CHECKSUM_LENGTH :: int where [simp]: "RTU_CHECKSUM_LENGTH = 2"
definition RTU_MAX_ADU_LENGTH :: int where [simp]: "RTU_MAX_ADU_LENGTH = 256"

definition rtu_set_slave :: "int \<Rightarrow> ('w, int) exec" where
  "rtu_set_slave slave st =
     (if 0 \<le> slave \<and> slave \<le> 247
      then Some (0, set_ctx (\<lambda>c. c\<lparr>mb_slave := slave\<rparr>) st)
      else Some (-1, st\<lparr>errno := EINVAL\<rparr>))"

text \<open>The assertion on the slave aborts: no result.\<close>

definition modbus_rtu_build_request_basis ::
  "int \<Rightarrow> int \<Rightarrow> int \<Rightarrow> u8 cbuf \<Rightarrow> ('w, int \<times> u8 cbuf) exec" where
  "modbus_rtu_build_request_basis function addr nb req st =
     (if mb_slave (ctx st) = -1 then None
      else do {
        req \<leftarrow> wr req 0 (byte (mb_slave (ctx st)));
        req \<leftarrow> wr req 1 (byte function);
        req \<leftarrow> wr req 2 (hi_byte addr);
        req \<leftarrow> wr req 3 (lo_byte addr);
        req \<leftarrow> wr req 4 (hi_byte nb);
        req \<leftarrow> wr req 5 (lo_byte nb);
        Some ((RTU_PRESET_REQ_LENGTH, req), st) })"

definition modbus_rtu_build_response_basis :: "sft_t \<Rightarrow> u8 cbuf \<Rightarrow> (int \<times> u8 cbuf) option" where
  "modbus_rtu_build_response_basis sft rsp =
     do { rsp \<leftarrow> wr rsp 0 (byte (sft_slave sft));
          rsp \<leftarrow> wr rsp 1 (byte (sft_function sft));
          Some (RTU_PRESET_RSP_LENGTH, rsp) }"

definition modbus_rtu_prepare_response_tid :: "u8 cbuf \<Rightarrow> int \<Rightarrow> (int \<times> int) option" where
  "modbus_rtu_prepare_response_tid req req_length = Some (0, req_length - RTU_CHECKSUM_LENGTH)"

definition modbus_rtu_send_msg_pre :: "u8 cbuf \<Rightarrow> int \<Rightarrow> (int \<times> u8 cbuf) option" where
  "modbus_rtu_send_msg_pre req req_length =
     do { crc \<leftarrow> crc16 req (word_of_int req_length);
          req \<leftarrow> wr req req_length (ucast (drop_bit 8 crc));
          req \<leftarrow> wr req (req_length + 1) (ucast (crc AND 0x00FF));
          Some (req_length + 2, req) }"

section \<open>Transfer\<close>

definition modbus_rtu_send :: "'w os \<Rightarrow> u8 cbuf \<Rightarrow> int \<Rightarrow> ('w, int) exec" where
  "modbus_rtu_send os req req_length st =
     do { bs \<leftarrow> rds req 0 (nat req_length);
          Some (c_ret (sys_write os (mb_s (ctx st)) bs (world st)) st) }"

definition modbus_rtu_recv :: "'w os \<Rightarrow> u8 cbuf \<Rightarrow> int \<Rightarrow> int \<Rightarrow> ('w, int \<times> u8 cbuf) exec" where
  "modbus_rtu_recv os rsp pos rsp_length st =
     store_read (sys_read os (mb_s (ctx st)) rsp_length (world st)) rsp pos st"

definition modbus_rtu_flush :: "'w os \<Rightarrow> ('w, int) exec" where
  "modbus_rtu_flush os st = Some (c_ret (sys_tcflush os (mb_s (ctx st)) (world st)) st)"

definition modbus_rtu_check_integrity :: "'w os \<Rightarrow> u8 cbuf \<Rightarrow> int \<Rightarrow> ('w, int) exec" where
  "modbus_rtu_check_integrity os msg msg_length st =
     do { crc_calculated \<leftarrow> crc16 msg (word_of_int (msg_length - 2));
          hi \<leftarrow> rd msg (msg_length - 2);
          lo \<leftarrow> rd msg (msg_length - 1);
          if crc_calculated = push_bit 8 (ucast hi) OR ucast lo then Some (msg_length, st)
          else do {
            (_, st) \<leftarrow> (if recovery_protocol st then modbus_rtu_flush os st else Some (0, st));
            Some (-1, st\<lparr>errno := EMBBADCRC\<rparr>) } }"

definition modbus_rtu_select :: "'w os \<Rightarrow> timeval option \<Rightarrow> int \<Rightarrow> ('w, int \<times> timeval option) exec" where
  "modbus_rtu_select os tv length_to_read st = select_loop os tv st"

definition modbus_rtu_filter_request :: "int \<Rightarrow> ('w, int) exec" where
  "modbus_rtu_filter_request slave st =
     (if slave \<noteq> mb_slave (ctx st) \<and> slave \<noteq> MODBUS_BROADCAST_ADDRESS then Some (1, st)
      else Some (0, st))"

section \<open>The serial line\<close>

text \<open>Flags of \<open>termios\<close> on Linux.\<close>

definition CBAUD :: u32 where [simp]: "CBAUD = 0x100F"
definition CSIZE :: u32 where [simp]: "CSIZE = 0x30"
definition CS5 :: u32 where [simp]: "CS5 = 0x00"
definition CS6 :: u32 where [simp]: "CS6 = 0x10"
definition CS7 :: u32 where [simp]: "CS7 = 0x20"
definition CS8 :: u32 where [simp]: "CS8 = 0x30"
definition CSTOPB :: u32 where [simp]: "CSTOPB = 0x40"
definition CREAD :: u32 where [simp]: "CREAD = 0x80"
definition PARENB :: u32 where [simp]: "PARENB = 0x100"
definition PARODD :: u32 where [simp]: "PARODD = 0x200"
definition CLOCAL :: u32 where [simp]: "CLOCAL = 0x800"
definition ISIG :: u32 where [simp]: "ISIG = 0x01"
definition ICANON :: u32 where [simp]: "ICANON = 0x02"
definition ECHO :: u32 where [simp]: "ECHO = 0x08"
definition ECHOE :: u32 where [simp]: "ECHOE = 0x10"
definition INPCK :: u32 where [simp]: "INPCK = 0x10"
definition IXON :: u32 where [simp]: "IXON = 0x400"
definition IXANY :: u32 where [simp]: "IXANY = 0x800"
definition IXOFF :: u32 where [simp]: "IXOFF = 0x1000"
definition OPOST :: u32 where [simp]: "OPOST = 0x01"

definition speed_of_baud :: "int \<Rightarrow> u32" where
  "speed_of_baud baud =
     (if baud = 110 then 3
      else if baud = 300 then 7
      else if baud = 600 then 8
      else if baud = 1200 then 9
      else if baud = 2400 then 11
      else if baud = 4800 then 12
      else if baud = 9600 then 13
      else if baud = 19200 then 14
      else if baud = 38400 then 15
      else if baud = 57600 then 0x1001
      else if baud = 115200 then 0x1002
      else 13)"

definition data_bits_flag :: "u8 \<Rightarrow> u32" where
  "data_bits_flag data_bit =
     (if data_bit = 5 then CS5
      else if data_bit = 6 then CS6
      else if data_bit = 7 then CS7
      else CS8)"

text \<open>The settings the connection asks for, built from a zeroed \<open>termios\<close> in the code's order.\<close>

definition tios_zero :: termios where
  "tios_zero = \<lparr>c_iflag = 0, c_oflag = 0, c_cflag = 0, c_lflag = 0, c_vmin = 0, c_vtime = 0,
                c_ispeed = 0, c_ospeed = 0\<rparr>"

definition set_cflag :: "(u32 \<Rightarrow> u32) \<Rightarrow> termios \<Rightarrow> termios" where
  "set_cflag f t = t\<lparr>c_cflag := f (c_cflag t)\<rparr>"

definition tios_parity :: "char \<Rightarrow> termios \<Rightarrow> termios" where
  "tios_parity parity t =
     (if parity = CHR ''N'' then set_cflag (\<lambda>f. f AND NOT PARENB) t
      else if parity = CHR ''E'' then set_cflag (\<lambda>f. (f OR PARENB) AND NOT PARODD) t
      else set_cflag (\<lambda>f. (f OR PARENB) OR PARODD) t)"

text \<open>\<open>cfsetispeed\<close> and \<open>cfsetospeed\<close> also store the speed in the bits \<open>CBAUD\<close> of \<open>c_cflag\<close>.\<close>

definition rtu_speed :: "modbus_rtu_t \<Rightarrow> termios \<Rightarrow> termios" where
  "rtu_speed r t =
     (let speed = speed_of_baud (rtu_baud r)
      in t\<lparr>c_cflag := (c_cflag t AND NOT CBAUD) OR speed, c_ispeed := speed, c_ospeed := speed\<rparr>)"

definition rtu_cflags :: "modbus_rtu_t \<Rightarrow> termios \<Rightarrow> termios" where
  "rtu_cflags r t =
     (let t = set_cflag (\<lambda>f. f OR (CREAD OR CLOCAL)) t;
          t = set_cflag (\<lambda>f. f AND NOT CSIZE) t;
          t = set_cflag (\<lambda>f. f OR data_bits_flag (rtu_data_bit r)) t;
          t = set_cflag (\<lambda>f. if rtu_stop_bit r = 1 then f AND NOT CSTOPB else f OR CSTOPB) t
      in tios_parity (rtu_parity r) t)"

definition rtu_lflags :: "termios \<Rightarrow> termios" where
  "rtu_lflags t = t\<lparr>c_lflag := c_lflag t AND NOT (ICANON OR ECHO OR ECHOE OR ISIG)\<rparr>"

definition rtu_iflags :: "modbus_rtu_t \<Rightarrow> termios \<Rightarrow> termios" where
  "rtu_iflags r t =
     (let t = t\<lparr>c_iflag := (if rtu_parity r = CHR ''N'' then c_iflag t AND NOT INPCK
                            else c_iflag t OR INPCK)\<rparr>
      in t\<lparr>c_iflag := c_iflag t AND NOT (IXON OR IXOFF OR IXANY)\<rparr>)"

definition rtu_oflags :: "termios \<Rightarrow> termios" where
  "rtu_oflags t = t\<lparr>c_oflag := c_oflag t AND NOT OPOST\<rparr>"

definition rtu_control_chars :: "termios \<Rightarrow> termios" where
  "rtu_control_chars t = t\<lparr>c_vmin := 0, c_vtime := 0\<rparr>"

definition rtu_tios :: "modbus_rtu_t \<Rightarrow> termios" where
  "rtu_tios r =
     rtu_control_chars (rtu_oflags (rtu_iflags r (rtu_lflags (rtu_cflags r (rtu_speed r tios_zero)))))"

definition MODBUS_RTU_RS232 :: int where [simp]: "MODBUS_RTU_RS232 = 0"
definition MODBUS_RTU_RS485 :: int where [simp]: "MODBUS_RTU_RS485 = 1"

definition rtu_data :: "'w mstate \<Rightarrow> modbus_rtu_t option" where
  "rtu_data st = (case mb_backend_data (ctx st) of RtuData r \<Rightarrow> Some r | _ \<Rightarrow> None)"

definition set_rtu_data :: "modbus_rtu_t \<Rightarrow> 'w mstate \<Rightarrow> 'w mstate" where
  "set_rtu_data r = set_ctx (\<lambda>c. c\<lparr>mb_backend_data := RtuData r\<rparr>)"

definition set_s :: "int \<Rightarrow> 'w mstate \<Rightarrow> 'w mstate" where
  "set_s fd = set_ctx (\<lambda>c. c\<lparr>mb_s := fd\<rparr>)"

text \<open>
  \<open>cfsetispeed\<close> and \<open>cfsetospeed\<close> fail only for a speed that is none of the constants above,
  so that branch of the code is never taken.
\<close>

definition rtu_open :: "'w os \<Rightarrow> modbus_rtu_t \<Rightarrow> ('w, int) exec" where
  "rtu_open os r st =
     do { device \<leftarrow> c_str (rtu_device r);
          let (fd, st) = c_ret (sys_open os device (world st)) st;
          let st = set_s fd st;
          if fd = -1 then Some (-1, st)
          else do {
            let (old, w) = sys_tcgetattr os fd (world st);
            Some (fd, case old of
                        Inl e \<Rightarrow> st\<lparr>errno := e, world := w\<rparr>
                      | Inr t \<Rightarrow> set_rtu_data (r\<lparr>rtu_old_tios := Some t\<rparr>) (st\<lparr>world := w\<rparr>)) } }"

definition modbus_rtu_connect :: "'w os \<Rightarrow> ('w, int) exec" where
  "modbus_rtu_connect os st =
     do { r \<leftarrow> rtu_data st;
          (fd, st) \<leftarrow> rtu_open os r st;
          if fd = -1 then Some (-1, st)
          else do {
            let (rc, st) = c_ret (sys_tcsetattr os fd (rtu_tios r) (world st)) st;
            if rc < 0 then do {
              let (_, st) = c_ret (sys_close os fd (world st)) st;
              Some (-1, set_s (-1) st) }
            else do {
              r \<leftarrow> rtu_data st;
              Some (0, set_rtu_data (r\<lparr>rtu_serial_mode := Some MODBUS_RTU_RS232\<rparr>) st) } } }"

text \<open>Closing restores the settings saved by the connection.\<close>

definition modbus_rtu_close :: "'w os \<Rightarrow> ('w, unit) exec" where
  "modbus_rtu_close os st =
     do { r \<leftarrow> rtu_data st;
          old \<leftarrow> rtu_old_tios r;
          let (_, st) = c_ret (sys_tcsetattr os (mb_s (ctx st)) old (world st)) st;
          let (_, st) = c_ret (sys_close os (mb_s (ctx st)) (world st)) st;
          Some ((), st) }"

definition SER_RS485_ENABLED :: u32 where [simp]: "SER_RS485_ENABLED = 1"
definition SER_RS485_RTS_ON_SEND :: u32 where [simp]: "SER_RS485_RTS_ON_SEND = 2"
definition SER_RS485_RTS_AFTER_SEND :: u32 where [simp]: "SER_RS485_RTS_AFTER_SEND = 4"

definition modbus_rtu_set_serial_mode :: "'w os \<Rightarrow> 'w modbus_backend \<Rightarrow> int \<Rightarrow> ('w, int) exec" where
  "modbus_rtu_set_serial_mode os be mode st =
     (if be_type be = BACKEND_TYPE_RTU \<and> mode = MODBUS_RTU_RS485 then do {
        let flags = (SER_RS485_ENABLED OR SER_RS485_RTS_ON_SEND) AND NOT SER_RS485_RTS_AFTER_SEND;
        let (rc, st) = c_ret (sys_ioctl_rs485 os (mb_s (ctx st)) \<lparr>rs485_flags = flags\<rparr> (world st)) st;
        if rc < 0 then Some (-1, st)
        else do {
          r \<leftarrow> rtu_data st;
          mode \<leftarrow> rtu_serial_mode r;
          Some (0, set_rtu_data (r\<lparr>rtu_serial_mode := Some (mode OR MODBUS_RTU_RS485)\<rparr>) st) } }
      else if be_type be = BACKEND_TYPE_RTU \<and> mode = MODBUS_RTU_RS232 then do {
        let (rc, st) = c_ret (sys_ioctl_rs485 os (mb_s (ctx st)) \<lparr>rs485_flags = 0\<rparr> (world st)) st;
        if rc < 0 then Some (-1, st)
        else do {
          r \<leftarrow> rtu_data st;
          Some (0, set_rtu_data (r\<lparr>rtu_serial_mode := Some MODBUS_RTU_RS232\<rparr>) st) } }
      else Some (-1, st\<lparr>errno := EINVAL\<rparr>))"

definition modbus_rtu_get_serial_mode :: "'w modbus_backend \<Rightarrow> ('w, int) exec" where
  "modbus_rtu_get_serial_mode be st =
     (if be_type be = BACKEND_TYPE_RTU then do {
        r \<leftarrow> rtu_data st;
        mode \<leftarrow> rtu_serial_mode r;
        Some (mode, st) }
      else Some (-1, st\<lparr>errno := EINVAL\<rparr>))"

section \<open>The backend and its constructor\<close>

definition modbus_rtu_backend :: "'w os \<Rightarrow> 'w modbus_backend" where
  "modbus_rtu_backend os = \<lparr>
     be_type = BACKEND_TYPE_RTU,
     header_length = RTU_HEADER_LENGTH,
     checksum_length = RTU_CHECKSUM_LENGTH,
     max_adu_length = RTU_MAX_ADU_LENGTH,
     be_set_slave = rtu_set_slave,
     be_build_request_basis = modbus_rtu_build_request_basis,
     be_build_response_basis = modbus_rtu_build_response_basis,
     be_prepare_response_tid = modbus_rtu_prepare_response_tid,
     be_send_msg_pre = modbus_rtu_send_msg_pre,
     be_send = modbus_rtu_send os,
     be_recv = modbus_rtu_recv os,
     be_check_integrity = modbus_rtu_check_integrity os,
     be_pre_check_confirmation = None,
     be_connect = modbus_rtu_connect os,
     be_close = modbus_rtu_close os,
     be_flush = modbus_rtu_flush os,
     be_select = modbus_rtu_select os,
     be_filter_request = modbus_rtu_filter_request\<rparr>"

text \<open>
  The context comes from \<open>malloc\<close>, whose failure the code does not check; its fields before
  initialisation are the argument \<open>c\<close>. \<open>Inl\<close> is the null pointer with \<open>errno\<close>.
\<close>

definition RTU_DEVICE_SIZE :: nat where [simp]: "RTU_DEVICE_SIZE = 16"

definition modbus_new_rtu ::
  "modbus_t \<Rightarrow> char list \<Rightarrow> int \<Rightarrow> char \<Rightarrow> int \<Rightarrow> int \<Rightarrow> (int + modbus_t) option" where
  "modbus_new_rtu c device baud parity data_bit stop_bit =
     do { (ret_size, dev) \<leftarrow> strlcpy (fresh RTU_DEVICE_SIZE) device RTU_DEVICE_SIZE;
          if ret_size = 0 then Some (Inl EINVAL)
          else if RTU_DEVICE_SIZE \<le> ret_size then Some (Inl EINVAL)
          else if parity = CHR ''N'' \<or> parity = CHR ''E'' \<or> parity = CHR ''O''
          then Some (Inr ((modbus_init_common c)\<lparr>mb_backend_data := RtuData
                 \<lparr>rtu_device = dev, rtu_baud = baud, rtu_data_bit = byte data_bit,
                  rtu_stop_bit = byte stop_bit, rtu_parity = parity,
                  rtu_old_tios = None, rtu_serial_mode = None\<rparr>\<rparr>))
          else Some (Inl EINVAL) }"

lemma rtu_backend_sel [simp]:
  "be_type (modbus_rtu_backend os) = BACKEND_TYPE_RTU"
  "header_length (modbus_rtu_backend os) = 1"
  "checksum_length (modbus_rtu_backend os) = 2"
  "max_adu_length (modbus_rtu_backend os) = 256"
  "be_set_slave (modbus_rtu_backend os) = rtu_set_slave"
  "be_build_request_basis (modbus_rtu_backend os) = modbus_rtu_build_request_basis"
  "be_build_response_basis (modbus_rtu_backend os) = modbus_rtu_build_response_basis"
  "be_prepare_response_tid (modbus_rtu_backend os) = modbus_rtu_prepare_response_tid"
  "be_send_msg_pre (modbus_rtu_backend os) = modbus_rtu_send_msg_pre"
  "be_send (modbus_rtu_backend os) = modbus_rtu_send os"
  "be_recv (modbus_rtu_backend os) = modbus_rtu_recv os"
  "be_check_integrity (modbus_rtu_backend os) = modbus_rtu_check_integrity os"
  "be_pre_check_confirmation (modbus_rtu_backend os) = None"
  "be_connect (modbus_rtu_backend os) = modbus_rtu_connect os"
  "be_close (modbus_rtu_backend os) = modbus_rtu_close os"
  "be_flush (modbus_rtu_backend os) = modbus_rtu_flush os"
  "be_select (modbus_rtu_backend os) = modbus_rtu_select os"
  "be_filter_request (modbus_rtu_backend os) = modbus_rtu_filter_request"
  by (simp_all add: modbus_rtu_backend_def)

section \<open>The frames\<close>

text \<open>An RTU frame is the unit, the PDU and the checksum of both; there is no transaction.\<close>

definition rtu_hdr :: "int \<Rightarrow> u8 \<Rightarrow> u8 option list" where
  "rtu_hdr t a = [Some a]"

definition rtu_frame :: "int \<Rightarrow> u8 \<Rightarrow> u8 list \<Rightarrow> u8 list" where
  "rtu_frame t a pdu = a # pdu @ [fst (crc_list (a # pdu)), snd (crc_list (a # pdu))]"

text \<open>Finishing a frame appends the checksum of everything before it.\<close>

lemma rtu_finish:
  assumes "length bs < 65536" "length bs + 2 \<le> n"
  shows "modbus_rtu_send_msg_pre (mkb n (map Some bs)) (int (length bs))
    = Some (int (length bs + 2), mkb n (map Some (bs @ [fst (crc_list bs), snd (crc_list bs)])))"
  using assms crc16_mkb [of bs n "[]"]
  by (simp add: modbus_rtu_send_msg_pre_def wr_mkb_end)

lemma rtu_integrity:
  assumes "length bs < 65536"
  shows "modbus_rtu_check_integrity os (mkb n (map Some (bs @ [x, y]))) (int (length bs + 2)) st
    = (if crc_list bs = (x, y) then Some (int (length bs + 2), st)
       else do {
         (_, st) \<leftarrow> (if recovery_protocol st then modbus_rtu_flush os st else Some (0, st));
         Some (-1, st\<lparr>errno := EMBBADCRC\<rparr>) })"
proof -
  have "push_bit 8 (ucast x) OR ucast y = crc_word (x, y)"
    by (simp add: crc_word_def)
  moreover have "rd (mkb n (map Some (bs @ [x, y]))) (int (length bs)) = Some x"
    "rd (mkb n (map Some (bs @ [x, y]))) (1 + int (length bs)) = Some y"
    by (subst rd_mkb_init; simp add: nth_append nat_add_distrib)+
  ultimately show ?thesis
    using crc16_mkb [OF assms, of n "[x, y]"]
    by (simp del: EMBBADCRC_def map_append add: modbus_rtu_check_integrity_def crc_word_inj)
qed

interpretation rtu: framing "modbus_rtu_backend os" os 1 2 rtu_hdr rtu_frame "sys_write os" "sys_read os"
proof (unfold_locales, goal_cases)
  case (10 pdu n t a)
  then show ?case
    using rtu_finish [of "a # pdu" n] by (simp add: rtu_hdr_def rtu_frame_def)
next
  case (11 pdu n t a st)
  then show ?case
    using rtu_integrity [of "a # pdu" os n "fst (crc_list (a # pdu))" "snd (crc_list (a # pdu))" st]
    by (simp add: rtu_frame_def)
next
  case (12 bs n st)
  then obtain cs x y where "bs = cs @ [x, y]"
    using two_at_end [of bs] by auto
  with 12 show ?case
    using rtu_integrity [of cs os n x y st]
    by (auto simp: modbus_rtu_flush_def c_ret_def split: sum.splits)
next
  case (13 bs n st)
  then show ?case
    by (simp add: modbus_rtu_send_def rds_mkb_init_0)
qed (auto simp: rtu_hdr_def rtu_frame_def nth_append modbus_rtu_select_def modbus_rtu_recv_def)

text \<open>A server answers its own unit and the broadcast address.\<close>

definition rtu_accepts :: "modbus_t \<Rightarrow> u8 \<Rightarrow> bool" where
  "rtu_accepts c a \<longleftrightarrow> uint a = mb_slave c \<or> a = 0"

interpretation rtu: server_link "modbus_rtu_backend os" os 1 2 rtu_hdr rtu_frame
  "sys_write os" "sys_read os" "\<lambda>t. 0" rtu_accepts
proof (unfold_locales, goal_cases)
  case (1 n sft)
  then show ?case
    by (simp add: modbus_rtu_build_response_basis_def fresh_mkb wr_mkb_end rtu_hdr_def)
next
  case (4 pdu n t a)
  then show ?case
    using rtu_finish [of "a # pdu" n] by (simp add: rtu_frame_def)
next
  case (5 a st)
  then show ?case
    by (auto simp: modbus_rtu_filter_request_def rtu_accepts_def unsigned_eq_0_iff)
qed (simp_all add: modbus_rtu_prepare_response_tid_def rtu_frame_def)

interpretation rtu: client_link "modbus_rtu_backend os" os 1 2 rtu_hdr rtu_frame
  "sys_write os" "sys_read os" "\<lambda>c. mb_slave c \<noteq> -1" "\<lambda>st. st" "\<lambda>st. 0"
  by unfold_locales
     (simp_all add: modbus_rtu_build_request_basis_def fresh_mkb wr_mkb_end rtu_hdr_def)

section \<open>RTU properties\<close>

text \<open>
  C1: On a well-formed request frame \<open>modbus_reply\<close> over the RTU backend implements
  the abstract device: it ignores requests for other units, and otherwise sends exactly the
  frame of the response that \<open>serve\<close> prescribes, whatever the function code, error
  branches included, and leaves the mapping that represents the device \<open>serve\<close>
  yields.
\<close>

theorem rtu_reply_serves:
  assumes "request_ok pdu" and "sends (sys_write os) st"
  shows "modbus_reply os (modbus_rtu_backend os) (mkb 260 (map Some (rtu_frame 0 a pdu)))
      (int (length (rtu_frame 0 a pdu))) (of_device d) st
    = (if uint a \<noteq> mb_slave (ctx st) \<and> a \<noteq> 0 then Some ((0, of_device d), st)
       else case serve pdu d of
         (None, d') \<Rightarrow> Some ((-1, of_device d'), st\<lparr>errno := ENOPROTOOPT\<rparr>)
       | (Some rsp, d') \<Rightarrow>
           let r = c_ret (sys_write os (mb_s (ctx st)) (rtu_frame 0 a rsp) (world st)) st
           in Some ((fst r, of_device d'), snd r))"
  using rtu.reply_refines [OF assms, of 0 a d]
  by (simp add: rtu.length_frame rtu_accepts_def)

theorem rtu_reply_serves_witness:
  "modbus_reply (line_os (\<lambda>_. [])) (modbus_rtu_backend (line_os (\<lambda>_. [])))
      (mkb 260 (map Some (rtu_frame 0 17 [0x03, 0, 1, 0, 2])))
      (int (length (rtu_frame 0 17 [0x03, 0, 1, 0, 2])))
      (of_device \<lparr>coils = [], inputs = [], holding = [7, 8, 9], input_regs = []\<rparr>) (line_state 17 [])
    = (if uint (17 :: u8) \<noteq> mb_slave (ctx (line_state 17 [])) \<and> (17 :: u8) \<noteq> 0
       then Some ((0, of_device \<lparr>coils = [], inputs = [], holding = [7, 8, 9], input_regs = []\<rparr>), line_state 17 [])
       else case serve [0x03, 0, 1, 0, 2] \<lparr>coils = [], inputs = [], holding = [7, 8, 9], input_regs = []\<rparr> of
         (None, d') \<Rightarrow> Some ((-1, of_device d'), (line_state 17 [])\<lparr>errno := ENOPROTOOPT\<rparr>)
       | (Some rsp, d') \<Rightarrow>
           let r = c_ret (sys_write (line_os (\<lambda>_. [])) (mb_s (ctx (line_state 17 []))) (rtu_frame 0 17 rsp)
                     (world (line_state 17 []))) (line_state 17 [])
           in Some ((fst r, of_device d'), snd r))"
  by (rule rtu_reply_serves) (simp_all add: request_ok_def well_formed_def pdu_length_def sends_def)

text \<open>
  C6: From a line that starts with an RTU frame the receiver takes exactly that frame, however
  the reads split it, and leaves the rest on the line.
\<close>

theorem rtu_receives_frame:
  assumes "well_formed mt pdu" and "byte_stream os (sys_read os) (mb_s (ctx st)) line"
    and "line (world st) = (rtu_frame 0 a pdu @ rest, peer)"
  shows "\<exists>st'. receive_msg os (modbus_rtu_backend os) (fresh MAX_MESSAGE_LENGTH) mt st
    = Some ((int (length (rtu_frame 0 a pdu)), mkb 260 (map Some (rtu_frame 0 a pdu))), st') \<and>
      line (world st') = (rest, peer) \<and> ctx st' = ctx st \<and> errno st' = errno st"
  using rtu.receive_frame [OF assms] by (simp add: rtu.length_frame)

theorem rtu_receives_frame_witness:
  "\<exists>st'. receive_msg (line_os (\<lambda>_. [])) (modbus_rtu_backend (line_os (\<lambda>_. []))) (fresh MAX_MESSAGE_LENGTH)
      MSG_INDICATION (line_state 17 (rtu_frame 0 17 [0x10, 0, 1, 0, 1, 2, 0xAB, 0xCD] @ [5]))
    = Some ((int (length (rtu_frame 0 17 [0x10, 0, 1, 0, 1, 2, 0xAB, 0xCD])),
             mkb 260 (map Some (rtu_frame 0 17 [0x10, 0, 1, 0, 1, 2, 0xAB, 0xCD]))), st') \<and>
      (world st', ()) = ([5], ()) \<and> ctx st' = ctx (line_state 17 (rtu_frame 0 17 [0x10, 0, 1, 0, 1, 2, 0xAB, 0xCD] @ [5])) \<and>
      errno st' = errno (line_state 17 (rtu_frame 0 17 [0x10, 0, 1, 0, 1, 2, 0xAB, 0xCD] @ [5]))"
  by (rule rtu_receives_frame [OF _ line_os_stream(1)])
     (simp_all add: well_formed_def pdu_length_def)

text \<open>
  C7: On arbitrary input the RTU receiver returns, stays inside its array, and reports either an
  error or the length of a frame the protocol allows, with error recovery off, as it is by
  default, and where \<open>select\<close> returns in the end and a read yields no more bytes
  than asked for.
\<close>

theorem rtu_receive_total:
  assumes "bounded_reads (sys_read os)" and "select_returns os" and "mb_error_recovery (ctx st) = 0"
  shows "\<exists>rc b st'. receive_msg os (modbus_rtu_backend os) (fresh MAX_MESSAGE_LENGTH) mt st = Some ((rc, b), st') \<and>
      length b = MAX_MESSAGE_LENGTH \<and> (rc = -1 \<or> 4 \<le> rc \<and> rc \<le> RTU_MAX_ADU_LENGTH)"
  using rtu.receive_total [OF assms, of mt] by simp

theorem rtu_receive_total_witness:
  "\<exists>rc b st'. receive_msg (line_os (\<lambda>_. [])) (modbus_rtu_backend (line_os (\<lambda>_. []))) (fresh MAX_MESSAGE_LENGTH)
      MSG_INDICATION (line_state 17 [0xFF, 0x10, 3, 9]) = Some ((rc, b), st') \<and>
      length b = MAX_MESSAGE_LENGTH \<and> (rc = -1 \<or> 4 \<le> rc \<and> rc \<le> RTU_MAX_ADU_LENGTH)"
  by (rule rtu_receive_total [OF line_os_bounded(1) line_os_select]) simp


text \<open>
  C8: The receiver accepts a frame exactly when its last two bytes are the CRC, as the bitwise
  reference computes it, of those in front of them; it rejects every other with
  \<open>EMBBADCRC\<close>.
\<close>

theorem rtu_check_accepts_crc:
  assumes "length bs < 65536"
  shows "modbus_rtu_check_integrity os (mkb n (map Some (bs @ [x, y]))) (int (length bs + 2)) st
    = (if push_bit 8 (ucast x) OR ucast y = swap16 (crc_spec bs) then Some (int (length bs + 2), st)
       else do {
         (_, st) \<leftarrow> (if recovery_protocol st then modbus_rtu_flush os st else Some (0, st));
         Some (-1, st\<lparr>errno := EMBBADCRC\<rparr>) })"
proof -
  have "crc_list bs = (x, y) \<longleftrightarrow> push_bit 8 (ucast x) OR ucast y = swap16 (crc_spec bs)"
    using crc_word_inj [of "crc_list bs" "(x, y)"]
    unfolding crc_word_swap [of "crc_list bs"] crc_reg_list by (auto simp: crc_word_def)
  then show ?thesis
    by (simp only: rtu_integrity [OF assms])
qed

theorem rtu_check_accepts_crc_witness:
  "modbus_rtu_check_integrity (line_os (\<lambda>_. [])) (mkb 260 (map Some ([0x11, 0x03, 0x00] @ [0x12, 0x34])))
      (int (length [0x11, 0x03, 0x00 :: u8] + 2)) (line_state 17 [])
    = (if push_bit 8 (ucast (0x12 :: u8)) OR ucast (0x34 :: u8) = swap16 (crc_spec [0x11, 0x03, 0x00])
       then Some (int (length [0x11, 0x03, 0x00 :: u8] + 2), line_state 17 [])
       else do {
         (_, st) \<leftarrow> (if recovery_protocol (line_state 17 [])
                     then modbus_rtu_flush (line_os (\<lambda>_. [])) (line_state 17 []) else Some (0, line_state 17 []));
         Some (-1, st\<lparr>errno := EMBBADCRC\<rparr>) })"
  by (rule rtu_check_accepts_crc) simp


text \<open>
  C9: A frame in which two neighbouring bytes were altered in any way, so every error burst of
  at most nine bits and every single-bit error, is rejected.
\<close>

theorem rtu_burst_rejected:
  assumes "rtu_frame 0 a pdu = u @ [b1, b2] @ v" and "(d1, d2) \<noteq> (b1, b2)"
    and "length pdu \<le> 253" and "\<not> recovery_protocol st"
  shows "modbus_rtu_check_integrity os (mkb n (map Some (u @ [d1, d2] @ v))) (int (length (rtu_frame 0 a pdu))) st
    = Some (-1, st\<lparr>errno := EMBBADCRC\<rparr>)"
proof -
  have len: "length (u @ [d1, d2] @ v) = length (rtu_frame 0 a pdu)"
    by (simp add: assms(1))
  then obtain bs x y where bs: "u @ [d1, d2] @ v = bs @ [x, y]"
    using two_at_end [of "u @ [d1, d2] @ v"] by auto
  have "crc_list bs \<noteq> (x, y)"
  proof
    assume "crc_list bs = (x, y)"
    then have "crc_list (u @ [d1, d2] @ v) = (0, 0)"
      unfolding bs by (simp only: crc_residue)
    moreover have "crc_list (u @ [b1, b2] @ v) = (0, 0)"
      unfolding assms(1) [symmetric]
      using crc_residue [of "a # pdu" "fst (crc_list (a # pdu))" "snd (crc_list (a # pdu))"]
      by (simp add: rtu_frame_def)
    ultimately have "d1 = b1 \<and> d2 = b2"
      by (intro crc_burst [of u d1 d2 v]) simp
    with assms(2) show False by simp
  qed
  moreover have "length bs + 2 = length (rtu_frame 0 a pdu)"
    using len bs by (metis length_append length_Cons list.size(3) One_nat_def Suc_1 add_Suc_right)
  moreover have "length bs < 65536"
    using calculation(2) assms(3) by (simp add: rtu.length_frame)
  ultimately show ?thesis
    using rtu_integrity [of bs os n x y st] assms(4) unfolding bs by simp
qed

theorem rtu_burst_rejected_witness:
  "modbus_rtu_check_integrity (line_os (\<lambda>_. []))
      (mkb 260 (map Some ([] @ [1, 4] @ [fst (crc_list [1, 3]), snd (crc_list [1, 3])])))
      (int (length (rtu_frame 0 1 [3]))) (line_state 1 [])
    = Some (-1, (line_state 1 [])\<lparr>errno := EMBBADCRC\<rparr>)"
  by (rule rtu_burst_rejected [where ?b1.0 = 1 and ?b2.0 = 3]) (simp_all add: rtu_frame_def)

end
