(* ===== verification/Tcp.thy ===== *)
theory Tcp
  imports Rtu
begin

text \<open>
  The TCP backends of \<open>library/modbus/modbus-tcp.c\<close> as they are compiled for Linux: frames with an
  MBAP header (transaction, protocol, length, unit) and no checksum, over a socket. The plain and
  the protocol-independent backend differ in how they connect.
\<close>

section \<open>Frames\<close>

definition TCP_HEADER_LENGTH :: int where [simp]: "TCP_HEADER_LENGTH = 7"
definition TCP_PRESET_REQ_LENGTH :: int where [simp]: "TCP_PRESET_REQ_LENGTH = 12"
definition TCP_PRESET_RSP_LENGTH :: int where [simp]: "TCP_PRESET_RSP_LENGTH = 8"
definition TCP_CHECKSUM_LENGTH :: int where [simp]: "TCP_CHECKSUM_LENGTH = 0"
definition TCP_MAX_ADU_LENGTH :: int where [simp]: "TCP_MAX_ADU_LENGTH = 260"
definition MODBUS_TCP_SLAVE :: int where [simp]: "MODBUS_TCP_SLAVE = 0xFF"

definition tcp_set_slave :: "int \<Rightarrow> ('w, int) exec" where
  "tcp_set_slave slave st =
     (if 0 \<le> slave \<and> slave \<le> 247
      then Some (0, set_ctx (\<lambda>c. c\<lparr>mb_slave := slave\<rparr>) st)
      else if slave = MODBUS_TCP_SLAVE
      then Some (0, set_ctx (\<lambda>c. c\<lparr>mb_slave := slave\<rparr>) st)
      else Some (-1, st\<lparr>errno := EINVAL\<rparr>))"

text \<open>The static transaction identifier counts up and restarts at zero behind \<open>UINT16_MAX\<close>.\<close>

definition next_t_id :: "u16 \<Rightarrow> u16" where
  "next_t_id t_id = (if t_id < 0xFFFF then t_id + 1 else 0)"

definition modbus_tcp_build_request_basis ::
  "int \<Rightarrow> int \<Rightarrow> int \<Rightarrow> u8 cbuf \<Rightarrow> ('w, int \<times> u8 cbuf) exec" where
  "modbus_tcp_build_request_basis function addr nb req st =
     (let t_id = next_t_id (tcp_t_id st); st = st\<lparr>tcp_t_id := t_id\<rparr> in
      do { req \<leftarrow> wr req 0 (hi_byte (uint t_id));
           req \<leftarrow> wr req 1 (lo_byte (uint t_id));
           req \<leftarrow> wr req 2 0;
           req \<leftarrow> wr req 3 0;
           req \<leftarrow> wr req 6 (byte (mb_slave (ctx st)));
           req \<leftarrow> wr req 7 (byte function);
           req \<leftarrow> wr req 8 (hi_byte addr);
           req \<leftarrow> wr req 9 (lo_byte addr);
           req \<leftarrow> wr req 10 (hi_byte nb);
           req \<leftarrow> wr req 11 (lo_byte nb);
           Some ((TCP_PRESET_REQ_LENGTH, req), st) })"

definition modbus_tcp_build_response_basis :: "sft_t \<Rightarrow> u8 cbuf \<Rightarrow> (int \<times> u8 cbuf) option" where
  "modbus_tcp_build_response_basis sft rsp =
     do { rsp \<leftarrow> wr rsp 0 (hi_byte (sft_t_id sft));
          rsp \<leftarrow> wr rsp 1 (lo_byte (sft_t_id sft));
          rsp \<leftarrow> wr rsp 2 0;
          rsp \<leftarrow> wr rsp 3 0;
          rsp \<leftarrow> wr rsp 6 (byte (sft_slave sft));
          rsp \<leftarrow> wr rsp 7 (byte (sft_function sft));
          Some (TCP_PRESET_RSP_LENGTH, rsp) }"

definition modbus_tcp_prepare_response_tid :: "u8 cbuf \<Rightarrow> int \<Rightarrow> (int \<times> int) option" where
  "modbus_tcp_prepare_response_tid req req_length =
     do { h \<leftarrow> rd req 0; l \<leftarrow> rd req 1; Some (be16 h l, req_length) }"

definition modbus_tcp_send_msg_pre :: "u8 cbuf \<Rightarrow> int \<Rightarrow> (int \<times> u8 cbuf) option" where
  "modbus_tcp_send_msg_pre req req_length =
     (let mbap_length = req_length - 6 in
      do { req \<leftarrow> wr req 4 (hi_byte mbap_length);
           req \<leftarrow> wr req 5 (lo_byte mbap_length);
           Some (req_length, req) })"

section \<open>Transfer\<close>

definition modbus_tcp_send :: "'w os \<Rightarrow> u8 cbuf \<Rightarrow> int \<Rightarrow> ('w, int) exec" where
  "modbus_tcp_send os req req_length st =
     do { bs \<leftarrow> rds req 0 (nat req_length);
          Some (c_ret (sys_send os (mb_s (ctx st)) bs (world st)) st) }"

text \<open>The flag of \<open>sys_recv\<close> is \<open>MSG_DONTWAIT\<close>.\<close>

definition modbus_tcp_recv :: "'w os \<Rightarrow> u8 cbuf \<Rightarrow> int \<Rightarrow> int \<Rightarrow> ('w, int \<times> u8 cbuf) exec" where
  "modbus_tcp_recv os rsp pos rsp_length st =
     store_read (sys_recv os (mb_s (ctx st)) rsp_length False (world st)) rsp pos st"

definition modbus_tcp_check_integrity :: "u8 cbuf \<Rightarrow> int \<Rightarrow> ('w, int) exec" where
  "modbus_tcp_check_integrity msg msg_length st = Some (msg_length, st)"

definition modbus_tcp_pre_check_confirmation :: "u8 cbuf \<Rightarrow> u8 cbuf \<Rightarrow> int \<Rightarrow> ('w, int) exec" where
  "modbus_tcp_pre_check_confirmation req rsp rsp_length st =
     do { q0 \<leftarrow> rd req 0; p0 \<leftarrow> rd rsp 0;
          q1 \<leftarrow> rd req 1; p1 \<leftarrow> rd rsp 1;
          if q0 \<noteq> p0 \<or> q1 \<noteq> p1 then Some (-1, st\<lparr>errno := EMBBADDATA\<rparr>)
          else Some (0, st) }"

text \<open>Flushing reads whatever is there, in pieces of a whole frame, until a shorter piece.\<close>

partial_function (option) tcp_flush_loop :: "'w os \<Rightarrow> int \<Rightarrow> ('w, int) exec" where
  "tcp_flush_loop os rc_sum st =
     (let r = sys_recv os (mb_s (ctx st)) TCP_MAX_ADU_LENGTH True (world st)
      in case fst r of
           Inl e \<Rightarrow> Some (rc_sum, st\<lparr>errno := e, world := snd r\<rparr>)
         | Inr bs \<Rightarrow>
             if int (length bs) = TCP_MAX_ADU_LENGTH
             then tcp_flush_loop os (rc_sum + int (length bs)) (st\<lparr>world := snd r\<rparr>)
             else Some (rc_sum + int (length bs), st\<lparr>world := snd r\<rparr>))"

definition modbus_tcp_flush :: "'w os \<Rightarrow> ('w, int) exec" where
  "modbus_tcp_flush os st = tcp_flush_loop os 0 st"

definition modbus_tcp_select :: "'w os \<Rightarrow> timeval option \<Rightarrow> int \<Rightarrow> ('w, int \<times> timeval option) exec" where
  "modbus_tcp_select os tv length_to_read st = select_loop os tv st"

definition modbus_tcp_filter_request :: "int \<Rightarrow> ('w, int) exec" where
  "modbus_tcp_filter_request slave st = Some (0, st)"

section \<open>Connections\<close>

definition tcp_data :: "'w mstate \<Rightarrow> modbus_tcp_t option" where
  "tcp_data st = (case mb_backend_data (ctx st) of TcpData r \<Rightarrow> Some r | _ \<Rightarrow> None)"

definition tcp_pi_data :: "'w mstate \<Rightarrow> modbus_tcp_pi_t option" where
  "tcp_pi_data st = (case mb_backend_data (ctx st) of TcpPiData r \<Rightarrow> Some r | _ \<Rightarrow> None)"

definition modbus_tcp_set_ipv4_options :: "'w os \<Rightarrow> int \<Rightarrow> 'w mstate \<Rightarrow> int \<times> 'w mstate" where
  "modbus_tcp_set_ipv4_options os s st =
     (let (rc, st) = c_ret (sys_setsockopt os s TCP_NODELAY (world st)) st in
      if rc = -1 then (-1, st)
      else
        let (rc, st) = c_ret (sys_setsockopt os s IP_TOS_LOWDELAY (world st)) st in
        if rc = -1 then (-1, st) else (0, st))"

definition close_fd :: "'w os \<Rightarrow> int \<Rightarrow> 'w mstate \<Rightarrow> 'w mstate" where
  "close_fd os fd st = snd (c_ret (sys_close os fd (world st)) st)"

text \<open>The flag of \<open>sys_socket\<close> is the IPv4 family; \<open>htons\<close> narrows the port to sixteen bits.\<close>

definition modbus_tcp_connect :: "'w os \<Rightarrow> ('w, int) exec" where
  "modbus_tcp_connect os st =
     do { d \<leftarrow> tcp_data st;
          let (s, st) = c_ret (sys_socket os True (world st)) st;
          let st = set_s s st;
          if s = -1 then Some (-1, st)
          else do {
            let (rc, st) = modbus_tcp_set_ipv4_options os s st;
            if rc = -1 then Some (-1, close_fd os s st)
            else do {
              ip \<leftarrow> c_str (tcp_ip d);
              let (rc, st) = c_ret (sys_connect os s (Inet ip (tcp_port d mod 65536)) (world st)) st;
              if rc = -1 then Some (-1, close_fd os s st)
              else Some (0, st) } } }"

text \<open>The addresses are tried in turn; the first socket that connects becomes the context's.\<close>

fun tcp_pi_try :: "'w os \<Rightarrow> addrinfo list \<Rightarrow> 'w mstate \<Rightarrow> 'w mstate" where
  "tcp_pi_try os [] st = st"
| "tcp_pi_try os (ai # ais) st =
     (let (s, st) = c_ret (sys_socket os (ai_family_inet ai) (world st)) st in
      if s < 0 then tcp_pi_try os ais st
      else
        let st = (if ai_family_inet ai then snd (modbus_tcp_set_ipv4_options os s st) else st);
            (rc, st) = c_ret (sys_connect os s (ai_addr ai) (world st)) st in
        if rc \<noteq> 0 then tcp_pi_try os ais (close_fd os s st)
        else set_s s st)"

text \<open>A failed name lookup returns its own code, which is not -1.\<close>

definition modbus_tcp_pi_connect :: "'w os \<Rightarrow> ('w, int) exec" where
  "modbus_tcp_pi_connect os st =
     do { d \<leftarrow> tcp_pi_data st;
          node \<leftarrow> c_str (pi_node d);
          service \<leftarrow> c_str (pi_service d);
          let (r, w) = sys_getaddrinfo os (Some node) service False (world st);
          let st = st\<lparr>world := w\<rparr>;
          case r of
            Inl rc \<Rightarrow> Some (rc, st)
          | Inr ai_list \<Rightarrow>
              let st = tcp_pi_try os ai_list st in
              if mb_s (ctx st) < 0 then Some (-1, st) else Some (0, st) }"

definition modbus_tcp_close :: "'w os \<Rightarrow> ('w, unit) exec" where
  "modbus_tcp_close os st =
     (let (_, st) = c_ret (sys_shutdown os (mb_s (ctx st)) (world st)) st
      in Some ((), close_fd os (mb_s (ctx st)) st))"

section \<open>Servers\<close>

definition modbus_tcp_listen :: "'w os \<Rightarrow> int \<Rightarrow> ('w, int) exec" where
  "modbus_tcp_listen os nb_connection st =
     do { d \<leftarrow> tcp_data st;
          let (new_socket, st) = c_ret (sys_socket os True (world st)) st;
          if new_socket = -1 then Some (-1, st)
          else do {
            let (rc, st) = c_ret (sys_setsockopt os new_socket SO_REUSEADDR (world st)) st;
            if rc = -1 then Some (-1, close_fd os new_socket st)
            else do {
              let (rc, st) = c_ret (sys_bind os new_socket (Inet ''0.0.0.0'' (tcp_port d mod 65536)) (world st)) st;
              if rc = -1 then Some (-1, close_fd os new_socket st)
              else do {
                let (rc, st) = c_ret (sys_listen os new_socket nb_connection (world st)) st;
                if rc = -1 then Some (-1, close_fd os new_socket st)
                else Some (new_socket, st) } } } }"

fun tcp_pi_listen_try :: "'w os \<Rightarrow> int \<Rightarrow> addrinfo list \<Rightarrow> 'w mstate \<Rightarrow> int \<times> 'w mstate" where
  "tcp_pi_listen_try os nb [] st = (-1, st)"
| "tcp_pi_listen_try os nb (ai # ais) st =
     (let (s, st) = c_ret (sys_socket os (ai_family_inet ai) (world st)) st in
      if s < 0 then tcp_pi_listen_try os nb ais st
      else
        let (rc, st) = c_ret (sys_setsockopt os s SO_REUSEADDR (world st)) st in
        if rc \<noteq> 0 then tcp_pi_listen_try os nb ais (close_fd os s st)
        else
          let (rc, st) = c_ret (sys_bind os s (ai_addr ai) (world st)) st in
          if rc \<noteq> 0 then tcp_pi_listen_try os nb ais (close_fd os s st)
          else
            let (rc, st) = c_ret (sys_listen os s nb (world st)) st in
            if rc \<noteq> 0 then tcp_pi_listen_try os nb ais (close_fd os s st)
            else (s, st))"

text \<open>An empty node stands for any address, an empty service for port 502.\<close>

definition modbus_tcp_pi_listen :: "'w os \<Rightarrow> int \<Rightarrow> ('w, int) exec" where
  "modbus_tcp_pi_listen os nb_connection st =
     do { d \<leftarrow> tcp_pi_data st;
          node \<leftarrow> c_str (pi_node d);
          service \<leftarrow> c_str (pi_service d);
          let (r, w) = sys_getaddrinfo os (if node = [] then None else Some node)
                         (if service = [] then ''502'' else service) True (world st);
          let st = st\<lparr>world := w\<rparr>;
          case r of
            Inl rc \<Rightarrow> Some (-1, st)
          | Inr ai_list \<Rightarrow>
              let (new_socket, st) = tcp_pi_listen_try os nb_connection ai_list st in
              if new_socket < 0 then Some (-1, st) else Some (new_socket, st) }"

text \<open>\<open>accept\<close>: the result, the new value of \<open>*socket\<close> and the state.\<close>

definition modbus_tcp_accept :: "'w os \<Rightarrow> int \<Rightarrow> ('w, int \<times> int) exec" where
  "modbus_tcp_accept os sock st =
     (let (s, st) = c_ret (sys_accept os sock (world st)) st; st = set_s s st in
      if s = -1 then Some ((-1, 0), close_fd os sock st)
      else Some ((s, sock), st))"

definition modbus_tcp_pi_accept :: "'w os \<Rightarrow> int \<Rightarrow> ('w, int \<times> int) exec" where
  "modbus_tcp_pi_accept os sock st =
     (let (s, st) = c_ret (sys_accept os sock (world st)) st; st = set_s s st in
      if s = -1 then Some ((mb_s (ctx st), 0), close_fd os sock st)
      else Some ((mb_s (ctx st), sock), st))"

section \<open>The backends and their constructors\<close>

definition modbus_tcp_backend :: "'w os \<Rightarrow> 'w modbus_backend" where
  "modbus_tcp_backend os = \<lparr>
     be_type = BACKEND_TYPE_TCP,
     header_length = TCP_HEADER_LENGTH,
     checksum_length = TCP_CHECKSUM_LENGTH,
     max_adu_length = TCP_MAX_ADU_LENGTH,
     be_set_slave = tcp_set_slave,
     be_build_request_basis = modbus_tcp_build_request_basis,
     be_build_response_basis = modbus_tcp_build_response_basis,
     be_prepare_response_tid = modbus_tcp_prepare_response_tid,
     be_send_msg_pre = modbus_tcp_send_msg_pre,
     be_send = modbus_tcp_send os,
     be_recv = modbus_tcp_recv os,
     be_check_integrity = modbus_tcp_check_integrity,
     be_pre_check_confirmation = Some modbus_tcp_pre_check_confirmation,
     be_connect = modbus_tcp_connect os,
     be_close = modbus_tcp_close os,
     be_flush = modbus_tcp_flush os,
     be_select = modbus_tcp_select os,
     be_filter_request = modbus_tcp_filter_request\<rparr>"

definition modbus_tcp_pi_backend :: "'w os \<Rightarrow> 'w modbus_backend" where
  "modbus_tcp_pi_backend os = (modbus_tcp_backend os)\<lparr>be_connect := modbus_tcp_pi_connect os\<rparr>"

lemma tcp_backend_sel [simp]:
  "be_type (modbus_tcp_backend os) = BACKEND_TYPE_TCP"
  "header_length (modbus_tcp_backend os) = 7"
  "checksum_length (modbus_tcp_backend os) = 0"
  "max_adu_length (modbus_tcp_backend os) = 260"
  "be_set_slave (modbus_tcp_backend os) = tcp_set_slave"
  "be_build_request_basis (modbus_tcp_backend os) = modbus_tcp_build_request_basis"
  "be_build_response_basis (modbus_tcp_backend os) = modbus_tcp_build_response_basis"
  "be_prepare_response_tid (modbus_tcp_backend os) = modbus_tcp_prepare_response_tid"
  "be_send_msg_pre (modbus_tcp_backend os) = modbus_tcp_send_msg_pre"
  "be_send (modbus_tcp_backend os) = modbus_tcp_send os"
  "be_recv (modbus_tcp_backend os) = modbus_tcp_recv os"
  "be_check_integrity (modbus_tcp_backend os) = modbus_tcp_check_integrity"
  "be_pre_check_confirmation (modbus_tcp_backend os) = Some modbus_tcp_pre_check_confirmation"
  "be_connect (modbus_tcp_backend os) = modbus_tcp_connect os"
  "be_close (modbus_tcp_backend os) = modbus_tcp_close os"
  "be_flush (modbus_tcp_backend os) = modbus_tcp_flush os"
  "be_select (modbus_tcp_backend os) = modbus_tcp_select os"
  "be_filter_request (modbus_tcp_backend os) = modbus_tcp_filter_request"
  by (simp_all add: modbus_tcp_backend_def)

definition TCP_IP_SIZE :: nat where [simp]: "TCP_IP_SIZE = 16"

definition modbus_new_tcp :: "modbus_t \<Rightarrow> char list \<Rightarrow> int \<Rightarrow> (int + modbus_t) option" where
  "modbus_new_tcp c ip port =
     do { (ret_size, b) \<leftarrow> strlcpy (fresh TCP_IP_SIZE) ip TCP_IP_SIZE;
          if ret_size = 0 then Some (Inl EINVAL)
          else if TCP_IP_SIZE \<le> ret_size then Some (Inl EINVAL)
          else Some (Inr ((modbus_init_common c)\<lparr>mb_slave := MODBUS_TCP_SLAVE,
                 mb_backend_data := TcpData \<lparr>tcp_port = port, tcp_ip = b\<rparr>\<rparr>)) }"

definition TCP_PI_NODE_LENGTH :: nat where [simp]: "TCP_PI_NODE_LENGTH = 1025"
definition TCP_PI_SERVICE_LENGTH :: nat where [simp]: "TCP_PI_SERVICE_LENGTH = 32"

definition modbus_new_tcp_pi :: "modbus_t \<Rightarrow> char list \<Rightarrow> char list \<Rightarrow> (int + modbus_t) option" where
  "modbus_new_tcp_pi c node service =
     do { (ret_size, n) \<leftarrow> strlcpy (fresh TCP_PI_NODE_LENGTH) node TCP_PI_NODE_LENGTH;
          if ret_size = 0 then Some (Inl EINVAL)
          else if TCP_PI_NODE_LENGTH \<le> ret_size then Some (Inl EINVAL)
          else do {
            (ret_size, v) \<leftarrow> strlcpy (fresh TCP_PI_SERVICE_LENGTH) service TCP_PI_SERVICE_LENGTH;
            if ret_size = 0 then Some (Inl EINVAL)
            else if TCP_PI_SERVICE_LENGTH \<le> ret_size then Some (Inl EINVAL)
            else Some (Inr ((modbus_init_common c)\<lparr>mb_slave := MODBUS_TCP_SLAVE,
                   mb_backend_data := TcpPiData \<lparr>pi_node = n, pi_service = v\<rparr>\<rparr>)) } }"

section \<open>The frames\<close>

text \<open>
  A TCP frame starts with the MBAP header. Its length field is unset until the frame is finished
  and counts the unit and the PDU.
\<close>

definition tcp_hdr :: "int \<Rightarrow> u8 \<Rightarrow> u8 option list" where
  "tcp_hdr t a = [Some (hi_byte t), Some (lo_byte t), Some 0, Some 0, None, None, Some a]"

definition tcp_frame :: "int \<Rightarrow> u8 \<Rightarrow> u8 list \<Rightarrow> u8 list" where
  "tcp_frame t a pdu =
     [hi_byte t, lo_byte t, 0, 0, hi_byte (int (length pdu) + 1), lo_byte (int (length pdu) + 1), a] @ pdu"

lemma tcp_finish:
  assumes "length ys = 7 + length pdu" "length ys \<le> n" "pdu \<noteq> []"
    "\<And>h l. ys[4 := Some (hi_byte (int (length pdu) + 1)), 5 := Some (lo_byte (int (length pdu) + 1))]
      = map Some (tcp_frame t a pdu)"
  shows "modbus_tcp_send_msg_pre (mkb n ys) (int (7 + length pdu))
    = Some (int (7 + length pdu), mkb n (map Some (tcp_frame t a pdu)))"
  using assms by (simp add: modbus_tcp_send_msg_pre_def wr_mkb_in algebra_simps)

interpretation tcp: framing "modbus_tcp_backend os" os 7 0 tcp_hdr tcp_frame
  "sys_send os" "\<lambda>fd n. sys_recv os fd n False"
proof (unfold_locales, goal_cases)
  case (9 i pdu t a)
  then show ?case by (simp add: tcp_frame_def nth_append)
next
  case (10 pdu n t a)
  then show ?case
    using tcp_finish [of "tcp_hdr t a @ map Some pdu" pdu n t a] by (simp add: tcp_hdr_def tcp_frame_def)
next
  case (13 bs n st)
  then show ?case
    by (simp add: modbus_tcp_send_def rds_mkb_init_0)
qed (auto simp: tcp_hdr_def tcp_frame_def modbus_tcp_select_def modbus_tcp_recv_def modbus_tcp_check_integrity_def)

interpretation tcp: server_link "modbus_tcp_backend os" os 7 0 tcp_hdr tcp_frame
  "sys_send os" "\<lambda>fd n. sys_recv os fd n False" "\<lambda>t. t mod 65536" "\<lambda>c a. True"
proof (unfold_locales, goal_cases)
  case (1 n sft)
  then show ?case
    by (simp add: modbus_tcp_build_response_basis_def fresh_mkb wr_mkb_end wr_mkb_gap numeral_2_eq_2 tcp_hdr_def)
next
  case (2 t a pdu rest len)
  have "rd (init (tcp_frame t a pdu) @ rest) 0 = Some (hi_byte t)"
    "rd (init (tcp_frame t a pdu) @ rest) 1 = Some (lo_byte t)"
    by (simp_all add: rd_init_append tcp_frame_def)
  then show ?case by (simp add: modbus_tcp_prepare_response_tid_def be16_hi_lo)
next
  case (4 pdu n t a)
  then show ?case
    using tcp_finish [of "map Some (tcp_frame t a pdu)" pdu n t a] by (simp add: tcp_frame_def)
qed (simp_all add: tcp_frame_def modbus_tcp_filter_request_def)

text \<open>Beginning a request advances the transaction identifier.\<close>

definition tcp_tick :: "'w mstate \<Rightarrow> 'w mstate" where
  "tcp_tick st = st\<lparr>tcp_t_id := next_t_id (tcp_t_id st)\<rparr>"

interpretation tcp: client_link "modbus_tcp_backend os" os 7 0 tcp_hdr tcp_frame
  "sys_send os" "\<lambda>fd n. sys_recv os fd n False" "\<lambda>c. True" tcp_tick "\<lambda>st. uint (next_t_id (tcp_t_id st))"
proof (unfold_locales, goal_cases)
  case (1 st n fc addr nb)
  then show ?case
    by (simp add: modbus_tcp_build_request_basis_def fresh_mkb wr_mkb_end wr_mkb_gap numeral_2_eq_2 tcp_hdr_def tcp_tick_def Let_def)
next
  case (5 f q n p m t a a' k st)
  then show ?case
    by (auto simp: modbus_tcp_pre_check_confirmation_def rd_mkb_init tcp_frame_def simp del: list.map)
qed (simp_all add: tcp_tick_def)

section \<open>TCP properties\<close>

text \<open>
  C2: Over the TCP backend \<open>modbus_reply\<close> implements the same abstract device;
  every unit is accepted and the response carries the transaction identifier of the request.
\<close>

theorem tcp_reply_serves:
  assumes "request_ok pdu" and "sends (sys_send os) st"
  shows "modbus_reply os (modbus_tcp_backend os) (mkb 260 (map Some (tcp_frame t a pdu)))
      (int (length (tcp_frame t a pdu))) (of_device d) st
    = (case serve pdu d of
         (None, d') \<Rightarrow> Some ((-1, of_device d'), st\<lparr>errno := ENOPROTOOPT\<rparr>)
       | (Some rsp, d') \<Rightarrow>
           let r = c_ret (sys_send os (mb_s (ctx st)) (tcp_frame t a rsp) (world st)) st
           in Some ((fst r, of_device d'), snd r))"
  using tcp.reply_refines [OF assms, of t a d] by (simp add: tcp.length_frame)

theorem tcp_reply_serves_witness:
  "modbus_reply (line_os (\<lambda>_. [])) (modbus_tcp_backend (line_os (\<lambda>_. [])))
      (mkb 260 (map Some (tcp_frame 9 1 [0x05, 0, 1, 0xFF, 0])))
      (int (length (tcp_frame 9 1 [0x05, 0, 1, 0xFF, 0])))
      (of_device \<lparr>coils = [False, False], inputs = [], holding = [], input_regs = []\<rparr>) (line_state 1 [])
    = (case serve [0x05, 0, 1, 0xFF, 0] \<lparr>coils = [False, False], inputs = [], holding = [], input_regs = []\<rparr> of
         (None, d') \<Rightarrow> Some ((-1, of_device d'), (line_state 1 [])\<lparr>errno := ENOPROTOOPT\<rparr>)
       | (Some rsp, d') \<Rightarrow>
           let r = c_ret (sys_send (line_os (\<lambda>_. [])) (mb_s (ctx (line_state 1 []))) (tcp_frame 9 1 rsp)
                     (world (line_state 1 []))) (line_state 1 [])
           in Some ((fst r, of_device d'), snd r))"
  by (rule tcp_reply_serves) (simp_all add: request_ok_def well_formed_def pdu_length_def sends_def)

text \<open>
  From a connection that starts with a TCP frame the receiver takes exactly that frame.
\<close>

theorem tcp_receives_frame:
  assumes "well_formed mt pdu"
    and "byte_stream os (\<lambda>fd n. sys_recv os fd n False) (mb_s (ctx st)) line"
    and "line (world st) = (tcp_frame t a pdu @ rest, peer)"
  shows "\<exists>st'. receive_msg os (modbus_tcp_backend os) (fresh MAX_MESSAGE_LENGTH) mt st
    = Some ((int (length (tcp_frame t a pdu)), mkb 260 (map Some (tcp_frame t a pdu))), st') \<and>
      line (world st') = (rest, peer) \<and> ctx st' = ctx st \<and> errno st' = errno st"
  using tcp.receive_frame [OF assms] by (simp add: tcp.length_frame)

theorem tcp_receives_frame_witness:
  "\<exists>st'. receive_msg (line_os (\<lambda>_. [])) (modbus_tcp_backend (line_os (\<lambda>_. []))) (fresh MAX_MESSAGE_LENGTH)
      MSG_CONFIRMATION (line_state 17 (tcp_frame 7 17 [0x03, 2, 0xAB, 0xCD] @ []))
    = Some ((int (length (tcp_frame 7 17 [0x03, 2, 0xAB, 0xCD])),
             mkb 260 (map Some (tcp_frame 7 17 [0x03, 2, 0xAB, 0xCD]))), st') \<and>
      (world st', ()) = ([], ()) \<and> ctx st' = ctx (line_state 17 (tcp_frame 7 17 [0x03, 2, 0xAB, 0xCD] @ [])) \<and>
      errno st' = errno (line_state 17 (tcp_frame 7 17 [0x03, 2, 0xAB, 0xCD] @ []))"
  by (rule tcp_receives_frame [OF _ line_os_stream(2)])
     (simp_all add: well_formed_def pdu_length_def)

text \<open>
  On arbitrary input the TCP receiver returns, stays inside its array of 260 bytes, and
  reports either an error or a length between 8 and 260.
\<close>

theorem tcp_receive_total:
  assumes "bounded_reads (\<lambda>fd n. sys_recv os fd n False)" and "select_returns os"
    and "mb_error_recovery (ctx st) = 0"
  shows "\<exists>rc b st'. receive_msg os (modbus_tcp_backend os) (fresh MAX_MESSAGE_LENGTH) mt st = Some ((rc, b), st') \<and>
      length b = MAX_MESSAGE_LENGTH \<and> (rc = -1 \<or> 8 \<le> rc \<and> rc \<le> TCP_MAX_ADU_LENGTH)"
  using tcp.receive_total [OF assms, of mt] by simp

theorem tcp_receive_total_witness:
  "\<exists>rc b st'. receive_msg (line_os (\<lambda>_. [])) (modbus_tcp_backend (line_os (\<lambda>_. []))) (fresh MAX_MESSAGE_LENGTH)
      MSG_CONFIRMATION (line_state 17 (replicate 300 0xFF)) = Some ((rc, b), st') \<and>
      length b = MAX_MESSAGE_LENGTH \<and> (rc = -1 \<or> 8 \<le> rc \<and> rc \<le> TCP_MAX_ADU_LENGTH)"
  by (rule tcp_receive_total [OF line_os_bounded(2) line_os_select]) simp

text \<open>A response whose transaction is not that of the request.\<close>

text \<open>
  A response whose transaction identifier differs from that of the request is rejected with
  \<open>EMBBADDATA\<close>.
\<close>

theorem tcp_stale_response_rejected:
  assumes "(hi_byte t, lo_byte t) \<noteq> (hi_byte t', lo_byte t')" and "\<not> recovery_protocol st"
  shows "check_confirmation os (modbus_tcp_backend os) (mkb n (map Some (tcp_frame t a q)))
      (mkb 260 (map Some (tcp_frame t' a' p))) k st = Some (-1, st\<lparr>errno := EMBBADDATA\<rparr>)"
proof -
  have "rd (mkb n (map Some (tcp_frame t a q))) 0 = Some (hi_byte t)"
    "rd (mkb n (map Some (tcp_frame t a q))) 1 = Some (lo_byte t)"
    "rd (mkb 260 (map Some (tcp_frame t' a' p))) 0 = Some (hi_byte t')"
    "rd (mkb 260 (map Some (tcp_frame t' a' p))) 1 = Some (lo_byte t')"
    by (subst rd_mkb_init; simp add: tcp_frame_def)+
  with assms show ?thesis
    by (auto simp: check_confirmation_def pre_check_def modbus_tcp_pre_check_confirmation_def recovery_protocol_def
        simp del: EMBBADDATA_def)
qed

theorem tcp_stale_response_rejected_witness:
  "check_confirmation (line_os (\<lambda>_. [])) (modbus_tcp_backend (line_os (\<lambda>_. [])))
      (mkb 12 (map Some (tcp_frame 1 17 [3, 0, 0, 0, 1]))) (mkb 260 (map Some (tcp_frame 2 17 [3, 2, 0, 5]))) 11
      (line_state 17 []) = Some (-1, (line_state 17 [])\<lparr>errno := EMBBADDATA\<rparr>)"
  by (rule tcp_stale_response_rejected) (simp_all add: hi_byte_def lo_byte_def byte_def)

end
