(* ===== verification/Exchange.thy ===== *)
theory Exchange
  imports Tcp
begin

text \<open>
  Client and server together: what a client call of \<open>modbus.c\<close> returns when the peer answers its
  request as the abstract device of \<open>Device\<close> does, over either backend. \<open>Server\<close> shows that
  \<open>modbus_reply\<close> answers that way.
\<close>

section \<open>Served responses are confirmed\<close>


lemma exception_bytes: "exception_pdu f c ! 0 = f + 0x80" "exception_pdu f c ! 1 = c" "length (exception_pdu f c) = 2"
  by (simp_all add: exception_pdu_def)

lemma confirm_exception:
  assumes "q ! 0 < 0x80" "answer_length q \<noteq> None" "answer_length q \<noteq> Some 2" "uint c < 12"
  shows "confirm q (exception_pdu (q ! 0) c) = Inl (MODBUS_ENOBASE + uint c)"
proof -
  have f: "uint (q ! 0) = uint (q ! 0 + 0x80) - 0x80"
    using assms(1) by (simp add: word_less_def uint_plus_if' )
  have n: "\<not> (answer_length q = None \<or> answer_length q = Some 2)"
    using assms(2,3) by simp
  show ?thesis
    unfolding confirm_def Let_def exception_bytes if_not_P [OF n] using f assms(4) by simp
qed

lemma exception_well_formed: "f < 0x80 \<Longrightarrow> well_formed MSG_CONFIRMATION (exception_pdu f c)"
proof -
  assume "f < 0x80"
  then have u: "unat (f + 0x80) = unat f + 128"
    by (simp add: word_less_nat_alt unat_plus_if')
  then have ne: "f + 0x80 \<noteq> word_of_nat n" if "n < 128" for n
    using that by (auto dest: arg_cong [of _ _ unat] simp: unsigned_of_nat take_bit_eq_mod)
  have "\<not> f + 0x80 \<le> 4" "f + 0x80 \<noteq> 5" "f + 0x80 \<noteq> 6" "f + 0x80 \<noteq> 15" "f + 0x80 \<noteq> 16" "f + 0x80 \<noteq> 17" "f + 0x80 \<noteq> 23"
    using ne [of 5] ne [of 6] ne [of 15] ne [of 16] ne [of 17] ne [of 23]
    by (simp_all add: word_le_nat_alt u)
  then show ?thesis
    by (simp add: well_formed_def pdu_length_def exception_pdu_def)
qed

lemma request5_ranges:
  "a < 65536 \<Longrightarrow> field (request5 f (int a) nb) (Suc 0) = a"
  "n < 65536 \<Longrightarrow> field (request5 f addr (int n)) 3 = n"
  using request5_fields(1) [of "int a" f nb] request5_fields(2) [of "int n" f addr] by simp_all

lemma unat_count: "n < 256 \<Longrightarrow> unat (word_of_nat n :: u8) = n"
  by (simp add: unsigned_of_nat take_bit_eq_mod)

lemma unat_count2: "n < 128 \<Longrightarrow> unat (2 * word_of_nat n :: u8) = 2 * n"
  using unat_count [of "2 * n"] by simp

text \<open>Reading registers: the confirmation is accepted and decodes to the registers of the device.\<close>

lemma serve_regs_confirmed:
  assumes "f = 0x03 \<or> f = 0x04" "1 \<le> n" "n \<le> 125" "a < 65536"
  defines "q \<equiv> request5 f (int a) (int n)"
  shows "well_formed MSG_CONFIRMATION (serve_regs q tab)"
    "confirm q (serve_regs q tab) = (if a + n \<le> length tab then Inr (int n) else Inl (MODBUS_ENOBASE + 2))"
    "a + n \<le> length tab \<Longrightarrow> pdu_regs (drop 2 (serve_regs q tab)) = take n (drop a tab)"
proof -
  let ?data = "take n (drop a tab)"
  have q: "field q (Suc 0) = a" "field q 3 = n" "q ! 0 = f"
    using assms(2-4) by (simp_all add: q_def request5_ranges)
  have len: "length ?data = n" if "a + n \<le> length tab" using that by simp
  have ans: "answer_length q = Some (2 + 2 * n)"
    using assms(1) q by (auto simp: answer_length_def)
  have r: "serve_regs q tab = (if a + n \<le> length tab then f # word_of_nat (2 * n) # regs_pdu ?data
      else exception_pdu f 2)"
    using assms(2,3) q by (simp add: serve_regs_def Let_def not_less)
  have "f < 0x80" using assms(1) by auto
  then show "well_formed MSG_CONFIRMATION (serve_regs q tab)"
    using assms(1,3) len exception_well_formed [of f 2]
    by (auto simp: r well_formed_def pdu_length_def unat_count2 simp del: length_take)
  show "confirm q (serve_regs q tab) = (if a + n \<le> length tab then Inr (int n) else Inl (MODBUS_ENOBASE + 2))"
  proof (cases "a + n \<le> length tab")
    case True
    then have "length (serve_regs q tab) = 2 + 2 * n" by (simp add: r len del: length_take)
    with True assms(1,3) q ans show ?thesis
      by (auto simp: confirm_def Let_def r int_half unat_count unat_count2)
  next
    case False
    with confirm_exception [of q 2] \<open>f < 0x80\<close> ans assms(2) q r show ?thesis by simp
  qed
  show "pdu_regs (drop 2 (serve_regs q tab)) = ?data" if "a + n \<le> length tab"
    using that by (simp add: r pdu_regs_pdu)
qed

lemma serve_bits_confirmed:
  assumes "f = 0x01 \<or> f = 0x02" "1 \<le> n" "n \<le> 2000" "a < 65536"
  defines "q \<equiv> request5 f (int a) (int n)"
  shows "well_formed MSG_CONFIRMATION (serve_bits q tab)"
    "confirm q (serve_bits q tab)
       = (if a + n \<le> length tab then Inr (int ((n + 7) div 8)) else Inl (MODBUS_ENOBASE + 2))"
    "a + n \<le> length tab \<Longrightarrow> unpack (drop 2 (serve_bits q tab)) n = map of_bool (take n (drop a tab))"
proof -
  let ?data = "take n (drop a tab)" and ?c = "(n + 7) div 8"
  have q: "field q (Suc 0) = a" "field q 3 = n" "q ! 0 = f"
    using assms(2-4) by (simp_all add: q_def request5_ranges)
  have len: "length ?data = n" "length (pack_bits ?data) = ?c" if "a + n \<le> length tab"
    using that by (simp_all add: length_pack_bits)
  have c: "1 \<le> ?c" "?c \<le> 250" using assms(2,3) by linarith+
  have ans: "answer_length q = Some (2 + ?c)"
    using assms(1) q by (auto simp: answer_length_def)
  have r: "serve_bits q tab = (if a + n \<le> length tab then f # word_of_nat (length (pack_bits ?data)) # pack_bits ?data
      else exception_pdu f 2)"
    using assms(2,3) q by (simp add: serve_bits_def Let_def not_less)
  have "f < 0x80" using assms(1) by auto
  then show "well_formed MSG_CONFIRMATION (serve_bits q tab)"
    using assms(1) c len(2) exception_well_formed [of f 2]
    by (auto simp: r well_formed_def pdu_length_def unat_count unat_count2)
  show "confirm q (serve_bits q tab)
       = (if a + n \<le> length tab then Inr (int ?c) else Inl (MODBUS_ENOBASE + 2))"
  proof (cases "a + n \<le> length tab")
    case True
    then have "length (serve_bits q tab) = 2 + ?c" by (simp add: r len)
    moreover have "uint (word_of_nat ?c :: u8) = int ?c"
      using c by (simp add: unsigned_of_nat take_bit_eq_mod)
    ultimately show ?thesis
      using True assms(1) c q ans len(2)
      by (auto simp: confirm_def Let_def r unat_count unat_count2)
  next
    case False
    with confirm_exception [of q 2] \<open>f < 0x80\<close> ans c q r show ?thesis by simp
  qed
  show "unpack (drop 2 (serve_bits q tab)) n = map of_bool ?data" if "a + n \<le> length tab"
    using that unpack_pack_bits [of ?data] len by (simp add: r)
qed

lemma serve_write_registers_confirmed:
  assumes "length vs \<le> 123" "a < 65536"
  defines "q \<equiv> request5 0x10 (int a) (int (length vs)) @ word_of_nat (2 * length vs) # regs_pdu vs"
  shows "request_ok q"
    "serve q d = (if a + length vs \<le> length (holding d)
       then (Some (take 5 q), d\<lparr>holding := put_at (holding d) a vs\<rparr>) else (Some (exception_pdu 0x10 2), d))"
    "well_formed MSG_CONFIRMATION (take 5 q)" "well_formed MSG_CONFIRMATION (exception_pdu 0x10 2)"
    "confirm q (take 5 q) = Inr (int (length vs))" "confirm q (exception_pdu 0x10 2) = Inl (MODBUS_ENOBASE + 2)"
proof -
  have q: "q \<noteq> []" "q ! 0 = 0x10" "q ! 5 = word_of_nat (2 * length vs)" "length q = 6 + 2 * length vs" "drop 6 q = regs_pdu vs"
    by (simp_all add: q_def request5_def)
  have f: "field q (Suc 0) = a" "field q 3 = length vs" "field (take 5 q) 3 = length vs"
    using assms(1,2) by (simp_all add: q_def request5_def field_def)
  show "request_ok q"
    using assms(1) q f by (simp add: request_ok_def well_formed_def pdu_length_def unat_count unat_count2)
  show "serve q d = (if a + length vs \<le> length (holding d)
       then (Some (take 5 q), d\<lparr>holding := put_at (holding d) a vs\<rparr>) else (Some (exception_pdu 0x10 2), d))"
    using q f by (simp add: serve_def serve_write_registers_def Let_def pdu_regs_pdu not_less)
  have "answer_length q = Some 5" using q by (simp add: answer_length_def)
  then show "confirm q (exception_pdu 0x10 2) = Inl (MODBUS_ENOBASE + 2)"
    using confirm_exception [of q 2] q by simp
  show "confirm q (take 5 q) = Inr (int (length vs))"
    using q f by (simp add: confirm_def answer_length_def Let_def)
  show "well_formed MSG_CONFIRMATION (take 5 q)"
    using q by (simp add: well_formed_def pdu_length_def)
  show "well_formed MSG_CONFIRMATION (exception_pdu 0x10 2)"
    by (rule exception_well_formed) simp
qed

lemma serve_write_coils_confirmed:
  assumes "length bs \<le> 1968" "a < 65536"
  defines "q \<equiv> request5 0x0F (int a) (int (length bs)) @ word_of_nat (length (pack_bits bs)) # pack_bits bs"
  shows "request_ok q"
    "serve q d = (if a + length bs \<le> length (coils d)
       then (Some (take 5 q), d\<lparr>coils := put_at (coils d) a bs\<rparr>) else (Some (exception_pdu 0x0F 2), d))"
    "well_formed MSG_CONFIRMATION (take 5 q)" "well_formed MSG_CONFIRMATION (exception_pdu 0x0F 2)"
    "confirm q (take 5 q) = Inr (int (length bs))" "confirm q (exception_pdu 0x0F 2) = Inl (MODBUS_ENOBASE + 2)"
proof -
  have c: "length (pack_bits bs) \<le> 246" "length bs \<le> 8 * length (pack_bits bs)"
    using assms(1) by (simp_all add: length_pack_bits)
  have q: "q \<noteq> []" "q ! 0 = 0x0F" "q ! 5 = word_of_nat (length (pack_bits bs))" "length q = 6 + length (pack_bits bs)"
    "drop 6 q = pack_bits bs"
    by (simp_all add: q_def request5_def)
  have f: "field q (Suc 0) = a" "field q 3 = length bs" "field (take 5 q) 3 = length bs"
    using assms(1,2) by (simp_all add: q_def request5_def field_def)
  have bits: "map (\<lambda>k. bit (pack_bits bs ! (k div 8)) (k mod 8)) [0..<length bs] = bs"
    by (rule nth_equalityI) (simp_all add: pack_bits_nth)
  show "request_ok q"
    using c q f by (simp add: request_ok_def well_formed_def pdu_length_def unat_count unat_count2)
  show "serve q d = (if a + length bs \<le> length (coils d)
       then (Some (take 5 q), d\<lparr>coils := put_at (coils d) a bs\<rparr>) else (Some (exception_pdu 0x0F 2), d))"
    using q f bits by (simp add: serve_def serve_write_coils_def Let_def not_less)
  have "answer_length q = Some 5" using q by (simp add: answer_length_def)
  then show "confirm q (exception_pdu 0x0F 2) = Inl (MODBUS_ENOBASE + 2)"
    using confirm_exception [of q 2] q by simp
  show "confirm q (take 5 q) = Inr (int (length bs))"
    using q f by (simp add: confirm_def answer_length_def Let_def)
  show "well_formed MSG_CONFIRMATION (take 5 q)"
    using q by (simp add: well_formed_def pdu_length_def)
  show "well_formed MSG_CONFIRMATION (exception_pdu 0x0F 2)"
    by (rule exception_well_formed) simp
qed

lemma serve_write_and_read_confirmed:
  fixes d :: device
  assumes "1 \<le> length vs" "length vs \<le> 121" "1 \<le> n" "n \<le> 125" "a < 65536" "aw < 65536"
  defines "q \<equiv> request5 0x17 (int a) (int n) @ [hi_byte (int aw), lo_byte (int aw), hi_byte (int (length vs)),
       lo_byte (int (length vs)), word_of_nat (2 * length vs)] @ regs_pdu vs"
    and "fits \<equiv> a + n \<le> length (holding d) \<and> aw + length vs \<le> length (holding d)"
    and "regs \<equiv> put_at (holding d) aw vs"
  shows "\<exists>p. serve q d = (Some p, if fits then d\<lparr>holding := regs\<rparr> else d) \<and> well_formed MSG_CONFIRMATION p \<and>
     confirm q p = (if fits then Inr (int n) else Inl (MODBUS_ENOBASE + 2)) \<and>
     (fits \<longrightarrow> pdu_regs (drop 2 p) = take n (drop a regs))"
proof -
  have q: "q \<noteq> []" "q ! 0 = 0x17" "unat (q ! 9) = 2 * length vs" "drop 10 q = regs_pdu vs"
    using assms(2) by (simp_all add: q_def request5_def unat_count2)
  have f: "field q (Suc 0) = a" "field q 3 = n" "field q 5 = aw" "field q 7 = length vs"
    using assms by (simp_all add: q_def request5_def field_def)
  have ans: "answer_length q = Some (2 + 2 * n)"
    using q f by (simp add: answer_length_def)
  show ?thesis
  proof (cases fits)
    case True
    let ?p = "0x17 # word_of_nat (2 * n) # regs_pdu (take n (drop a regs)) :: u8 list"
    have len: "length (take n (drop a regs)) = n"
      using True by (auto simp: fits_def regs_def min_def)
    have "vs \<noteq> []" using assms(1) by auto
    then have "serve q d = (Some ?p, d\<lparr>holding := regs\<rparr>)"
      using True assms(1-4) q f
      by (simp add: serve_def serve_write_and_read_def Let_def pdu_regs_pdu fits_def regs_def not_less)
    moreover have "well_formed MSG_CONFIRMATION ?p"
      using len assms(4) by (simp add: well_formed_def pdu_length_def unat_count2 del: length_take)
    moreover have "confirm q ?p = Inr (int n)"
      using q f ans len assms(4) by (simp add: confirm_def Let_def int_half unat_count2 del: length_take)
    ultimately show ?thesis
      using True by (simp add: pdu_regs_pdu)
  next
    case False
    then have "serve q d = (Some (exception_pdu 0x17 2), d)"
      using assms(1-4) q f
      by (auto simp: serve_def serve_write_and_read_def Let_def fits_def not_le)
    moreover have "confirm q (exception_pdu 0x17 2) = Inl (MODBUS_ENOBASE + 2)"
      using confirm_exception [of q 2] q ans assms(3) by simp
    ultimately show ?thesis
      using False exception_well_formed [of "0x17" 2] by simp
  qed
qed

context client_link
begin

lemma read_registers_served:
  assumes u: "usable (ctx st)" and f: "f = 3 \<or> f = 4"
    and n: "1 \<le> n" "n \<le> 125" "n \<le> length dest" "a < 65536"
    and ex: "exchange os put get line st (my_frame st (request5 (byte f) (int a) (int n)))
       (frame (request_tid st) b (serve_regs (request5 (byte f) (int a) (int n)) tab), peer)"
  shows "\<exists>st'. read_registers os be f (int a) (int n) dest st
      = Some (if a + n \<le> length tab then (int n, fill dest 0 (take n (drop a tab))) else (-1, dest), st') \<and>
     settled line peer st (if a + n \<le> length tab then Inr (int n) else Inl (MODBUS_ENOBASE + 2)) st'"
proof -
  have "byte f = 3 \<or> byte f = 4" using f by (auto simp: byte_def)
  note r = serve_regs_confirmed [OF this n(1,2,4), of tab]
  from read_registers_exchange [OF u _ n(2,3) refl ex r(1)] f r(2,3) show ?thesis
    by (auto split: if_splits)
qed

lemma read_bits_served:
  assumes u: "usable (ctx st)" and f: "f = 1 \<or> f = 2"
    and n: "1 \<le> n" "n \<le> 2000" "n \<le> length dest" "a < 65536"
    and ex: "exchange os put get line st (my_frame st (request5 (byte f) (int a) (int n)))
       (frame (request_tid st) b (serve_bits (request5 (byte f) (int a) (int n)) tab), peer)"
  shows "\<exists>st'. read_io_status os be f (int a) (int n) dest st
      = Some (if a + n \<le> length tab
              then (int ((n + 7) div 8), fill dest 0 (map of_bool (take n (drop a tab)))) else (-1, dest), st') \<and>
     settled line peer st (if a + n \<le> length tab then Inr (int n) else Inl (MODBUS_ENOBASE + 2)) st'"
proof -
  have "byte f = 1 \<or> byte f = 2" using f by (auto simp: byte_def)
  note r = serve_bits_confirmed [OF this n(1,2,4), of tab]
  from read_io_status_exchange [OF u _ n(2,3) refl ex r(1)] f r(2,3) show ?thesis
    by (auto simp: settled_def split: if_splits)
qed

lemma write_registers_served:
  assumes u: "usable (ctx st)" and n: "length vs \<le> 123" "a < 65536"
    and src: "\<And>k. k < length vs \<Longrightarrow> rd src (int k) = Some (vs ! k)"
    and q: "q = request5 0x10 (int a) (int (length vs)) @ word_of_nat (2 * length vs) # regs_pdu vs"
    and p: "serve q d = (Some p, d')"
    and ex: "exchange os put get line st (my_frame st q) (frame (request_tid st) b p, peer)"
  shows "\<exists>st'. modbus_write_registers os be (int a) (int (length vs)) src st
      = Some (if a + length vs \<le> length (holding d) then int (length vs) else -1, st') \<and>
     settled line peer st (if a + length vs \<le> length (holding d) then Inr (int (length vs)) else Inl (MODBUS_ENOBASE + 2)) st' \<and>
     d' = (if a + length vs \<le> length (holding d) then d\<lparr>holding := put_at (holding d) a vs\<rparr> else d)"
proof -
  note r = serve_write_registers_confirmed [OF n, folded q]
  have "well_formed MSG_CONFIRMATION p" using p r(2-4) by (auto split: if_splits)
  from write_registers_exchange [OF u n(1) q src ex this] p r(2,5,6) show ?thesis
    by (auto split: if_splits)
qed

lemma write_bits_served:
  assumes u: "usable (ctx st)" and n: "length bs \<le> 1968" "a < 65536"
    and src: "\<And>k. k < length bs \<Longrightarrow> \<exists>v. rd src (int k) = Some v \<and> (v \<noteq> 0) = bs ! k"
    and q: "q = request5 0x0F (int a) (int (length bs)) @ word_of_nat (length (pack_bits bs)) # pack_bits bs"
    and p: "serve q d = (Some p, d')"
    and ex: "exchange os put get line st (my_frame st q) (frame (request_tid st) b p, peer)"
  shows "\<exists>st'. modbus_write_bits os be (int a) (int (length bs)) src st
      = Some (if a + length bs \<le> length (coils d) then int (length bs) else -1, st') \<and>
     settled line peer st (if a + length bs \<le> length (coils d) then Inr (int (length bs)) else Inl (MODBUS_ENOBASE + 2)) st' \<and>
     d' = (if a + length bs \<le> length (coils d) then d\<lparr>coils := put_at (coils d) a bs\<rparr> else d)"
proof -
  note r = serve_write_coils_confirmed [OF n, folded q]
  have "well_formed MSG_CONFIRMATION p" using p r(2-4) by (auto split: if_splits)
  from write_bits_exchange [OF u n(1) q src ex this] p r(2,5,6) show ?thesis
    by (auto split: if_splits)
qed

lemma write_and_read_served:
  assumes u: "usable (ctx st)"
    and n: "1 \<le> length vs" "length vs \<le> 121" "1 \<le> n" "n \<le> 125" "n \<le> length dest" "a < 65536" "aw < 65536"
    and q: "q = request5 0x17 (int a) (int n) @ [hi_byte (int aw), lo_byte (int aw), hi_byte (int (length vs)),
       lo_byte (int (length vs)), word_of_nat (2 * length vs)] @ regs_pdu vs"
    and p: "serve q d = (Some p, d')" and regs: "regs = put_at (holding d) aw vs"
    and ex: "exchange os put get line st (my_frame st q) (frame (request_tid st) b p, peer)"
    and fits: "a + n \<le> length (holding d)" "aw + length vs \<le> length (holding d)"
  shows "\<exists>st'. modbus_write_and_read_registers os be (int aw) (int (length vs)) (init vs) (int a) (int n) dest st
      = Some ((int n, fill dest 0 (take n (drop a regs))), st') \<and>
     settled line peer st (Inr (int n)) st' \<and> d' = d\<lparr>holding := regs\<rparr>"
proof -
  note r = serve_write_and_read_confirmed [OF n(1-4,6,7), folded q, of d]
  then have r: "serve q d = (Some p, d\<lparr>holding := regs\<rparr>)" "well_formed MSG_CONFIRMATION p" "confirm q p = Inr (int n)"
    "pdu_regs (drop 2 p) = take n (drop a regs)"
    using p fits regs by auto
  from write_and_read_exchange [OF u n(2,4,5) q _ ex r(2)] p r(1,3,4) show ?thesis
    by (auto simp: rd_init)
qed

end

lemma serve_read:
  "q ! 0 = 0x01 \<Longrightarrow> serve q d = (Some (serve_bits q (coils d)), d)"
  "q ! 0 = 0x02 \<Longrightarrow> serve q d = (Some (serve_bits q (inputs d)), d)"
  "q ! 0 = 0x03 \<Longrightarrow> serve q d = (Some (serve_regs q (holding d)), d)"
  "q ! 0 = 0x04 \<Longrightarrow> serve q d = (Some (serve_regs q (input_regs d)), d)"
  by (simp_all add: serve_def)

section \<open>Over a serial line\<close>

text \<open>
  C3: When the peer answers as the abstract device does, reading holding registers over RTU
  returns the device's registers \<open>a ..< a + n\<close>; when they are out of its range the
  call returns -1 with the code of the exception and leaves the destination alone.
\<close>

theorem rtu_read_registers_served:
  assumes "mb_slave (ctx st) \<noteq> -1" and "1 \<le> n" "n \<le> 125" "n \<le> length dest" "a < 65536"
    and "q = request5 0x03 (int a) (int n)" and "serve q d = (Some p, d')"
    and "exchange os (sys_write os) (sys_read os) line st
       (rtu_frame 0 (byte (mb_slave (ctx st))) q) (rtu_frame 0 b p, peer)"
  shows "\<exists>st'. modbus_read_registers os (modbus_rtu_backend os) (int a) (int n) dest st
      = Some (if a + n \<le> length (holding d) then (int n, fill dest 0 (take n (drop a (holding d)))) else (-1, dest), st') \<and>
     settled line peer st (if a + n \<le> length (holding d) then Inr (int n) else Inl (MODBUS_ENOBASE + 2)) st'"
proof -
  have b: "byte 3 = 3" by (simp add: byte_def)
  have "p = serve_regs q (holding d)"
    using assms(6,7) by (auto simp: serve_def)
  with assms(6,8) have ex: "exchange os (sys_write os) (sys_read os) line st
      (rtu_frame 0 (byte (mb_slave (ctx st))) (request5 (byte 3) (int a) (int n)))
      (rtu_frame 0 b (serve_regs (request5 (byte 3) (int a) (int n)) (holding d)), peer)"
    by (simp only: b)
  from rtu.read_registers_served [OF assms(1) _ assms(2-5) ex] assms(3) show ?thesis
    by (auto simp: modbus_read_registers_def split: if_splits)
qed

theorem rtu_read_registers_served_witness:
  "let q = request5 0x03 (int 1) (int 2); d = \<lparr>coils = [], inputs = [], holding = [7, 8, 9], input_regs = []\<rparr>;
       os = line_os (\<lambda>_. rtu_frame 0 17 (serve_regs q (holding d))); st = line_state 17 []
   in \<exists>st'. modbus_read_registers os (modbus_rtu_backend os) (int 1) (int 2) (fresh 4) st
      = Some (if 1 + 2 \<le> length (holding d) then (int 2, fill (fresh 4) 0 (take 2 (drop 1 (holding d)))) else (-1, fresh 4), st') \<and>
     settled (\<lambda>w. (w, ())) () st (if 1 + 2 \<le> length (holding d) then Inr (int 2) else Inl (MODBUS_ENOBASE + 2)) st'"
  unfolding Let_def
  by (rule rtu_read_registers_served [OF _ _ _ _ _ refl, where b = 17])
     (rule serve_read(3) | simp add: exchange_def line_os_stream answers_def rtu.length_frame)+

text \<open>
  C4: Reading coils from a peer that answers as the abstract device returns the device's coils,
  one per byte, for any number of coils up to the protocol's limit.
\<close>

theorem rtu_read_bits_served:
  assumes "mb_slave (ctx st) \<noteq> -1" and "1 \<le> n" "n \<le> 2000" "n \<le> length dest" "a < 65536"
    and "q = request5 0x01 (int a) (int n)" and "serve q d = (Some p, d')"
    and "exchange os (sys_write os) (sys_read os) line st
       (rtu_frame 0 (byte (mb_slave (ctx st))) q) (rtu_frame 0 b p, peer)"
  shows "\<exists>st'. modbus_read_bits os (modbus_rtu_backend os) (int a) (int n) dest st
      = Some (if a + n \<le> length (coils d) then (int n, fill dest 0 (map of_bool (take n (drop a (coils d))))) else (-1, dest), st') \<and>
     settled line peer st (if a + n \<le> length (coils d) then Inr (int n) else Inl (MODBUS_ENOBASE + 2)) st'"
proof -
  have b: "byte 1 = 1" by (simp add: byte_def)
  have "p = serve_bits q (coils d)"
    using assms(6,7) by (auto simp: serve_def)
  with assms(6,8) have ex: "exchange os (sys_write os) (sys_read os) line st
      (rtu_frame 0 (byte (mb_slave (ctx st))) (request5 (byte 1) (int a) (int n)))
      (rtu_frame 0 b (serve_bits (request5 (byte 1) (int a) (int n)) (coils d)), peer)"
    by (simp only: b)
  from rtu.read_bits_served [OF assms(1) _ assms(2-5) ex] assms(3) show ?thesis
    by (auto simp: modbus_read_bits_def split: if_splits)
qed

theorem rtu_read_bits_served_witness:
  "let q = request5 0x01 (int 1) (int 2); d = \<lparr>coils = [True, False], inputs = [], holding = [], input_regs = []\<rparr>;
       os = line_os (\<lambda>_. rtu_frame 0 17 (serve_bits q (coils d))); st = line_state 17 []
   in \<exists>st'. modbus_read_bits os (modbus_rtu_backend os) (int 1) (int 2) (fresh 4) st
      = Some (if 1 + 2 \<le> length (coils d) then (int 2, fill (fresh 4) 0 (map of_bool (take 2 (drop 1 (coils d))))) else (-1, fresh 4), st') \<and>
     settled (\<lambda>w. (w, ())) () st (if 1 + 2 \<le> length (coils d) then Inr (int 2) else Inl (MODBUS_ENOBASE + 2)) st'"
  unfolding Let_def
  by (rule rtu_read_bits_served [OF _ _ _ _ _ refl, where b = 17])
     (rule serve_read(1) | simp add: exchange_def line_os_stream answers_def rtu.length_frame)+

text \<open>
  Writing registers to a peer that answers as the abstract device stores them there and
  returns their number, or returns -1 and stores nothing when they do not fit.
\<close>

theorem rtu_write_registers_served:
  assumes "mb_slave (ctx st) \<noteq> -1" and "length vs \<le> 123" "a < 65536"
    and "q = request5 0x10 (int a) (int (length vs)) @ word_of_nat (2 * length vs) # regs_pdu vs"
    and "serve q d = (Some p, d')"
    and "exchange os (sys_write os) (sys_read os) line st
       (rtu_frame 0 (byte (mb_slave (ctx st))) q) (rtu_frame 0 b p, peer)"
  shows "\<exists>st'. modbus_write_registers os (modbus_rtu_backend os) (int a) (int (length vs)) (init vs) st
      = Some (if a + length vs \<le> length (holding d) then int (length vs) else -1, st') \<and>
     settled line peer st (if a + length vs \<le> length (holding d) then Inr (int (length vs)) else Inl (MODBUS_ENOBASE + 2)) st' \<and>
     d' = (if a + length vs \<le> length (holding d) then d\<lparr>holding := put_at (holding d) a vs\<rparr> else d)"
  by (rule rtu.write_registers_served [OF assms(1-3) _ assms(4-6)]) (simp add: rd_init)

lemma serve_write_one:
  assumes "a < length (holding d)" "length (holding d) \<le> 65536"
  shows "serve (request5 0x10 (int a) (int (length [v])) @ word_of_nat (2 * length [v]) # regs_pdu [v]) d
    = (Some (take 5 (request5 0x10 (int a) (int (length [v])) @ word_of_nat (2 * length [v]) # regs_pdu [v])),
       d\<lparr>holding := put_at (holding d) a [v]\<rparr>)"
  using serve_write_registers_confirmed(2) [of "[v]" a d] assms by simp

theorem rtu_write_registers_served_witness:
  "let q = request5 0x10 (int 1) (int (length [5 :: u16])) @ word_of_nat (2 * length [5 :: u16]) # regs_pdu [5];
       d = \<lparr>coils = [], inputs = [], holding = [7, 8, 9], input_regs = []\<rparr>;
       os = line_os (\<lambda>_. rtu_frame 0 17 (take 5 q)); st = line_state 17 []
   in \<exists>st'. modbus_write_registers os (modbus_rtu_backend os) (int 1) (int (length [5 :: u16])) (init [5]) st
      = Some (if 1 + length [5 :: u16] \<le> length (holding d) then int (length [5 :: u16]) else -1, st') \<and>
     settled (\<lambda>w. (w, ())) () st (if 1 + length [5 :: u16] \<le> length (holding d) then Inr (int (length [5 :: u16]))
       else Inl (MODBUS_ENOBASE + 2)) st' \<and>
     d\<lparr>holding := put_at (holding d) 1 [5]\<rparr> = (if 1 + length [5 :: u16] \<le> length (holding d)
       then d\<lparr>holding := put_at (holding d) 1 [5]\<rparr> else d)"
  unfolding Let_def
  by (rule rtu_write_registers_served [OF _ _ _ refl serve_write_one, where b = 17])
     (simp_all add: exchange_def line_os_stream answers_def rtu.length_frame)


text \<open>
  C5: A write-and-read request first writes and then reads: the registers returned are those of
  the device after the write.
\<close>

theorem rtu_write_and_read_served:
  assumes "mb_slave (ctx st) \<noteq> -1"
    and "1 \<le> length vs" "length vs \<le> 121" "1 \<le> n" "n \<le> 125" "n \<le> length dest" "a < 65536" "aw < 65536"
    and "q = request5 0x17 (int a) (int n) @ [hi_byte (int aw), lo_byte (int aw), hi_byte (int (length vs)),
       lo_byte (int (length vs)), word_of_nat (2 * length vs)] @ regs_pdu vs"
    and "serve q d = (Some p, d')" and "regs = put_at (holding d) aw vs"
    and "exchange os (sys_write os) (sys_read os) line st
       (rtu_frame 0 (byte (mb_slave (ctx st))) q) (rtu_frame 0 b p, peer)"
    and "a + n \<le> length (holding d)" "aw + length vs \<le> length (holding d)"
  shows "\<exists>st'. modbus_write_and_read_registers os (modbus_rtu_backend os) (int aw) (int (length vs)) (init vs)
        (int a) (int n) dest st
      = Some ((int n, fill dest 0 (take n (drop a regs))), st') \<and>
     settled line peer st (Inr (int n)) st' \<and> d' = d\<lparr>holding := regs\<rparr>"
  by (rule rtu.write_and_read_served [OF assms])

lemma serve_swap_one:
  "serve (request5 0x17 (int 0) (int 3) @ [hi_byte (int 1), lo_byte (int 1), hi_byte (int (length [5 :: u16])),
       lo_byte (int (length [5 :: u16])), word_of_nat (2 * length [5 :: u16])] @ regs_pdu [5])
     \<lparr>coils = [], inputs = [], holding = [7, 8, 9], input_regs = []\<rparr>
   = (Some [0x17, 6, 0, 7, 0, 5, 0, 9], \<lparr>coils = [], inputs = [], holding = [7, 5, 9], input_regs = []\<rparr>)"
  by code_simp

theorem rtu_write_and_read_served_witness:
  "let d = \<lparr>coils = [], inputs = [], holding = [7, 8, 9], input_regs = []\<rparr>;
       os = line_os (\<lambda>_. rtu_frame 0 17 [0x17, 6, 0, 7, 0, 5, 0, 9]); st = line_state 17 []
   in \<exists>st'. modbus_write_and_read_registers os (modbus_rtu_backend os) (int 1) (int (length [5 :: u16])) (init [5])
        (int 0) (int 3) (fresh 3) st
      = Some ((int 3, fill (fresh 3) 0 (take 3 (drop 0 (put_at (holding d) 1 [5])))), st') \<and>
     settled (\<lambda>w. (w, ())) () st (Inr (int 3)) st' \<and>
     \<lparr>coils = [], inputs = [], holding = [7, 5, 9], input_regs = []\<rparr> = d\<lparr>holding := put_at (holding d) 1 [5]\<rparr>"
  unfolding Let_def
  by (rule rtu_write_and_read_served [OF _ _ _ _ _ _ _ _ refl serve_swap_one refl, where b = 17])
     (simp_all add: exchange_def line_os_stream answers_def rtu.length_frame)

section \<open>Over TCP\<close>

text \<open>
  The same over TCP, with the transaction identifier the client assigns to the request.
\<close>

theorem tcp_read_registers_served:
  assumes "1 \<le> n" "n \<le> 125" "n \<le> length dest" "a < 65536"
    and "q = request5 0x03 (int a) (int n)" and "serve q d = (Some p, d')"
    and "t = uint (next_t_id (tcp_t_id st))"
    and "exchange os (sys_send os) (\<lambda>fd n. sys_recv os fd n False) line st
       (tcp_frame t (byte (mb_slave (ctx st))) q) (tcp_frame t b p, peer)"
  shows "\<exists>st'. modbus_read_registers os (modbus_tcp_backend os) (int a) (int n) dest st
      = Some (if a + n \<le> length (holding d) then (int n, fill dest 0 (take n (drop a (holding d)))) else (-1, dest), st') \<and>
     settled line peer st (if a + n \<le> length (holding d) then Inr (int n) else Inl (MODBUS_ENOBASE + 2)) st'"
proof -
  have b: "byte 3 = 3" by (simp add: byte_def)
  have "p = serve_regs q (holding d)"
    using assms(5,6) by (auto simp: serve_def)
  with assms(5,7,8) have ex: "exchange os (sys_send os) (\<lambda>fd n. sys_recv os fd n False) line st
      (tcp_frame (uint (next_t_id (tcp_t_id st))) (byte (mb_slave (ctx st))) (request5 (byte 3) (int a) (int n)))
      (tcp_frame (uint (next_t_id (tcp_t_id st))) b (serve_regs (request5 (byte 3) (int a) (int n)) (holding d)), peer)"
    by (simp only: b)
  from tcp.read_registers_served [OF TrueI _ assms(1-4) ex] assms(2) show ?thesis
    by (auto simp: modbus_read_registers_def split: if_splits)
qed

theorem tcp_read_registers_served_witness:
  "let q = request5 0x03 (int 1) (int 2); d = \<lparr>coils = [], inputs = [], holding = [7, 8, 9], input_regs = []\<rparr>;
       os = line_os (\<lambda>_. tcp_frame 1 17 (serve_regs q (holding d))); st = line_state 17 []
   in \<exists>st'. modbus_read_registers os (modbus_tcp_backend os) (int 1) (int 2) (fresh 4) st
      = Some (if 1 + 2 \<le> length (holding d) then (int 2, fill (fresh 4) 0 (take 2 (drop 1 (holding d)))) else (-1, fresh 4), st') \<and>
     settled (\<lambda>w. (w, ())) () st (if 1 + 2 \<le> length (holding d) then Inr (int 2) else Inl (MODBUS_ENOBASE + 2)) st'"
  unfolding Let_def
  by (rule tcp_read_registers_served [OF _ _ _ _ refl, where b = 17 and t = 1])
     (rule serve_read(3) | simp add: exchange_def line_os_stream answers_def tcp.length_frame next_t_id_def line_state_def recovery_protocol_def)+


text \<open>
  Writing coils over TCP stores them in a device that answers as the abstract one, for any
  number of coils up to the protocol's limit.
\<close>

theorem tcp_write_bits_served:
  assumes "length bs \<le> 1968" "a < 65536"
    and "q = request5 0x0F (int a) (int (length bs)) @ word_of_nat (length (pack_bits bs)) # pack_bits bs"
    and "serve q d = (Some p, d')"
    and "t = uint (next_t_id (tcp_t_id st))"
    and "exchange os (sys_send os) (\<lambda>fd n. sys_recv os fd n False) line st
       (tcp_frame t (byte (mb_slave (ctx st))) q) (tcp_frame t b p, peer)"
  shows "\<exists>st'. modbus_write_bits os (modbus_tcp_backend os) (int a) (int (length bs)) (init (map of_bool bs)) st
      = Some (if a + length bs \<le> length (coils d) then int (length bs) else -1, st') \<and>
     settled line peer st (if a + length bs \<le> length (coils d) then Inr (int (length bs)) else Inl (MODBUS_ENOBASE + 2)) st' \<and>
     d' = (if a + length bs \<le> length (coils d) then d\<lparr>coils := put_at (coils d) a bs\<rparr> else d)"
  by (rule tcp.write_bits_served [OF TrueI assms(1,2) _ assms(3,4) assms(6) [unfolded assms(5)]])
    (simp add: rd_init)

lemma serve_set_one:
  "serve (request5 0x0F (int 1) (int (length [True])) @ word_of_nat (length (pack_bits [True])) # pack_bits [True])
     \<lparr>coils = [False, False], inputs = [], holding = [], input_regs = []\<rparr>
   = (Some [0x0F, 0, 1, 0, 1], \<lparr>coils = [False, True], inputs = [], holding = [], input_regs = []\<rparr>)"
  by code_simp

theorem tcp_write_bits_served_witness:
  "let d = \<lparr>coils = [False, False], inputs = [], holding = [], input_regs = []\<rparr>;
       os = line_os (\<lambda>_. tcp_frame 1 17 [0x0F, 0, 1, 0, 1]); st = line_state 17 []
   in \<exists>st'. modbus_write_bits os (modbus_tcp_backend os) (int 1) (int (length [True])) (init (map of_bool [True])) st
      = Some (if 1 + length [True] \<le> length (coils d) then int (length [True]) else -1, st') \<and>
     settled (\<lambda>w. (w, ())) () st (if 1 + length [True] \<le> length (coils d) then Inr (int (length [True])) else Inl (MODBUS_ENOBASE + 2)) st' \<and>
     \<lparr>coils = [False, True], inputs = [], holding = [], input_regs = []\<rparr>
       = (if 1 + length [True] \<le> length (coils d) then d\<lparr>coils := put_at (coils d) 1 [True]\<rparr> else d)"
  unfolding Let_def
  by (rule tcp_write_bits_served [OF _ _ refl serve_set_one, where b = 17 and t = 1])
     (simp_all add: exchange_def line_os_stream answers_def tcp.length_frame next_t_id_def line_state_def recovery_protocol_def)

end
