(* ===== verification/Bsp_Driver.thy ===== *)
theory Bsp_Driver
  imports Exchange
begin

text \<open>
  \<open>kw/src/driver.c\<close>: the board support of the controller. Four input/output modules with the unit
  numbers 2 to 5 hang on one RS-485 line; an update reads eight digital and eight analogue inputs
  of each module into \<open>input_buf\<close> and \<open>adc_buf\<close>, or writes eight outputs of each from \<open>output_buf\<close>.
\<close>

section \<open>The driver\<close>

record bsp =
  adc_buf :: "u16 cbuf"
  input_buf :: "u8 cbuf"
  output_buf :: "u8 cbuf"

definition bsp_zero :: bsp where
  "bsp_zero = \<lparr>adc_buf = init (replicate 32 0), input_buf = init (replicate 32 0),
               output_buf = init (replicate 32 0)\<rparr>"

text \<open>The context is global; without one the calls that follow would dereference a null pointer.\<close>

definition bsp_init :: "'w os \<Rightarrow> modbus_t \<Rightarrow> ('w, unit) exec" where
  "bsp_init os c st =
     do { r \<leftarrow> modbus_new_rtu c (''/dev/ttyS1'' @ [NUL]) 115200 (CHR ''N'') 8 1;
          case r of
            Inl e \<Rightarrow> None
          | Inr c \<Rightarrow> do {
              let be = modbus_rtu_backend os;
              (_, st) \<leftarrow> modbus_set_debug 1 (st\<lparr>ctx := c\<rparr>);
              (_, st) \<leftarrow> modbus_set_slave be 0x04 st;
              (rc, st) \<leftarrow> modbus_connect be st;
              if rc = -1 then Some ((), st)
              else do {
                (_, st) \<leftarrow> modbus_rtu_set_serial_mode os be MODBUS_RTU_RS485 st;
                Some ((), st) } } }"

text \<open>Choosing a module is followed by a sleep of a nanosecond whose outcome is ignored.\<close>

definition bsp_select :: "'w os \<Rightarrow> int \<Rightarrow> 'w mstate \<Rightarrow> 'w mstate option" where
  "bsp_select os slave st =
     do { (_, st) \<leftarrow> modbus_set_slave (modbus_rtu_backend os) slave st;
          let r = sys_nanosleep os (0, 1) (world st);
          Some (case fst r of
                  Inl e \<Rightarrow> st\<lparr>errno := fst e, world := snd r\<rparr>
                | Inr _ \<Rightarrow> st\<lparr>world := snd r\<rparr>) }"

text \<open>\<open>&buf[at]\<close> as an argument: the call works on the rest of the array.\<close>

definition bsp_read_bits :: "'w os \<Rightarrow> nat \<Rightarrow> bsp \<Rightarrow> ('w, bsp) exec" where
  "bsp_read_bits os at g st =
     do { ((rc, dest), st) \<leftarrow>
            modbus_read_input_bits os (modbus_rtu_backend os) 0 8 (drop at (input_buf g)) st;
          Some (g\<lparr>input_buf := take at (input_buf g) @ dest\<rparr>, st) }"

definition bsp_read_registers :: "'w os \<Rightarrow> nat \<Rightarrow> bsp \<Rightarrow> ('w, bsp) exec" where
  "bsp_read_registers os at g st =
     do { ((rc, dest), st) \<leftarrow>
            modbus_read_input_registers os (modbus_rtu_backend os) 0 8 (drop at (adc_buf g)) st;
          Some (g\<lparr>adc_buf := take at (adc_buf g) @ dest\<rparr>, st) }"

definition bsp_input_update :: "'w os \<Rightarrow> bsp \<Rightarrow> ('w, bsp) exec" where
  "bsp_input_update os g st =
     do { st \<leftarrow> bsp_select os 0x02 st;
          (g, st) \<leftarrow> bsp_read_bits os 0 g st;
          (g, st) \<leftarrow> bsp_read_registers os 0 g st;
          st \<leftarrow> bsp_select os 0x03 st;
          (g, st) \<leftarrow> bsp_read_registers os 8 g st;
          (g, st) \<leftarrow> bsp_read_bits os 16 g st;
          st \<leftarrow> bsp_select os 4 st;
          (g, st) \<leftarrow> bsp_read_bits os 16 g st;
          (g, st) \<leftarrow> bsp_read_registers os 16 g st;
          st \<leftarrow> bsp_select os 5 st;
          (g, st) \<leftarrow> bsp_read_bits os 24 g st;
          bsp_read_registers os 24 g st }"

definition bsp_write_bits :: "'w os \<Rightarrow> nat \<Rightarrow> bsp \<Rightarrow> 'w mstate \<Rightarrow> 'w mstate option" where
  "bsp_write_bits os at g st =
     do { (rc, st) \<leftarrow> modbus_write_bits os (modbus_rtu_backend os) 0 8 (drop at (output_buf g)) st;
          Some st }"

definition bsp_output_update :: "'w os \<Rightarrow> bsp \<Rightarrow> 'w mstate \<Rightarrow> 'w mstate option" where
  "bsp_output_update os g st =
     do { st \<leftarrow> bsp_select os 2 st;
          st \<leftarrow> bsp_write_bits os 0 g st;
          st \<leftarrow> bsp_select os 3 st;
          st \<leftarrow> bsp_write_bits os 8 g st;
          st \<leftarrow> bsp_select os 4 st;
          st \<leftarrow> bsp_write_bits os 16 g st;
          st \<leftarrow> bsp_select os 5 st;
          bsp_write_bits os 24 g st }"

text \<open>The endless loop of \<open>_main\<close>, one round at a time: the outputs alternate.\<close>

definition bsp_pattern :: "int \<Rightarrow> bsp \<Rightarrow> bsp option" where
  "bsp_pattern k g =
     do { b \<leftarrow> for_range 0 32 (\<lambda>i b. wr b i (byte ((i + k) mod 2))) (output_buf g);
          Some (g\<lparr>output_buf := b\<rparr>) }"

definition bsp_round :: "'w os \<Rightarrow> bsp \<Rightarrow> ('w, bsp) exec" where
  "bsp_round os g st =
     do { (g, st) \<leftarrow> bsp_input_update os g st;
          g \<leftarrow> bsp_pattern 0 g;
          st \<leftarrow> bsp_output_update os g st;
          (g, st) \<leftarrow> bsp_input_update os g st;
          g \<leftarrow> bsp_pattern 1 g;
          st \<leftarrow> bsp_output_update os g st;
          Some (g, st) }"

section \<open>A line with modules\<close>

text \<open>
  Every module on the line is an abstract device with a unit number. A request to one of them is
  taken from the line and answered as \<open>serve\<close> prescribes; waiting does not disturb the line.
\<close>

definition bus :: "'w os \<Rightarrow> int \<Rightarrow> ('w \<Rightarrow> u8 list \<times> (u8 \<Rightarrow> device option)) \<Rightarrow> bool" where
  "bus os fd line \<longleftrightarrow>
     byte_stream os (sys_read os) fd line \<and>
     (\<forall>r w. line (snd (sys_nanosleep os r w)) = line w) \<and>
     (\<forall>w a q d p d'. fst (line w) = [] \<longrightarrow> snd (line w) a = Some d \<longrightarrow> serve q d = (Some p, d') \<longrightarrow>
        (\<exists>k w'. sys_write os fd (rtu_frame 0 a q) w = (Inr k, w') \<and> 0 < k \<and>
           line w' = (rtu_frame 0 a p, (snd (line w))(a \<mapsto> d'))))"

text \<open>A state between two exchanges.\<close>

definition idle :: "'w os \<Rightarrow> ('w \<Rightarrow> u8 list \<times> (u8 \<Rightarrow> device option)) \<Rightarrow> (u8 \<Rightarrow> device option) \<Rightarrow> 'w mstate \<Rightarrow> bool" where
  "idle os line modules st \<longleftrightarrow>
     bus os (mb_s (ctx st)) line \<and> \<not> recovery_protocol st \<and> line (world st) = ([], modules)"

lemma idle_exchange:
  assumes "idle os line modules st" "modules a = Some d" "serve q d = (Some p, d')"
    and "mb_slave (ctx st) = uint a"
  shows "exchange os (sys_write os) (sys_read os) line st
      (rtu_frame 0 (byte (mb_slave (ctx st))) q) (rtu_frame 0 a p, modules(a \<mapsto> d'))"
proof -
  have "byte (uint a) = a" by (simp add: byte_def)
  moreover have line: "line (world st) = ([], modules)" and bus: "bus os (mb_s (ctx st)) line"
    using assms(1) by (simp_all add: idle_def)
  from bus assms(2,3) line obtain k w' where
    "sys_write os (mb_s (ctx st)) (rtu_frame 0 a q) (world st) = (Inr k, w')" "0 < k"
    "line w' = (rtu_frame 0 a p, modules(a \<mapsto> d'))"
    unfolding bus_def by (metis fst_conv snd_conv)
  ultimately show ?thesis
    using assms(1,4) by (auto simp: idle_def bus_def exchange_def answers_def)
qed

lemma settled_idle: "idle os line modules st \<Longrightarrow> settled line modules' st r st' \<Longrightarrow> idle os line modules' st'"
  by (simp add: idle_def settled_def recovery_protocol_def)

lemma idle_select:
  assumes "idle os line modules st" "0 \<le> slave" "slave \<le> 247"
  shows "\<exists>st'. bsp_select os slave st = Some st' \<and> idle os line modules st' \<and> mb_slave (ctx st') = slave"
  using assms
  by (auto simp: bsp_select_def modbus_set_slave_def rtu_set_slave_def set_ctx_def idle_def bus_def Let_def
      recovery_protocol_def split: sum.split)

lemma fill_rest: "at \<le> length b \<Longrightarrow> take at b @ fill (drop at b) 0 xs = fill b at xs"
  by (simp add: fill_def min_def add.commute)

lemma read_bits_idle:
  assumes "idle os line modules st" "mb_slave (ctx st) = uint a" "modules a = Some d"
    and "8 \<le> length (inputs d)" "at + 8 \<le> length (input_buf g)"
  shows "\<exists>st'. bsp_read_bits os at g st
      = Some (g\<lparr>input_buf := fill (input_buf g) at (map of_bool (take 8 (inputs d)))\<rparr>, st') \<and>
     idle os line modules st' \<and> mb_slave (ctx st') = uint a"
proof -
  let ?q = "request5 (byte 2) (int 0) (int 8)"
  have b: "byte 2 = 2" by (simp add: byte_def)
  have "serve ?q d = (Some (serve_bits ?q (inputs d)), d)"
    by (rule serve_read) (simp add: b)
  from idle_exchange [OF assms(1,3) this assms(2)]
  have ex: "exchange os (sys_write os) (sys_read os) line st (rtu_frame 0 (byte (mb_slave (ctx st))) ?q)
      (rtu_frame 0 a (serve_bits ?q (inputs d)), modules)"
    by (simp only: fun_upd_idem [of modules a, OF assms(3)])
  have "mb_slave (ctx st) \<noteq> -1" using assms(2) uint_ge_0 [of a] by linarith
  from assms(5) have "8 \<le> length (drop at (input_buf g))" by simp
  with rtu.read_bits_served [OF \<open>mb_slave (ctx st) \<noteq> -1\<close> _ _ _ _ _ ex, of "drop at (input_buf g)"] assms(4)
  obtain st' where "read_io_status os (modbus_rtu_backend os) 2 0 8 (drop at (input_buf g)) st
      = Some ((1, fill (drop at (input_buf g)) 0 (map of_bool (take 8 (inputs d)))), st')"
    "settled line modules st (Inr 8) st'" by auto
  with assms(2,5) settled_idle [OF assms(1) this(2)] show ?thesis
    by (auto simp: bsp_read_bits_def modbus_read_input_bits_def fill_rest settled_def)
qed


lemma read_registers_idle:
  assumes "idle os line modules st" "mb_slave (ctx st) = uint a" "modules a = Some d"
    and "8 \<le> length (input_regs d)" "at + 8 \<le> length (adc_buf g)"
  shows "\<exists>st'. bsp_read_registers os at g st
      = Some (g\<lparr>adc_buf := fill (adc_buf g) at (take 8 (input_regs d))\<rparr>, st') \<and>
     idle os line modules st' \<and> mb_slave (ctx st') = uint a"
proof -
  let ?q = "request5 (byte 4) (int 0) (int 8)"
  have b: "byte 4 = 4" by (simp add: byte_def)
  have "serve ?q d = (Some (serve_regs ?q (input_regs d)), d)"
    by (rule serve_read) (simp add: b)
  from idle_exchange [OF assms(1,3) this assms(2)]
  have ex: "exchange os (sys_write os) (sys_read os) line st (rtu_frame 0 (byte (mb_slave (ctx st))) ?q)
      (rtu_frame 0 a (serve_regs ?q (input_regs d)), modules)"
    by (simp only: fun_upd_idem [of modules a, OF assms(3)])
  have "mb_slave (ctx st) \<noteq> -1" using assms(2) uint_ge_0 [of a] by linarith
  from assms(5) have "8 \<le> length (drop at (adc_buf g))" by simp
  with rtu.read_registers_served [OF \<open>mb_slave (ctx st) \<noteq> -1\<close> _ _ _ _ _ ex, of "drop at (adc_buf g)"] assms(4)
  obtain st' where "read_registers os (modbus_rtu_backend os) 4 0 8 (drop at (adc_buf g)) st
      = Some ((8, fill (drop at (adc_buf g)) 0 (take 8 (input_regs d))), st')"
    "settled line modules st (Inr 8) st'" by auto
  with assms(2,5) settled_idle [OF assms(1) this(2)] show ?thesis
    by (auto simp: bsp_read_registers_def modbus_read_input_registers_def fill_rest settled_def)
qed

text \<open>The outputs as the calls see them: everything but zero is on.\<close>

definition switched :: "u8 list \<Rightarrow> bool list" where
  "switched vs = map (\<lambda>v. v \<noteq> 0) vs"

lemma write_bits_idle:
  assumes "idle os line modules st" "mb_slave (ctx st) = uint a" "modules a = Some d"
    and "8 \<le> length (coils d)" "output_buf g = init outs" "at + 8 \<le> length outs"
  shows "\<exists>st'. bsp_write_bits os at g st = Some st' \<and>
     idle os line (modules(a \<mapsto> d\<lparr>coils := put_at (coils d) 0 (switched (take 8 (drop at outs)))\<rparr>)) st' \<and>
     mb_slave (ctx st') = uint a"
proof -
  let ?bs = "switched (take 8 (drop at outs))"
  let ?d = "d\<lparr>coils := put_at (coils d) 0 ?bs\<rparr>"
  let ?q = "request5 0x0F (int 0) (int (length ?bs)) @ word_of_nat (length (pack_bits ?bs)) # pack_bits ?bs"
  have len: "length ?bs = 8" using assms(6) by (simp add: switched_def)
  have srv: "serve ?q d = (Some (take 5 ?q), ?d)"
    using serve_write_coils_confirmed(2) [of ?bs 0 d] assms(4) len by simp
  have src: "\<exists>v. rd (drop at (output_buf g)) (int k) = Some v \<and> (v \<noteq> 0) = ?bs ! k" if "k < length ?bs" for k
    using that assms(5,6) by (auto simp: rd_def init_def switched_def)
  have "mb_slave (ctx st) \<noteq> -1" using assms(2) uint_ge_0 [of a] by linarith
  from rtu.write_bits_served [OF this _ _ src refl srv idle_exchange [OF assms(1,3) srv assms(2)]] len assms(4)
  obtain st' where "modbus_write_bits os (modbus_rtu_backend os) 0 8 (drop at (output_buf g)) st = Some (8, st')"
    "settled line (modules(a \<mapsto> ?d)) st (Inr 8) st'" by auto
  with assms(2) settled_idle [OF assms(1) this(2)] show ?thesis
    by (auto simp: bsp_write_bits_def settled_def)
qed


section \<open>The updates\<close>

text \<open>A module with the eight inputs, outputs and analogue values the driver expects.\<close>

definition io_module :: "device \<Rightarrow> bool" where
  "io_module d \<longleftrightarrow> 8 \<le> length (inputs d) \<and> 8 \<le> length (input_regs d) \<and> 8 \<le> length (coils d)"

lemma four_fills:
  assumes "length b = 32" "length x0 = 8" "length x1 = 8" "length x2 = 8" "length x3 = 8"
  shows "fill (fill (fill (fill b 0 x0) 8 x1) 16 x2) 24 x3 = init (x0 @ x1 @ x2 @ x3)"
    "fill (fill (fill (fill b 0 x0) 16 x1) 16 x2) 24 x3
       = init x0 @ take 8 (drop 8 b) @ init (x2 @ x3)"
  using assms by (simp_all add: fill_def init_def)

text \<open>One module of an update, as a prefix of it.\<close>

definition take_bits :: "nat \<Rightarrow> device \<Rightarrow> bsp \<Rightarrow> bsp" where
  "take_bits at d g = g\<lparr>input_buf := fill (input_buf g) at (map of_bool (take 8 (inputs d)))\<rparr>"

definition take_registers :: "nat \<Rightarrow> device \<Rightarrow> bsp \<Rightarrow> bsp" where
  "take_registers at d g = g\<lparr>adc_buf := fill (adc_buf g) at (take 8 (input_regs d))\<rparr>"

lemma module_read:
  fixes os :: "'a os"
  assumes "idle os line modules st" "0 \<le> slave" "slave \<le> 247" "modules (byte slave) = Some d" "io_module d"
    and "at + 8 \<le> length (input_buf g)" "ar + 8 \<le> length (adc_buf g)"
  shows "\<exists>st'. idle os line modules st' \<and>
      (\<forall>k. do { st \<leftarrow> bsp_select os slave st; (g, st) \<leftarrow> bsp_read_bits os at g st;
                (g, st) \<leftarrow> bsp_read_registers os ar g st; k g st } = (k (take_registers ar d (take_bits at d g)) st' :: (bsp \<times> 'a mstate) option))"
    "\<exists>st'. idle os line modules st' \<and>
      (\<forall>k. do { st \<leftarrow> bsp_select os slave st; (g, st) \<leftarrow> bsp_read_registers os ar g st;
                (g, st) \<leftarrow> bsp_read_bits os at g st; k g st } = (k (take_bits at d (take_registers ar d g)) st' :: (bsp \<times> 'a mstate) option))"
proof -
  have m: "8 \<le> length (inputs d)" "8 \<le> length (input_regs d)" using assms(5) by (simp_all add: io_module_def)
  have a: "uint (byte slave) = slave" using assms(2,3) by (simp add: byte_def uint_word_of_int)
  from idle_select [OF assms(1-3)] obtain s1 where
    s1: "bsp_select os slave st = Some s1" "idle os line modules s1" "mb_slave (ctx s1) = uint (byte slave)"
    by (auto simp: a)
  from read_bits_idle [OF s1(2,3) assms(4) m(1) assms(6)] obtain s2 where
    s2: "bsp_read_bits os at g s1 = Some (take_bits at d g, s2)"
    "idle os line modules s2" "mb_slave (ctx s2) = uint (byte slave)" by (auto simp: take_bits_def)
  have "ar + 8 \<le> length (adc_buf (take_bits at d g))" using assms(7) by (simp add: take_bits_def)
  from read_registers_idle [OF s2(2,3) assms(4) m(2) this] s1(1) s2(1)
  show "\<exists>st'. idle os line modules st' \<and>
      (\<forall>k. do { st \<leftarrow> bsp_select os slave st; (g, st) \<leftarrow> bsp_read_bits os at g st;
                (g, st) \<leftarrow> bsp_read_registers os ar g st; k g st } = (k (take_registers ar d (take_bits at d g)) st' :: (bsp \<times> 'a mstate) option))"
    by (auto simp: take_registers_def)
  from read_registers_idle [OF s1(2,3) assms(4) m(2) assms(7)] obtain s3 where
    s3: "bsp_read_registers os ar g s1 = Some (take_registers ar d g, s3)"
    "idle os line modules s3" "mb_slave (ctx s3) = uint (byte slave)" by (auto simp: take_registers_def)
  have "at + 8 \<le> length (input_buf (take_registers ar d g))" using assms(6) by (simp add: take_registers_def)
  from read_bits_idle [OF s3(2,3) assms(4) m(1) this] s1(1) s3(1)
  show "\<exists>st'. idle os line modules st' \<and>
      (\<forall>k. do { st \<leftarrow> bsp_select os slave st; (g, st) \<leftarrow> bsp_read_registers os ar g st;
                (g, st) \<leftarrow> bsp_read_bits os at g st; k g st } = (k (take_bits at d (take_registers ar d g)) st' :: (bsp \<times> 'a mstate) option))"
    by (auto simp: take_bits_def)
qed

lemma taken_length:
  "at + 8 \<le> length (input_buf g) \<Longrightarrow> io_module d \<Longrightarrow> length (input_buf (take_bits at d g)) = length (input_buf g)"
  "length (input_buf (take_registers ar d g)) = length (input_buf g)"
  "ar + 8 \<le> length (adc_buf g) \<Longrightarrow> io_module d \<Longrightarrow> length (adc_buf (take_registers ar d g)) = length (adc_buf g)"
  "length (adc_buf (take_bits at d g)) = length (adc_buf g)"
  by (simp_all add: take_bits_def take_registers_def io_module_def)

lemma bsp_input_update_takes:
  fixes os :: "'a os"
  assumes "idle os line modules st"
    and "modules 2 = Some d2" "modules 3 = Some d3" "modules 4 = Some d4" "modules 5 = Some d5"
    and m: "io_module d2" "io_module d3" "io_module d4" "io_module d5"
    and g: "length (adc_buf g) = 32" "length (input_buf g) = 32"
  shows "\<exists>st'. bsp_input_update os g st = Some (
      take_registers 24 d5 (take_bits 24 d5 (take_registers 16 d4 (take_bits 16 d4
        (take_bits 16 d3 (take_registers 8 d3 (take_registers 0 d2 (take_bits 0 d2 g))))))), st') \<and>
      idle os line modules st'"
proof -
  have b: "byte 2 = 2" "byte 3 = 3" "byte 4 = 4" "byte 5 = 5" by (simp_all add: byte_def)
  note len = taken_length m g
  let ?g2 = "take_registers 0 d2 (take_bits 0 d2 g)"
  let ?g3 = "take_bits 16 d3 (take_registers 8 d3 ?g2)"
  let ?g4 = "take_registers 16 d4 (take_bits 16 d4 ?g3)"
  from module_read(1) [OF assms(1), of 2 d2 0 g 0] assms(2) obtain s2 where
    s2: "idle os line modules s2" "\<And>k. do { st \<leftarrow> bsp_select os 2 st; (g, st) \<leftarrow> bsp_read_bits os 0 g st;
                (g, st) \<leftarrow> bsp_read_registers os 0 g st; k g st } = (k ?g2 s2 :: (bsp \<times> 'a mstate) option)"
    by (auto simp: len b)
  from module_read(2) [OF s2(1), of 3 d3 16 ?g2 8] assms(3) obtain s3 where
    s3: "idle os line modules s3" "\<And>k. do { st \<leftarrow> bsp_select os 3 s2; (g, st) \<leftarrow> bsp_read_registers os 8 ?g2 st;
                (g, st) \<leftarrow> bsp_read_bits os 16 g st; k g st } = (k ?g3 s3 :: (bsp \<times> 'a mstate) option)"
    by (auto simp: len b)
  from module_read(1) [OF s3(1), of 4 d4 16 ?g3 16] assms(4) obtain s4 where
    s4: "idle os line modules s4" "\<And>k. do { st \<leftarrow> bsp_select os 4 s3; (g, st) \<leftarrow> bsp_read_bits os 16 ?g3 st;
                (g, st) \<leftarrow> bsp_read_registers os 16 g st; k g st } = (k ?g4 s4 :: (bsp \<times> 'a mstate) option)"
    by (auto simp: len b)
  from module_read(1) [OF s4(1), of 5 d5 24 ?g4 24] assms(5) obtain s5 where
    s5: "idle os line modules s5" "\<And>k. do { st \<leftarrow> bsp_select os 5 s4; (g, st) \<leftarrow> bsp_read_bits os 24 ?g4 st;
                (g, st) \<leftarrow> bsp_read_registers os 24 g st; k g st } = (k (take_registers 24 d5 (take_bits 24 d5 ?g4)) s5 :: (bsp \<times> 'a mstate) option)"
    by (auto simp: len b)
  have "bsp_input_update os g st = Some (take_registers 24 d5 (take_bits 24 d5 ?g4), s5)"
    using s5(2) [of "\<lambda>g st. Some (g, st)"] by (simp add: bsp_input_update_def s2(2) s3(2) s4(2))
  with s5(1) show ?thesis by blast
qed

lemma bsp_input_update_reads:
  assumes "idle os line modules st"
    and "modules 2 = Some d2" "modules 3 = Some d3" "modules 4 = Some d4" "modules 5 = Some d5"
    and "io_module d2" "io_module d3" "io_module d4" "io_module d5"
    and "length (adc_buf g) = 32" "length (input_buf g) = 32"
  shows "\<exists>st'. bsp_input_update os g st = Some (
      g\<lparr>adc_buf := init (take 8 (input_regs d2) @ take 8 (input_regs d3) @
                        take 8 (input_regs d4) @ take 8 (input_regs d5)),
        input_buf := init (map of_bool (take 8 (inputs d2))) @ take 8 (drop 8 (input_buf g)) @
                     init (map of_bool (take 8 (inputs d4)) @ map of_bool (take 8 (inputs d5)))\<rparr>, st') \<and>
      idle os line modules st'"
proof -
  have "take_registers 24 d5 (take_bits 24 d5 (take_registers 16 d4 (take_bits 16 d4
        (take_bits 16 d3 (take_registers 8 d3 (take_registers 0 d2 (take_bits 0 d2 g)))))))
    = g\<lparr>adc_buf := fill (fill (fill (fill (adc_buf g) 0 (take 8 (input_regs d2))) 8 (take 8 (input_regs d3))) 16
          (take 8 (input_regs d4))) 24 (take 8 (input_regs d5)),
        input_buf := fill (fill (fill (fill (input_buf g) 0 (map of_bool (take 8 (inputs d2)))) 16
          (map of_bool (take 8 (inputs d3)))) 16 (map of_bool (take 8 (inputs d4)))) 24 (map of_bool (take 8 (inputs d5)))\<rparr>"
    by (simp add: take_bits_def take_registers_def)
  also have "\<dots> = g\<lparr>adc_buf := init (take 8 (input_regs d2) @ take 8 (input_regs d3) @
                        take 8 (input_regs d4) @ take 8 (input_regs d5)),
        input_buf := init (map of_bool (take 8 (inputs d2))) @ take 8 (drop 8 (input_buf g)) @
                     init (map of_bool (take 8 (inputs d4)) @ map of_bool (take 8 (inputs d5)))\<rparr>"
    using assms(6-11) by (subst four_fills(1), simp_all add: io_module_def, subst four_fills(2), simp_all)
  finally show ?thesis
    using bsp_input_update_takes [OF assms] by simp
qed


text \<open>Writing: each module takes over its eight outputs.\<close>

definition set_coils :: "u8 list \<Rightarrow> nat \<Rightarrow> device \<Rightarrow> device" where
  "set_coils outs at d = d\<lparr>coils := put_at (coils d) 0 (switched (take 8 (drop at outs)))\<rparr>"

lemma module_write:
  fixes os :: "'a os"
  assumes "idle os line modules st" "0 \<le> slave" "slave \<le> 247" "modules (byte slave) = Some d" "io_module d"
    and "output_buf g = init outs" "at + 8 \<le> length outs"
  shows "\<exists>st'. idle os line (modules(byte slave \<mapsto> set_coils outs at d)) st' \<and>
      (\<forall>k. do { st \<leftarrow> bsp_select os slave st; st \<leftarrow> bsp_write_bits os at g st; k st } = (k st' :: 'a mstate option))"
proof -
  have a: "uint (byte slave) = slave" using assms(2,3) by (simp add: byte_def uint_word_of_int)
  from idle_select [OF assms(1-3)] obtain s1 where
    s1: "bsp_select os slave st = Some s1" "idle os line modules s1" "mb_slave (ctx s1) = uint (byte slave)"
    by (auto simp: a)
  from write_bits_idle [OF s1(2,3) assms(4) _ assms(6,7)] assms(5) s1(1) show ?thesis
    by (auto simp: set_coils_def io_module_def)
qed

lemma bsp_output_update_writes:
  fixes os :: "'a os"
  assumes "idle os line modules st"
    and "modules 2 = Some d2" "modules 3 = Some d3" "modules 4 = Some d4" "modules 5 = Some d5"
    and "io_module d2" "io_module d3" "io_module d4" "io_module d5"
    and "output_buf g = init outs" "length outs = 32"
  shows "\<exists>st'. bsp_output_update os g st = Some st' \<and>
      idle os line (modules(2 \<mapsto> set_coils outs 0 d2, 3 \<mapsto> set_coils outs 8 d3,
                            4 \<mapsto> set_coils outs 16 d4, 5 \<mapsto> set_coils outs 24 d5)) st'"
proof -
  have b: "byte 2 = 2" "byte 3 = 3" "byte 4 = 4" "byte 5 = 5" by (simp_all add: byte_def)
  let ?m2 = "modules(2 \<mapsto> set_coils outs 0 d2)"
  let ?m3 = "?m2(3 \<mapsto> set_coils outs 8 d3)"
  let ?m4 = "?m3(4 \<mapsto> set_coils outs 16 d4)"
  from module_write [OF assms(1), of 2 d2 g outs 0] assms obtain s2 where
    s2: "idle os line ?m2 s2" "\<And>k. do { st \<leftarrow> bsp_select os 2 st; st \<leftarrow> bsp_write_bits os 0 g st; k st }
      = (k s2 :: 'a mstate option)" by (auto simp: b)
  from module_write [OF s2(1), of 3 d3 g outs 8] assms obtain s3 where
    s3: "idle os line ?m3 s3" "\<And>k. do { st \<leftarrow> bsp_select os 3 s2; st \<leftarrow> bsp_write_bits os 8 g st; k st }
      = (k s3 :: 'a mstate option)" by (auto simp: b)
  from module_write [OF s3(1), of 4 d4 g outs 16] assms obtain s4 where
    s4: "idle os line ?m4 s4" "\<And>k. do { st \<leftarrow> bsp_select os 4 s3; st \<leftarrow> bsp_write_bits os 16 g st; k st }
      = (k s4 :: 'a mstate option)" by (auto simp: b)
  from module_write [OF s4(1), of 5 d5 g outs 24] assms obtain s5 where
    s5: "idle os line (?m4(5 \<mapsto> set_coils outs 24 d5)) s5"
    "\<And>k. do { st \<leftarrow> bsp_select os 5 s4; st \<leftarrow> bsp_write_bits os 24 g st; k st } = (k s5 :: 'a mstate option)"
    by (auto simp: b)
  have "bsp_output_update os g st = Some s5"
    using s5(2) [of Some] by (simp add: bsp_output_update_def s2(2) s3(2) s4(2))
  with s5(1) show ?thesis by blast
qed

section \<open>What an update never touches\<close>

definition keeps_above :: "nat \<Rightarrow> 'a cbuf \<Rightarrow> 'a cbuf \<Rightarrow> bool" where
  "keeps_above n b b' \<longleftrightarrow> length b' = length b \<and> drop n b' = drop n b"

lemma keeps_above_refl [simp]: "keeps_above n b b"
  by (simp add: keeps_above_def)

lemma wr_keeps: "wr b i x = Some b' \<Longrightarrow> i < int n \<Longrightarrow> keeps_above n b0 b \<Longrightarrow> keeps_above n b0 b'"
  by (auto simp: wr_def keeps_above_def nat_less_iff split: if_splits)

lemma unpack_status_byte_keeps:
  assumes "unpack_status_byte v (int n) (pos, b) = Some (pos', b')" "keeps_above n b0 b"
  shows "keeps_above n b0 b'"
proof -
  have "keeps_above n b0 (snd (pos', b'))"
  proof (rule for_range_inv [OF assms(1) [unfolded unpack_status_byte_def], of "\<lambda>_ r. keeps_above n b0 (snd r)"])
    fix i :: int and u w :: "int \<times> u8 cbuf"
    assume "keeps_above n b0 (snd u)" and
      "(case u of (pos, dest) \<Rightarrow>
          if pos < int n then do { dest \<leftarrow> wr dest pos (test_bit_of v i); Some (pos + 1, dest) }
          else Some (pos, dest)) = Some w"
    then show "keeps_above n b0 (snd w)"
      by (auto simp: Option.bind_eq_Some_conv split: prod.splits if_splits intro: wr_keeps)
  qed (use assms(2) in simp_all)
  then show ?thesis by simp
qed

lemma read_io_status_keeps:
  assumes "read_io_status os be f addr (int n) dest st = Some ((rc, dest'), st')"
  shows "keeps_above n dest dest'"
proof -
  have loop: "keeps_above n dest (snd t)" if "for_range off e
      (\<lambda>i r. do { temp \<leftarrow> rd rsp i; unpack_status_byte temp (int n) r }) (0, dest) = Some t" for off e rsp t
  proof (cases "off \<le> e")
    case True
    from for_range_inv [OF that, of "\<lambda>_ r. keeps_above n dest (snd r)", OF _ True] show ?thesis
      by (fastforce simp: Option.bind_eq_Some_conv intro: unpack_status_byte_keeps)
  next
    case False
    with that show ?thesis by auto
  qed
  from assms show ?thesis
    by (auto simp: read_io_status_def Let_def Option.bind_eq_Some_conv split: option.splits if_splits dest!: loop)
qed

lemma bsp_read_bits_keeps:
  assumes "bsp_read_bits os at g st = Some (g', st')" "at \<le> length (input_buf g)"
  shows "take at (input_buf g') = take at (input_buf g)" "length (input_buf g') = length (input_buf g)"
    "drop (at + 8) (input_buf g') = drop (at + 8) (input_buf g)" "output_buf g' = output_buf g"
proof -
  from assms(1) obtain rc dest where
    d: "modbus_read_input_bits os (modbus_rtu_backend os) 0 (int 8) (drop at (input_buf g)) st = Some ((rc, dest), st')"
    "g' = g\<lparr>input_buf := take at (input_buf g) @ dest\<rparr>"
    by (auto simp: bsp_read_bits_def Option.bind_eq_Some_conv)
  from d(1) have "keeps_above 8 (drop at (input_buf g)) dest"
    using read_io_status_keeps [of os "modbus_rtu_backend os" 2 0 8]
    by (auto simp: modbus_read_input_bits_def Option.bind_eq_Some_conv)
  with d(2) assms(2) show "take at (input_buf g') = take at (input_buf g)" "length (input_buf g') = length (input_buf g)"
    "drop (at + 8) (input_buf g') = drop (at + 8) (input_buf g)" "output_buf g' = output_buf g"
    by (simp_all add: keeps_above_def add.commute)
qed


lemma bsp_read_registers_keeps:
  "bsp_read_registers os at g st = Some (g', st') \<Longrightarrow> input_buf g' = input_buf g \<and> output_buf g' = output_buf g"
  by (auto simp: bsp_read_registers_def Option.bind_eq_Some_conv)

text \<open>Elements 8 to 15 keep their value through a read at 0, 16 or 24.\<close>

lemma bsp_read_bits_hole:
  assumes "bsp_read_bits os at g st = Some (g', st')" "at \<in> {0, 16, 24}" "length (input_buf g) = 32"
  shows "take 8 (drop 8 (input_buf g')) = take 8 (drop 8 (input_buf g)) \<and> length (input_buf g') = 32 \<and>
     output_buf g' = output_buf g"
proof -
  have k: "take at (input_buf g') = take at (input_buf g)" "drop (at + 8) (input_buf g') = drop (at + 8) (input_buf g)"
    "length (input_buf g') = 32" "output_buf g' = output_buf g"
    using bsp_read_bits_keeps [OF assms(1)] assms(2,3) by auto
  show ?thesis
  proof (cases "at = 0")
    case True
    with k show ?thesis by simp
  next
    case False
    with assms(2) have "min at 16 = 16" by auto
    then have "take 8 (drop 8 b) = drop 8 (take 16 (take at b))" for b :: "u8 cbuf"
      by (simp add: take_drop min.commute)
    then have "take 8 (drop 8 (input_buf g')) = take 8 (drop 8 (input_buf g))"
      by (simp only: k(1))
    with k show ?thesis by simp
  qed
qed

text \<open>
  Whatever the modules and the system do, an input update that returns has left elements 8
  to 15 of \<open>input_buf\<close> and all of \<open>output_buf\<close> as they were.
\<close>

theorem bsp_input_hole:
  assumes "bsp_input_update os g st = Some (g', st')" and "length (input_buf g) = 32"
  shows "take 8 (drop 8 (input_buf g')) = take 8 (drop 8 (input_buf g)) \<and> length (input_buf g') = 32 \<and>
     output_buf g' = output_buf g"
  using assms
  by (auto simp: bsp_input_update_def Option.bind_eq_Some_conv
      dest!: bsp_read_registers_keeps bsp_read_bits_hole)

section \<open>Initialisation\<close>

text \<open>
  If the system calls succeed, initialisation opens \<open>/dev/ttyS1\<close>, saves its
  settings, sets it to 115200 baud 8N1 raw, switches it to RS-485 and leaves a context for unit
  4.
\<close>

theorem bsp_init_opens:
  assumes "sys_open os ''/dev/ttyS1'' (world st) = (Inr fd, w1)" "fd \<noteq> -1"
    and "sys_tcgetattr os fd w1 = (Inr old, w2)"
    and "sys_tcsetattr os fd (rtu_tios r) w2 = (Inr 0, w3)"
    and "sys_ioctl_rs485 os fd \<lparr>rs485_flags = 3\<rparr> w3 = (Inr 0, w4)"
    and "r = \<lparr>rtu_device = fill (fresh 16) 0 (''/dev/ttyS1'' @ [NUL]), rtu_baud = 115200, rtu_data_bit = 8,
              rtu_stop_bit = 1, rtu_parity = CHR ''N'', rtu_old_tios = None, rtu_serial_mode = None\<rparr>"
  shows "bsp_init os c st = Some ((), st\<lparr>ctx := (modbus_init_common c)\<lparr>mb_slave := 4, mb_s := fd, mb_debug := 1,
      mb_backend_data := RtuData (r\<lparr>rtu_old_tios := Some old, rtu_serial_mode := Some MODBUS_RTU_RS485\<rparr>)\<rparr>,
      world := w4\<rparr>)"
proof -
  let ?dev = "fill (fresh 16) 0 (''/dev/ttyS1'' @ [NUL])"
  have dev: "strlcpy (fresh 16) (''/dev/ttyS1'' @ [NUL]) 16 = Some (10, ?dev)"
    using strlcpy_fits [of "''/dev/ttyS1''" 16 "fresh 16"] by (simp add: NUL_def)
  have name: "c_str ?dev = Some ''/dev/ttyS1''"
    by (rule c_str_fill) (simp add: NUL_def)
  have new: "modbus_new_rtu c (''/dev/ttyS1'' @ [NUL]) 115200 (CHR ''N'') 8 1
      = Some (Inr ((modbus_init_common c)\<lparr>mb_backend_data := RtuData r\<rparr>))"
    using dev by (simp add: modbus_new_rtu_def assms(6) byte_def)
  have tios: "rtu_tios (r\<lparr>rtu_old_tios := x\<rparr>) = rtu_tios r" for x
    by (simp add: rtu_tios_def rtu_speed_def rtu_cflags_def rtu_iflags_def)
  have r: "rtu_device r = ?dev" by (simp add: assms(6))
  show ?thesis
    unfolding bsp_init_def new
    using assms(1-5) name
    by (simp add: modbus_set_debug_def modbus_set_slave_def rtu_set_slave_def modbus_connect_def
        modbus_rtu_connect_def rtu_open_def rtu_data_def set_rtu_data_def set_s_def set_ctx_def c_ret_def r tios
        modbus_rtu_set_serial_mode_def Let_def)
qed


section \<open>The main loop\<close>

definition pattern :: "int \<Rightarrow> u8 list" where
  "pattern k = map (\<lambda>i. byte ((int i + k) mod 2)) [0..<32]"

lemma length_pattern: "length (pattern k) = 32"
  by (simp add: pattern_def)

lemma bsp_pattern_fills: "length (output_buf g) = 32 \<Longrightarrow> bsp_pattern k g = Some (g\<lparr>output_buf := init (pattern k)\<rparr>)"
proof -
  assume len: "length (output_buf g) = 32"
  let ?v = "\<lambda>i :: nat. byte ((int i + k) mod 2)"
  let ?g = "\<lambda>i. fill (output_buf g) 0 (map ?v [0..<nat i])"
  have "for_range 0 32 (\<lambda>i b. wr b i (byte ((i + k) mod 2))) (?g 0) = Some (?g 32)"
  proof (rule for_range_steps)
    fix i :: int
    assume i: "0 \<le> i" "i < 32"
    then have "nat (i + 1) = Suc (nat i)" by simp
    with i len show "wr (?g i) i (byte ((i + k) mod 2)) = Some (?g (i + 1))"
      by (simp add: wr_fill)
  qed simp
  moreover have "?g 32 = init (pattern k)"
    using len by (simp add: fill_def init_def pattern_def)
  ultimately show ?thesis by (simp add: bsp_pattern_def)
qed

definition bsp_ready :: "'w os \<Rightarrow> ('w \<Rightarrow> u8 list \<times> (u8 \<Rightarrow> device option)) \<Rightarrow> (u8 \<Rightarrow> device option) \<Rightarrow>
    bsp \<Rightarrow> 'w mstate \<Rightarrow> bool" where
  "bsp_ready os line modules g st \<longleftrightarrow> idle os line modules st \<and>
     (\<forall>n \<in> {2, 3, 4, 5}. \<exists>d. modules n = Some d \<and> io_module d) \<and>
     length (adc_buf g) = 32 \<and> length (input_buf g) = 32 \<and>
     (\<exists>outs. output_buf g = init outs \<and> length outs = 32)"

lemma ready_input:
  assumes "bsp_ready os line modules g st"
  obtains g' st' where "bsp_input_update os g st = Some (g', st')" "bsp_ready os line modules g' st'"
proof -
  from assms obtain d2 d3 d4 d5 where
    d: "modules 2 = Some d2" "modules 3 = Some d3" "modules 4 = Some d4" "modules 5 = Some d5"
    and m: "io_module d2" "io_module d3" "io_module d4" "io_module d5"
    unfolding bsp_ready_def by auto
  have g: "length (adc_buf g) = 32" "length (input_buf g) = 32" and "idle os line modules st"
    using assms by (simp_all add: bsp_ready_def)
  note len = taken_length m g
  from bsp_input_update_takes [OF \<open>idle os line modules st\<close> d m g] obtain st' where
    st': "bsp_input_update os g st = Some (take_registers 24 d5 (take_bits 24 d5 (take_registers 16 d4 (take_bits 16 d4
        (take_bits 16 d3 (take_registers 8 d3 (take_registers 0 d2 (take_bits 0 d2 g))))))), st')"
    "idle os line modules st'" by blast
  show thesis
  proof (rule that [OF st'(1)])
    have "output_buf (take_registers 24 d5 (take_bits 24 d5 (take_registers 16 d4 (take_bits 16 d4
        (take_bits 16 d3 (take_registers 8 d3 (take_registers 0 d2 (take_bits 0 d2 g)))))))) = output_buf g"
      by (simp add: take_bits_def take_registers_def)
    with st'(2) d m assms show "bsp_ready os line modules (take_registers 24 d5 (take_bits 24 d5 (take_registers 16 d4
        (take_bits 16 d4 (take_bits 16 d3 (take_registers 8 d3 (take_registers 0 d2 (take_bits 0 d2 g)))))))) st'"
      by (simp add: bsp_ready_def len)
  qed
qed

definition driven :: "int \<Rightarrow> device \<Rightarrow> bool" where
  "driven k d \<longleftrightarrow> take 8 (coils d) = map (\<lambda>i. odd (int i + k)) [0..<8]"

lemma switched_pattern:
  "at \<in> {0, 8, 16, 24} \<Longrightarrow> switched (take 8 (drop at (pattern k))) = map (\<lambda>i. odd (int i + k)) [0..<8]"
proof -
  assume at: "at \<in> {0, 8, 16, 24}"
  have "byte (x mod 2) = of_bool (odd x)" for x
    by (cases "even x") (simp_all add: byte_def mod2_eq_if)
  then have p: "pattern k = map (\<lambda>i. of_bool (odd (int i + k))) [0..<32]"
    by (simp only: pattern_def)
  show ?thesis
    unfolding p by (rule nth_equalityI) (use at in \<open>auto simp: switched_def\<close>)
qed

lemma ready_output:
  assumes "bsp_ready os line modules g st" "output_buf g = init (pattern k)"
  shows "\<exists>st' modules'. bsp_output_update os g st = Some st' \<and> bsp_ready os line modules' g st' \<and>
    (\<forall>n \<in> {2, 3, 4, 5}. \<exists>d. modules' n = Some d \<and> driven k d)"
proof -
  from assms(1) obtain d2 d3 d4 d5 where
    d: "modules 2 = Some d2" "modules 3 = Some d3" "modules 4 = Some d4" "modules 5 = Some d5"
    and m: "io_module d2" "io_module d3" "io_module d4" "io_module d5"
    unfolding bsp_ready_def by auto
  let ?s = "\<lambda>at d. set_coils (pattern k) at d"
  have io: "io_module (?s at d) \<and> driven k (?s at d)" if "io_module d" "at \<in> {0, 8, 16, 24}" for at d
    using that switched_pattern [OF that(2), of k]
    by (auto simp: io_module_def driven_def set_coils_def put_at_def)
  have "idle os line modules st" and len: "length (pattern k) = 32"
    using assms(1) by (simp_all add: bsp_ready_def pattern_def)
  from bsp_output_update_writes [OF this(1) d m assms(2) len] obtain st' where
    st': "bsp_output_update os g st = Some st'"
    "idle os line (modules(2 \<mapsto> ?s 0 d2, 3 \<mapsto> ?s 8 d3, 4 \<mapsto> ?s 16 d4, 5 \<mapsto> ?s 24 d5)) st'" by blast
  have "bsp_ready os line (modules(2 \<mapsto> ?s 0 d2, 3 \<mapsto> ?s 8 d3, 4 \<mapsto> ?s 16 d4, 5 \<mapsto> ?s 24 d5)) g st'"
    using st'(2) m io assms len by (auto simp: bsp_ready_def)
  moreover have "\<forall>n \<in> {2, 3, 4, 5}. \<exists>d. (modules(2 \<mapsto> ?s 0 d2, 3 \<mapsto> ?s 8 d3, 4 \<mapsto> ?s 16 d4, 5 \<mapsto> ?s 24 d5)) n
      = Some d \<and> driven k d"
    using m io by auto
  ultimately show ?thesis using st'(1) by blast
qed

text \<open>
  C24: A round of the main loop on such a line runs to its end, sets the outputs of every module
  to the second test pattern, and leaves a state in which the next round can run.
\<close>

theorem bsp_round_runs:
  assumes "bsp_ready os line modules g st"
  shows "\<exists>g' st' modules'. bsp_round os g st = Some (g', st') \<and> bsp_ready os line modules' g' st' \<and>
     (\<forall>n \<in> {2, 3, 4, 5}. \<exists>d. modules' n = Some d \<and> driven 1 d)"
proof -
  from ready_input [OF assms] obtain g1 s1 where
    1: "bsp_input_update os g st = Some (g1, s1)" "bsp_ready os line modules g1 s1" .
  let ?g1 = "g1\<lparr>output_buf := init (pattern 0)\<rparr>"
  have p1: "bsp_pattern 0 g1 = Some ?g1" and r1: "bsp_ready os line modules ?g1 s1"
    using 1(2) bsp_pattern_fills [of g1 0] by (auto simp: bsp_ready_def length_pattern)
  from ready_output [OF r1, of 0] obtain s2 m2 where
    2: "bsp_output_update os ?g1 s1 = Some s2" "bsp_ready os line m2 ?g1 s2" by fastforce
  from ready_input [OF 2(2)] obtain g3 s3 where
    3: "bsp_input_update os ?g1 s2 = Some (g3, s3)" "bsp_ready os line m2 g3 s3" .
  let ?g3 = "g3\<lparr>output_buf := init (pattern 1)\<rparr>"
  have p3: "bsp_pattern 1 g3 = Some ?g3" and r3: "bsp_ready os line m2 ?g3 s3"
    using 3(2) bsp_pattern_fills [of g3 1] by (auto simp: bsp_ready_def length_pattern)
  from ready_output [OF r3, of 1] obtain s4 m4 where
    4: "bsp_output_update os ?g3 s3 = Some s4" "bsp_ready os line m4 ?g3 s4"
    "\<forall>n \<in> {2, 3, 4, 5}. \<exists>d. m4 n = Some d \<and> driven 1 d" by fastforce
  have "bsp_round os g st = Some (?g3, s4)"
    by (simp add: bsp_round_def 1(1) p1 2(1) 3(1) p3 4(1))
  with 4(2,3) show ?thesis by blast
qed

section \<open>A line held in memory\<close>

definition module_bus :: "(u8 list \<times> (u8 \<Rightarrow> device option)) os" where
  "module_bus =
     \<lparr>sys_write = \<lambda>fd bs w. (Inr (int (length bs)),
        case snd w (hd bs) of
          None \<Rightarrow> w
        | Some d \<Rightarrow> (case serve (take (length bs - 3) (tl bs)) d of
            (None, d') \<Rightarrow> ([], (snd w)(hd bs \<mapsto> d'))
          | (Some p, d') \<Rightarrow> (rtu_frame 0 (hd bs) p, (snd w)(hd bs \<mapsto> d')))),
      sys_read = \<lambda>fd n w. (Inr (take (nat n) (fst w)), (drop (nat n) (fst w), snd w)),
      sys_send = \<lambda>fd bs w. (Inl EBADF, w),
      sys_recv = \<lambda>fd n nowait w. (Inl EBADF, w),
      sys_select = \<lambda>fd tv w. ((Inr 1, tv), w),
      sys_nanosleep = \<lambda>r w. (Inr (), w),
      sys_tcflush = \<lambda>fd w. (Inr 0, ([], snd w)),
      sys_open = \<lambda>name w. (Inr 3, w),
      sys_close = \<lambda>fd w. (Inr 0, w),
      sys_tcgetattr = \<lambda>fd w. (Inr tios_zero, w),
      sys_tcsetattr = \<lambda>fd t w. (Inr 0, w),
      sys_ioctl_rs485 = \<lambda>fd r w. (Inr 0, w),
      sys_socket = \<lambda>inet w. (Inl EBADF, w),
      sys_setsockopt = \<lambda>fd opt w. (Inl EBADF, w),
      sys_connect = \<lambda>fd a w. (Inl EBADF, w),
      sys_shutdown = \<lambda>fd w. (Inl EBADF, w),
      sys_bind = \<lambda>fd a w. (Inl EBADF, w),
      sys_listen = \<lambda>fd n w. (Inl EBADF, w),
      sys_accept = \<lambda>fd w. (Inl EBADF, w),
      sys_getaddrinfo = \<lambda>node service passive w. (Inr [], w)\<rparr>"

lemma module_bus_bus: "bus module_bus fd (\<lambda>w. w)"
proof -
  have "\<exists>k. 0 < k \<and> int k \<le> n \<and> k \<le> length w \<and> take (nat n) w = take k w \<and> drop (nat n) w = drop k w"
    if "w \<noteq> []" "0 < n" for w :: "u8 list" and n
    using that by (intro exI [of _ "min (nat n) (length w)"]) (auto simp: min_def)
  then show ?thesis
    by (auto simp: bus_def byte_stream_def module_bus_def rtu_frame_def)
qed

definition some_module :: device where
  "some_module = \<lparr>coils = replicate 8 False, inputs = replicate 8 True, holding = [], input_regs = replicate 8 7\<rparr>"

definition four_modules :: "u8 \<Rightarrow> device option" where
  "four_modules n = (if n \<in> {2, 3, 4, 5} then Some some_module else None)"

definition bus_state :: "(u8 list \<times> (u8 \<Rightarrow> device option)) mstate" where
  "bus_state =
     \<lparr>ctx = ctx (line_state 4 []), errno = 0, tcp_t_id = 0, world = ([], four_modules)\<rparr>"

lemma bus_state_idle: "idle module_bus (\<lambda>w. w) four_modules bus_state"
  using module_bus_bus by (simp add: idle_def bus_state_def line_state_def recovery_protocol_def)

lemma some_module_io [simp]: "io_module some_module"
  by (simp add: io_module_def some_module_def)

lemma four_modules_sel [simp]:
  "four_modules 2 = Some some_module" "four_modules 3 = Some some_module"
  "four_modules 4 = Some some_module" "four_modules 5 = Some some_module"
  by (simp_all add: four_modules_def)

lemma bsp_zero_sel [simp]:
  "length (adc_buf bsp_zero) = 32" "length (input_buf bsp_zero) = 32" "output_buf bsp_zero = init (replicate 32 0)"
  by (simp_all add: bsp_zero_def)

theorem bsp_input_hole_witness:
  "\<exists>g' st'. bsp_input_update module_bus bsp_zero bus_state = Some (g', st') \<and>
     take 8 (drop 8 (input_buf g')) = take 8 (drop 8 (input_buf bsp_zero)) \<and> length (input_buf g') = 32 \<and>
     output_buf g' = output_buf bsp_zero"
proof -
  have "\<exists>g' st'. bsp_input_update module_bus bsp_zero bus_state = Some (g', st')"
    using bsp_input_update_takes [OF bus_state_idle, of some_module some_module some_module some_module bsp_zero] by auto
  then obtain g' st' where run: "bsp_input_update module_bus bsp_zero bus_state = Some (g', st')" by blast
  from run bsp_input_hole [OF run] show ?thesis by auto
qed

theorem bsp_round_runs_witness:
  "\<exists>g' st' modules'. bsp_round module_bus bsp_zero bus_state = Some (g', st') \<and>
     bsp_ready module_bus (\<lambda>w. w) modules' g' st' \<and>
     (\<forall>n \<in> {2, 3, 4, 5}. \<exists>d. modules' n = Some d \<and> driven 1 d)"
  by (rule bsp_round_runs [of _ _ four_modules]) (use bus_state_idle in \<open>auto simp: bsp_ready_def\<close>)

theorem bsp_init_opens_witness:
  "let r = \<lparr>rtu_device = fill (fresh 16) 0 (''/dev/ttyS1'' @ [NUL]), rtu_baud = 115200, rtu_data_bit = 8,
              rtu_stop_bit = 1, rtu_parity = CHR ''N'', rtu_old_tios = None, rtu_serial_mode = None\<rparr>
   in bsp_init module_bus (ctx bus_state) bus_state
      = Some ((), bus_state\<lparr>ctx := (modbus_init_common (ctx bus_state))\<lparr>mb_slave := 4, mb_s := 3, mb_debug := 1,
      mb_backend_data := RtuData (r\<lparr>rtu_old_tios := Some tios_zero, rtu_serial_mode := Some MODBUS_RTU_RS485\<rparr>)\<rparr>,
      world := ([], four_modules)\<rparr>)"
  unfolding Let_def
  by (rule bsp_init_opens [OF _ _ _ _ _ refl]) (simp_all add: module_bus_def bus_state_def)

end
