(* ===== verification/Process_Image.thy ===== *)
theory Process_Image
  imports Bsp_Driver
begin

text \<open>
  \<open>kw/src/CONSEN_IO.cpp\<close>: the class \<open>KWIODriver\<close> through which the IEC 61131 runtime reaches the
  modules. Inputs and outputs live in one array of bytes, \<open>SHM_Buff_SYS\<close>: digital inputs from 0,
  analogue inputs from 512, real inputs from 2560, digital outputs from 3072, analogue outputs
  from 3584. Numbers are stored with the low byte first. Methods without effect are left out.
\<close>

section \<open>The driver object\<close>

record process =
  io :: bsp
  shm :: "u8 cbuf"

text \<open>\<open>*adc_ptr++ = adc_buf[i]\<close> on a machine that stores the low byte first.\<close>

definition store_adc :: "u16 cbuf \<Rightarrow> u8 cbuf \<Rightarrow> u8 cbuf option" where
  "store_adc adc m =
     for_range 0 32
       (\<lambda>i m. do {
          v \<leftarrow> rd adc i;
          m \<leftarrow> wr m (512 + 2 * i) (ucast v);
          wr m (512 + 2 * i + 1) (ucast (drop_bit 8 v)) })
       m"

definition store_inputs :: "bool \<Rightarrow> u8 cbuf \<Rightarrow> u8 cbuf \<Rightarrow> u8 cbuf option" where
  "store_inputs ndebug bits m =
     for_range 0 4
       (\<lambda>i m. do { b \<leftarrow> modbus_get_byte_from_bits ndebug bits (i * 8) 8; wr m i b })
       m"

definition BeginReadAll :: "bool \<Rightarrow> 'w os \<Rightarrow> process \<Rightarrow> ('w, process) exec" where
  "BeginReadAll ndebug os p st =
     do { (g, st) \<leftarrow> bsp_input_update os (io p) st;
          m \<leftarrow> store_inputs ndebug (input_buf g) (shm p);
          m \<leftarrow> store_adc (adc_buf g) m;
          Some (\<lparr>io = g, shm = m\<rparr>, st) }"

definition EndWriteAll :: "'w os \<Rightarrow> process \<Rightarrow> ('w, process) exec" where
  "EndWriteAll os p st =
     do { b \<leftarrow> modbus_set_bits_from_bytes (output_buf (io p)) 0 32 (\<lambda>i. rd (shm p) (3 * 1024 + i));
          let p = p\<lparr>io := (io p)\<lparr>output_buf := b\<rparr>\<rparr>;
          st \<leftarrow> bsp_output_update os (io p) st;
          Some (p, st) }"

definition Open :: "'w os \<Rightarrow> modbus_t \<Rightarrow> ('w, unit) exec" where
  "Open os c = bsp_init os c"

section \<open>Reading the image\<close>

text \<open>Addresses are signed and only bounded from above.\<close>

definition ReadByte :: "process \<Rightarrow> int \<Rightarrow> u8 option" where
  "ReadByte p p0 = (if p0 < 512 then rd (shm p) p0 else Some 0)"

definition ReadSByte :: "process \<Rightarrow> int \<Rightarrow> int option" where
  "ReadSByte p p0 = (if p0 < 512 then map_option sint (rd (shm p) p0) else Some 0)"

definition ReadUInt16 :: "process \<Rightarrow> int \<Rightarrow> u16 option" where
  "ReadUInt16 p p0 =
     (if p0 < 1024 then
        do { l \<leftarrow> rd (shm p) (512 + p0 * 2);
             h \<leftarrow> rd (shm p) (512 + p0 * 2 + 1);
             Some (ucast l + ucast h * 256) }
      else Some 0)"

definition ReadInt16 :: "process \<Rightarrow> int \<Rightarrow> int option" where
  "ReadInt16 p p0 =
     (if p0 < 1024 then
        do { l \<leftarrow> rd (shm p) (512 + p0 * 2);
             h \<leftarrow> rd (shm p) (512 + p0 * 2 + 1);
             Some (sint (word_of_int (uint l + uint h * 256) :: u16)) }
      else Some 0)"

definition ReadSingle :: "process \<Rightarrow> int \<Rightarrow> u32 option" where
  "ReadSingle p p0 =
     (if p0 < 128 then
        do { a \<leftarrow> rd (shm p) (2560 + p0 * 4);
             b \<leftarrow> rd (shm p) (2560 + p0 * 4 + 1);
             c \<leftarrow> rd (shm p) (2560 + p0 * 4 + 2);
             d \<leftarrow> rd (shm p) (2560 + p0 * 4 + 3);
             Some (ucast a + push_bit 8 (ucast b) + push_bit 16 (ucast c) + push_bit 24 (ucast d)) }
      else Some 0)"

section \<open>Writing the image\<close>

definition WriteByte :: "int \<Rightarrow> u8 \<Rightarrow> process \<Rightarrow> process option" where
  "WriteByte p0 p1 p =
     (if p0 < 512 then do { m \<leftarrow> wr (shm p) (3072 + p0) p1; Some (p\<lparr>shm := m\<rparr>) } else Some p)"

definition WriteSByte :: "int \<Rightarrow> int \<Rightarrow> process \<Rightarrow> process option" where
  "WriteSByte p0 p1 p =
     (if p0 < 512 then do { m \<leftarrow> wr (shm p) (3072 + p0) (byte p1); Some (p\<lparr>shm := m\<rparr>) } else Some p)"

definition WriteUInt16 :: "int \<Rightarrow> u16 \<Rightarrow> process \<Rightarrow> process option" where
  "WriteUInt16 p0 p1 p =
     (if p0 < 256 then
        do { m \<leftarrow> wr (shm p) (3584 + p0 * 2) (ucast (p1 AND 0xFF));
             m \<leftarrow> wr m (3584 + p0 * 2 + 1) (ucast (drop_bit 8 p1));
             Some (p\<lparr>shm := m\<rparr>) }
      else Some p)"

definition WriteInt16 :: "int \<Rightarrow> int \<Rightarrow> process \<Rightarrow> process option" where
  "WriteInt16 p0 p1 p =
     (if p0 < 256 then
        do { m \<leftarrow> wr (shm p) (3584 + p0 * 2) (byte (p1 AND 0xFF));
             m \<leftarrow> wr m (3584 + p0 * 2 + 1) (byte (drop_bit 8 p1));
             Some (p\<lparr>shm := m\<rparr>) }
      else Some p)"

section \<open>What an update stores\<close>

lemma store_inputs_fill:
  assumes "4 \<le> length m" "length vs = 4"
    and "\<And>i. i < 4 \<Longrightarrow> modbus_get_byte_from_bits ndebug bits (int i * 8) 8 = Some (vs ! i)"
  shows "store_inputs ndebug bits m = Some (fill m 0 vs)"
proof -
  let ?g = "\<lambda>i. fill m 0 (take (nat i) vs)"
  have "for_range 0 4 (\<lambda>i m. do { b \<leftarrow> modbus_get_byte_from_bits ndebug bits (i * 8) 8; wr m i b }) (?g 0) = Some (?g 4)"
  proof (rule for_range_steps)
    fix i :: int
    assume "0 \<le> i" "i < 4"
    then obtain k where k: "i = int k" "k < 4" by (metis nat_0_le nat_less_iff of_nat_numeral)
    then have "nat (int k + 1) = Suc k" by simp
    with k assms(1,2) assms(3) [OF k(2)]
    show "do { b \<leftarrow> modbus_get_byte_from_bits ndebug bits (i * 8) 8; wr (?g i) i b } = Some (?g (i + 1))"
      by (simp add: wr_fill take_Suc_conv_app_nth)
  qed simp
  with assms(2) show ?thesis by (simp add: store_inputs_def)
qed

text \<open>The bytes of a register, low byte first.\<close>

definition low_high :: "u16 \<Rightarrow> u8 list" where
  "low_high v = [ucast v, ucast (drop_bit 8 v)]"

lemma length_low_high [simp]: "length (concat (map low_high vs)) = 2 * length vs"
  by (induction vs) (simp_all add: low_high_def)

lemma low_high_nth:
  "k < length vs \<Longrightarrow> concat (map low_high vs) ! (2 * k) = ucast (vs ! k) \<and>
     concat (map low_high vs) ! (2 * k + 1) = ucast (drop_bit 8 (vs ! k))"
proof (induction vs arbitrary: k)
  case (Cons v vs)
  then show ?case by (cases k) (simp_all add: low_high_def)
qed simp

lemma store_adc_fill:
  assumes "576 \<le> length m" "length vs = 32"
  shows "store_adc (init vs) m = Some (fill m 512 (concat (map low_high vs)))"
proof -
  let ?g = "\<lambda>i. fill m 512 (concat (map low_high (take (nat i) vs)))"
  have "for_range 0 32 (\<lambda>i m. do { v \<leftarrow> rd (init vs) i; m \<leftarrow> wr m (512 + 2 * i) (ucast v);
      wr m (512 + 2 * i + 1) (ucast (drop_bit 8 v)) }) (?g 0) = Some (?g 32)"
  proof (rule for_range_steps)
    fix i :: int
    assume "0 \<le> i" "i < 32"
    then obtain k where k: "i = int k" "k < 32" by (metis nat_0_le nat_less_iff of_nat_numeral)
    then have "nat (int k + 1) = Suc k" by simp
    with k assms show "do { v \<leftarrow> rd (init vs) i; m \<leftarrow> wr (?g i) (512 + 2 * i) (ucast v);
        wr m (512 + 2 * i + 1) (ucast (drop_bit 8 v)) } = Some (?g (i + 1))"
      by (simp add: rd_init wr_fill take_Suc_conv_app_nth low_high_def min_def)
  qed simp
  with assms(2) show ?thesis by (simp add: store_adc_def)
qed

lemma get_byte_packs:
  assumes "length bs = 8" "\<And>k. k < 8 \<Longrightarrow> rd src (index + int k) = Some (of_bool (bs ! k))"
  shows "modbus_get_byte_from_bits ndebug src index 8 = Some (horner_sum of_bool 2 bs)"
proof -
  have "rd src (index + int k) = Some (of_bool (bit (horner_sum of_bool 2 bs :: u8) k))" if "k < 8" for k
    using assms that by (simp add: bit_horner_sum_bit_iff)
  then have "modbus_get_byte_from_bits ndebug src index (int 8) = Some (take_bit 8 (horner_sum of_bool 2 bs))"
    by (intro get_byte_from_bits_take_bit) auto
  then show ?thesis by (simp add: take_bit_word_eq_self)
qed


lemma four_bytes:
  assumes "length a = 8" "length b = 8" "length c = 8" "length d = 8" "i < 4"
  shows "modbus_get_byte_from_bits ndebug (init (map of_bool (a @ b @ c @ d))) (int i * 8) 8
    = Some (map (horner_sum of_bool 2) [a, b, c, d] ! i)"
proof -
  have i: "i = 0 \<or> i = 1 \<or> i = 2 \<or> i = 3" using assms(5) by arith
  have len: "length (map (of_bool :: bool \<Rightarrow> u8) (a @ b @ c @ d)) = 32" using assms by simp
  have "modbus_get_byte_from_bits ndebug (init (map of_bool (a @ b @ c @ d))) (int i * 8) 8
    = Some (horner_sum of_bool 2 ([a, b, c, d] ! i))"
  proof (rule get_byte_packs)
    show "length ([a, b, c, d] ! i) = 8" using i assms by auto
    fix k :: nat
    assume k: "k < 8"
    have pos: "nat (int i * 8 + int k) = i * 8 + k" by simp
    show "rd (init (map of_bool (a @ b @ c @ d))) (int i * 8 + int k) = Some (of_bool ([a, b, c, d] ! i ! k))"
      using i k assms len by (subst rd_init) (auto simp: pos nth_append simp del: map_append)
  qed
  then show ?thesis by (subst nth_map) (use assms(5) in simp_all)
qed

lemma rd_fill_in: "k < length xs \<Longrightarrow> a + length xs \<le> length b \<Longrightarrow> rd (fill b a xs) (int a + int k) = Some (xs ! k)"
  by (simp add: rd_def nat_add_distrib)

lemma rd_fill_before: "i < int a \<Longrightarrow> a + length xs \<le> length b \<Longrightarrow> rd (fill b a xs) i = rd b i"
  by (auto simp: rd_def nat_less_iff)

text \<open>A sixteen-bit value read back from its two bytes.\<close>

lemma low_high_word: "ucast (ucast v :: u8) + ucast (ucast (drop_bit 8 v) :: u8) * 256 = (v :: u16)"
proof -
  have "ucast (ucast (drop_bit 8 v) :: u8) * 256 = (push_bit 8 (ucast (ucast (drop_bit 8 v) :: u8)) :: u16)"
    by (simp add: push_bit_eq_mult)
  moreover have "(ucast (ucast v :: u8) :: u16) + push_bit 8 (ucast (ucast (drop_bit 8 v) :: u8))
      = ucast (ucast v :: u8) OR push_bit 8 (ucast (ucast (drop_bit 8 v) :: u8))"
    by (rule disjunctive_add_eq_or) (rule bit_word_eqI, auto simp: bit_simps)
  moreover have "(ucast (ucast v :: u8) :: u16) OR push_bit 8 (ucast (ucast (drop_bit 8 v) :: u8)) = v"
    by (rule bit_word_eqI) (auto simp: bit_simps)
  ultimately show ?thesis by simp
qed

lemma ReadUInt16_fill:
  assumes "k < length vs" "512 + 2 * length vs \<le> length b" "k < 1024"
  shows "ReadUInt16 \<lparr>io = g, shm = fill b 512 (concat (map low_high vs))\<rparr> (int k) = Some (vs ! k)"
proof -
  have "rd (fill b 512 (concat (map low_high vs))) (int 512 + int (2 * k)) = Some (ucast (vs ! k))"
    "rd (fill b 512 (concat (map low_high vs))) (int 512 + int (2 * k + 1)) = Some (ucast (drop_bit 8 (vs ! k)))"
    using assms low_high_nth [of k vs] by (subst rd_fill_in; simp)+
  then have "rd (fill b 512 (concat (map low_high vs))) (512 + int k * 2) = Some (ucast (vs ! k))"
    "rd (fill b 512 (concat (map low_high vs))) (512 + int k * 2 + 1) = Some (ucast (drop_bit 8 (vs ! k)))"
    by (simp_all add: algebra_simps)
  then show ?thesis
    using assms(3) by (simp add: ReadUInt16_def low_high_word)
qed

text \<open>
  C25: With four modules on the line that answer as the abstract device, after
  \<open>BeginReadAll\<close> the runtime reads the analogue inputs of modules 2 to 5 as words 0
  to 31 and the digital inputs of modules 2, 4 and 5 as bytes 0, 2 and 3. Byte 1 only repeats
  what the buffer held before: the digital inputs of module 3 never reach the image.
\<close>

theorem inputs_reach_image:
  assumes "idle os line modules st"
    and d: "modules 2 = Some d2" "modules 3 = Some d3" "modules 4 = Some d4" "modules 5 = Some d5"
    and m: "io_module d2" "io_module d3" "io_module d4" "io_module d5"
    and g: "length (adc_buf (io p)) = 32" "input_buf (io p) = init (map of_bool old)" "length old = 32"
    and room: "4096 \<le> length (shm p)"
  shows "\<exists>p' st'. BeginReadAll ndebug os p st = Some (p', st') \<and> idle os line modules st' \<and>
     ReadByte p' 0 = Some (horner_sum of_bool 2 (take 8 (inputs d2))) \<and>
     ReadByte p' 1 = Some (horner_sum of_bool 2 (take 8 (drop 8 old))) \<and>
     ReadByte p' 2 = Some (horner_sum of_bool 2 (take 8 (inputs d4))) \<and>
     ReadByte p' 3 = Some (horner_sum of_bool 2 (take 8 (inputs d5))) \<and>
     (\<forall>k < 32. ReadUInt16 p' (int k) = Some ((take 8 (input_regs d2) @ take 8 (input_regs d3) @
        take 8 (input_regs d4) @ take 8 (input_regs d5)) ! k))"
proof -
  let ?bits = "take 8 (inputs d2) @ take 8 (drop 8 old) @ take 8 (inputs d4) @ take 8 (inputs d5)"
  let ?regs = "take 8 (input_regs d2) @ take 8 (input_regs d3) @ take 8 (input_regs d4) @ take 8 (input_regs d5)"
  let ?g = "(io p)\<lparr>adc_buf := init ?regs, input_buf := init (map of_bool ?bits)\<rparr>"
  let ?bytes = "map (horner_sum of_bool 2) [take 8 (inputs d2), take 8 (drop 8 old), take 8 (inputs d4), take 8 (inputs d5)]"
  have len: "length (take 8 (inputs d2)) = 8" "length (take 8 (drop 8 old)) = 8" "length (take 8 (inputs d4)) = 8"
    "length (take 8 (inputs d5)) = 8" "length ?regs = 32"
    using m g(3) by (simp_all add: io_module_def)
  have "length (input_buf (io p)) = 32" using g(2,3) by (simp add: init_def)
  from bsp_input_update_reads [OF assms(1) d m g(1) this] obtain st' where
    st': "bsp_input_update os (io p) st = Some (?g, st')" "idle os line modules st'"
    by (auto simp: g(2) init_def take_map drop_map)
  have bits: "store_inputs ndebug (init (map of_bool ?bits)) (shm p) = Some (fill (shm p) 0 ?bytes)"
    by (rule store_inputs_fill) (use room four_bytes [OF len(1-4)] in simp_all)
  let ?m = "fill (fill (shm p) 0 ?bytes) 512 (concat (map low_high ?regs))"
  have "length (fill (shm p) 0 ?bytes) = length (shm p)" using room by simp
  then have adc: "store_adc (init ?regs) (fill (shm p) 0 ?bytes) = Some ?m"
    by (intro store_adc_fill) (use room len(5) in simp_all)
  have run: "BeginReadAll ndebug os p st = Some (\<lparr>io = ?g, shm = ?m\<rparr>, st')"
    using st'(1) bits adc by (simp add: BeginReadAll_def)
  have byte: "ReadByte \<lparr>io = ?g, shm = ?m\<rparr> (int i) = Some (?bytes ! i)" if "i < 4" for i
  proof -
    have "rd ?m (int i) = rd (fill (shm p) 0 ?bytes) (int 0 + int i)"
      using that room len(5) by (subst rd_fill_before) simp_all
    also have "\<dots> = Some (?bytes ! i)"
      using that room by (subst rd_fill_in) simp_all
    finally show ?thesis using that by (simp add: ReadByte_def)
  qed
  have word: "ReadUInt16 \<lparr>io = ?g, shm = ?m\<rparr> (int k) = Some (?regs ! k)" if "k < 32" for k
    by (rule ReadUInt16_fill) (use that room len(5) in simp_all)
  show ?thesis
    using run st'(2) byte [of 0] byte [of 1] byte [of 2] byte [of 3] word by auto
qed


section \<open>Outputs\<close>

text \<open>A module whose first eight outputs are the bits of a byte.\<close>

definition outputs :: "u8 \<Rightarrow> device \<Rightarrow> device" where
  "outputs v d = d\<lparr>coils := put_at (coils d) 0 (map (bit v) [0..<8])\<rparr>"

lemma set_coils_unpack:
  assumes "i < 4" "length vs = 4"
  shows "set_coils (unpack vs 32) (8 * i) d = outputs (vs ! i) d"
proof -
  have "switched (take 8 (drop (8 * i) (unpack vs 32))) = map (bit (vs ! i)) [0..<8]"
    by (rule nth_equalityI) (use assms in \<open>auto simp: switched_def bit_at_def\<close>)
  then show ?thesis by (simp add: set_coils_def outputs_def)
qed

lemma EndWriteAll_drives:
  assumes "idle os line modules st"
    and d: "modules 2 = Some d2" "modules 3 = Some d3" "modules 4 = Some d4" "modules 5 = Some d5"
    and m: "io_module d2" "io_module d3" "io_module d4" "io_module d5"
    and "length (output_buf (io p)) = 32" and vs: "length vs = 4"
    and rd: "\<And>i. i < 4 \<Longrightarrow> rd (shm p) (3072 + int i) = Some (vs ! i)"
  shows "\<exists>p' st'. EndWriteAll os p st = Some (p', st') \<and>
     idle os line (modules(2 \<mapsto> outputs (vs ! 0) d2, 3 \<mapsto> outputs (vs ! 1) d3,
                           4 \<mapsto> outputs (vs ! 2) d4, 5 \<mapsto> outputs (vs ! 3) d5)) st'"
proof -
  let ?p = "p\<lparr>io := (io p)\<lparr>output_buf := init (unpack vs 32)\<rparr>\<rparr>"
  have "rd (shm p) (3 * 1024 + int k div 8) = Some (vs ! (k div 8))" if "k < 32" for k
    using rd [of "k div 8"] that by (simp add: zdiv_int)
  then have "modbus_set_bits_from_bytes (output_buf (io p)) (int 0) (int 32) (\<lambda>i. rd (shm p) (3 * 1024 + i))
      = Some (fill (output_buf (io p)) 0 (unpack vs 32))"
    by (intro set_bits_from_bytes_fill) (use assms(10) in simp_all)
  moreover have "fill (output_buf (io p)) 0 (unpack vs 32) = init (unpack vs 32)"
    using assms(10) by (simp add: fill_def init_def)
  ultimately have bits: "modbus_set_bits_from_bytes (output_buf (io p)) 0 32 (\<lambda>i. rd (shm p) (3 * 1024 + i))
      = Some (init (unpack vs 32))" by simp
  have "output_buf (io ?p) = init (unpack vs 32)" "length (unpack vs 32) = 32" by simp_all
  from bsp_output_update_writes [OF assms(1) d m this] obtain st' where
    "bsp_output_update os (io ?p) st = Some st'"
    "idle os line (modules(2 \<mapsto> set_coils (unpack vs 32) 0 d2, 3 \<mapsto> set_coils (unpack vs 32) 8 d3,
        4 \<mapsto> set_coils (unpack vs 32) 16 d4, 5 \<mapsto> set_coils (unpack vs 32) 24 d5)) st'" by blast
  with bits set_coils_unpack [of 0 vs d2] set_coils_unpack [of 1 vs d3] set_coils_unpack [of 2 vs d4]
    set_coils_unpack [of 3 vs d5] vs
  show ?thesis by (auto simp: EndWriteAll_def Let_def)
qed

lemma WriteByte_run:
  "0 \<le> i \<Longrightarrow> i < 512 \<Longrightarrow> 4096 \<le> length (shm p) \<Longrightarrow>
   WriteByte i v p = Some (p\<lparr>shm := (shm p)[3072 + nat i := Some v]\<rparr>)"
  by (auto simp: WriteByte_def wr_def nat_add_distrib)

text \<open>
  C26: The bytes 0 to 3 that the runtime writes become, bit by bit, the first eight outputs of
  modules 2 to 5 at \<open>EndWriteAll\<close>; nothing else of the modules changes.
\<close>

theorem outputs_reach_modules:
  assumes "idle os line modules st"
    and "modules 2 = Some d2" "modules 3 = Some d3" "modules 4 = Some d4" "modules 5 = Some d5"
    and "io_module d2" "io_module d3" "io_module d4" "io_module d5"
    and "length (output_buf (io p)) = 32" and "4096 \<le> length (shm p)"
  shows "\<exists>p' st'. do { p \<leftarrow> WriteByte 0 v0 p; p \<leftarrow> WriteByte 1 v1 p; p \<leftarrow> WriteByte 2 v2 p; p \<leftarrow> WriteByte 3 v3 p;
        EndWriteAll os p st } = Some (p', st') \<and>
     idle os line (modules(2 \<mapsto> outputs v0 d2, 3 \<mapsto> outputs v1 d3, 4 \<mapsto> outputs v2 d4, 5 \<mapsto> outputs v3 d5)) st'"
proof -
  let ?p = "p\<lparr>shm := (shm p)[3072 := Some v0, 3073 := Some v1, 3074 := Some v2, 3075 := Some v3]\<rparr>"
  have "i = 0 \<or> i = 1 \<or> i = 2 \<or> i = 3" if "i < 4" for i :: nat
    using that by arith
  then have rd: "rd (shm ?p) (3072 + int i) = Some ([v0, v1, v2, v3] ! i)" if "i < 4" for i
    using that assms(11) by (fastforce simp: rd_def)
  have "length (output_buf (io ?p)) = 32" "length [v0, v1, v2, v3] = 4" using assms(10) by simp_all
  from EndWriteAll_drives [OF assms(1-9) this rd] obtain p' st' where
    "EndWriteAll os ?p st = Some (p', st')"
    "idle os line (modules(2 \<mapsto> outputs v0 d2, 3 \<mapsto> outputs v1 d3, 4 \<mapsto> outputs v2 d4, 5 \<mapsto> outputs v3 d5)) st'"
    by auto
  with assms(11) show ?thesis by (simp add: WriteByte_run)
qed

section \<open>Outputs never disturb inputs\<close>

lemma wr_above: "wr b i v = Some b' \<Longrightarrow> int n \<le> i \<Longrightarrow> take n b' = take n b \<and> length b' = length b"
  by (auto simp: wr_def take_update_cancel split: if_splits)

text \<open>
  No write of the runtime at a non-negative address changes the input areas of the image,
  its size, or the driver's buffers.
\<close>

theorem writes_keep_inputs:
  assumes "0 \<le> a"
    and "p' \<in> {q. WriteByte a v p = Some q} \<union> {q. WriteSByte a s p = Some q} \<union>
              {q. WriteUInt16 a w p = Some q} \<union> {q. WriteInt16 a s p = Some q}"
  shows "take 3072 (shm p') = take 3072 (shm p) \<and> length (shm p') = length (shm p) \<and> io p' = io p"
proof -
  have two: "take 3072 m2 = take 3072 m \<and> length m2 = length m"
    if "wr m i x = Some m1" "wr m1 j y = Some m2" "3072 \<le> i" "3072 \<le> j" for m m1 m2 :: "u8 cbuf" and i j x y
    using wr_above [OF that(1), of 3072] wr_above [OF that(2), of 3072] that(3,4) by simp
  show ?thesis
    using assms wr_above [of "shm p" "3072 + a" _ _ 3072] two [of "shm p" "3584 + a * 2" _ _ "3584 + a * 2 + 1"]
    by (auto simp: WriteByte_def WriteSByte_def WriteUInt16_def WriteInt16_def Option.bind_eq_Some_conv split: if_splits)
qed

section \<open>Concrete instances\<close>

definition blank_process :: process where
  "blank_process = \<lparr>io = bsp_zero, shm = replicate 4096 (Some 0)\<rparr>"

lemma blank_process_sel [simp]:
  "io blank_process = bsp_zero" "length (shm blank_process) = 4096"
  by (simp_all add: blank_process_def)

theorem inputs_reach_image_witness:
  "\<exists>p' st'. BeginReadAll False module_bus blank_process bus_state = Some (p', st') \<and>
     idle module_bus (\<lambda>w. w) four_modules st' \<and>
     ReadByte p' 0 = Some (horner_sum of_bool 2 (take 8 (inputs some_module))) \<and>
     ReadByte p' 1 = Some (horner_sum of_bool 2 (take 8 (drop 8 (replicate 32 False)))) \<and>
     ReadByte p' 2 = Some (horner_sum of_bool 2 (take 8 (inputs some_module))) \<and>
     ReadByte p' 3 = Some (horner_sum of_bool 2 (take 8 (inputs some_module))) \<and>
     (\<forall>k < 32. ReadUInt16 p' (int k) = Some ((take 8 (input_regs some_module) @ take 8 (input_regs some_module) @
        take 8 (input_regs some_module) @ take 8 (input_regs some_module)) ! k))"
  by (rule inputs_reach_image [OF bus_state_idle]) (simp_all add: bsp_zero_def init_def)

theorem outputs_reach_modules_witness:
  "\<exists>p' st'. do { p \<leftarrow> WriteByte 0 0xA5 blank_process; p \<leftarrow> WriteByte 1 1 p; p \<leftarrow> WriteByte 2 2 p; p \<leftarrow> WriteByte 3 3 p;
        EndWriteAll module_bus p bus_state } = Some (p', st') \<and>
     idle module_bus (\<lambda>w. w) (four_modules(2 \<mapsto> outputs 0xA5 some_module, 3 \<mapsto> outputs 1 some_module,
        4 \<mapsto> outputs 2 some_module, 5 \<mapsto> outputs 3 some_module)) st'"
  by (rule outputs_reach_modules [OF bus_state_idle]) simp_all

theorem writes_keep_inputs_witness:
  "\<exists>p'. WriteUInt16 7 0xABCD blank_process = Some p' \<and> take 3072 (shm p') = take 3072 (shm blank_process) \<and>
     length (shm p') = length (shm blank_process) \<and> io p' = io blank_process"
proof -
  have "\<exists>p'. WriteUInt16 7 0xABCD blank_process = Some p'"
    by (simp add: WriteUInt16_def wr_def)
  then obtain p' where p': "WriteUInt16 7 0xABCD blank_process = Some p'" by blast
  with writes_keep_inputs [of 7 p' 0 blank_process 0 "0xABCD"] show ?thesis by simp
qed

end
