(* ===== verification/Consen.thy ===== *)
theory Consen
  imports Process_Image
begin

text \<open>
  \<open>system/src/Consen.cpp\<close>: polling of third-party Modbus slaves on two serial lines. Each line has a
  list of tasks read from a configuration file; a poll works through them, moving data between the
  slaves and the two regions of shared memory, one of packed bits and one of words.
\<close>

section \<open>Configuration\<close>

record consen_com_cfg_t =
  com_id :: u8
  com_baud :: u32
  com_parity :: u8
  com_data_bit :: u8
  com_stop_bit :: u8
  com_period :: u16

record consen_task_cfg_t =
  task_com :: u8
  task_id :: u8
  slave_id :: u8
  cmd_id :: u8
  task_addr :: u16
  data_num :: u8
  task_offset :: u16

text \<open>
  The libraries the parsers call: splitting a line at the colons, and the conversions
  \<open>lexical_cast\<close> to sixteen and thirty-two bits and to a single character, where \<open>None\<close> is the
  exception. The numbers are then narrowed to the width of their field.
\<close>

record parser =
  tokenize :: "string \<Rightarrow> string list"
  cast_u16 :: "string \<Rightarrow> u16 option"
  cast_u32 :: "string \<Rightarrow> u32 option"
  cast_char :: "string \<Rightarrow> u8 option"

definition parse_com :: "parser \<Rightarrow> string \<Rightarrow> consen_com_cfg_t option" where
  "parse_com ps s =
     (let tokens = tokenize ps s in
      if length tokens \<noteq> 6 then None
      else do {
        i \<leftarrow> cast_u16 ps (tokens ! 0);
        baud \<leftarrow> cast_u32 ps (tokens ! 1);
        parity \<leftarrow> cast_char ps (tokens ! 2);
        data_bit \<leftarrow> cast_u16 ps (tokens ! 3);
        stop_bit \<leftarrow> cast_u16 ps (tokens ! 4);
        period \<leftarrow> cast_u16 ps (tokens ! 5);
        Some \<lparr>com_id = ucast i, com_baud = baud, com_parity = parity, com_data_bit = ucast data_bit,
              com_stop_bit = ucast stop_bit, com_period = period\<rparr> })"

fun parseCom :: "parser \<Rightarrow> string list \<Rightarrow> consen_com_cfg_t list" where
  "parseCom ps [] = []"
| "parseCom ps (s # ss) =
     (case parse_com ps s of None \<Rightarrow> parseCom ps ss | Some c \<Rightarrow> c # parseCom ps ss)"

definition parse_task :: "parser \<Rightarrow> string \<Rightarrow> consen_task_cfg_t option" where
  "parse_task ps s =
     (let tokens = tokenize ps s in
      if length tokens \<noteq> 7 then None
      else do {
        com \<leftarrow> cast_u16 ps (tokens ! 0);
        task \<leftarrow> cast_u16 ps (tokens ! 1);
        slave \<leftarrow> cast_u16 ps (tokens ! 2);
        cmd \<leftarrow> cast_u16 ps (tokens ! 3);
        addr \<leftarrow> cast_u16 ps (tokens ! 4);
        num \<leftarrow> cast_u16 ps (tokens ! 5);
        off \<leftarrow> cast_u16 ps (tokens ! 6);
        Some \<lparr>task_com = ucast com, task_id = ucast task, slave_id = ucast slave, cmd_id = ucast cmd,
              task_addr = addr, data_num = ucast num, task_offset = off\<rparr> })"

text \<open>The two task lists; tasks for other lines are dropped.\<close>

fun parseTask :: "parser \<Rightarrow> string list \<Rightarrow> consen_task_cfg_t list \<times> consen_task_cfg_t list" where
  "parseTask ps [] = ([], [])"
| "parseTask ps (s # ss) =
     (let (v1, v2) = parseTask ps ss in
      case parse_task ps s of
        None \<Rightarrow> (v1, v2)
      | Some t \<Rightarrow> if task_com t = 0 then (t # v1, v2) else if task_com t = 1 then (v1, t # v2) else (v1, v2))"

text \<open>The settings of the two lines: the last entry for each counts, \<open>None\<close> is an unset variable.\<close>

fun pick_com :: "consen_com_cfg_t list \<Rightarrow> u8 \<Rightarrow> consen_com_cfg_t option \<Rightarrow> consen_com_cfg_t option" where
  "pick_com [] n c = c"
| "pick_com (cfg # cfgs) n c = pick_com cfgs n (if com_id cfg = n then Some cfg else c)"

text \<open>The pollers that are started, with their devices and settings.\<close>

definition start_lines ::
  "consen_com_cfg_t list \<Rightarrow> consen_task_cfg_t list \<times> consen_task_cfg_t list \<Rightarrow>
   (consen_task_cfg_t list \<times> string \<times> consen_com_cfg_t option) list" where
  "start_lines coms tasks =
     (if fst tasks \<noteq> [] then [(fst tasks, ''/dev/ttyS4'', pick_com coms 0 None)] else []) @
     (if snd tasks \<noteq> [] then [(snd tasks, ''/dev/ttyS2'', pick_com coms 1 None)] else [])"

section \<open>Packing bits into the region\<close>

definition put_bit :: "u8 \<Rightarrow> nat \<Rightarrow> u8 \<Rightarrow> u8" where
  "put_bit v shift b = (if v = 0 then b AND NOT (push_bit shift 1) else b OR push_bit shift 1)"

text \<open>The state of the loop: position, byte under construction, bit number, region.\<close>

definition assemble_step ::
  "u8 cbuf \<Rightarrow> int \<Rightarrow> int \<times> u8 \<times> nat \<times> u8 cbuf \<Rightarrow> (int \<times> u8 \<times> nat \<times> u8 cbuf) option" where
  "assemble_step tab i r =
     (case r of (offset, b, shift, rsp) \<Rightarrow> do {
        v \<leftarrow> rd tab i;
        let b = put_bit v shift b;
        if shift = 7 then do {
          rsp \<leftarrow> wr rsp offset b;
          b \<leftarrow> rd rsp (offset + 1);
          Some (offset + 1, b, 0, rsp) }
        else Some (offset, b, shift + 1, rsp) })"

definition assemble_io_status :: "int \<Rightarrow> int \<Rightarrow> u8 cbuf \<Rightarrow> u8 cbuf \<Rightarrow> u8 cbuf option" where
  "assemble_io_status address nb tab_io_status rsp =
     do { b \<leftarrow> rd rsp (address div 8);
          (offset, b, _, rsp) \<leftarrow>
             for_range 0 nb (assemble_step tab_io_status) (address div 8, b, nat (address mod 8), rsp);
          wr rsp offset b }"

section \<open>Polling\<close>

text \<open>The two regions and the buffer, which is static and shared by the lines.\<close>

record regions =
  modbus_bool :: "u8 cbuf"
  modbus_word :: "u16 cbuf"
  poll_buf :: "u8 cbuf"

definition consen_init :: "'w os \<Rightarrow> modbus_t \<Rightarrow> string \<Rightarrow> consen_com_cfg_t \<Rightarrow> ('w, unit) exec" where
  "consen_init os c path com st =
     do { r \<leftarrow> modbus_new_rtu c (path @ [NUL]) (sint (com_baud com)) (char_of (uint (com_parity com)))
                 (uint (com_data_bit com)) (uint (com_stop_bit com));
          case r of
            Inl e \<Rightarrow> None
          | Inr c \<Rightarrow> do {
              let be = modbus_rtu_backend os;
              (_, st) \<leftarrow> modbus_connect be (st\<lparr>ctx := c\<rparr>);
              (_, st) \<leftarrow> modbus_set_debug 1 st;
              (_, st) \<leftarrow> modbus_rtu_set_serial_mode os be MODBUS_RTU_RS485 st;
              Some ((), st) } }"

text \<open>Choosing a slave is followed by a sleep of five milliseconds.\<close>

definition setAddr :: "'w os \<Rightarrow> u8 \<Rightarrow> 'w mstate \<Rightarrow> 'w mstate option" where
  "setAddr os address st =
     do { (_, st) \<leftarrow> modbus_set_slave (modbus_rtu_backend os) (uint address) st;
          let r = sys_nanosleep os (0, 5000000) (world st);
          Some (case fst r of
                  Inl e \<Rightarrow> st\<lparr>errno := fst e, world := snd r\<rparr>
                | Inr _ \<Rightarrow> st\<lparr>world := snd r\<rparr>) }"

text \<open>The results of the calls are ignored.\<close>

definition poll_task :: "'w os \<Rightarrow> consen_task_cfg_t \<Rightarrow> regions \<Rightarrow> ('w, regions) exec" where
  "poll_task os t g st =
     do { st \<leftarrow> setAddr os (slave_id t) st;
          let be = modbus_rtu_backend os;
          let a = uint (task_addr t);
          let n = uint (data_num t);
          let off = unat (task_offset t);
          if cmd_id t = 2 then do {
            ((_, buf), st) \<leftarrow> modbus_read_input_bits os be a n (poll_buf g) st;
            m \<leftarrow> assemble_io_status (int off) n buf (modbus_bool g);
            Some (g\<lparr>poll_buf := buf, modbus_bool := m\<rparr>, st) }
          else if cmd_id t = 4 then do {
            ((_, d), st) \<leftarrow> modbus_read_input_registers os be a n (drop off (modbus_word g)) st;
            Some (g\<lparr>modbus_word := take off (modbus_word g) @ d\<rparr>, st) }
          else if cmd_id t = 15 then do {
            (_, st) \<leftarrow> modbus_write_bits os be a n (drop off (modbus_bool g)) st;
            Some (g, st) }
          else if cmd_id t = 16 then do {
            (_, st) \<leftarrow> modbus_write_registers os be a n (drop off (modbus_word g)) st;
            Some (g, st) }
          else Some (g, st) }"

fun poll :: "'w os \<Rightarrow> consen_task_cfg_t list \<Rightarrow> regions \<Rightarrow> ('w, regions) exec" where
  "poll os [] g st = Some (g, st)"
| "poll os (t # ts) g st = do { (g, st) \<leftarrow> poll_task os t g st; poll os ts g st }"

section \<open>Correctness of the packing\<close>

text \<open>Bit number \<open>k\<close> of a region.\<close>

definition region_bit :: "u8 list \<Rightarrow> nat \<Rightarrow> bool" where
  "region_bit bs k = bit (bs ! (k div 8)) (k mod 8)"

definition assembled :: "u8 list \<Rightarrow> nat \<Rightarrow> bool list \<Rightarrow> u8 list \<Rightarrow> bool" where
  "assembled bs a vs bs' \<longleftrightarrow> length bs' = length bs \<and>
     (\<forall>k < 8 * length bs. region_bit bs' k = (if a \<le> k \<and> k < a + length vs then vs ! (k - a) else region_bit bs k))"

lemma assembled_snoc:
  assumes "assembled bs a vs bs'" "a + length vs < 8 * length bs"
    and b: "\<And>j. j < 8 \<Longrightarrow> bit b j = (if j = (a + length vs) mod 8 then v else bit (bs' ! ((a + length vs) div 8)) j)"
  shows "assembled bs a (vs @ [v]) (bs'[(a + length vs) div 8 := b])"
proof -
  let ?p = "a + length vs"
  have len: "length bs' = length bs" using assms(1) by (simp add: assembled_def)
  have p: "?p div 8 < length bs" using assms(2) by (simp add: div_less_iff_less_mult)
  have new: "region_bit (bs'[?p div 8 := b]) k = (if k = ?p then v else region_bit bs' k)" if "k < 8 * length bs" for k
  proof (cases "k div 8 = ?p div 8")
    case True
    then have "k = ?p \<longleftrightarrow> k mod 8 = ?p mod 8"
      by (metis div_mult_mod_eq)
    with True p len show ?thesis by (simp add: region_bit_def b)
  next
    case False
    then have "k \<noteq> ?p" by auto
    with False show ?thesis by (simp add: region_bit_def)
  qed
  with assms(1) len show ?thesis
    by (auto simp: assembled_def nth_append)
qed


text \<open>The loop invariant: with the byte under construction in place, the first \<open>i\<close> bits are stored.\<close>

definition assembling :: "u8 list \<Rightarrow> nat \<Rightarrow> bool list \<Rightarrow> int \<Rightarrow> int \<times> u8 \<times> nat \<times> u8 cbuf \<Rightarrow> bool" where
  "assembling bs a vs i r \<longleftrightarrow>
     (\<exists>b cur. r = (int ((a + nat i) div 8), b, (a + nat i) mod 8, init cur) \<and> (a + nat i) div 8 < length cur \<and>
        assembled bs a (take (nat i) vs) (cur[(a + nat i) div 8 := b]))"

lemma assembling_step:
  assumes "0 \<le> i" "i < int (length vs)" "assembling bs a vs i r"
    and "a + length vs < 8 * length bs" "rd tab i = Some v" "(v \<noteq> 0) = vs ! nat i"
  shows "\<exists>r'. assemble_step tab i r = Some r' \<and> assembling bs a vs (i + 1) r'"
proof -
  obtain k where i: "i = int k" "k < length vs" using assms(1,2) by (metis nonneg_int_cases of_nat_less_iff)
  let ?p = "a + k"
  from assms(3) i obtain b cur where r: "r = (int (?p div 8), b, ?p mod 8, init cur)" "?p div 8 < length cur"
    "assembled bs a (take k vs) (cur[?p div 8 := b])" by (auto simp: assembling_def)
  let ?b = "put_bit v (?p mod 8) b"
  have bit: "bit ?b j = (if j = ?p mod 8 then vs ! k else bit b j)" if "j < 8" for j
    using that assms(6) i by (auto simp: put_bit_def bit_simps)
  have len: "length cur = length bs" using r(3) by (simp add: assembled_def)
  have "assembled bs a (take k vs @ [vs ! k]) (cur[?p div 8 := b, ?p div 8 := ?b])"
    using assembled_snoc [OF r(3), of ?b "vs ! k"] assms(4) i bit r(2) by simp
  then have stored: "assembled bs a (take (Suc k) vs) (cur[?p div 8 := ?b])"
    using i by (simp add: take_Suc_conv_app_nth)
  have next_room: "Suc ?p div 8 < length bs" using assms(4) i by (simp add: div_less_iff_less_mult)
  show ?thesis
  proof (cases "?p mod 8 = 7")
    case True
    then have nxt: "Suc ?p div 8 = Suc (?p div 8)" "Suc ?p mod 8 = 0" by (simp_all add: div_Suc mod_Suc)
    have "rd (init (cur[?p div 8 := ?b])) (int (?p div 8) + 1) = Some (cur ! Suc (?p div 8))"
      using next_room nxt len by (simp add: rd_def init_def nat_add_distrib nat_div_distrib)
    moreover have "wr (init cur) (int (?p div 8)) ?b = Some (init (cur[?p div 8 := ?b]))"
      using r(2) by (simp add: wr_def init_def map_update)
    ultimately have "assemble_step tab i r = Some (int (Suc ?p div 8), cur ! Suc (?p div 8), 0, init (cur[?p div 8 := ?b]))"
      using True assms(5) by (simp add: assemble_step_def r(1) nxt Let_def)
    moreover have "cur[?p div 8 := ?b, Suc (?p div 8) := cur ! Suc (?p div 8)] = cur[?p div 8 := ?b]"
      by (simp add: list_update_same_conv next_room [unfolded nxt, folded len])
    ultimately show ?thesis
      using stored nxt next_room len i by (auto simp: assembling_def nat_add_distrib)
  next
    case False
    then have nxt: "Suc ?p div 8 = ?p div 8" "Suc ?p mod 8 = Suc (?p mod 8)" by (simp_all add: div_Suc mod_Suc)
    have "assemble_step tab i r = Some (int (?p div 8), ?b, Suc (?p mod 8), init cur)"
      using False assms(5) by (simp add: assemble_step_def r(1) Let_def)
    with stored nxt r(2) i show ?thesis by (auto simp: assembling_def nat_add_distrib)
  qed
qed

lemma assemble_assembles:
  assumes "a + length vs < 8 * length bs"
    and "\<And>k. k < length vs \<Longrightarrow> \<exists>v. rd tab (int k) = Some v \<and> (v \<noteq> 0) = vs ! k"
  shows "\<exists>bs'. assemble_io_status (int a) (int (length vs)) tab (init bs) = Some (init bs') \<and> assembled bs a vs bs'"
proof -
  have a: "a div 8 < length bs" using assms(1) by (simp add: div_less_iff_less_mult)
  then have b0: "rd (init bs) (int a div 8) = Some (bs ! (a div 8))"
    using rd_init [of "int (a div 8)" bs] by (simp add: nat_div_distrib zdiv_int)
  have "assembling bs a vs 0 (int a div 8, bs ! (a div 8), nat (int a mod 8), init bs)"
    using a by (auto simp: assembling_def assembled_def zdiv_int nat_mod_distrib)
  from for_range_total [of 0 "int (length vs)" "assembling bs a vs", OF _ this, of "assemble_step tab"]
    assembling_step [OF _ _ _ assms(1)] assms(2)
  obtain t where t: "for_range 0 (int (length vs)) (assemble_step tab)
      (int a div 8, bs ! (a div 8), nat (int a mod 8), init bs) = Some t" "assembling bs a vs (int (length vs)) t"
    by (metis nonneg_int_cases of_nat_0_le_iff of_nat_less_iff nat_int)
  then obtain b cur where "t = (int ((a + length vs) div 8), b, (a + length vs) mod 8, init cur)"
    "(a + length vs) div 8 < length cur" "assembled bs a vs (cur[(a + length vs) div 8 := b])"
    by (auto simp: assembling_def)
  with t(1) b0 show ?thesis
    by (auto simp: assemble_io_status_def wr_def init_def map_update intro!: exI [of _ "cur[(a + length vs) div 8 := b]"])
qed


text \<open>
  Packing values into the region sets exactly the addressed bits, each to whether its value
  is nonzero, and keeps every other bit, provided a byte follows the one that holds the last
  bit's successor: the code reads and rewrites that byte even when the run ends at a byte
  boundary.
\<close>

theorem assemble_io_status_correct:
  assumes "a + length vs < 8 * length bs" and "length vs \<le> length tab"
    and "vs = map (\<lambda>v. v \<noteq> 0) (take (length vs) tab)"
  shows "\<exists>bs'. assemble_io_status (int a) (int (length vs)) (init tab) (init bs) = Some (init bs') \<and>
     length bs' = length bs \<and>
     (\<forall>k < 8 * length bs. region_bit bs' k = (if a \<le> k \<and> k < a + length vs then vs ! (k - a) else region_bit bs k))"
proof -
  have "vs ! k = (tab ! k \<noteq> 0)" if "k < length vs" for k
    using that assms(2) by (subst assms(3)) simp
  with assemble_assembles [OF assms(1), of "init tab"] assms(2) show ?thesis
    unfolding assembled_def by (simp add: rd_init)
qed

theorem assemble_io_status_correct_witness:
  "\<exists>bs'. assemble_io_status (int 6) (int (length [True, False, True])) (init [1, 0, 9]) (init [0xFF, 0xFF])
      = Some (init bs') \<and> length bs' = length [0xFF, 0xFF :: u8] \<and>
     (\<forall>k < 8 * length [0xFF, 0xFF :: u8]. region_bit bs' k
        = (if 6 \<le> k \<and> k < 6 + length [True, False, True] then [True, False, True] ! (k - 6) else region_bit [0xFF, 0xFF] k))"
  by (rule assemble_io_status_correct) simp_all

section \<open>Polling a line\<close>

lemma idle_setAddr:
  assumes "idle os line modules st" "a \<le> 247"
  shows "\<exists>st'. setAddr os a st = Some st' \<and> idle os line modules st' \<and> mb_slave (ctx st') = uint a"
proof -
  have "uint a \<le> 247" using assms(2) by (simp add: word_le_def)
  with assms(1) show ?thesis
    by (auto simp: setAddr_def modbus_set_slave_def rtu_set_slave_def set_ctx_def idle_def bus_def Let_def
      recovery_protocol_def split: sum.split)
qed

lemma read_input_bits_idle:
  assumes "idle os line modules st" "mb_slave (ctx st) = uint a" "modules a = Some d"
    and n: "1 \<le> n" "n \<le> 255" "n \<le> length dest" "addr < 65536"
  shows "\<exists>rc st'. modbus_read_input_bits os (modbus_rtu_backend os) (int addr) (int n) dest st
      = Some ((rc, if addr + n \<le> length (inputs d) then fill dest 0 (map of_bool (take n (drop addr (inputs d)))) else dest), st') \<and>
     idle os line modules st' \<and> ctx st' = ctx st"
proof -
  let ?q = "request5 (byte 2) (int addr) (int n)"
  have b: "byte 2 = 2" by (simp add: byte_def)
  have "serve ?q d = (Some (serve_bits ?q (inputs d)), d)"
    by (rule serve_read) (simp add: b)
  from idle_exchange [OF assms(1,3) this assms(2)]
  have ex: "exchange os (sys_write os) (sys_read os) line st (rtu_frame 0 (byte (mb_slave (ctx st))) ?q)
      (rtu_frame 0 a (serve_bits ?q (inputs d)), modules)"
    by (simp only: fun_upd_idem [of modules a, OF assms(3)])
  have "mb_slave (ctx st) \<noteq> -1" using assms(2) uint_ge_0 [of a] by linarith
  moreover have "n \<le> 2000" using n(2) by simp
  ultimately obtain st' where
    r: "read_io_status os (modbus_rtu_backend os) 2 (int addr) (int n) dest st
      = Some (if addr + n \<le> length (inputs d)
              then (int ((n + 7) div 8), fill dest 0 (map of_bool (take n (drop addr (inputs d))))) else (-1, dest), st')"
    and s: "settled line modules st (if addr + n \<le> length (inputs d) then Inr (int n) else Inl (MODBUS_ENOBASE + 2)) st'"
    using rtu.read_bits_served [OF _ _ n(1) _ n(3,4) ex] by blast
  from settled_idle [OF assms(1) s] s r n(2) show ?thesis
    by (auto simp: modbus_read_input_bits_def settled_def)
qed

text \<open>What a poll of discrete inputs finds in the buffer: the slave's inputs, or after a failed read
  whatever was there.\<close>

definition polled :: "device \<Rightarrow> consen_task_cfg_t \<Rightarrow> u8 list \<Rightarrow> bool list" where
  "polled d t buf =
     (let a = unat (task_addr t); n = unat (data_num t) in
      if a + n \<le> length (inputs d) then take n (drop a (inputs d)) else map (\<lambda>v. v \<noteq> 0) (take n buf))"



definition some_task :: consen_task_cfg_t where
  "some_task = \<lparr>task_com = 0, task_id = 1, slave_id = 2, cmd_id = 2, task_addr = 0, data_num = 5, task_offset = 6\<rparr>"


section \<open>Task lists\<close>

text \<open>
  The task lists are, in the order of the file, the valid lines for line 0 and line 1;
  other lines are skipped.
\<close>

theorem parseTask_splits:
  "parseTask ps ss = (filter (\<lambda>t. task_com t = 0) (List.map_filter (parse_task ps) ss),
                      filter (\<lambda>t. task_com t = 1) (List.map_filter (parse_task ps) ss))"
  by (induction ss) (auto simp: map_filter_simps split: option.split)

lemma parseCom_map_filter: "parseCom ps ss = List.map_filter (parse_com ps) ss"
  by (induction ss) (auto simp: map_filter_simps split: option.split)

text \<open>The settings that count are those of the last entry for the line.\<close>

lemma pick_com_last:
  "pick_com cfgs n c = (case filter (\<lambda>cfg. com_id cfg = n) cfgs of [] \<Rightarrow> c | cs \<Rightarrow> Some (last cs))"
  by (induction cfgs arbitrary: c) (auto split: list.splits)

end
