(* ===== verification/Channel_Manager.thy ===== *)
theory Channel_Manager
  imports Consen
begin

text \<open>
  \<open>system/src/ModbusChannelManager.cpp\<close>: the modules behind an SPI co-processor. A configuration of
  module types lays out one frame, 32 bytes of module status, the data of every module, and a
  checksum of four bytes, which the manager exchanges with the co-processor; data channels move the
  modules' data between the frame and the shared memory of the controller.
\<close>

section \<open>Types\<close>

definition SPI_MODULE_UNUSED :: u8 where [simp]: "SPI_MODULE_UNUSED = 0x30"
definition SPI_MODULE_DI :: u8 where [simp]: "SPI_MODULE_DI = 0x31"
definition SPI_MODULE_DO :: u8 where [simp]: "SPI_MODULE_DO = 0x32"
definition SPI_MODULE_AI :: u8 where [simp]: "SPI_MODULE_AI = 0x33"
definition SPI_MODULE_AO :: u8 where [simp]: "SPI_MODULE_AO = 0x34"
definition MODULE_STATUS_OK :: u8 where [simp]: "MODULE_STATUS_OK = 3"
definition MODULE_MAX_NUM :: nat where [simp]: "MODULE_MAX_NUM = 32"
definition SPI_BUF_LEN :: nat where [simp]: "SPI_BUF_LEN = 2048"
definition SHARE_MEMORY_IO_CONFIG_LEN :: nat where [simp]: "SHARE_MEMORY_IO_CONFIG_LEN = 1024"

definition MODULE_NOT_PRESENT :: u8 where [simp]: "MODULE_NOT_PRESENT = 0"
definition MODULE_DI :: u8 where [simp]: "MODULE_DI = 1"
definition MODULE_DO :: u8 where [simp]: "MODULE_DO = 2"
definition MODULE_AI :: u8 where [simp]: "MODULE_AI = 3"
definition MODULE_AO :: u8 where [simp]: "MODULE_AO = 4"
definition MODULE_TYPE_DONE :: u8 where [simp]: "MODULE_TYPE_DONE = 255"
definition MODULE_NOT_FOUND :: u8 where [simp]: "MODULE_NOT_FOUND = 255"

text \<open>
  The parts of the shared memory the manager uses, as bytes: two for each analogue value. The
  health flags are followed by a reserved area, which is part of \<open>health\<close> here because the
  initialisation runs into it.
\<close>

record share_memory_area =
  input_di :: "u8 cbuf"
  input_ai :: "u8 cbuf"
  output_do :: "u8 cbuf"
  output_ao :: "u8 cbuf"
  health :: "u8 cbuf"
  channel_types :: "u8 list"

text \<open>
  A channel: its type (one of the constants above), the position of its data in the shared memory
  area of that type (bytes), the position in the receive buffer for inputs or the send buffer for
  outputs, and the position of the module's status in the receive buffer. The pointers of the code
  are these positions; its length field is never read.
\<close>

record data_channel =
  ch_type :: u8
  ch_source :: nat
  ch_sink :: nat
  ch_status :: nat

record manager =
  module_conf :: "u8 cbuf"
  spi_buf :: "u8 cbuf"
  spi_buf_rx :: "u8 cbuf"
  spi_transfer_len :: nat
  channels :: "data_channel list"

definition new_manager :: manager where
  "new_manager = \<lparr>module_conf = init (replicate MODULE_MAX_NUM SPI_MODULE_UNUSED),
     spi_buf = init (replicate SPI_BUF_LEN 0), spi_buf_rx = fresh SPI_BUF_LEN, spi_transfer_len = 0, channels = []\<rparr>"

section \<open>Laying out the frame\<close>

record counters =
  di_counter :: nat
  ai_counter :: nat
  do_counter :: nat
  ao_counter :: nat
  spi_counter :: nat

definition add_module :: "nat \<Rightarrow> u8 \<Rightarrow> manager \<times> counters \<Rightarrow> (manager \<times> counters) option" where
  "add_module i ty r =
     (case r of (m, c) \<Rightarrow>
        if ty = MODULE_DI then do {
          conf \<leftarrow> wr (module_conf m) (int i) SPI_MODULE_DI;
          let ch = \<lparr>ch_type = SPI_MODULE_DI, ch_source = di_counter c, ch_sink = 32 + spi_counter c, ch_status = i\<rparr>;
          Some (m\<lparr>module_conf := conf, channels := channels m @ [ch]\<rparr>,
                c\<lparr>di_counter := di_counter c + 3, spi_counter := spi_counter c + 3\<rparr>) }
        else if ty = MODULE_AI then do {
          conf \<leftarrow> wr (module_conf m) (int i) SPI_MODULE_AI;
          let ch = \<lparr>ch_type = SPI_MODULE_AI, ch_source = 2 * ai_counter c, ch_sink = 32 + spi_counter c, ch_status = i\<rparr>;
          Some (m\<lparr>module_conf := conf, channels := channels m @ [ch]\<rparr>,
                c\<lparr>ai_counter := ai_counter c + 16, spi_counter := spi_counter c + 32\<rparr>) }
        else if ty = MODULE_DO then do {
          conf \<leftarrow> wr (module_conf m) (int i) SPI_MODULE_DO;
          let ch = \<lparr>ch_type = SPI_MODULE_DO, ch_source = do_counter c, ch_sink = 32 + spi_counter c, ch_status = i\<rparr>;
          Some (m\<lparr>module_conf := conf, channels := channels m @ [ch]\<rparr>,
                c\<lparr>do_counter := do_counter c + 3, spi_counter := spi_counter c + 3\<rparr>) }
        else if ty = MODULE_AO then do {
          conf \<leftarrow> wr (module_conf m) (int i) SPI_MODULE_AO;
          let ch = \<lparr>ch_type = SPI_MODULE_AO, ch_source = 2 * ao_counter c, ch_sink = 32 + spi_counter c, ch_status = i\<rparr>;
          Some (m\<lparr>module_conf := conf, channels := channels m @ [ch]\<rparr>,
                c\<lparr>ao_counter := ao_counter c + 8, spi_counter := spi_counter c + 16\<rparr>) }
        else do {
          conf \<leftarrow> wr (module_conf m) (int i) SPI_MODULE_UNUSED;
          Some (m\<lparr>module_conf := conf\<rparr>, c) })"

fun add_modules :: "nat \<Rightarrow> u8 list \<Rightarrow> manager \<times> counters \<Rightarrow> (manager \<times> counters) option" where
  "add_modules i [] r = Some r"
| "add_modules i (ty # tys) r =
     (if ty = MODULE_TYPE_DONE then Some r
      else if ty = MODULE_NOT_PRESENT then add_modules (i + 1) tys r
      else do { r \<leftarrow> add_module i ty r; add_modules (i + 1) tys r })"

text \<open>The last entry of the configuration is never looked at.\<close>

definition manager_init :: "share_memory_area \<Rightarrow> manager \<Rightarrow> (manager \<times> share_memory_area) option" where
  "manager_init area m =
     do { buf \<leftarrow> wrs (spi_buf m) 0 (replicate 32 0xFF);
          (m, c) \<leftarrow> add_modules 0 (take (SHARE_MEMORY_IO_CONFIG_LEN - 1) (channel_types area))
             (m\<lparr>spi_buf := buf\<rparr>,
              \<lparr>di_counter = 0, ai_counter = 0, do_counter = 0, ao_counter = 0, spi_counter = 0\<rparr>);
          h \<leftarrow> wrs (health area) 0 (replicate (SHARE_MEMORY_IO_CONFIG_LEN - 1) MODULE_NOT_FOUND);
          Some (m\<lparr>spi_transfer_len := 32 + spi_counter c + 4\<rparr>, area\<lparr>health := h\<rparr>) }"

definition reconfig :: "share_memory_area \<Rightarrow> manager \<Rightarrow> (manager \<times> share_memory_area) option" where
  "reconfig area m = manager_init area (m\<lparr>channels := []\<rparr>)"

section \<open>Moving the data\<close>

text \<open>\<open>dst[i] = src[j + 1]; dst[i + 1] = src[j]\<close>\<close>

definition swap_assign :: "u8 cbuf \<Rightarrow> int \<Rightarrow> u8 cbuf \<Rightarrow> int \<Rightarrow> u8 cbuf option" where
  "swap_assign dst i src j =
     do { x \<leftarrow> rd src (j + 1); dst \<leftarrow> wr dst i x; y \<leftarrow> rd src j; wr dst (i + 1) y }"

definition copy_bytes :: "u8 cbuf \<Rightarrow> nat \<Rightarrow> u8 cbuf \<Rightarrow> nat \<Rightarrow> u8 cbuf option" where
  "copy_bytes dst at src from =
     for_range 0 3 (\<lambda>i dst. do { x \<leftarrow> rd src (int from + i); wr dst (int at + i) x }) dst"

definition swap_words :: "int \<Rightarrow> u8 cbuf \<Rightarrow> nat \<Rightarrow> u8 cbuf \<Rightarrow> nat \<Rightarrow> u8 cbuf option" where
  "swap_words n dst at src from =
     for_range 0 n (\<lambda>i dst. swap_assign dst (int at + 2 * i) src (int from + 2 * i)) dst"

definition read_channel :: "manager \<Rightarrow> data_channel \<Rightarrow> share_memory_area \<Rightarrow> share_memory_area option" where
  "read_channel m ch area =
     do { s \<leftarrow> rd (spi_buf_rx m) (int (ch_status ch));
          if s = MODULE_STATUS_OK then
            (if ch_type ch = SPI_MODULE_DI then do {
               b \<leftarrow> copy_bytes (input_di area) (ch_source ch) (spi_buf_rx m) (ch_sink ch);
               Some (area\<lparr>input_di := b\<rparr>) }
             else if ch_type ch = SPI_MODULE_AI then do {
               b \<leftarrow> swap_words 16 (input_ai area) (ch_source ch) (spi_buf_rx m) (ch_sink ch);
               Some (area\<lparr>input_ai := b\<rparr>) }
             else Some area)
          else Some area }"

fun read_channels :: "manager \<Rightarrow> data_channel list \<Rightarrow> share_memory_area \<Rightarrow> share_memory_area option" where
  "read_channels m [] area = Some area"
| "read_channels m (ch # chs) area = do { area \<leftarrow> read_channel m ch area; read_channels m chs area }"

definition readAll :: "manager \<Rightarrow> share_memory_area \<Rightarrow> share_memory_area option" where
  "readAll m area = read_channels m (channels m) area"

definition write_channel :: "share_memory_area \<Rightarrow> data_channel \<Rightarrow> manager \<Rightarrow> manager option" where
  "write_channel area ch m =
     do { s \<leftarrow> rd (spi_buf_rx m) (int (ch_status ch));
          if s = MODULE_STATUS_OK then
            (if ch_type ch = SPI_MODULE_DO then do {
               b \<leftarrow> copy_bytes (spi_buf m) (ch_sink ch) (output_do area) (ch_source ch);
               Some (m\<lparr>spi_buf := b\<rparr>) }
             else if ch_type ch = SPI_MODULE_AO then do {
               b \<leftarrow> swap_words 8 (spi_buf m) (ch_sink ch) (output_ao area) (ch_source ch);
               Some (m\<lparr>spi_buf := b\<rparr>) }
             else Some m)
          else Some m }"

fun write_channels :: "share_memory_area \<Rightarrow> data_channel list \<Rightarrow> manager \<Rightarrow> manager option" where
  "write_channels area [] m = Some m"
| "write_channels area (ch # chs) m = do { m \<leftarrow> write_channel area ch m; write_channels area chs m }"

definition writeAll :: "share_memory_area \<Rightarrow> manager \<Rightarrow> manager option" where
  "writeAll area m = write_channels area (channels m) m"

section \<open>Exchanging frames\<close>

text \<open>
  The transfer of a frame (the SPI driver) and the checksum (the Poco library) are parameters.
  Words are stored with the low byte first.
\<close>

definition bytes_of_word :: "u32 \<Rightarrow> u8 list" where
  "bytes_of_word v = [ucast v, ucast (drop_bit 8 v), ucast (drop_bit 16 v), ucast (drop_bit 24 v)]"

definition word_of_bytes :: "u8 list \<Rightarrow> u32" where
  "word_of_bytes bs =
     ucast (bs ! 0) OR push_bit 8 (ucast (bs ! 1)) OR push_bit 16 (ucast (bs ! 2)) OR push_bit 24 (ucast (bs ! 3))"

text \<open>The value returned is the checksum as received, in reversed order; a mismatch is only printed.\<close>

definition spi_transfer ::
  "(u8 list \<Rightarrow> u32) \<Rightarrow> (u8 list \<Rightarrow> 'w \<Rightarrow> u8 list \<times> 'w) \<Rightarrow> manager \<Rightarrow> 'w \<Rightarrow> ((u32 \<times> manager) \<times> 'w) option" where
  "spi_transfer crc32 xfer m w =
     do { let n = spi_transfer_len m;
          data \<leftarrow> rds (spi_buf m) 0 (n - 4);
          tx \<leftarrow> wrs (spi_buf m) (int (n - 4)) (bytes_of_word (crc32 data));
          frame \<leftarrow> rds tx 0 n;
          let (rx, w) = xfer frame w;
          rx \<leftarrow> wrs (spi_buf_rx m) 0 rx;
          trailer \<leftarrow> rds rx (int (n - 4)) 4;
          Some ((word_of_bytes (rev trailer), m\<lparr>spi_buf := tx, spi_buf_rx := rx\<rparr>), w) }"

definition spi_checksum ::
  "(u8 list \<Rightarrow> u32) \<Rightarrow> (u8 list \<Rightarrow> 'w \<Rightarrow> u8 list \<times> 'w) \<Rightarrow> manager \<Rightarrow> 'w \<Rightarrow> (u32 \<times> 'w) option" where
  "spi_checksum crc32 xfer m w =
     do { data \<leftarrow> rds (spi_buf_rx m) 0 (spi_transfer_len m - 4);
          let tx = bytes_of_word (crc32 data);
          let (rx, w) = xfer tx w;
          Some (word_of_bytes tx, w) }"

section \<open>The handshake\<close>

text \<open>The serial line to the co-processor, with its waiting times left out.\<close>

record 'w serial =
  ser_write :: "string \<Rightarrow> 'w \<Rightarrow> 'w"
  ser_read :: "'w \<Rightarrow> string \<times> 'w"

definition CRLF :: string where "CRLF = [CHR 0x0D, CHR 0x0A]"

definition send_cmd_conf :: "(string \<Rightarrow> u32) \<Rightarrow> 'w serial \<Rightarrow> manager \<Rightarrow> 'w \<Rightarrow> 'w option" where
  "send_cmd_conf crc32 sp m w =
     do { conf \<leftarrow> rds (module_conf m) 0 MODULE_MAX_NUM;
          let data = ''CONF:'' @ map (\<lambda>b. char_of (unat b)) conf;
          let w = ser_write sp data w;
          let w = ser_write sp (map (\<lambda>b. char_of (unat b)) (bytes_of_word (crc32 data))) w;
          Some (ser_write sp CRLF w) }"

definition handshake :: "(string \<Rightarrow> u32) \<Rightarrow> 'w serial \<Rightarrow> manager \<Rightarrow> 'w \<Rightarrow> (bool \<times> 'w) option" where
  "handshake crc32 sp m w =
     do { let w = ser_write sp (''STOP'' @ CRLF) w;
          let (response, w) = ser_read sp w;
          if response \<noteq> ''STOP_OK'' @ CRLF then Some (False, w)
          else do {
            w \<leftarrow> send_cmd_conf crc32 sp m w;
            let (response, w) = ser_read sp w;
            if response \<noteq> ''CONF_OK'' @ CRLF then Some (False, w)
            else do {
              let w = ser_write sp (''START'' @ CRLF) w;
              let (response, w) = ser_read sp w;
              if response \<noteq> ''START_OK'' @ CRLF then Some (False, w)
              else Some (True, w) } } }"


section \<open>The layout\<close>

definition width_of :: "u8 \<Rightarrow> nat" where
  "width_of ty = (if ty = SPI_MODULE_AI then 32 else if ty = SPI_MODULE_AO then 16 else 3)"

abbreviation ch_width :: "data_channel \<Rightarrow> nat" where
  "ch_width ch \<equiv> width_of (ch_type ch)"

text \<open>Channels in order: later ones lie behind earlier ones in the frame, and in their area if they
  are of the same type.\<close>

definition behind :: "data_channel \<Rightarrow> data_channel \<Rightarrow> bool" where
  "behind a b \<longleftrightarrow> ch_sink a + ch_width a \<le> ch_sink b \<and> ch_status a < ch_status b \<and>
     (ch_type a = ch_type b \<longrightarrow> ch_source a + ch_width a \<le> ch_source b)"

text \<open>The number of bytes of an area that are used so far.\<close>

definition used :: "counters \<Rightarrow> u8 \<Rightarrow> nat" where
  "used c ty = (if ty = SPI_MODULE_DI then di_counter c else if ty = SPI_MODULE_AI then 2 * ai_counter c
     else if ty = SPI_MODULE_DO then do_counter c else if ty = SPI_MODULE_AO then 2 * ao_counter c else 0)"

definition known :: "u8 set" where
  "known = {SPI_MODULE_DI, SPI_MODULE_AI, SPI_MODULE_DO, SPI_MODULE_AO}"

text \<open>Where a channel's data lies.\<close>

definition placed :: "counters \<Rightarrow> nat \<Rightarrow> data_channel \<Rightarrow> bool" where
  "placed c i ch \<longleftrightarrow> ch_type ch \<in> known \<and> ch_status ch < i \<and> ch_status ch < 32 \<and>
     32 \<le> ch_sink ch \<and> ch_sink ch + ch_width ch \<le> 32 + spi_counter c \<and>
     ch_source ch + ch_width ch \<le> used c (ch_type ch)"

definition laid_out :: "nat \<Rightarrow> manager \<times> counters \<Rightarrow> bool" where
  "laid_out i r \<longleftrightarrow>
     sorted_wrt behind (channels (fst r)) \<and> (\<forall>ch \<in> set (channels (fst r)). placed (snd r) i ch) \<and>
     length (module_conf (fst r)) = 32 \<and> spi_counter (snd r) \<le> 32 * min i 32 \<and>
     (\<forall>ty \<in> known. used (snd r) ty \<le> width_of ty * min i 32)"

lemma laid_out_mono:
  assumes "laid_out i r" "i \<le> j"
  shows "laid_out j r"
proof -
  have "min i 32 \<le> min j 32" using assms(2) by auto
  then have "k * min i 32 \<le> k * min j 32" for k :: nat by (rule mult_le_mono2)
  moreover have "placed (snd r) j ch" if "placed (snd r) i ch" for ch
    using that assms(2) by (auto simp: placed_def)
  ultimately show ?thesis
    using assms(1) unfolding laid_out_def by (meson order_trans)
qed

lemma laid_out_add:
  assumes lo: "laid_out i (m, c)" and "i < 32" "length conf = 32" "ty \<in> known"
    and ch: "ch = \<lparr>ch_type = ty, ch_source = used c ty, ch_sink = 32 + spi_counter c, ch_status = i\<rparr>"
    and spi: "spi_counter c' = spi_counter c + width_of ty"
    and used: "used c' = (used c)(ty := used c ty + width_of ty)"
  shows "laid_out (Suc i) (m\<lparr>module_conf := conf, channels := channels m @ [ch]\<rparr>, c')"
proof -
  have w: "width_of ty \<le> 32" by (simp add: width_of_def)
  have min: "min i 32 = i" "min (Suc i) 32 = Suc i" "min i 31 = i" using assms(2) by simp_all
  have old: "placed c' (Suc i) x \<and> behind x ch" if "x \<in> set (channels m)" for x
  proof -
    have "placed c i x" using lo that by (simp add: laid_out_def)
    then show ?thesis
      using ch spi used by (auto simp: placed_def behind_def)
  qed
  have new: "placed c' (Suc i) ch"
    using ch spi used assms(2,4) by (simp add: placed_def)
  have "used c' t \<le> width_of t * Suc i" if "t \<in> known" for t
    using lo that used min(1) by (cases "t = ty") (auto simp: laid_out_def intro: le_trans)
  moreover have "spi_counter c' \<le> 32 * Suc i"
    using lo spi w min(1) by (simp add: laid_out_def)
  ultimately show ?thesis
    using lo old new assms(3) by (simp add: laid_out_def sorted_wrt_append min)
qed

lemma add_module_laid_out:
  assumes "add_module i ty r = Some r'" "laid_out i r"
  shows "laid_out (Suc i) r'"
proof -
  obtain m c where r: "r = (m, c)" by fastforce
  have len: "length (module_conf m) = 32" using assms(2) r by (simp add: laid_out_def)
  have wr: "i < 32 \<and> length conf = 32" if "wr (module_conf m) (int i) x = Some conf" for x conf
    using that len by (auto simp: wr_def split: if_splits)
  note add = laid_out_add [OF assms(2) [unfolded r]]
  consider "ty = MODULE_DI" | "ty = MODULE_AI" | "ty = MODULE_DO" | "ty = MODULE_AO"
    | "ty \<notin> {MODULE_DI, MODULE_AI, MODULE_DO, MODULE_AO}" by auto
  then show ?thesis
  proof cases
    case 5
    with assms(1) r obtain conf where "wr (module_conf m) (int i) SPI_MODULE_UNUSED = Some conf"
      "r' = (m\<lparr>module_conf := conf\<rparr>, c)" by (auto simp: add_module_def Option.bind_eq_Some_conv)
    with laid_out_mono [OF assms(2), of "Suc i"] wr r show ?thesis by (simp add: laid_out_def)
  next
    case 1
    with assms(1) r show ?thesis
      by (auto simp: add_module_def Option.bind_eq_Some_conv Let_def known_def used_def width_of_def fun_eq_iff
          dest!: wr intro!: add [where ty = SPI_MODULE_DI])
  next
    case 2
    with assms(1) r show ?thesis
      by (auto simp: add_module_def Option.bind_eq_Some_conv Let_def known_def used_def width_of_def fun_eq_iff
          dest!: wr intro!: add [where ty = SPI_MODULE_AI])
  next
    case 3
    with assms(1) r show ?thesis
      by (auto simp: add_module_def Option.bind_eq_Some_conv Let_def known_def used_def width_of_def fun_eq_iff
          dest!: wr intro!: add [where ty = SPI_MODULE_DO])
  next
    case 4
    with assms(1) r show ?thesis
      by (auto simp: add_module_def Option.bind_eq_Some_conv Let_def known_def used_def width_of_def fun_eq_iff
          dest!: wr intro!: add [where ty = SPI_MODULE_AO])
  qed
qed

lemma add_modules_laid_out:
  "add_modules i tys r = Some r' \<Longrightarrow> laid_out i r \<Longrightarrow> laid_out (i + length tys) r'"
proof (induction i tys r rule: add_modules.induct)
  case (2 i ty tys r)
  from 2(3) consider "ty = MODULE_TYPE_DONE" "r' = r" | "ty \<noteq> MODULE_TYPE_DONE" "ty = MODULE_NOT_PRESENT"
      "add_modules (i + 1) tys r = Some r'"
    | r1 where "ty \<noteq> MODULE_TYPE_DONE" "ty \<noteq> MODULE_NOT_PRESENT" "add_module i ty r = Some r1"
      "add_modules (i + 1) tys r1 = Some r'"
    by (auto simp: Option.bind_eq_Some_conv split: if_splits)
  then show ?case
  proof cases
    case stop: 1
    then show ?thesis using laid_out_mono [OF 2(4), of "i + length (ty # tys)"] by simp
  next
    case skip: 2
    with 2(1) laid_out_mono [OF 2(4), of "Suc i"] show ?thesis by simp
  next
    case step: 3
    with 2(2) add_module_laid_out [OF step(3) 2(4)] show ?thesis by simp
  qed
qed simp


text \<open>The sizes of the areas in the shared memory.\<close>

definition area_size :: "u8 \<Rightarrow> nat" where
  "area_size ty = (if ty = SPI_MODULE_AI then 2048 else 512)"

lemma manager_init_layout_lemma:
  assumes "manager_init area m = Some (m', area')" and "channels m = []" and "length (module_conf m) = 32"
  shows "sorted_wrt behind (channels m') \<and> spi_transfer_len m' \<le> 1060 \<and>
     (\<forall>ch \<in> set (channels m'). ch_status ch < 32 \<and> 32 \<le> ch_sink ch \<and>
        ch_sink ch + ch_width ch \<le> spi_transfer_len m' - 4 \<and>
        ch_source ch + ch_width ch \<le> area_size (ch_type ch))"
proof -
  from assms(1) obtain buf m1 c where run: "add_modules 0 (take 1023 (channel_types area)) (m\<lparr>spi_buf := buf\<rparr>,
      \<lparr>di_counter = 0, ai_counter = 0, do_counter = 0, ao_counter = 0, spi_counter = 0\<rparr>) = Some (m1, c)"
    and m': "m' = m1\<lparr>spi_transfer_len := 32 + spi_counter c + 4\<rparr>"
    by (auto simp: manager_init_def Option.bind_eq_Some_conv)
  have "laid_out 0 (m\<lparr>spi_buf := buf\<rparr>, \<lparr>di_counter = 0, ai_counter = 0, do_counter = 0, ao_counter = 0, spi_counter = 0\<rparr>)"
    using assms(2,3) by (simp add: laid_out_def used_def)
  from add_modules_laid_out [OF run this] have lo: "laid_out (length (take 1023 (channel_types area))) (m1, c)"
    by simp
  have cap: "width_of ty * min i 32 \<le> area_size ty" if "ty \<in> known" for ty i
    using that by (auto simp: known_def width_of_def area_size_def)
  have "ch_source ch + ch_width ch \<le> area_size (ch_type ch)" if "ch \<in> set (channels m1)" for ch
    using lo cap [of "ch_type ch"] that unfolding laid_out_def placed_def by (fastforce intro: order_trans)
  with lo show ?thesis
    by (auto simp: m' laid_out_def placed_def)
qed

text \<open>
  C32: The initialisation lays the channels out without overlap: in the order of the modules,
  the data of a channel lies behind that of the channels before it, in the frame and in its area
  of the shared memory, inside the payload of the frame, which has at most 1060 bytes, and
  inside the area.
\<close>

theorem manager_init_layout:
  assumes "manager_init area m = Some (m', area')" and "channels m = []" and "length (module_conf m) = 32"
  shows "sorted_wrt behind (channels m') \<and> spi_transfer_len m' \<le> 1060 \<and>
     (\<forall>ch \<in> set (channels m'). ch_status ch < 32 \<and> 32 \<le> ch_sink ch \<and>
        ch_sink ch + ch_width ch \<le> spi_transfer_len m' - 4 \<and>
        ch_source ch + ch_width ch \<le> area_size (ch_type ch))"
  by (rule manager_init_layout_lemma [OF assms])

section \<open>Reading all channels\<close>

definition region :: "share_memory_area \<Rightarrow> u8 \<Rightarrow> u8 cbuf" where
  "region area ty = (if ty = SPI_MODULE_DI then input_di area else if ty = SPI_MODULE_AI then input_ai area else [])"

definition input_types :: "u8 set" where "input_types = {SPI_MODULE_DI, SPI_MODULE_AI}"

text \<open>Analogue values change their byte order on the way.\<close>

definition swapped :: "u8 \<Rightarrow> nat \<Rightarrow> nat" where
  "swapped ty j = (if ty = SPI_MODULE_DI \<or> ty = SPI_MODULE_DO then j else if even j then j + 1 else j - 1)"

definition healthy :: "manager \<Rightarrow> data_channel \<Rightarrow> bool" where
  "healthy m ch \<longleftrightarrow> rd (spi_buf_rx m) (int (ch_status ch)) = Some MODULE_STATUS_OK"

lemma rd_nth: "i < length b \<Longrightarrow> rd b (int i) = b ! i"
  by (simp add: rd_def)

lemma wr_nat: "i < length b \<Longrightarrow> wr b (int i) x = Some (b[i := Some x])"
  by (simp add: wr_def)

lemma all_set: "None \<notin> set b \<Longrightarrow> i < length b \<Longrightarrow> \<exists>x. b ! i = Some x"
  by (metis nth_mem option.exhaust)

lemma copy_bytes_run:
  assumes "at + 3 \<le> length dst" "from + 3 \<le> length src" "None \<notin> set src"
  shows "\<exists>d. copy_bytes dst at src from = Some d \<and> length d = length dst \<and>
     (\<forall>p < length dst. d ! p = (if at \<le> p \<and> p < at + 3 then src ! (from + (p - at)) else dst ! p))"
proof -
  let ?I = "\<lambda>i d. length d = length dst \<and>
     (\<forall>p < length dst. d ! p = (if at \<le> p \<and> p < at + nat i then src ! (from + (p - at)) else dst ! p))"
  have "\<exists>d. for_range 0 3 (\<lambda>i dst. do { x \<leftarrow> rd src (int from + i); wr dst (int at + i) x }) dst = Some d \<and> ?I 3 d"
  proof (rule for_range_total)
    fix i :: int and u
    assume i: "0 \<le> i" "i < 3" and inv: "?I i u"
    from i obtain k where k: "i = int k" "k < 3" by (metis nonneg_int_cases of_nat_less_numeral_iff)
    with all_set [OF assms(3), of "from + k"] assms(2) obtain x where x: "src ! (from + k) = Some x" by auto
    have "rd src (int (from + k)) = Some x" using x k assms(2) by (subst rd_nth) auto
    moreover have "wr u (int (at + k)) x = Some (u[at + k := Some x])"
      using inv k assms(1) by (simp only: wr_nat)
    moreover have "int at + i = int (at + k)" "int from + i = int (from + k)" using k by simp_all
    ultimately show "\<exists>v. do { x \<leftarrow> rd src (int from + i); wr u (int at + i) x } = Some v \<and> ?I (i + 1) v"
      using inv k x assms(1) by (auto simp: nth_list_update less_Suc_eq nat_add_distrib)
  qed auto
  then show ?thesis by (simp add: copy_bytes_def)
qed

lemma swap_words_run:
  assumes "at + 2 * n \<le> length dst" "from + 2 * n \<le> length src" "None \<notin> set src"
  shows "\<exists>d. swap_words (int n) dst at src from = Some d \<and> length d = length dst \<and>
     (\<forall>p < length dst. d ! p = (if at \<le> p \<and> p < at + 2 * n
        then src ! (from + (if even (p - at) then p - at + 1 else p - at - 1)) else dst ! p))"
proof -
  let ?v = "\<lambda>p. src ! (from + (if even (p - at) then p - at + 1 else p - at - 1))"
  let ?I = "\<lambda>i d. length d = length dst \<and>
     (\<forall>p < length dst. d ! p = (if at \<le> p \<and> p < at + 2 * nat i then ?v p else dst ! p))"
  have "\<exists>d. for_range 0 (int n) (\<lambda>i dst. swap_assign dst (int at + 2 * i) src (int from + 2 * i)) dst = Some d \<and> ?I (int n) d"
  proof (rule for_range_total)
    fix i :: int and u
    assume i: "0 \<le> i" "i < int n" and inv: "?I i u"
    from i obtain k where k: "i = int k" "k < n" by (metis nonneg_int_cases of_nat_less_iff)
    with all_set [OF assms(3), of "from + 2 * k"] all_set [OF assms(3), of "from + 2 * k + 1"] assms(2)
    obtain x y where xy: "src ! (from + 2 * k + 1) = Some x" "src ! (from + 2 * k) = Some y" by auto
    have "rd src (int (from + 2 * k + 1)) = Some x" "rd src (int (from + 2 * k)) = Some y"
      using xy k assms(2) by (simp_all only: rd_nth)
    moreover have "wr u (int (at + 2 * k)) x = Some (u[at + 2 * k := Some x])"
      "wr (u[at + 2 * k := Some x]) (int (at + 2 * k + 1)) y = Some (u[at + 2 * k := Some x, at + 2 * k + 1 := Some y])"
      using inv k assms(1) by (simp_all only: wr_nat length_list_update)
    ultimately have "swap_assign u (int at + 2 * i) src (int from + 2 * i)
        = Some (u[at + 2 * k := Some x, at + 2 * k + 1 := Some y])"
      by (simp add: swap_assign_def k(1) algebra_simps)
    moreover have "?I (i + 1) (u[at + 2 * k := Some x, at + 2 * k + 1 := Some y])"
    proof -
      have "(if at \<le> p \<and> p < at + 2 * nat (i + 1) then ?v p else dst ! p)
          = u[at + 2 * k := Some x, at + 2 * k + 1 := Some y] ! p" if "p < length dst" for p
      proof -
        consider "p = at + 2 * k" | "p = at + 2 * k + 1" | "p \<noteq> at + 2 * k" "p \<noteq> at + 2 * k + 1" by blast
        then show ?thesis
          using inv k xy that assms(1) by cases (auto simp: nth_list_update nat_add_distrib)
      qed
      then show ?thesis using inv by auto
    qed
    ultimately show "\<exists>v. swap_assign u (int at + 2 * i) src (int from + 2 * i) = Some v \<and> ?I (i + 1) v" by blast
  qed auto
  then show ?thesis by (simp add: swap_words_def)
qed


text \<open>A healthy channel fills its part of its area, and nothing else changes.\<close>

definition delivers :: "manager \<Rightarrow> data_channel \<Rightarrow> u8 \<Rightarrow> nat \<Rightarrow> bool" where
  "delivers m ch ty p \<longleftrightarrow>
     healthy m ch \<and> ch_type ch = ty \<and> ch_source ch \<le> p \<and> p < ch_source ch + ch_width ch"

definition delivered :: "manager \<Rightarrow> data_channel \<Rightarrow> nat \<Rightarrow> u8 option" where
  "delivered m ch p = spi_buf_rx m ! (ch_sink ch + swapped (ch_type ch) (p - ch_source ch))"

definition same_outputs :: "share_memory_area \<Rightarrow> share_memory_area \<Rightarrow> bool" where
  "same_outputs a b \<longleftrightarrow> output_do b = output_do a \<and> output_ao b = output_ao a \<and> health b = health a \<and>
     channel_types b = channel_types a \<and> (\<forall>ty. length (region b ty) = length (region a ty))"

text \<open>A channel whose data lies within the buffers.\<close>

definition fits :: "manager \<Rightarrow> share_memory_area \<Rightarrow> data_channel \<Rightarrow> bool" where
  "fits m area ch \<longleftrightarrow> ch_status ch < length (spi_buf_rx m) \<and> ch_sink ch + ch_width ch \<le> length (spi_buf_rx m) \<and>
     (ch_type ch \<in> input_types \<longrightarrow> ch_source ch + ch_width ch \<le> length (region area (ch_type ch)))"

lemma read_channel_run:
  assumes full: "None \<notin> set (spi_buf_rx m)" and fits: "fits m area ch"
  shows "\<exists>area'. read_channel m ch area = Some area' \<and> same_outputs area area' \<and>
     (\<forall>ty. \<forall>p < length (region area ty). region area' ty ! p =
        (if ty \<in> input_types \<and> delivers m ch ty p then delivered m ch p else region area ty ! p))"
proof -
  from fits all_set [OF full, of "ch_status ch"] obtain s
    where s: "rd (spi_buf_rx m) (int (ch_status ch)) = Some s" by (auto simp: rd_nth fits_def)
  consider "s = MODULE_STATUS_OK" "ch_type ch = SPI_MODULE_DI" | "s = MODULE_STATUS_OK" "ch_type ch = SPI_MODULE_AI"
    | "s \<noteq> MODULE_STATUS_OK" | "ch_type ch \<notin> input_types" by (auto simp: input_types_def)
  then show ?thesis
  proof cases
    case di: 1
    with fits have "ch_source ch + 3 \<le> length (input_di area)" "ch_sink ch + 3 \<le> length (spi_buf_rx m)"
      by (simp_all add: fits_def input_types_def region_def width_of_def)
    from copy_bytes_run [OF this full] di s show ?thesis
      by (fastforce simp: read_channel_def same_outputs_def region_def input_types_def delivers_def delivered_def
          healthy_def swapped_def width_of_def)
  next
    case ai: 2
    with fits have "ch_source ch + 2 * 16 \<le> length (input_ai area)" "ch_sink ch + 2 * 16 \<le> length (spi_buf_rx m)"
      by (simp_all add: fits_def input_types_def region_def width_of_def)
    from swap_words_run [OF this full] ai s show ?thesis
      by (fastforce simp: read_channel_def same_outputs_def region_def input_types_def delivers_def delivered_def
          healthy_def swapped_def width_of_def)
  next
    case unhealthy: 3
    with s show ?thesis by (simp add: read_channel_def same_outputs_def delivers_def healthy_def)
  next
    case other: 4
    then have "ch_type ch \<noteq> SPI_MODULE_DI" "ch_type ch \<noteq> SPI_MODULE_AI" by (auto simp: input_types_def)
    with s other show ?thesis by (auto simp: read_channel_def same_outputs_def delivers_def)
  qed
qed

lemma delivers_disjoint:
  "delivers m a ty p \<Longrightarrow> behind a b \<Longrightarrow> \<not> delivers m b ty p"
  by (auto simp: delivers_def behind_def)

lemma read_channels_run:
  assumes "None \<notin> set (spi_buf_rx m)" "\<forall>ch \<in> set chs. fits m area ch" "sorted_wrt behind chs"
  shows "\<exists>area'. read_channels m chs area = Some area' \<and> same_outputs area area' \<and>
     (\<forall>ty. \<forall>p < length (region area ty).
        ((\<forall>ch \<in> set chs. ty \<in> input_types \<longrightarrow> \<not> delivers m ch ty p) \<longrightarrow> region area' ty ! p = region area ty ! p) \<and>
        (\<forall>ch \<in> set chs. ty \<in> input_types \<and> delivers m ch ty p \<longrightarrow> region area' ty ! p = delivered m ch p))"
  using assms
proof (induction chs arbitrary: area)
  case Nil
  then show ?case by (simp add: same_outputs_def)
next
  case (Cons ch chs)
  from Cons.prems read_channel_run [of m area ch] obtain a1 where a1: "read_channel m ch area = Some a1"
    "same_outputs area a1"
    and p1: "\<And>ty p. p < length (region area ty) \<Longrightarrow> region a1 ty ! p =
        (if ty \<in> input_types \<and> delivers m ch ty p then delivered m ch p else region area ty ! p)" by auto
  have len: "length (region a1 ty) = length (region area ty)" for ty using a1(2) by (simp add: same_outputs_def)
  have "\<forall>c \<in> set chs. fits m a1 c" using Cons.prems(2) len by (simp add: fits_def)
  with Cons.IH [of a1] Cons.prems obtain a2 where a2: "read_channels m chs a1 = Some a2" "same_outputs a1 a2"
    and p2: "\<And>ty p. p < length (region area ty) \<Longrightarrow>
        (\<forall>c \<in> set chs. ty \<in> input_types \<longrightarrow> \<not> delivers m c ty p) \<Longrightarrow> region a2 ty ! p = region a1 ty ! p"
      "\<And>ty p c. p < length (region area ty) \<Longrightarrow> c \<in> set chs \<Longrightarrow> ty \<in> input_types \<Longrightarrow> delivers m c ty p
        \<Longrightarrow> region a2 ty ! p = delivered m c p"
    by (auto simp: len)
  have "region a2 ty ! p = delivered m ch p" if "p < length (region area ty)" "ty \<in> input_types" "delivers m ch ty p" for ty p
    using that p1 [OF that(1)] p2(1) [OF that(1)] delivers_disjoint [OF that(3)] Cons.prems(3) by simp
  then have "region a2 ty ! p = delivered m c p"
    if "p < length (region area ty)" "c \<in> set (ch # chs)" "ty \<in> input_types" "delivers m c ty p" for ty p c
    using that p2(2) by auto
  moreover have "region a2 ty ! p = region area ty ! p"
    if "p < length (region area ty)" "\<forall>c \<in> set (ch # chs). ty \<in> input_types \<longrightarrow> \<not> delivers m c ty p" for ty p
    using that p1 p2(1) by auto
  moreover have "same_outputs area a2" using a1(2) a2(2) by (simp add: same_outputs_def)
  ultimately show ?case using a1(1) a2(1) by auto
qed


text \<open>The state after initialisation: an area of the sizes the code gives it.\<close>

definition proper_area :: "share_memory_area \<Rightarrow> bool" where
  "proper_area area \<longleftrightarrow> length (input_di area) = 512 \<and> length (input_ai area) = 2048 \<and>
     length (output_do area) = 512 \<and> length (output_ao area) = 512 \<and> length (health area) = 256 + 1741"

definition outgoing :: "share_memory_area \<Rightarrow> u8 \<Rightarrow> u8 cbuf" where
  "outgoing area ty = (if ty = SPI_MODULE_DO then output_do area else if ty = SPI_MODULE_AO then output_ao area else [])"

definition output_types :: "u8 set" where "output_types = {SPI_MODULE_DO, SPI_MODULE_AO}"

lemma add_module_keeps:
  assumes "add_module i ty r = Some r'"
  shows "spi_buf (fst r') = spi_buf (fst r) \<and> spi_buf_rx (fst r') = spi_buf_rx (fst r) \<and>
     length (module_conf (fst r')) = length (module_conf (fst r))"
  using assms
  by (auto simp: add_module_def Option.bind_eq_Some_conv Let_def dest: wr_length split: prod.splits if_splits)

lemma add_modules_keeps:
  "add_modules i tys r = Some r' \<Longrightarrow>
   spi_buf (fst r') = spi_buf (fst r) \<and> spi_buf_rx (fst r') = spi_buf_rx (fst r)"
proof (induction i tys r rule: add_modules.induct)
  case (2 i ty tys r)
  then show ?case
    using add_module_keeps [of i ty r] by (fastforce simp: Option.bind_eq_Some_conv split: if_splits)
qed simp

lemma wrs_set:
  assumes "wrs b i xs = Some b'" "None \<notin> set b"
  shows "None \<notin> set b'"
  using assms
proof (induction xs arbitrary: b i)
  case (Cons x xs)
  then obtain b1 where b1: "wr b i x = Some b1" "wrs b1 (i + 1) xs = Some b'"
    by (auto simp: Option.bind_eq_Some_conv)
  then have "None \<notin> set b1"
    using Cons.prems(2) set_update_subset_insert [of b "nat i" "Some x"] by (auto dest: wr_SomeD)
  with Cons.IH b1(2) show ?case by blast
qed simp

lemma manager_init_keeps:
  assumes "manager_init area m = Some (m', area')"
  shows "spi_buf_rx m' = spi_buf_rx m" "length (spi_buf m') = length (spi_buf m)"
    "None \<notin> set (spi_buf m) \<Longrightarrow> None \<notin> set (spi_buf m')"
    "\<exists>h. area' = area\<lparr>health := h\<rparr> \<and> length h = length (health area)"
proof -
  from assms obtain buf r h where "wrs (spi_buf m) 0 (replicate 32 0xFF) = Some buf"
    and run: "add_modules 0 (take 1023 (channel_types area)) (m\<lparr>spi_buf := buf\<rparr>,
      \<lparr>di_counter = 0, ai_counter = 0, do_counter = 0, ao_counter = 0, spi_counter = 0\<rparr>) = Some r"
    and h: "wrs (health area) 0 (replicate 1023 MODULE_NOT_FOUND) = Some h"
    and r: "m' = (fst r)\<lparr>spi_transfer_len := 32 + spi_counter (snd r) + 4\<rparr>" "area' = area\<lparr>health := h\<rparr>"
    by (auto simp: manager_init_def Option.bind_eq_Some_conv)
  note buf = this(1)
  from add_modules_keeps [OF run] have "spi_buf m' = buf" "spi_buf_rx m' = spi_buf_rx m" by (simp_all add: r)
  with wrs_length [OF buf] wrs_set [OF buf] wrs_length [OF h] r
  show "spi_buf_rx m' = spi_buf_rx m" "length (spi_buf m') = length (spi_buf m)"
    "None \<notin> set (spi_buf m) \<Longrightarrow> None \<notin> set (spi_buf m')"
    "\<exists>h. area' = area\<lparr>health := h\<rparr> \<and> length h = length (health area)" by auto
qed

section \<open>Writing all channels\<close>

definition fetches :: "manager \<Rightarrow> data_channel \<Rightarrow> nat \<Rightarrow> bool" where
  "fetches m ch p \<longleftrightarrow> healthy m ch \<and> ch_type ch \<in> output_types \<and> ch_sink ch \<le> p \<and> p < ch_sink ch + ch_width ch"

definition fetched :: "share_memory_area \<Rightarrow> data_channel \<Rightarrow> nat \<Rightarrow> u8 option" where
  "fetched area ch p = outgoing area (ch_type ch) ! (ch_source ch + swapped (ch_type ch) (p - ch_sink ch))"

definition sendable :: "manager \<Rightarrow> share_memory_area \<Rightarrow> data_channel \<Rightarrow> bool" where
  "sendable m area ch \<longleftrightarrow> ch_status ch < length (spi_buf_rx m) \<and> ch_sink ch + ch_width ch \<le> length (spi_buf m) \<and>
     (ch_type ch \<in> output_types \<longrightarrow> ch_source ch + ch_width ch \<le> length (outgoing area (ch_type ch)))"

lemma write_channel_run:
  assumes full: "None \<notin> set (spi_buf_rx m)" and out: "None \<notin> set (output_do area)" "None \<notin> set (output_ao area)"
    and fits: "sendable m area ch"
  shows "\<exists>b. write_channel area ch m = Some (m\<lparr>spi_buf := b\<rparr>) \<and> length b = length (spi_buf m) \<and>
     (\<forall>p < length (spi_buf m). b ! p = (if fetches m ch p then fetched area ch p else spi_buf m ! p))"
proof -
  from fits all_set [OF full, of "ch_status ch"] obtain s
    where s: "rd (spi_buf_rx m) (int (ch_status ch)) = Some s" by (auto simp: rd_nth sendable_def)
  have same: "m = m\<lparr>spi_buf := spi_buf m\<rparr>" by simp
  consider "s = MODULE_STATUS_OK" "ch_type ch = SPI_MODULE_DO" | "s = MODULE_STATUS_OK" "ch_type ch = SPI_MODULE_AO"
    | "s \<noteq> MODULE_STATUS_OK" | "ch_type ch \<notin> output_types" by (auto simp: output_types_def)
  then show ?thesis
  proof cases
    case d: 1
    with fits have "ch_sink ch + 3 \<le> length (spi_buf m)" "ch_source ch + 3 \<le> length (output_do area)"
      by (simp_all add: sendable_def output_types_def outgoing_def width_of_def)
    from copy_bytes_run [OF this out(1)] d s show ?thesis
      by (fastforce simp: write_channel_def outgoing_def output_types_def fetches_def fetched_def
          healthy_def swapped_def width_of_def)
  next
    case a: 2
    with fits have "ch_sink ch + 2 * 8 \<le> length (spi_buf m)" "ch_source ch + 2 * 8 \<le> length (output_ao area)"
      by (simp_all add: sendable_def output_types_def outgoing_def width_of_def)
    from swap_words_run [OF this out(2)] obtain b
      where b: "swap_words 8 (spi_buf m) (ch_sink ch) (output_ao area) (ch_source ch) = Some b"
        "length b = length (spi_buf m)"
      and q: "\<forall>p < length (spi_buf m). b ! p = (if ch_sink ch \<le> p \<and> p < ch_sink ch + 2 * 8
        then output_ao area ! (ch_source ch + (if even (p - ch_sink ch) then p - ch_sink ch + 1 else p - ch_sink ch - 1))
        else spi_buf m ! p)" by auto
    have "fetches m ch p \<longleftrightarrow> ch_sink ch \<le> p \<and> p < ch_sink ch + 2 * 8" for p
      using a s by (simp add: fetches_def healthy_def output_types_def width_of_def)
    moreover have "fetched area ch p = output_ao area ! (ch_source ch +
        (if even (p - ch_sink ch) then p - ch_sink ch + 1 else p - ch_sink ch - 1))" for p
      using a by (simp add: fetched_def outgoing_def swapped_def)
    ultimately have "\<forall>p < length (spi_buf m). b ! p = (if fetches m ch p then fetched area ch p else spi_buf m ! p)"
      using q by presburger
    moreover have "write_channel area ch m = Some (m\<lparr>spi_buf := b\<rparr>)" using a s b(1) by (simp add: write_channel_def)
    ultimately show ?thesis using b(2) by blast
  next
    case unhealthy: 3
    with s show ?thesis by (intro exI [of _ "spi_buf m"]) (simp add: write_channel_def fetches_def healthy_def)
  next
    case other: 4
    then have "ch_type ch \<noteq> SPI_MODULE_DO" "ch_type ch \<noteq> SPI_MODULE_AO" by (auto simp: output_types_def)
    with s other show ?thesis by (intro exI [of _ "spi_buf m"]) (auto simp: write_channel_def fetches_def)
  qed
qed

lemma write_channels_run:
  assumes "None \<notin> set (spi_buf_rx m)" "None \<notin> set (output_do area)" "None \<notin> set (output_ao area)"
    "\<forall>ch \<in> set chs. sendable m area ch" "sorted_wrt behind chs"
  shows "\<exists>b. write_channels area chs m = Some (m\<lparr>spi_buf := b\<rparr>) \<and> length b = length (spi_buf m) \<and>
     (\<forall>p < length (spi_buf m).
        ((\<forall>ch \<in> set chs. \<not> fetches m ch p) \<longrightarrow> b ! p = spi_buf m ! p) \<and>
        (\<forall>ch \<in> set chs. fetches m ch p \<longrightarrow> b ! p = fetched area ch p))"
  using assms
proof (induction chs arbitrary: m)
  case Nil
  then show ?case by (auto intro: exI [of _ "spi_buf m"])
next
  case (Cons ch chs)
  from Cons.prems write_channel_run [of m area ch] obtain b1 where b1: "write_channel area ch m = Some (m\<lparr>spi_buf := b1\<rparr>)"
    "length b1 = length (spi_buf m)"
    and p1: "\<And>p. p < length (spi_buf m) \<Longrightarrow> b1 ! p = (if fetches m ch p then fetched area ch p else spi_buf m ! p)"
    by auto
  have same: "fetches (m\<lparr>spi_buf := b1\<rparr>) = fetches m" by (simp add: fetches_def healthy_def fun_eq_iff)
  have "\<forall>c \<in> set chs. sendable (m\<lparr>spi_buf := b1\<rparr>) area c" using Cons.prems(4) b1(2) by (simp add: sendable_def)
  with Cons.IH [of "m\<lparr>spi_buf := b1\<rparr>"] Cons.prems obtain b where b: "write_channels area chs (m\<lparr>spi_buf := b1\<rparr>) = Some (m\<lparr>spi_buf := b\<rparr>)"
    "length b = length (spi_buf m)"
    and p2: "\<forall>p < length (spi_buf m). ((\<forall>ch \<in> set chs. \<not> fetches m ch p) \<longrightarrow> b ! p = b1 ! p) \<and>
        (\<forall>ch \<in> set chs. fetches m ch p \<longrightarrow> b ! p = fetched area ch p)"
    by (simp add: b1(2) same) blast
  have "b ! p = fetched area ch p" if "p < length (spi_buf m)" "fetches m ch p" for p
  proof -
    have "\<not> fetches m c p" if "c \<in> set chs" for c
      using Cons.prems(5) \<open>fetches m ch p\<close> that by (auto simp: fetches_def behind_def)
    then show ?thesis using that p1 p2 by simp
  qed
  then have "b ! p = fetched area c p" if "p < length (spi_buf m)" "c \<in> set (ch # chs)" "fetches m c p" for p c
    using that p2 by auto
  moreover have "b ! p = spi_buf m ! p" if "p < length (spi_buf m)" "\<forall>c \<in> set (ch # chs). \<not> fetches m c p" for p
    using that p1 p2 by auto
  ultimately show ?case using b1(1) b by auto
qed


section \<open>From configuration to data\<close>

lemma manager_ready:
  assumes "proper_area area" "manager_init area new_manager = Some (m, area1)" "length frame = SPI_BUF_LEN"
  shows "sorted_wrt behind (channels m)"
    "\<forall>ch \<in> set (channels m). fits (m\<lparr>spi_buf_rx := init frame\<rparr>) area1 ch"
    "\<forall>ch \<in> set (channels m). sendable (m\<lparr>spi_buf_rx := init frame\<rparr>) area1 ch"
proof -
  have new: "channels new_manager = []" "length (module_conf new_manager) = 32" "length (spi_buf new_manager) = 2048"
    by (simp_all add: new_manager_def)
  note layout = manager_init_layout_lemma [OF assms(2) new(1,2)]
  from layout show "sorted_wrt behind (channels m)" by blast
  obtain h where area1: "area1 = area\<lparr>health := h\<rparr>" using manager_init_keeps(4) [OF assms(2)] by blast
  have cap: "ch_status ch < 2048 \<and> ch_sink ch + ch_width ch \<le> 2048 \<and> ch_source ch + ch_width ch \<le> area_size (ch_type ch)"
    if "ch \<in> set (channels m)" for ch
    using layout that by fastforce
  show "\<forall>ch \<in> set (channels m). fits (m\<lparr>spi_buf_rx := init frame\<rparr>) area1 ch"
    using cap assms(1,3) by (fastforce simp: fits_def area1 region_def input_types_def proper_area_def area_size_def)
  show "\<forall>ch \<in> set (channels m). sendable (m\<lparr>spi_buf_rx := init frame\<rparr>) area1 ch"
    using cap assms(1,3) manager_init_keeps(2) [OF assms(2)] new(3)
    by (fastforce simp: sendable_def area1 outgoing_def output_types_def proper_area_def area_size_def)
qed

lemma healthy_init:
  "ch_status ch < length frame \<Longrightarrow> healthy (m\<lparr>spi_buf_rx := init frame\<rparr>) ch \<longleftrightarrow> frame ! ch_status ch = MODULE_STATUS_OK"
  by (simp add: healthy_def rd_init)

text \<open>
  C33: After the initialisation \<open>readAll\<close> takes the data of every input module that
  reports itself healthy from a received frame to its place in the shared memory, analogue
  values with their bytes exchanged, and leaves every other byte as it was.
\<close>

theorem inputs_delivered:
  assumes "proper_area area" "manager_init area new_manager = Some (m, area1)" "length frame = SPI_BUF_LEN"
  shows "\<exists>area2. readAll (m\<lparr>spi_buf_rx := init frame\<rparr>) area1 = Some area2 \<and>
     (\<forall>ch \<in> set (channels m). ch_type ch \<in> input_types \<and> frame ! ch_status ch = MODULE_STATUS_OK \<longrightarrow>
        (\<forall>j < ch_width ch. region area2 (ch_type ch) ! (ch_source ch + j) = Some (frame ! (ch_sink ch + swapped (ch_type ch) j)))) \<and>
     (\<forall>ty. \<forall>p < length (region area1 ty).
        (\<forall>ch \<in> set (channels m). ch_type ch = ty \<and> frame ! ch_status ch = MODULE_STATUS_OK \<longrightarrow>
           p < ch_source ch \<or> ch_source ch + ch_width ch \<le> p) \<longrightarrow> region area2 ty ! p = region area1 ty ! p) \<and>
     same_outputs area1 area2"
proof -
  note ready = manager_ready [OF assms]
  let ?m = "m\<lparr>spi_buf_rx := init frame\<rparr>"
  have "None \<notin> set (spi_buf_rx ?m)" by (simp add: init_def)
  from read_channels_run [OF this ready(2,1)] obtain area2 where run: "readAll ?m area1 = Some area2" "same_outputs area1 area2"
    and post: "\<forall>ty. \<forall>p < length (region area1 ty).
        ((\<forall>ch \<in> set (channels m). ty \<in> input_types \<longrightarrow> \<not> delivers ?m ch ty p) \<longrightarrow> region area2 ty ! p = region area1 ty ! p) \<and>
        (\<forall>ch \<in> set (channels m). ty \<in> input_types \<and> delivers ?m ch ty p \<longrightarrow> region area2 ty ! p = delivered ?m ch p)"
    by (auto simp: readAll_def)
  have ok: "healthy ?m ch \<longleftrightarrow> frame ! ch_status ch = MODULE_STATUS_OK" "ch_sink ch + ch_width ch \<le> 2048"
    "ch_type ch \<in> input_types \<Longrightarrow> ch_source ch + ch_width ch \<le> length (region area1 (ch_type ch))"
    if "ch \<in> set (channels m)" for ch
    using ready(2) that assms(3) by (auto simp: fits_def healthy_init)
  have "region area2 (ch_type ch) ! (ch_source ch + j) = Some (frame ! (ch_sink ch + swapped (ch_type ch) j))"
    if ch: "ch \<in> set (channels m)" "ch_type ch \<in> input_types" "frame ! ch_status ch = MODULE_STATUS_OK" "j < ch_width ch" for ch j
  proof -
    have "swapped (ch_type ch) j < ch_width ch"
      using ch(2,4) by (auto simp: swapped_def input_types_def width_of_def elim!: evenE)
    then have "delivered ?m ch (ch_source ch + j) = Some (frame ! (ch_sink ch + swapped (ch_type ch) j))"
      using ok(2) [OF ch(1)] assms(3) by (simp add: delivered_def init_def)
    moreover have "delivers ?m ch (ch_type ch) (ch_source ch + j)"
      using ok(1) [OF ch(1)] ch(3,4) by (simp add: delivers_def)
    ultimately show ?thesis using post ch(1,2,4) ok(3) by fastforce
  qed
  moreover have "region area2 ty ! p = region area1 ty ! p"
    if "p < length (region area1 ty)" "\<forall>ch \<in> set (channels m). ch_type ch = ty \<and> frame ! ch_status ch = MODULE_STATUS_OK \<longrightarrow>
           p < ch_source ch \<or> ch_source ch + ch_width ch \<le> p" for ty p
    using that post ok(1) by (fastforce simp: delivers_def)
  ultimately show ?thesis using run by blast
qed


text \<open>
  C34: After the initialisation \<open>writeAll\<close> puts the data of every output module
  that reported itself healthy at its place in the frame to send, and leaves every other byte of
  the frame as it was.
\<close>

theorem outputs_sent:
  assumes "proper_area area" "manager_init area new_manager = Some (m, area1)" "length frame = SPI_BUF_LEN"
    and "None \<notin> set (output_do area)" "None \<notin> set (output_ao area)"
  shows "\<exists>b. writeAll area1 (m\<lparr>spi_buf_rx := init frame\<rparr>) = Some (m\<lparr>spi_buf_rx := init frame, spi_buf := b\<rparr>) \<and>
     (\<forall>ch \<in> set (channels m). ch_type ch \<in> output_types \<and> frame ! ch_status ch = MODULE_STATUS_OK \<longrightarrow>
        (\<forall>j < ch_width ch. b ! (ch_sink ch + j) = outgoing area (ch_type ch) ! (ch_source ch + swapped (ch_type ch) j))) \<and>
     (\<forall>p < SPI_BUF_LEN.
        (\<forall>ch \<in> set (channels m). ch_type ch \<in> output_types \<and> frame ! ch_status ch = MODULE_STATUS_OK \<longrightarrow>
           p < ch_sink ch \<or> ch_sink ch + ch_width ch \<le> p) \<longrightarrow> b ! p = spi_buf m ! p)"
proof -
  note ready = manager_ready [OF assms(1-3)]
  let ?m = "m\<lparr>spi_buf_rx := init frame\<rparr>"
  obtain h where area1: "area1 = area\<lparr>health := h\<rparr>" using manager_init_keeps(4) [OF assms(2)] by blast
  then have out: "outgoing area1 = outgoing area" by (simp add: outgoing_def fun_eq_iff)
  have "None \<notin> set (spi_buf_rx ?m)" by (simp add: init_def)
  moreover have "None \<notin> set (output_do area1)" "None \<notin> set (output_ao area1)" using assms(4,5) area1 by simp_all
  ultimately obtain b where run: "writeAll area1 ?m = Some (?m\<lparr>spi_buf := b\<rparr>)"
    and post: "\<forall>p < length (spi_buf ?m). ((\<forall>ch \<in> set (channels m). \<not> fetches ?m ch p) \<longrightarrow> b ! p = spi_buf ?m ! p) \<and>
        (\<forall>ch \<in> set (channels m). fetches ?m ch p \<longrightarrow> b ! p = fetched area1 ch p)"
    using write_channels_run [of ?m area1 "channels m"] ready(1,3) unfolding writeAll_def by auto
  have len: "length (spi_buf ?m) = 2048" using manager_init_keeps(2) [OF assms(2)] by (simp add: new_manager_def)
  have ok: "healthy ?m ch \<longleftrightarrow> frame ! ch_status ch = MODULE_STATUS_OK" "ch_sink ch + ch_width ch \<le> 2048"
    if "ch \<in> set (channels m)" for ch
    using ready(3) that assms(3) len by (auto simp: sendable_def healthy_init)
  have "b ! (ch_sink ch + j) = outgoing area (ch_type ch) ! (ch_source ch + swapped (ch_type ch) j)"
    if ch: "ch \<in> set (channels m)" "ch_type ch \<in> output_types" "frame ! ch_status ch = MODULE_STATUS_OK" "j < ch_width ch" for ch j
  proof -
    have "fetches ?m ch (ch_sink ch + j)" using ch ok(1) by (simp add: fetches_def)
    moreover have "ch_sink ch + j < length (spi_buf ?m)" using ok(2) [OF ch(1)] ch(4) len by linarith
    ultimately have "b ! (ch_sink ch + j) = fetched area1 ch (ch_sink ch + j)" using post ch(1) by blast
    then show ?thesis by (simp add: fetched_def out)
  qed
  moreover have "b ! p = spi_buf m ! p"
    if "p < SPI_BUF_LEN" "\<forall>ch \<in> set (channels m). ch_type ch \<in> output_types \<and> frame ! ch_status ch = MODULE_STATUS_OK \<longrightarrow>
           p < ch_sink ch \<or> ch_sink ch + ch_width ch \<le> p" for p
    using that post ok(1) len by (fastforce simp: fetches_def)
  ultimately show ?thesis using run by auto
qed

section \<open>The checksum\<close>

lemma word_of_bytes_of_word: "word_of_bytes (bytes_of_word v) = v"
proof -
  have "ucast (ucast v :: u8) OR push_bit 8 (ucast (ucast (drop_bit 8 v) :: u8))
    OR push_bit 16 (ucast (ucast (drop_bit 16 v) :: u8)) OR push_bit 24 (ucast (ucast (drop_bit 24 v) :: u8)) = v"
    (is "?l = v")
  proof (rule bit_word_eqI)
    fix n
    assume n: "n < LENGTH(32)"
    consider "n < 8" | "8 \<le> n" "n < 16" | "16 \<le> n" "n < 24" | "24 \<le> n" by linarith
    then show "bit ?l n = bit v n"
      using n by cases (auto simp: bit_or_iff bit_push_bit_iff bit_ucast_iff bit_drop_bit_eq)
  qed
  then show ?thesis
    by (simp add: word_of_bytes_def bytes_of_word_def)
qed

text \<open>
  The result of the checksum exchange is the checksum the program computed itself: whatever
  the co-processor replies has no influence on it.
\<close>

theorem spi_checksum_ignores_peer:
  "map_option fst (spi_checksum crc32 xfer m w) = map_option crc32 (rds (spi_buf_rx m) 0 (spi_transfer_len m - 4))"
  by (cases "rds (spi_buf_rx m) 0 (spi_transfer_len m - 4)")
    (simp_all add: spi_checksum_def Let_def word_of_bytes_of_word split: prod.splits)

section \<open>The dialogue\<close>

text \<open>A peer that gives the replies of a script, and what was sent to it.\<close>

definition scripted :: "(string list \<times> string list) serial" where
  "scripted = \<lparr>ser_write = (\<lambda>s (sent, replies). (sent @ [s], replies)),
     ser_read = (\<lambda>(sent, replies). case replies of [] \<Rightarrow> ([], (sent, [])) | r # rs \<Rightarrow> (r, (sent, rs)))\<rparr>"

definition dialogue :: "(string \<Rightarrow> u32) \<Rightarrow> u8 list \<Rightarrow> string list" where
  "dialogue crc32 conf =
     (let data = ''CONF:'' @ map (\<lambda>b. char_of (unat b)) conf
      in [''STOP'' @ CRLF, data, map (\<lambda>b. char_of (unat b)) (bytes_of_word (crc32 data)), CRLF, ''START'' @ CRLF])"

text \<open>
  The handshake succeeds exactly when the co-processor gives the three expected replies; it
  sends the commands one after the other, the configuration with its checksum, and stops at the
  first reply that is not the expected one.
\<close>

theorem handshake_dialogue:
  assumes "module_conf m = init conf" "length conf = MODULE_MAX_NUM"
  shows "handshake crc32 scripted m ([], [r1, r2, r3]) = Some
     (if r1 \<noteq> ''STOP_OK'' @ CRLF then (False, take 1 (dialogue crc32 conf), [r2, r3])
      else if r2 \<noteq> ''CONF_OK'' @ CRLF then (False, take 4 (dialogue crc32 conf), [r3])
      else (r3 = ''START_OK'' @ CRLF, dialogue crc32 conf, []))"
proof -
  have "rds (module_conf m) 0 32 = Some conf"
    using rds_init_append [of 0 32 conf "[]"] assms by simp
  then show ?thesis
    by (simp add: handshake_def send_cmd_conf_def scripted_def dialogue_def Let_def)
qed

section \<open>A configuration\<close>

text \<open>One output, one input and one analogue input module, with a gap between the first two.\<close>

definition small_area :: "u8 list \<Rightarrow> share_memory_area" where
  "small_area types = \<lparr>input_di = init (replicate 512 0), input_ai = init (replicate 2048 0),
     output_do = init (replicate 512 0x0F), output_ao = init (replicate 512 1), health = init (replicate 1997 0),
     channel_types = types\<rparr>"

definition small_channels :: "data_channel list" where
  "small_channels = [\<lparr>ch_type = SPI_MODULE_DO, ch_source = 0, ch_sink = 32, ch_status = 0\<rparr>,
     \<lparr>ch_type = SPI_MODULE_DI, ch_source = 0, ch_sink = 35, ch_status = 2\<rparr>,
     \<lparr>ch_type = SPI_MODULE_AI, ch_source = 0, ch_sink = 38, ch_status = 3\<rparr>]"

lemma small_area_proper: "proper_area (small_area types)"
  by (simp add: proper_area_def small_area_def)

lemma small_init:
  "\<exists>m area'. manager_init (small_area [2, 0, 1, 3, 255]) new_manager = Some (m, area') \<and> channels m = small_channels \<and>
     spi_transfer_len m = 74"
proof -
  obtain buf where "wrs (spi_buf new_manager) 0 (replicate 32 0xFF) = Some buf"
    using wrs_fill [of 0 "replicate 32 0xFF" "spi_buf new_manager"] by (simp add: new_manager_def)
  moreover obtain h where "wrs (health (small_area [2, 0, 1, 3, 255])) 0 (replicate 1023 MODULE_NOT_FOUND) = Some h"
    using wrs_fill [of 0 "replicate 1023 MODULE_NOT_FOUND" "health (small_area [2, 0, 1, 3, 255])"] by (simp add: small_area_def)
  moreover have "init (replicate 32 (0x30 :: u8)) \<noteq> []" by (simp add: init_def)
  ultimately show ?thesis
    unfolding manager_init_def
    by (simp add: add_module_def wr_def new_manager_def small_channels_def small_area_def)
qed

theorem manager_init_layout_witness:
  "\<exists>m area'. manager_init (small_area [2, 0, 1, 3, 255]) new_manager = Some (m, area') \<and> sorted_wrt behind (channels m) \<and>
     length (channels m) = 3"
proof -
  obtain m area' where init: "manager_init (small_area [2, 0, 1, 3, 255]) new_manager = Some (m, area')"
    "channels m = small_channels" using small_init by blast
  have new: "channels new_manager = []" "length (module_conf new_manager) = 32" by (simp_all add: new_manager_def)
  from manager_init_layout [OF init(1) new] init show ?thesis by (auto simp: small_channels_def)
qed

theorem inputs_delivered_witness:
  "\<exists>m area1 area2. manager_init (small_area [2, 0, 1, 3, 255]) new_manager = Some (m, area1) \<and>
     readAll (m\<lparr>spi_buf_rx := init (replicate 35 3 @ [7, 8, 9] @ replicate 2010 0)\<rparr>) area1 = Some area2 \<and>
     input_di area2 ! 1 = Some 8"
proof -
  obtain m area1 where init: "manager_init (small_area [2, 0, 1, 3, 255]) new_manager = Some (m, area1)"
    "channels m = small_channels" using small_init by blast
  have "length (replicate 35 3 @ [7, 8, 9] @ replicate 2010 0 :: u8 list) = SPI_BUF_LEN" by simp
  from inputs_delivered [OF small_area_proper init(1) this] obtain area2
    where r: "readAll (m\<lparr>spi_buf_rx := init (replicate 35 3 @ [7, 8, 9] @ replicate 2010 0)\<rparr>) area1 = Some area2"
      and "\<forall>ch \<in> set (channels m). ch_type ch \<in> input_types \<and> (replicate 35 3 @ [7, 8, 9] @ replicate 2010 0) ! ch_status ch = MODULE_STATUS_OK \<longrightarrow>
        (\<forall>j < ch_width ch. region area2 (ch_type ch) ! (ch_source ch + j) =
           Some ((replicate 35 3 @ [7, 8, 9] @ replicate 2010 0) ! (ch_sink ch + swapped (ch_type ch) j)))"
    by blast
  then have "region area2 SPI_MODULE_DI ! 1 = Some 8"
    by (simp add: init(2) small_channels_def input_types_def width_of_def swapped_def nth_append)
  with init(1) r show ?thesis by (auto simp: region_def)
qed

theorem outputs_sent_witness:
  "\<exists>m area1 b. manager_init (small_area [2, 0, 1, 3, 255]) new_manager = Some (m, area1) \<and>
     writeAll area1 (m\<lparr>spi_buf_rx := init (replicate 2048 3)\<rparr>) = Some (m\<lparr>spi_buf_rx := init (replicate 2048 3), spi_buf := b\<rparr>) \<and>
     b ! 34 = Some 0x0F"
proof -
  obtain m area1 where init: "manager_init (small_area [2, 0, 1, 3, 255]) new_manager = Some (m, area1)"
    "channels m = small_channels" using small_init by blast
  have len: "length (replicate 2048 3 :: u8 list) = SPI_BUF_LEN" by simp
  have "None \<notin> set (output_do (small_area [2, 0, 1, 3, 255]))" "None \<notin> set (output_ao (small_area [2, 0, 1, 3, 255]))"
    by (auto simp: small_area_def init_def)
  from outputs_sent [OF small_area_proper init(1) len this] obtain b
    where r: "writeAll area1 (m\<lparr>spi_buf_rx := init (replicate 2048 3)\<rparr>) = Some (m\<lparr>spi_buf_rx := init (replicate 2048 3), spi_buf := b\<rparr>)"
      and "\<forall>ch \<in> set (channels m). ch_type ch \<in> output_types \<and> replicate 2048 3 ! ch_status ch = MODULE_STATUS_OK \<longrightarrow>
        (\<forall>j < ch_width ch. b ! (ch_sink ch + j) = outgoing (small_area [2, 0, 1, 3, 255]) (ch_type ch) !
          (ch_source ch + swapped (ch_type ch) j))"
    by blast
  then have "\<forall>j < 3. b ! (32 + j) = outgoing (small_area [2, 0, 1, 3, 255]) SPI_MODULE_DO ! j"
    by (simp add: init(2) small_channels_def output_types_def width_of_def swapped_def)
  from this [rule_format, of 2] have "b ! 34 = outgoing (small_area [2, 0, 1, 3, 255]) SPI_MODULE_DO ! 2" by simp
  with init(1) r show ?thesis by (auto simp: outgoing_def small_area_def init_def)
qed

theorem handshake_dialogue_witness:
  "\<exists>w. handshake (\<lambda>_. 0) scripted (new_manager) ([], [''STOP_OK'' @ CRLF, ''CONF_ERR'', []]) = Some (False, w)"
proof -
  have "module_conf new_manager = init (replicate 32 SPI_MODULE_UNUSED)" "length (replicate 32 SPI_MODULE_UNUSED) = MODULE_MAX_NUM"
    by (simp_all add: new_manager_def)
  from handshake_dialogue [OF this] show ?thesis by (simp add: CRLF_def)
qed

end
