(* ===== verification/Gpio.thy ===== *)
theory Gpio
  imports Prelude
begin

text \<open>
  General purpose pins: the functions of the runtime (\<open>kw/src/gpio.cpp\<close>) and the class of the module
  manager (\<open>system/src/Gpio.cpp\<close>). Both write small texts to files of the kernel; the calls on files
  are parameters.
\<close>

section \<open>Decimal numbers\<close>

definition digit :: "nat \<Rightarrow> char" where
  "digit n = char_of (48 + n)"

fun dec_nat :: "nat \<Rightarrow> string" where
  "dec_nat n = (if n < 10 then [digit n] else dec_nat (n div 10) @ [digit (n mod 10)])"

declare dec_nat.simps [simp del]

text \<open>What \<open>%d\<close> and \<open>lexical_cast<string>\<close> make of an \<open>int\<close>.\<close>

definition dec :: "int \<Rightarrow> string" where
  "dec i = (if i < 0 then ''-'' @ dec_nat (nat (- i)) else dec_nat (nat i))"

definition nl :: string where
  "nl = [CHR 0x0A]"

section \<open>The functions of the runtime\<close>

text \<open>
  Opening for writing or reading, the result of \<open>fprintf\<close>, the number \<open>fscanf\<close> stores, if any.
\<close>

record 'w stdio =
  io_fopen :: "string \<Rightarrow> string \<Rightarrow> 'w \<Rightarrow> nat option \<times> 'w"
  io_fprintf :: "nat \<Rightarrow> string \<Rightarrow> 'w \<Rightarrow> int \<times> 'w"
  io_fscanf_d :: "nat \<Rightarrow> 'w \<Rightarrow> int option \<times> 'w"
  io_fclose :: "nat \<Rightarrow> 'w \<Rightarrow> 'w"

definition EXPORT :: string where "EXPORT = ''/sys/class/gpio/export''"
definition UNEXPORT :: string where "UNEXPORT = ''/sys/class/gpio/unexport''"
definition GPIO_IN_TEXT :: string where "GPIO_IN_TEXT = ''in'' @ nl"
definition GPIO_OUT_TEXT :: string where "GPIO_OUT_TEXT = ''out'' @ nl"
definition LOW :: string where "LOW = ''0'' @ nl"
definition HIGH :: string where "HIGH = ''1'' @ nl"

lemmas gpio_texts = GPIO_IN_TEXT_def GPIO_OUT_TEXT_def LOW_def HIGH_def nl_def

text \<open>Printing into an array of \<open>n\<close> characters, with the terminator.\<close>

definition sprintf_into :: "nat \<Rightarrow> string \<Rightarrow> string option" where
  "sprintf_into n s = (if length s < n then Some s else None)"

definition gpio_pins :: "int list" where
  "gpio_pins = [60, 61, 62, 63, 96, 97, 98, 99, 100, 101, 102, 103]"

fun find_pin :: "int list \<Rightarrow> int \<Rightarrow> int" where
  "find_pin [] port = -1"
| "find_pin (p # ps) port = (if port = p then 0 else find_pin ps port)"

definition gpio_pin_exists :: "int \<Rightarrow> int" where
  "gpio_pin_exists port = find_pin gpio_pins port"

text \<open>A file that cannot be opened is a null pointer handed to \<open>fprintf\<close>.\<close>

definition gpio_open :: "'w stdio \<Rightarrow> int \<Rightarrow> int \<Rightarrow> 'w \<Rightarrow> (int \<times> 'w) option" where
  "gpio_open io port ddr w =
     (if gpio_pin_exists port = -1 then Some (-1, w)
      else
        (case io_fopen io EXPORT ''w'' w of
           (None, w) \<Rightarrow> None
         | (Some f, w) \<Rightarrow>
             (case io_fprintf io f (dec port @ nl) w of (r, w) \<Rightarrow>
                if r < 0 then Some (-2, w)
                else do {
                  let w = io_fclose io f w;
                  file \<leftarrow> sprintf_into 35 (''/sys/class/gpio/gpio'' @ dec port @ ''/direction'');
                  (case io_fopen io file ''w'' w of
                     (None, w) \<Rightarrow> None
                   | (Some f, w) \<Rightarrow> do {
                       ris \<leftarrow> sprintf_into 5 (if ddr = 0 then GPIO_IN_TEXT else GPIO_OUT_TEXT);
                       (case io_fprintf io f ris w of (r, w) \<Rightarrow>
                          if r < 0 then Some (-2, w) else Some (0, io_fclose io f w)) }) })))"

definition gpio_close :: "'w stdio \<Rightarrow> int \<Rightarrow> 'w \<Rightarrow> (int \<times> 'w) option" where
  "gpio_close io port w =
     (if gpio_pin_exists port = -1 then Some (-1, w)
      else
        (case io_fopen io UNEXPORT ''w'' w of
           (None, w) \<Rightarrow> None
         | (Some f, w) \<Rightarrow>
             (case io_fprintf io f (dec port @ nl) w of (r, w) \<Rightarrow>
                if r < 0 then Some (-2, w) else Some (0, io_fclose io f w))))"

definition gpio_read :: "'w stdio \<Rightarrow> int \<Rightarrow> 'w \<Rightarrow> (int \<times> 'w) option" where
  "gpio_read io port w =
     (if gpio_pin_exists port = -1 then Some (-1, w)
      else do {
        file \<leftarrow> sprintf_into 31 (''/sys/class/gpio/gpio'' @ dec port @ ''/value'');
        (case io_fopen io file ''r'' w of
           (None, w) \<Rightarrow> None
         | (Some f, w) \<Rightarrow>
             (case io_fscanf_d io f w of
                (None, w) \<Rightarrow> None
              | (Some i, w) \<Rightarrow> Some (i, io_fclose io f w))) })"

definition gpio_write :: "'w stdio \<Rightarrow> int \<Rightarrow> int \<Rightarrow> 'w \<Rightarrow> (int \<times> 'w) option" where
  "gpio_write io port v w =
     (if gpio_pin_exists port = -1 then Some (-1, w)
      else do {
        file \<leftarrow> sprintf_into 35 (''/sys/class/gpio/gpio'' @ dec port @ ''/value'');
        (case io_fopen io file ''w'' w of
           (None, w) \<Rightarrow> None
         | (Some f, w) \<Rightarrow> do {
             ris \<leftarrow> sprintf_into 5 (if v = 0 then LOW else HIGH);
             (case io_fprintf io f ris w of (r, w) \<Rightarrow>
                if r < 0 then Some (-2, w) else Some (0, io_fclose io f w)) }) })"

text \<open>Writing one text to a file, and the file of a pin.\<close>

definition write_text :: "'w stdio \<Rightarrow> string \<Rightarrow> string \<Rightarrow> 'w \<Rightarrow> (int \<times> 'w) option" where
  "write_text io file s w =
     (case io_fopen io file ''w'' w of
        (None, w) \<Rightarrow> None
      | (Some f, w) \<Rightarrow>
          (case io_fprintf io f s w of (r, w) \<Rightarrow> if r < 0 then Some (-2, w) else Some (0, io_fclose io f w)))"

definition pin_file :: "int \<Rightarrow> string \<Rightarrow> string" where
  "pin_file port name = ''/sys/class/gpio/gpio'' @ dec port @ ''/'' @ name"

lemma gpio_pin_exists_iff: "gpio_pin_exists port = (if port \<in> set gpio_pins then 0 else -1)"
proof -
  have "find_pin ps port = (if port \<in> set ps then 0 else -1)" for ps by (induction ps) auto
  then show ?thesis by (simp add: gpio_pin_exists_def)
qed

lemma dec_length:
  assumes "0 \<le> i" "i < 1000"
  shows "length (dec i) \<le> 3"
  using assms by (auto simp: dec_def dec_nat.simps [of "nat i"] dec_nat.simps [of "nat i div 10"] dec_nat.simps [of "nat i div 10 div 10"])

lemma pins_small: "port \<in> set gpio_pins \<Longrightarrow> length (dec port) \<le> 3"
  by (rule dec_length) (auto simp: gpio_pins_def)

lemma sprintf_fits:
  assumes "port \<in> set gpio_pins"
  shows "sprintf_into 35 (''/sys/class/gpio/gpio'' @ dec port @ ''/direction'') = Some (pin_file port ''direction'')"
    and "sprintf_into 35 (''/sys/class/gpio/gpio'' @ dec port @ ''/value'') = Some (pin_file port ''value'')"
    and "sprintf_into 31 (''/sys/class/gpio/gpio'' @ dec port @ ''/value'') = Some (pin_file port ''value'')"
  using pins_small [OF assms] by (simp_all add: sprintf_into_def pin_file_def)

text \<open>
  The paths and texts of the four functions always fit their arrays: on one of the twelve pins
  each call is exactly one text written to, or one number read from, the file of that pin, and
  on any other it returns -1 and does nothing.
\<close>

theorem gpio_calls_fit:
  "gpio_open io port ddr w =
     (if port \<in> set gpio_pins then do {
        (r, w) \<leftarrow> write_text io EXPORT (dec port @ nl) w;
        if r \<noteq> 0 then Some (r, w)
        else write_text io (pin_file port ''direction'') (if ddr = 0 then ''in'' @ nl else ''out'' @ nl) w }
      else Some (-1, w)) \<and>
   gpio_write io port v w =
     (if port \<in> set gpio_pins then write_text io (pin_file port ''value'') (if v = 0 then ''0'' @ nl else ''1'' @ nl) w
      else Some (-1, w)) \<and>
   gpio_close io port w =
     (if port \<in> set gpio_pins then write_text io UNEXPORT (dec port @ nl) w else Some (-1, w)) \<and>
   gpio_read io port w =
     (if port \<in> set gpio_pins then
        (case io_fopen io (pin_file port ''value'') ''r'' w of
           (None, w) \<Rightarrow> None
         | (Some f, w) \<Rightarrow>
             (case io_fscanf_d io f w of (None, w) \<Rightarrow> None | (Some i, w) \<Rightarrow> Some (i, io_fclose io f w)))
      else Some (-1, w))"
proof (cases "port \<in> set gpio_pins")
  case True
  have ris: "sprintf_into 5 (if b then GPIO_IN_TEXT else GPIO_OUT_TEXT) = Some (if b then ''in'' @ nl else ''out'' @ nl)"
    "sprintf_into 5 (if b then LOW else HIGH) = Some (if b then ''0'' @ nl else ''1'' @ nl)" for b
    by (simp_all add: sprintf_into_def gpio_texts)
  have ex: "gpio_pin_exists port \<noteq> -1" "port \<in> set gpio_pins" using True by (simp_all add: gpio_pin_exists_iff)
  note fits = sprintf_fits [OF True]
  have "gpio_write io port v w = write_text io (pin_file port ''value'') (if v = 0 then ''0'' @ nl else ''1'' @ nl) w"
    unfolding gpio_write_def fits ris write_text_def by (simp only: ex if_False bind.bind_lunit)
  moreover have "gpio_close io port w = write_text io UNEXPORT (dec port @ nl) w"
    unfolding gpio_close_def write_text_def by (simp only: ex if_False)
  moreover have "gpio_open io port ddr w = do {
        (r, w) \<leftarrow> write_text io EXPORT (dec port @ nl) w;
        if r \<noteq> 0 then Some (r, w)
        else write_text io (pin_file port ''direction'') (if ddr = 0 then ''in'' @ nl else ''out'' @ nl) w }"
    unfolding gpio_open_def fits ris write_text_def Let_def
    by (simp add: ex del: append_Cons append_Nil split: option.split prod.split)
  moreover have "gpio_read io port w =
        (case io_fopen io (pin_file port ''value'') ''r'' w of
           (None, w) \<Rightarrow> None
         | (Some f, w) \<Rightarrow>
             (case io_fscanf_d io f w of (None, w) \<Rightarrow> None | (Some i, w) \<Rightarrow> Some (i, io_fclose io f w)))"
    unfolding gpio_read_def fits by (simp only: ex if_False bind.bind_lunit)
  ultimately show ?thesis using True by (simp only: if_True simp_thms)
next
  case False
  then show ?thesis
    by (simp add: gpio_open_def gpio_write_def gpio_close_def gpio_read_def gpio_pin_exists_iff)
qed

section \<open>The class of the module manager\<close>

datatype Direction = GPIO_IN | GPIO_OUT

record Gpio =
  pin :: string
  sys_pin :: string
  direction :: Direction

definition new_Gpio :: "string \<Rightarrow> Direction \<Rightarrow> Gpio" where
  "new_Gpio p d = \<lparr>pin = p, sys_pin = [], direction = d\<rparr>"

text \<open>
  Writing a text to a stream opened on a file and whether it could be opened, without which nothing
  is written; the first character of a file that is not white space, if any.
\<close>

record 'w streams =
  of_write :: "string \<Rightarrow> string \<Rightarrow> 'w \<Rightarrow> bool \<times> 'w"
  if_char :: "string \<Rightarrow> 'w \<Rightarrow> char option \<times> 'w"

definition setDirection :: "'w streams \<Rightarrow> Direction \<Rightarrow> Gpio \<Rightarrow> 'w \<Rightarrow> Gpio \<times> 'w" where
  "setDirection io d g w =
     (let g' = g\<lparr>direction := d\<rparr> in
      (g', snd (of_write io (''/sys/class/gpio/'' @ sys_pin g @ ''/direction'')
             (case d of GPIO_IN \<Rightarrow> ''in'' | GPIO_OUT \<Rightarrow> ''out'') w)))"

definition Gpio_getDirection :: "Gpio \<Rightarrow> Direction" where
  "Gpio_getDirection g = direction g"

text \<open>\<open>lexical_cast<int>\<close> throws where it gives no number, which is \<open>Inl\<close>.\<close>

definition Gpio_init :: "(string \<Rightarrow> int option) \<Rightarrow> 'w streams \<Rightarrow> Gpio \<Rightarrow> 'w \<Rightarrow> 'w + (bool \<times> Gpio) \<times> 'w" where
  "Gpio_init lexical_cast io g w =
     (case of_write io ''/sys/class/gpio/export'' (pin g @ nl) w of
        (False, w) \<Rightarrow> Inr ((False, g), w)
      | (True, w) \<Rightarrow>
          (case lexical_cast (pin g) of
             None \<Rightarrow> Inl w
           | Some num \<Rightarrow>
               let g =
                 (if num < 32 then g\<lparr>sys_pin := ''pioA'' @ pin g\<rparr>
                  else if num < 64 then g\<lparr>sys_pin := ''pioB'' @ dec (num mod 32)\<rparr>
                  else if num < 96 then g\<lparr>sys_pin := ''pioC'' @ dec (num mod 32)\<rparr>
                  else if num < 128 then g\<lparr>sys_pin := ''pioD'' @ dec (num mod 32)\<rparr>
                  else g)
               in (case setDirection io (direction g) g w of (g, w) \<Rightarrow> Inr ((True, g), w))))"

definition Gpio_set :: "'w streams \<Rightarrow> Gpio \<Rightarrow> 'w \<Rightarrow> 'w" where
  "Gpio_set io g w = snd (of_write io (''/sys/class/gpio/'' @ sys_pin g @ ''/value'') ''1'' w)"

definition Gpio_reset :: "'w streams \<Rightarrow> Gpio \<Rightarrow> 'w \<Rightarrow> 'w" where
  "Gpio_reset io g w = snd (of_write io (''/sys/class/gpio/'' @ sys_pin g @ ''/value'') ''0'' w)"

text \<open>A character that could not be read is left uninitialised and then looked at.\<close>

definition Gpio_read :: "'w streams \<Rightarrow> Gpio \<Rightarrow> 'w \<Rightarrow> (bool \<times> 'w) option" where
  "Gpio_read io g w =
     (case if_char io (''/sys/class/gpio/'' @ sys_pin g @ ''/value'') w of
        (None, w) \<Rightarrow> None
      | (Some c, w) \<Rightarrow> Some (c = CHR ''1'', w))"

definition Gpio_delete :: "'w streams \<Rightarrow> Gpio \<Rightarrow> 'w \<Rightarrow> 'w" where
  "Gpio_delete io g w = snd (of_write io ''/sys/class/gpio/unexport'' (pin g @ nl) w)"

text \<open>The name of a pin's directory.\<close>

definition pin_name :: "nat \<Rightarrow> string" where
  "pin_name n = (if n < 128 then ''pio'' @ [''ABCD'' ! (n div 32)] @ dec (int (n mod 32)) else [])"

lemma dec_nat_inj: "m < 100 \<Longrightarrow> n < 100 \<Longrightarrow> dec_nat m = dec_nat n \<Longrightarrow> m = n"
proof -
  have dig: "digit a = digit b \<longleftrightarrow> a = b" if "a < 10" "b < 10" for a b
    using that by (simp add: digit_def)
  assume "m < 100" "n < 100" "dec_nat m = dec_nat n"
  then show "m = n"
    by (auto simp: dec_nat.simps [of m] dec_nat.simps [of n] dec_nat.simps [of "m div 10"] dec_nat.simps [of "n div 10"] dig
      split: if_splits) (metis div_mult_mod_eq)
qed

lemma pin_name_inj:
  assumes "m < 128" "n < 128" "pin_name m = pin_name n"
  shows "m = n"
proof -
  have "''ABCD'' ! (m div 32) = ''ABCD'' ! (n div 32)" "dec_nat (m mod 32) = dec_nat (n mod 32)"
    using assms by (simp_all add: pin_name_def dec_def nat_mod_distrib)
  moreover have "distinct ''ABCD''" by simp
  moreover have "m div 32 < length ''ABCD''" "n div 32 < length ''ABCD''" using assms by (simp_all add: div_less_iff_less_mult)
  ultimately have "m div 32 = n div 32" "m mod 32 = n mod 32"
    using nth_eq_iff_index_eq by (blast, intro dec_nat_inj) (simp_all add: order.strict_trans [OF mod_less_divisor])
  then show ?thesis by (metis div_mult_mod_eq)
qed

text \<open>
  Initialising a pin below 128 exports it and sets the direction in a directory that no other
  such pin has; for a pin from 128 on the name of the directory is empty, and the call succeeds
  all the same.
\<close>

theorem pins_named_apart:
  assumes "lexical_cast (dec (int n)) = Some (int n)"
    and "of_write io ''/sys/class/gpio/export'' (dec (int n) @ nl) w = (True, w')"
  shows "Gpio_init lexical_cast io (new_Gpio (dec (int n)) d) w =
       Inr ((True, \<lparr>pin = dec (int n), sys_pin = pin_name n, direction = d\<rparr>),
         snd (of_write io (''/sys/class/gpio/'' @ pin_name n @ ''/direction'') (case d of GPIO_IN \<Rightarrow> ''in'' | GPIO_OUT \<Rightarrow> ''out'') w')) \<and>
     (n < 128 \<longrightarrow> (\<forall>m < 128. pin_name m = pin_name n \<longrightarrow> m = n)) \<and>
     (128 \<le> n \<longrightarrow> pin_name n = [])"
proof -
  consider "n < 32" | "32 \<le> n" "n < 64" | "64 \<le> n" "n < 96" | "96 \<le> n" "n < 128" | "128 \<le> n" by linarith
  then have "Gpio_init lexical_cast io (new_Gpio (dec (int n)) d) w =
       Inr ((True, \<lparr>pin = dec (int n), sys_pin = pin_name n, direction = d\<rparr>),
         snd (of_write io (''/sys/class/gpio/'' @ pin_name n @ ''/direction'') (case d of GPIO_IN \<Rightarrow> ''in'' | GPIO_OUT \<Rightarrow> ''out'') w'))"
    using assms by cases (simp_all add: Gpio_init_def new_Gpio_def setDirection_def pin_name_def Let_def zmod_int)
  then show ?thesis using pin_name_inj by (auto simp: pin_name_def)
qed

theorem pins_named_apart_witness:
  "Gpio_init (\<lambda>s. if s = dec 77 then Some 77 else None) \<lparr>of_write = (\<lambda>f s w. (True, w @ [(f, s)])), if_char = (\<lambda>f w. (None, w))\<rparr>
     (new_Gpio (dec 77) GPIO_IN) []
   = Inr ((True, \<lparr>pin = dec 77, sys_pin = ''pioC13'', direction = GPIO_IN\<rparr>),
       [(''/sys/class/gpio/export'', dec 77 @ nl), (''/sys/class/gpio/pioC13/direction'', ''in'')])"
proof -
  have "pin_name 77 = ''pioC13''" by code_simp
  with pins_named_apart [of "\<lambda>s. if s = dec 77 then Some 77 else None" 77
      "\<lparr>of_write = (\<lambda>f s w. (True, w @ [(f, s)])), if_char = (\<lambda>f w. (None, w))\<rparr>" "[]"
      "[(''/sys/class/gpio/export'', dec 77 @ nl)]" GPIO_IN]
  show ?thesis by simp
qed

end
