(* ===== verification/Main_Loop.thy ===== *)
theory Main_Loop
  imports Channel_Manager Gpio
begin

text \<open>
  \<open>system/src/main.cpp\<close>: the program that owns the modules behind the SPI co-processor. It configures
  one output and one input module, and then for ever writes the complement of the inputs to the
  outputs and exchanges frames.
\<close>

section \<open>The program\<close>

text \<open>
  The types of the modules: the loop of \<open>main\<close> leaves the last entry as it finds it in the shared
  memory.
\<close>

definition main_types :: "u8 \<Rightarrow> u8 list" where
  "main_types final = (replicate (SHARE_MEMORY_IO_CONFIG_LEN - 1) MODULE_NOT_PRESENT @ [final])
     [2 := MODULE_DO, 10 := MODULE_DI]"

text \<open>The pins of the manager, set up by its constructor; the co-processor raises the first.\<close>

definition manager_pins :: "(string \<Rightarrow> int option) \<Rightarrow> 'w streams \<Rightarrow> 'w \<Rightarrow> 'w + (Gpio \<times> Gpio) \<times> 'w" where
  "manager_pins lexical_cast sio w =
     (case Gpio_init lexical_cast sio (new_Gpio ''26'' GPIO_IN) w of
        Inl w \<Rightarrow> Inl w
      | Inr ((_, data_ready), w) \<Rightarrow>
          (case Gpio_init lexical_cast sio (new_Gpio ''27'' GPIO_IN) w of
             Inl w \<Rightarrow> Inl w
           | Inr ((_, ack_ready), w) \<Rightarrow> Inr ((data_ready, ack_ready), w)))"

text \<open>Waiting until the co-processor raises \<open>data_ready\<close>; the pauses are left out.\<close>

partial_function (option) wait_ready :: "'w streams \<Rightarrow> Gpio \<Rightarrow> 'w \<Rightarrow> 'w option" where
  "wait_ready sio data_ready w =
     do { (b, w) \<leftarrow> Gpio_read sio data_ready w; if b then Some w else wait_ready sio data_ready w }"

definition main_start ::
  "(string \<Rightarrow> u32) \<Rightarrow> (u8 list \<Rightarrow> u32) \<Rightarrow> (u8 list \<Rightarrow> 'w \<Rightarrow> u8 list \<times> 'w) \<Rightarrow> 'w serial \<Rightarrow> 'w streams \<Rightarrow> Gpio \<Rightarrow>
   u8 \<Rightarrow> share_memory_area \<Rightarrow> 'w \<Rightarrow> ((manager \<times> share_memory_area) \<times> 'w) option" where
  "main_start crc_text crc32 xfer sp sio data_ready final area w =
     do { (m, area) \<leftarrow> manager_init (area\<lparr>channel_types := main_types final\<rparr>) new_manager;
          (_, w) \<leftarrow> handshake crc_text sp m w;
          m \<leftarrow> writeAll area m;
          w \<leftarrow> wait_ready sio data_ready w;
          ((_, m), w) \<leftarrow> spi_transfer crc32 xfer m w;
          Some ((m, area), w) }"

definition invert_inputs :: "share_memory_area \<Rightarrow> share_memory_area option" where
  "invert_inputs area =
     do { b \<leftarrow> for_range 0 24 (\<lambda>i b. do { x \<leftarrow> rd (input_di area) i; wr b i (NOT x) }) (output_do area);
          Some (area\<lparr>output_do := b\<rparr>) }"

definition main_round ::
  "(u8 list \<Rightarrow> u32) \<Rightarrow> (u8 list \<Rightarrow> 'w \<Rightarrow> u8 list \<times> 'w) \<Rightarrow> 'w streams \<Rightarrow> Gpio \<Rightarrow>
   manager \<times> share_memory_area \<Rightarrow> 'w \<Rightarrow> ((manager \<times> share_memory_area) \<times> 'w) option" where
  "main_round crc32 xfer sio data_ready s w =
     (case s of (m, area) \<Rightarrow>
        do { area \<leftarrow> invert_inputs area;
             m \<leftarrow> writeAll area m;
             w \<leftarrow> wait_ready sio data_ready w;
             ((_, m), w) \<leftarrow> spi_transfer crc32 xfer m w;
             area \<leftarrow> readAll m area;
             Some ((m, area), w) })"

section \<open>The pin of the co-processor\<close>

text \<open>The world after some reads of a file that did not give the character 1.\<close>

fun still_low :: "'w streams \<Rightarrow> string \<Rightarrow> nat \<Rightarrow> 'w \<Rightarrow> 'w option" where
  "still_low sio f 0 w = Some w"
| "still_low sio f (Suc n) w =
     (case if_char sio f w of
        (Some c, w) \<Rightarrow> if c = CHR ''1'' then None else still_low sio f n w
      | (None, w) \<Rightarrow> None)"

definition value_file :: "Gpio \<Rightarrow> string" where
  "value_file g = ''/sys/class/gpio/'' @ sys_pin g @ ''/value''"

lemma Gpio_read_file:
  "Gpio_read sio g w = (case if_char sio (value_file g) w of (None, w) \<Rightarrow> None | (Some c, w) \<Rightarrow> Some (c = CHR ''1'', w))"
  by (simp add: Gpio_read_def value_file_def)

lemma wait_ready_returns:
  assumes "wait_ready sio g w = Some w'"
  shows "\<exists>n v. still_low sio (value_file g) n w = Some v \<and> if_char sio (value_file g) v = (Some CHR ''1'', w')"
  using assms
proof (rule wait_ready.raw_induct [rotated])
  fix wait and sio :: "'w streams" and g w w'
  assume IH: "\<And>sio g w w'. wait sio g w = Some w' \<Longrightarrow>
      \<exists>n v. still_low sio (value_file g) n w = Some v \<and> if_char sio (value_file g) v = (Some CHR ''1'', w')"
    and run: "Gpio_read sio g w \<bind> (\<lambda>(b, w). if b then Some w else wait sio g w) = Some w'"
  obtain c w1 where c: "if_char sio (value_file g) w = (Some c, w1)"
    using run by (auto simp: Gpio_read_file split: prod.splits option.splits)
  show "\<exists>n v. still_low sio (value_file g) n w = Some v \<and> if_char sio (value_file g) v = (Some CHR ''1'', w')"
  proof (cases "c = CHR ''1''")
    case True
    with run c show ?thesis by (intro exI [of _ 0]) (simp add: Gpio_read_file)
  next
    case False
    with run c have "wait sio g w1 = Some w'" by (simp add: Gpio_read_file)
    from IH [OF this] obtain n v where
      "still_low sio (value_file g) n w1 = Some v" "if_char sio (value_file g) v = (Some CHR ''1'', w')" by blast
    with False c show ?thesis by (intro exI [of _ "Suc n"] exI [of _ v]) simp
  qed
qed

text \<open>
  Waiting ends exactly when, after some reads of the pin's file that gave another character, one gives
  1; a read that gives none is undefined.
\<close>

theorem wait_ready_iff:
  "wait_ready sio g w = Some w' \<longleftrightarrow>
     (\<exists>n v. still_low sio (value_file g) n w = Some v \<and> if_char sio (value_file g) v = (Some CHR ''1'', w'))"
proof
  have "wait_ready sio g w = Some w'"
    if "still_low sio (value_file g) n w = Some v" "if_char sio (value_file g) v = (Some CHR ''1'', w')" for n v
    using that by (induction n arbitrary: w)
      (subst wait_ready.simps; simp add: Gpio_read_file split: prod.splits option.splits if_splits)+
  then show "\<exists>n v. still_low sio (value_file g) n w = Some v \<and> if_char sio (value_file g) v = (Some CHR ''1'', w') \<Longrightarrow>
    wait_ready sio g w = Some w'" by blast
qed (rule wait_ready_returns)

text \<open>
  The file on which the program waits is that of pin 26 of the first port, whatever else the kernel
  reports while the pins are set up, if their numbers can be read and their export file be opened.
\<close>

theorem manager_pins_named:
  assumes "lexical_cast ''26'' = Some 26" "lexical_cast ''27'' = Some 27"
    and open_ok: "\<And>f s w. fst (of_write sio f s w)"
  shows "\<exists>data_ready ack_ready w'. manager_pins lexical_cast sio w = Inr ((data_ready, ack_ready), w') \<and>
     value_file data_ready = ''/sys/class/gpio/pioA26/value'' \<and> value_file ack_ready = ''/sys/class/gpio/pioA27/value'' \<and>
     Gpio_getDirection data_ready = GPIO_IN \<and> Gpio_getDirection ack_ready = GPIO_IN"
proof -
  have "\<exists>w'. Gpio_init lexical_cast sio (new_Gpio p GPIO_IN) w = Inr ((True, \<lparr>pin = p, sys_pin = ''pioA'' @ p, direction = GPIO_IN\<rparr>), w')"
    if "lexical_cast p = Some k" "k < 32" for p k w
    using open_ok [of "''/sys/class/gpio/export''" "p @ nl" w] that
    by (auto simp: Gpio_init_def new_Gpio_def setDirection_def Let_def split: prod.split bool.split)
  note named = this
  obtain w1 where "Gpio_init lexical_cast sio (new_Gpio ''26'' GPIO_IN) w =
      Inr ((True, \<lparr>pin = ''26'', sys_pin = ''pioA26'', direction = GPIO_IN\<rparr>), w1)"
    using named [OF assms(1)] by auto
  moreover obtain w2 where "Gpio_init lexical_cast sio (new_Gpio ''27'' GPIO_IN) w1 =
      Inr ((True, \<lparr>pin = ''27'', sys_pin = ''pioA27'', direction = GPIO_IN\<rparr>), w2)"
    using named [OF assms(2)] by auto
  ultimately show ?thesis by (simp add: manager_pins_def value_file_def Gpio_getDirection_def)
qed

text \<open>A kernel whose pin reads 0 three times before it reads 1.\<close>

definition counting_pin :: "nat streams" where
  "counting_pin = \<lparr>of_write = (\<lambda>f s w. (True, w)), if_char = (\<lambda>f w. (Some (if 2 < w then CHR ''1'' else CHR ''0''), w + 1))\<rparr>"

section \<open>The configuration\<close>

lemma add_modules_skip:
  "add_modules i (replicate k 0 @ tys) r = add_modules (i + k) tys r"
  by (induction k arbitrary: i) simp_all

lemma add_modules_none: "add_modules i (replicate k 0) r = Some r"
  using add_modules_skip [of i k "[]" r] by simp

lemma main_types_split:
  "take 1023 (main_types final) = replicate 2 MODULE_NOT_PRESENT @ MODULE_DO # replicate 7 MODULE_NOT_PRESENT @ MODULE_DI #
     replicate 1012 MODULE_NOT_PRESENT"
proof (rule nth_equalityI)
  fix i
  assume "i < length (take 1023 (main_types final))"
  then have i: "i < 1023" by simp
  consider "i < 2" | "i = 2" | "2 < i" "i < 10" | "i = 10" | "10 < i" by linarith
  then show "take 1023 (main_types final) ! i = (replicate 2 MODULE_NOT_PRESENT @ MODULE_DO # replicate 7 MODULE_NOT_PRESENT @
      MODULE_DI # replicate 1012 MODULE_NOT_PRESENT) ! i"
    using i by cases (simp_all add: main_types_def nth_append nth_Cons')
qed (simp add: main_types_def)

definition main_channels :: "data_channel list" where
  "main_channels = [\<lparr>ch_type = SPI_MODULE_DO, ch_source = 0, ch_sink = 32, ch_status = 2\<rparr>,
     \<lparr>ch_type = SPI_MODULE_DI, ch_source = 0, ch_sink = 35, ch_status = 10\<rparr>]"

lemma main_configures:
  assumes "proper_area area"
  shows "manager_init (area\<lparr>channel_types := main_types final\<rparr>) new_manager = Some
     (\<lparr>module_conf = (init (replicate 32 SPI_MODULE_UNUSED))[2 := Some SPI_MODULE_DO, 10 := Some SPI_MODULE_DI],
       spi_buf = init (replicate 32 0xFF @ replicate 2016 0), spi_buf_rx = fresh 2048, spi_transfer_len = 42,
       channels = main_channels\<rparr>,
      area\<lparr>channel_types := main_types final, health := fill (health area) 0 (replicate 1023 MODULE_NOT_FOUND)\<rparr>)"
proof -
  have buf: "wrs (spi_buf new_manager) 0 (replicate 32 0xFF) = Some (init (replicate 32 0xFF @ replicate 2016 0))"
    using wrs_fill [of 0 "replicate 32 0xFF" "spi_buf new_manager"]
    by (simp add: new_manager_def fill_def init_def)
  have h: "wrs (health area) 0 (replicate 1023 MODULE_NOT_FOUND) = Some (fill (health area) 0 (replicate 1023 MODULE_NOT_FOUND))"
    using wrs_fill [of 0 "replicate 1023 MODULE_NOT_FOUND" "health area"] assms by (simp add: proper_area_def)
  show ?thesis
    unfolding manager_init_def
    using buf h main_types_split [of final]
    by (simp add: add_modules_skip add_modules_none add_module_def wr_def new_manager_def main_channels_def)
qed


section \<open>One round\<close>

lemma init_fill: "a + length xs \<le> length bs \<Longrightarrow> fill (init bs) a xs = init (take a bs @ xs @ drop (a + length xs) bs)"
  by (simp add: fill_def init_def take_map drop_map)

lemma copy_bytes_init:
  assumes "at + 3 \<le> length dst" "from + 3 \<le> length src"
  shows "copy_bytes (init dst) at (init src) from = Some (init (take at dst @ take 3 (drop from src) @ drop (at + 3) dst))"
proof -
  have "None \<notin> set (init src)" by (auto simp: init_def)
  with copy_bytes_run [of at "init dst" "from" "init src"] assms obtain d
    where d: "copy_bytes (init dst) at (init src) from = Some d" "length d = length dst"
      and nth: "\<forall>p < length dst. d ! p = (if at \<le> p \<and> p < at + 3 then init src ! (from + (p - at)) else init dst ! p)"
    by auto
  have len: "length (take 3 (drop from src)) = 3" "min (length dst) at = at" using assms by simp_all
  have "d = init (take at dst @ take 3 (drop from src) @ drop (at + 3) dst)"
    using assms d(2) nth by (intro nth_equalityI) (auto simp: init_def nth_append len)
  with d(1) show ?thesis by simp
qed

lemma spi_transfer_run:
  assumes "spi_buf m = init buf" "spi_buf_rx m = init rx" "spi_transfer_len m = n"
    "4 \<le> n" "n \<le> length buf" "n \<le> length rx" "length reply = n"
    and "frame = take (n - 4) buf @ bytes_of_word (crc32 (take (n - 4) buf))" "xfer frame w = (reply, w')"
  shows "spi_transfer crc32 xfer m w = Some ((word_of_bytes (rev (drop (n - 4) reply)),
     m\<lparr>spi_buf := init (frame @ drop n buf), spi_buf_rx := init (reply @ drop n rx)\<rparr>), w')"
proof -
  let ?c = "bytes_of_word (crc32 (take (n - 4) buf))"
  have len: "length ?c = 4" "length frame = n" using assms by (simp_all add: bytes_of_word_def)
  have "rds (init buf) 0 (n - 4) = Some (take (n - 4) buf)"
    using rds_init_append [of 0 "n - 4" buf "[]"] assms(5) by simp
  moreover have "wrs (init buf) (int (n - 4)) ?c = Some (init (frame @ drop n buf))"
    using wrs_fill [of "n - 4" ?c "init buf"] init_fill [of "n - 4" ?c buf] len assms by simp
  moreover have "rds (init (frame @ drop n buf)) 0 n = Some frame"
    using rds_init_append [of 0 n frame "init (drop n buf)"] len by (simp add: init_append)
  moreover have "wrs (init rx) 0 reply = Some (init (reply @ drop n rx))"
    using wrs_fill [of 0 reply "init rx"] init_fill [of 0 reply rx] assms by simp
  moreover have "rds (init (reply @ drop n rx)) (int (n - 4)) 4 = Some (drop (n - 4) reply)"
    using rds_init_append [of "n - 4" 4 reply "init (drop n rx)"] assms by (simp add: init_append)
  ultimately show ?thesis
    using assms by (simp add: spi_transfer_def Let_def)
qed

lemma invert_inputs_run:
  assumes "input_di area = init di" "output_do area = init dout" "length di = 512" "length dout = 512"
  shows "invert_inputs area = Some (area\<lparr>output_do := init (map NOT (take 24 di) @ drop 24 dout)\<rparr>)"
proof -
  let ?g = "\<lambda>i. fill (init dout) 0 (map NOT (take (nat i) di))"
  have "for_range 0 24 (\<lambda>i b. do { x \<leftarrow> rd (init di) i; wr b i (NOT x) }) (?g 0) = Some (?g 24)"
  proof (rule for_range_steps)
    fix i :: int
    assume i: "0 \<le> i" "i < 24"
    then obtain k where k: "i = int k" "k < 24" by (metis nonneg_int_cases of_nat_less_numeral_iff)
    have "take (Suc k) di = take k di @ [di ! k]" using k assms by (simp add: take_Suc_conv_app_nth)
    moreover have "nat (int k + 1) = Suc k" by simp
    ultimately show "do { x \<leftarrow> rd (init di) i; wr (?g i) i (NOT x) } = Some (?g (i + 1))"
      using k assms(3,4) by (simp add: rd_init wr_fill)
  qed simp
  with assms init_fill [of 0 "map NOT (take 24 di)" dout] show ?thesis
    by (simp add: invert_inputs_def)
qed

text \<open>
  The outputs of a round are the complements of the inputs read in the round before it, if the output
  module reported no failure then; the inputs of a round are those of its reply, if the input module
  reports none.
\<close>

text \<open>
  C35: A round of the main program sends exactly the frame whose output bytes are the
  complements of the inputs read in the round before, if the output module reported no failure
  then, followed by the checksum, and takes its inputs from the reply, if the input module
  reports no failure in it.
\<close>

theorem main_round_inverts:
  assumes cfg: "channels m = main_channels" "spi_transfer_len m = 42"
    and bufs: "spi_buf m = init buf" "spi_buf_rx m = init rx" "length buf = SPI_BUF_LEN" "length rx = SPI_BUF_LEN"
    and area: "input_di area = init di" "output_do area = init dout" "length di = 512" "length dout = 512"
    and out: "out = (if rx ! 2 = MODULE_STATUS_OK then map NOT (take 3 di) else take 3 (drop 32 buf))"
    and data: "data = take 32 buf @ out @ take 3 (drop 35 buf)"
    and peer: "wait_ready sio data_ready w = Some w1" "xfer (data @ bytes_of_word (crc32 data)) w1 = (reply, w2)" "length reply = 42"
  shows "main_round crc32 xfer sio data_ready (m, area) w = Some
     ((m\<lparr>spi_buf := init (data @ bytes_of_word (crc32 data) @ drop 42 buf), spi_buf_rx := init (reply @ drop 42 rx)\<rparr>,
       area\<lparr>output_do := init (map NOT (take 24 di) @ drop 24 dout),
         input_di := init (if reply ! 10 = MODULE_STATUS_OK then take 3 (drop 35 reply) @ drop 3 di else di)\<rparr>), w2)"
proof -
  let ?a = "area\<lparr>output_do := init (map NOT (take 24 di) @ drop 24 dout)\<rparr>"
  have len: "length data = 38" using bufs area out data by simp
  have rd: "rd (init xs) (int k) = Some (xs ! k)" if "k < length xs" for xs :: "u8 list" and k
    using that by (simp add: rd_init)
  have rd2: "rd (init xs) 2 = Some (xs ! 2)" "rd (init xs) 10 = Some (xs ! 10)" if "10 < length xs" for xs :: "u8 list"
    using rd [of 2 xs] rd [of 10 xs] that by simp_all
  have "take 32 buf @ out @ drop 35 buf = data @ drop 38 buf"
    unfolding data using append_take_drop_id [of 3 "drop 35 buf"] by simp
  moreover have "take 3 (map NOT (take 24 di)) = map NOT (take 3 di)" by (simp add: take_map)
  ultimately have "writeAll ?a m = Some (m\<lparr>spi_buf := init (data @ drop 38 buf)\<rparr>)"
    using bufs area out rd2 [of rx] append_take_drop_id [of 3 "drop 32 buf"]
    by (auto simp: writeAll_def cfg main_channels_def write_channel_def copy_bytes_init)
  moreover have "spi_transfer crc32 xfer (m\<lparr>spi_buf := init (data @ drop 38 buf)\<rparr>) w1
      = Some ((word_of_bytes (rev (drop 38 reply)),
        m\<lparr>spi_buf := init (data @ bytes_of_word (crc32 data) @ drop 42 buf), spi_buf_rx := init (reply @ drop 42 rx)\<rparr>), w2)"
    using spi_transfer_run [of "m\<lparr>spi_buf := init (data @ drop 38 buf)\<rparr>" "data @ drop 38 buf" rx 42 reply
        "data @ bytes_of_word (crc32 data)" crc32 xfer w1 w2] peer(2,3) cfg bufs len
    by simp
  moreover have "readAll (m\<lparr>spi_buf := init (data @ bytes_of_word (crc32 data) @ drop 42 buf), spi_buf_rx := init (reply @ drop 42 rx)\<rparr>) ?a
      = Some (?a\<lparr>input_di := init (if reply ! 10 = MODULE_STATUS_OK then take 3 (drop 35 reply) @ drop 3 di else di)\<rparr>)"
    using bufs area peer(3) rd2 [of "reply @ drop 42 rx"]
    by (auto simp: readAll_def cfg main_channels_def read_channel_def copy_bytes_init nth_append)
  ultimately show ?thesis
    using invert_inputs_run [OF area] peer(1) by (simp add: main_round_def)
qed

lemma main_round_inverts_witness:
  "\<exists>m' area'. main_round (\<lambda>_. 0) (\<lambda>frame w. (replicate 42 3, w + 1)) counting_pin (new_Gpio ''26'' GPIO_IN)
     (\<lparr>module_conf = init [], spi_buf = init (replicate 2048 0), spi_buf_rx = init (replicate 2048 3),
        spi_transfer_len = 42, channels = main_channels\<rparr>,
      \<lparr>input_di = init (replicate 512 0x0F), input_ai = init [], output_do = init (replicate 512 0), output_ao = init [],
        health = init [], channel_types = []\<rparr>) (0 :: nat) = Some ((m', area'), 5) \<and>
     take 3 (drop 32 (spi_buf m')) = init [NOT 0x0F, NOT 0x0F, NOT 0x0F] \<and> take 4 (input_di area') = init [3, 3, 3, 0x0F]"
proof -
  have w: "wait_ready counting_pin (new_Gpio ''26'' GPIO_IN) (0 :: nat) = Some 4"
    by (simp add: wait_ready.simps Gpio_read_def counting_pin_def)
  show ?thesis
    by (intro exI conjI, rule main_round_inverts [where buf = "replicate 2048 0" and rx = "replicate 2048 3"
          and di = "replicate 512 0x0F" and dout = "replicate 512 0", OF _ _ _ _ _ _ _ _ _ _ refl refl w])
      (auto simp: init_def numeral_eq_Suc)
qed

text \<open>
  Calling \<open>writeAll\<close> before the first transfer, as the main program does,
  reads a status byte that nothing has set, as soon as one module is configured.
\<close>

theorem first_write_unset:
  assumes "manager_init area new_manager = Some (m, area')" "channels m \<noteq> []"
  shows "writeAll area' m = None"
proof -
  have rx: "spi_buf_rx m = fresh 2048" using manager_init_keeps(1) [OF assms(1)] by (simp add: new_manager_def)
  obtain ch chs where ch: "channels m = ch # chs" using assms(2) by (cases "channels m") auto
  have "rd (spi_buf_rx m) (int (ch_status ch)) = None" by (auto simp: rx rd_def fresh_def)
  then show ?thesis by (simp add: writeAll_def ch write_channel_def)
qed

theorem first_write_unset_witness: "\<exists>m area'. manager_init (\<lparr>input_di = fresh 512, input_ai = fresh 2048, output_do = fresh 512,
    output_ao = fresh 512, health = fresh 1997, channel_types = main_types 0\<rparr>) new_manager = Some (m, area') \<and> writeAll area' m = None"
proof -
  have "proper_area \<lparr>input_di = fresh 512, input_ai = fresh 2048, output_do = fresh 512,
    output_ao = fresh 512, health = fresh 1997, channel_types = []\<rparr>" by (simp add: proper_area_def)
  note init = main_configures [OF this, of 0, simplified]
  show ?thesis
    by (intro exI conjI, rule init, rule first_write_unset [OF init]) (simp add: main_channels_def)
qed

end
