(* ===== verification/Limits.thy ===== *)
theory Limits
  imports Exchange
begin

text \<open>
  Behaviour of the library at the edges of what its checks cover: requests to the server that
  announce more data than they carry, the transaction identifiers of a TCP client after a wrap, and
  connecting to a host none of whose addresses answers.
\<close>

section \<open>Requests that announce more than they carry\<close>

lemma get_registers_reads:
  assumes "get_registers req pos a nb tab = Some t" "0 \<le> k" "k < nb"
  shows "rd req (pos + 2 * k + 1) \<noteq> None"
proof -
  let ?I = "\<lambda>i (tab :: u16 cbuf, j). j = pos + 2 * (i - a) \<and> (\<forall>k. 0 \<le> k \<and> k < i - a \<longrightarrow> rd req (pos + 2 * k + 1) \<noteq> None)"
  from assms(1) obtain j where loop: "for_range a (a + nb)
      (\<lambda>i (tab, j). do { h \<leftarrow> rd req j; l \<leftarrow> rd req (j + 1); tab \<leftarrow> wr tab i (word_of_int (be16 h l)); Some (tab, j + 2) })
      (tab, pos) = Some (t, j)"
    by (auto simp: get_registers_def Option.bind_eq_Some_conv)
  have "?I (a + nb) (t, j)"
  proof (rule for_range_inv [OF loop, where I = ?I])
    fix i and u v :: "u16 cbuf \<times> int"
    assume "a \<le> i" and inv: "?I i u"
      and step: "(case u of (tab, j) \<Rightarrow> do { h \<leftarrow> rd req j; l \<leftarrow> rd req (j + 1); tab \<leftarrow> wr tab i (word_of_int (be16 h l));
        Some (tab, j + 2) }) = Some v"
    obtain tab j where u: "u = (tab, j)" by (cases u)
    from step inv u have j: "j = pos + 2 * (i - a)" "rd req (j + 1) \<noteq> None" "snd v = j + 2"
      by (auto simp: Option.bind_eq_Some_conv)
    have "rd req (pos + 2 * k + 1) \<noteq> None" if "0 \<le> k" "k < i + 1 - a" for k
    proof (cases "k = i - a")
      case True
      then show ?thesis using j(1,2) by simp
    next
      case False
      with inv u that show ?thesis by simp
    qed
    then show "?I (i + 1) v"
      using j by (cases v) (simp add: algebra_simps)
  qed (use assms(2,3) in auto)
  then show ?thesis using assms(2,3) by simp
qed

lemma set_bits_reads:
  assumes "modbus_set_bits_from_bytes dest a nb f = Some d" "0 \<le> a" "0 \<le> k" "k < nb"
  shows "f (k div 8) \<noteq> None"
proof -
  let ?I = "\<lambda>i (r :: u8 cbuf \<times> int). \<forall>k. 0 \<le> k \<and> k < i - a \<longrightarrow> f (k div 8) \<noteq> None"
  from assms obtain s where loop: "for_range a (a + nb)
      (\<lambda>i (dest, shift). do { b \<leftarrow> f ((i - a) div 8); dest \<leftarrow> wr dest i (test_bit_of b shift); Some (dest, (shift + 1) mod 8) })
      (dest, 0) = Some (d, s)"
    by (auto simp: modbus_set_bits_from_bytes_def set_bits_end_def Option.bind_eq_Some_conv)
  have "?I (a + nb) (d, s)"
  proof (rule for_range_inv [OF loop, where I = ?I])
    fix i and u v :: "u8 cbuf \<times> int"
    assume "a \<le> i" "\<forall>k. 0 \<le> k \<and> k < i - a \<longrightarrow> f (k div 8) \<noteq> None"
      "(case u of (dest, shift) \<Rightarrow> do { b \<leftarrow> f ((i - a) div 8); dest \<leftarrow> wr dest i (test_bit_of b shift); Some (dest, (shift + 1) mod 8) }) = Some v"
    moreover from this(3) have "f ((i - a) div 8) \<noteq> None" by (cases u) (auto simp: Option.bind_eq_Some_conv)
    moreover have "k < i - a \<or> k = i - a" if "k < i + 1 - a" for k using that by linarith
    ultimately show "\<forall>k. 0 \<le> k \<and> k < i + 1 - a \<longrightarrow> f (k div 8) \<noteq> None" by metis
  qed (use assms(3,4) in auto)
  then show ?thesis using assms(3,4) by simp
qed

text \<open>The number of data bytes behind the byte count that a write request must carry.\<close>

definition announced :: "u8 \<Rightarrow> int \<Rightarrow> int" where
  "announced f nb = (if f = 0x10 then 2 * nb else (nb + 7) div 8)"

text \<open>
  C36: A write request that announces more data than was received behind its byte count passes
  every check of the server when its range fits the mapping, and makes it read bytes of the
  receive buffer that were never set; the model has no value for that.
\<close>

theorem rtu_write_overread:
  assumes "bytes = [a, f, h, l, n, k, c] @ data" "f = 0x0F \<or> f = 0x10"
    and "a = 0 \<or> uint a = mb_slave (ctx st)"
    and "be16 h l + be16 n k \<le> (if f = 0x10 then nb_registers m else nb_bits m)"
    and "int (length data) < announced f (be16 n k)" "length bytes \<le> 260"
  shows "modbus_reply os (modbus_rtu_backend os) (mkb 260 (map Some bytes)) req_length m st = None"
proof -
  let ?b = "mkb 260 (map Some bytes)"
  have len: "length ?b = 260" using assms(6) by (intro length_mkb) simp
  have rd: "rd ?b 0 = Some a" "rd ?b 1 = Some f" "rd ?b 2 = Some h" "rd ?b 3 = Some l"
    "rd ?b 4 = Some n" "rd ?b 5 = Some k"
    using assms(6) by (simp_all add: assms(1) rd_mkb)
  have pos: "0 \<le> be16 h l" "0 < be16 n k"
    using assms(2,5) by (auto simp: announced_def be16_def)
  have out: "rd ?b i = None" if "7 + int (length data) \<le> i" for i
    using that assms(1,6) by (auto simp: rd_def mkb_def nth_append)
  have regs: "get_registers ?b 7 (be16 h l) (be16 n k) t = None" if "f = 0x10" for t
  proof (rule ccontr)
    assume "get_registers ?b 7 (be16 h l) (be16 n k) t \<noteq> None"
    then obtain t' where t': "get_registers ?b 7 (be16 h l) (be16 n k) t = Some t'" by auto
    from get_registers_reads [OF t', of "be16 n k - 1"] out [of "7 + 2 * (be16 n k - 1) + 1"] pos assms(5) that
    show False by (simp add: announced_def)
  qed
  have bits: "modbus_set_bits_from_bytes t (be16 h l) (be16 n k) (\<lambda>i. rd ?b (7 + i)) = None" if "f = 0x0F" for t
  proof (rule ccontr)
    assume "modbus_set_bits_from_bytes t (be16 h l) (be16 n k) (\<lambda>i. rd ?b (7 + i)) \<noteq> None"
    then obtain t' where t': "modbus_set_bits_from_bytes t (be16 h l) (be16 n k) (\<lambda>i. rd ?b (7 + i)) = Some t'" by auto
    from set_bits_reads [OF t' pos(1), of "be16 n k - 1"] out [of "7 + (be16 n k - 1) div 8"] pos assms(5) that
    show False by (simp add: announced_def)
  qed
  from assms(2) show ?thesis
  proof
    assume f: "f = 0x0F"
    then show ?thesis
      using len rd bits assms(3,4)
      by (auto simp: modbus_reply_def modbus_rtu_filter_request_def modbus_rtu_prepare_response_tid_def reply_switch_def
          reply_write_multiple_coils_def Let_def)
  next
    assume f: "f = 0x10"
    then show ?thesis
      using len rd regs assms(3,4)
      by (auto simp: modbus_reply_def modbus_rtu_filter_request_def modbus_rtu_prepare_response_tid_def reply_switch_def
          reply_write_multiple_registers_def Let_def)
  qed
qed

theorem rtu_write_overread_witness:
  "modbus_reply (line_os (\<lambda>_. [])) (modbus_rtu_backend (line_os (\<lambda>_. []))) (mkb 260 (map Some ([0, 0x10, 0, 0, 0, 5, 2] @ [7, 8, 0x11, 0x22]))) 11
     \<lparr>nb_bits = 0, nb_input_bits = 0, nb_input_registers = 0, nb_registers = 9, tab_bits = [], tab_input_bits = [],
       tab_input_registers = [], tab_registers = init (replicate 9 0)\<rparr> (line_state 1 []) = None"
  by (rule rtu_write_overread [OF refl]) (simp_all add: be16_def announced_def)

section \<open>Transaction identifiers\<close>

lemma next_t_id_Suc: "next_t_id t = t + 1"
proof (cases "t < 0xFFFF")
  case False
  moreover have "unat t < 2 ^ LENGTH(16)" by (rule unsigned_less)
  then have "t \<le> 0xFFFF" by (simp add: word_le_nat_alt)
  ultimately have "t = 0xFFFF" by simp
  then show ?thesis by (simp add: next_t_id_def)
qed (simp add: next_t_id_def)

lemma next_t_id_iterate: "(next_t_id ^^ n) t = t + of_nat n"
  by (induction n) (simp_all add: next_t_id_Suc)

lemma request_t_id:
  assumes "modbus_tcp_build_request_basis fc addr nb (fresh 12) st = Some ((n, req), st1)"
  shows "tcp_t_id st1 = next_t_id (tcp_t_id st)"
    "take 2 req = init [hi_byte (uint (tcp_t_id st1)), lo_byte (uint (tcp_t_id st1))]"
proof -
  from assms have "st1 = tcp_tick st" and "req = mkb 12 (tcp_hdr (uint (next_t_id (tcp_t_id st))) (byte (mb_slave (ctx st))) @
              map Some [byte fc, hi_byte addr, lo_byte addr, hi_byte nb, lo_byte nb])"
    using tcp.request_basis [where n = 12 and st = st] by simp_all
  then show "tcp_t_id st1 = next_t_id (tcp_t_id st)"
    "take 2 req = init [hi_byte (uint (tcp_t_id st1)), lo_byte (uint (tcp_t_id st1))]"
    by (simp_all add: tcp_tick_def tcp_hdr_def mkb_def init_def)
qed

lemma bytes_determine:
  fixes t u :: u16
  assumes "hi_byte (uint t) = hi_byte (uint u)" "lo_byte (uint t) = lo_byte (uint u)"
  shows "t = u"
proof -
  have "be16 (hi_byte (uint v)) (lo_byte (uint v)) = uint v" for v :: u16
  proof (rule be16_bytes)
    have "uint v < 2 ^ LENGTH(16)" by (rule unsigned_less)
    then show "uint v < 65536" by simp
  qed simp
  with assms have "uint t = uint u" by metis
  then show ?thesis by (rule unsigned_word_eqI)
qed

text \<open>
  Two requests of a TCP client with fewer than 65535 others between them carry different
  transaction identifiers, also when the identifier wraps in between.
\<close>

theorem tcp_ids_distinct:
  assumes "modbus_tcp_build_request_basis fc addr nb (fresh 12) st = Some ((n, req), st1)"
    and "modbus_tcp_build_request_basis fc' addr' nb' (fresh 12) st1' = Some ((n', req'), st2)"
    and "tcp_t_id st1' = (next_t_id ^^ k) (tcp_t_id st1)" and "k < 65535"
  shows "take 2 req \<noteq> take 2 req'"
proof
  assume same: "take 2 req = take 2 req'"
  have "tcp_t_id st1 = tcp_t_id st2"
    using same request_t_id(2) [OF assms(1)] request_t_id(2) [OF assms(2)] by (auto simp: init_def intro: bytes_determine)
  then have "tcp_t_id st1 = tcp_t_id st1 + of_nat (Suc k)"
    using request_t_id(1) [OF assms(2)] assms(3) by (simp add: next_t_id_Suc next_t_id_iterate add.commute)
  then have "of_nat (Suc k) = (0 :: u16)" by (simp only: add_cancel_right_right)
  then have "2 ^ 16 dvd Suc k" by (simp only: word_of_nat_eq_0_iff) simp
  with assms(4) show False by (auto dest!: dvd_imp_le)
qed

theorem tcp_ids_distinct_witness:
  "\<exists>n req st1 n' req' st2. modbus_tcp_build_request_basis 3 0 1 (fresh 12) (line_state 1 []) = Some ((n, req), st1) \<and>
     modbus_tcp_build_request_basis 3 0 1 (fresh 12) (st1\<lparr>tcp_t_id := (next_t_id ^^ 100) (tcp_t_id st1)\<rparr>) = Some ((n', req'), st2) \<and>
     take 2 req \<noteq> take 2 req'"
proof -
  have build: "\<exists>n req st1. modbus_tcp_build_request_basis 3 0 1 (fresh 12) st = Some ((n, req), st1)" for st :: "u8 list mstate"
    using tcp.request_basis [where n = 12 and st = st] by simp
  obtain n req st1 where one: "modbus_tcp_build_request_basis 3 0 1 (fresh 12) (line_state 1 []) = Some ((n, req), st1)"
    using build by blast
  obtain n' req' st2 where two: "modbus_tcp_build_request_basis 3 0 1 (fresh 12) (st1\<lparr>tcp_t_id := (next_t_id ^^ 100) (tcp_t_id st1)\<rparr>) = Some ((n', req'), st2)"
    using build by blast
  from tcp_ids_distinct [OF one two, of 100] one two show ?thesis by auto
qed

section \<open>Connecting\<close>

lemma ctx_c_ret [simp]: "ctx (snd (c_ret r st)) = ctx st"
  by (simp add: c_ret_def split: sum.splits)

lemma ctx_ipv4_options [simp]: "ctx (snd (modbus_tcp_set_ipv4_options os s st)) = ctx st"
  by (auto simp: modbus_tcp_set_ipv4_options_def Let_def c_ret_def split: prod.splits sum.splits if_splits)

lemma tcp_pi_try_fails:
  assumes "\<And>s a w. isl (fst (sys_connect os s a w))"
  shows "ctx (tcp_pi_try os ais st) = ctx st"
proof (induction ais arbitrary: st)
  case (Cons ai ais)
  have fail: "fst (c_ret (sys_connect os s a w) st) = -1" for s a w and st :: "'a mstate"
    using assms [of s a w] by (auto simp: c_ret_def split: sum.splits)
  then show ?case
    by (simp add: Cons.IH close_fd_def Let_def split_beta)
qed simp

text \<open>
  When no address of the host accepts a connection \<open>_modbus_tcp_pi_connect\<close>
  leaves the context alone and fails only if the context holds no descriptor: with one left from
  an earlier connection it reports success.
\<close>

theorem tcp_pi_connect_stale:
  assumes "\<And>s a w. isl (fst (sys_connect os s a w))"
    and "tcp_pi_data st = Some d" "c_str (pi_node d) = Some node" "c_str (pi_service d) = Some service"
    and "sys_getaddrinfo os (Some node) service False (world st) = (Inr ais, w)"
  shows "\<exists>st'. modbus_tcp_pi_connect os st = Some (if mb_s (ctx st) < 0 then -1 else 0, st') \<and> ctx st' = ctx st"
  using assms(2-5) tcp_pi_try_fails [OF assms(1), of ais "st\<lparr>world := w\<rparr>"]
  by (simp add: modbus_tcp_pi_connect_def)

theorem tcp_pi_connect_stale_witness:
  "\<exists>st'. modbus_tcp_pi_connect ((line_os (\<lambda>_. []))\<lparr>sys_connect := \<lambda>_ _ w. (Inl ECONNREFUSED, w),
       sys_getaddrinfo := \<lambda>_ _ _ w. (Inr [\<lparr>ai_family_inet = True, ai_addr = Addr ''a''\<rparr>], w)\<rparr>)
     ((line_state 1 [])\<lparr>ctx := (ctx (line_state 1 []))\<lparr>mb_backend_data :=
        TcpPiData \<lparr>pi_node = init [CHR ''h'', NUL], pi_service = init [CHR ''5'', NUL]\<rparr>\<rparr>\<rparr>) = Some (0, st')"
proof -
  let ?os = "(line_os (\<lambda>_. []))\<lparr>sys_connect := \<lambda>_ _ w. (Inl ECONNREFUSED, w),
       sys_getaddrinfo := \<lambda>_ _ _ w. (Inr [\<lparr>ai_family_inet = True, ai_addr = Addr ''a''\<rparr>], w)\<rparr>"
  let ?d = "\<lparr>pi_node = init [CHR ''h'', NUL], pi_service = init [CHR ''5'', NUL]\<rparr>"
  let ?st = "(line_state 1 [])\<lparr>ctx := (ctx (line_state 1 []))\<lparr>mb_backend_data := TcpPiData ?d\<rparr>\<rparr>"
  have "isl (fst (sys_connect ?os s a w))" for s a w by simp
  moreover have "tcp_pi_data ?st = Some ?d" "c_str (pi_node ?d) = Some ''h''" "c_str (pi_service ?d) = Some ''5''"
    by (simp_all add: tcp_pi_data_def init_def NUL_def)
  moreover have "sys_getaddrinfo ?os (Some ''h'') ''5'' False (world ?st)
      = (Inr [\<lparr>ai_family_inet = True, ai_addr = Addr ''a''\<rparr>], [])" by simp
  ultimately obtain st' where "modbus_tcp_pi_connect ?os ?st = Some (if mb_s (ctx ?st) < 0 then -1 else 0, st')"
    using tcp_pi_connect_stale [of ?os ?st ?d "''h''" "''5''"] by blast
  moreover have "\<not> mb_s (ctx ?st) < 0" by (simp add: line_state_def)
  ultimately show ?thesis by simp
qed

end
