(* ===== verification/Link.thy ===== *)
theory Link
  imports Bsp_Driver
begin

text \<open>
  The serial line: what the arguments of \<open>modbus_new_rtu\<close> make of it, and how \<open>send_msg\<close> recovers a line
  that was lost.
\<close>

section \<open>The format of the line\<close>

text \<open>What the settings of a line mean: data bits, parity and stop bits of a character.\<close>

definition line_data :: "termios \<Rightarrow> int" where
  "line_data t =
     (if c_cflag t AND CSIZE = CS5 then 5
      else if c_cflag t AND CSIZE = CS6 then 6
      else if c_cflag t AND CSIZE = CS7 then 7
      else 8)"

definition line_parity :: "termios \<Rightarrow> char" where
  "line_parity t =
     (if c_cflag t AND PARENB = 0 then CHR ''N''
      else if c_cflag t AND PARODD = 0 then CHR ''E''
      else CHR ''O'')"

definition line_stop :: "termios \<Rightarrow> int" where
  "line_stop t = (if c_cflag t AND CSTOPB = 0 then 1 else 2)"

text \<open>No processing of the bytes, parity checked where there is one, reads that do not wait.\<close>

definition raw_line :: "termios \<Rightarrow> bool" where
  "raw_line t \<longleftrightarrow>
     c_lflag t AND (ICANON OR ECHO OR ECHOE OR ISIG) = 0 \<and> c_oflag t AND OPOST = 0 \<and>
     c_iflag t AND (IXON OR IXOFF OR IXANY) = 0 \<and> c_cflag t AND CREAD \<noteq> 0 \<and> c_cflag t AND CLOCAL \<noteq> 0 \<and>
     (c_iflag t AND INPCK \<noteq> 0 \<longleftrightarrow> line_parity t \<noteq> CHR ''N'') \<and> c_vmin t = 0 \<and> c_vtime t = 0"

lemmas line_settings = rtu_tios_def rtu_speed_def rtu_cflags_def rtu_lflags_def rtu_iflags_def rtu_oflags_def rtu_control_chars_def
  tios_parity_def set_cflag_def tios_zero_def data_bits_flag_def Let_def

lemma tios_fields:
  "c_lflag (rtu_tios r) = 0" "c_oflag (rtu_tios r) = 0" "c_vmin (rtu_tios r) = 0" "c_vtime (rtu_tios r) = 0"
  "c_ispeed (rtu_tios r) = speed_of_baud (rtu_baud r)" "c_ospeed (rtu_tios r) = speed_of_baud (rtu_baud r)"
  "c_iflag (rtu_tios r) = (if rtu_parity r = CHR ''N'' then 0 else 0x10)"
  by (simp_all add: line_settings)

text \<open>The bits of the speed are apart from those of the format.\<close>

lemma speed_apart:
  "speed_of_baud b AND 0x10 = 0" "speed_of_baud b AND 0x20 = 0" "speed_of_baud b AND 0x30 = 0" "speed_of_baud b AND 0x40 = 0"
  "speed_of_baud b AND 0x80 = 0" "speed_of_baud b AND 0x100 = 0" "speed_of_baud b AND 0x200 = 0" "speed_of_baud b AND 0x800 = 0"
  by (simp_all add: speed_of_baud_def)

lemma or_and_apart: "(s AND m) = (0 :: u32) \<Longrightarrow> (s OR f) AND m = f AND m"
  by (simp add: bit.conj_disj_distrib2)

lemma or_clear_apart: "(s AND m) = (0 :: u32) \<Longrightarrow> (s OR f) AND NOT m = s OR (f AND NOT m)"
proof (rule bit_word_eqI)
  fix n assume a: "s AND m = 0"
  have "bit (s AND m) n = bit (0 :: u32) n" by (simp only: a)
  then show "bit ((s OR f) AND NOT m) n = bit (s OR (f AND NOT m)) n" if "n < LENGTH(32)"
    using that by (auto simp: bit_simps)
qed

lemmas speed_clear = or_clear_apart [OF speed_apart(3)] or_clear_apart [OF speed_apart(4)] or_clear_apart [OF speed_apart(6)]
  or_clear_apart [OF speed_apart(7)]

text \<open>The flags of the format as a number.\<close>

definition frame_flags :: "u8 \<Rightarrow> bool \<Rightarrow> char \<Rightarrow> u32" where
  "frame_flags d one p =
     0x880 + data_bits_flag d + (if one then 0 else 0x40) + (if p = CHR ''N'' then 0 else if p = CHR ''E'' then 0x100 else 0x300)"

lemma tios_cflag: "c_cflag (rtu_tios r) = speed_of_baud (rtu_baud r) OR frame_flags (rtu_data_bit r) (rtu_stop_bit r = 1) (rtu_parity r)"
proof -
  consider "rtu_data_bit r = 5" | "rtu_data_bit r = 6" | "rtu_data_bit r = 7" | "rtu_data_bit r \<notin> {5, 6, 7}" by blast
  then show ?thesis
    by cases (simp_all add: line_settings frame_flags_def speed_clear [simplified] or.assoc)
qed

lemma frame_flags_read:
  assumes "p \<in> {CHR ''N'', CHR ''E'', CHR ''O''}" "c_cflag t = speed_of_baud baud OR frame_flags d one p"
  shows "line_data t = (if d \<in> {5, 6, 7} then uint d else 8) \<and> line_parity t = p \<and>
    line_stop t = (if one then 1 else 2) \<and> c_cflag t AND CREAD \<noteq> 0 \<and> c_cflag t AND CLOCAL \<noteq> 0"
proof -
  have d: "d = 5 \<or> d = 6 \<or> d = 7 \<or> d \<notin> {5, 6, 7}" by blast
  have flags: "data_bits_flag 5 = 0" "data_bits_flag 6 = 0x10" "data_bits_flag 7 = 0x20"
    "d \<notin> {5, 6, 7} \<Longrightarrow> data_bits_flag d = 0x30"
    by (simp_all add: data_bits_flag_def)
  have p: "p = CHR ''N'' \<or> p = CHR ''E'' \<or> p = CHR ''O''" using assms(1) by blast
  show ?thesis
    using d p assms(2)
    by (elim disjE; cases one)
      (simp_all add: line_data_def line_parity_def line_stop_def frame_flags_def flags or_and_apart speed_apart)
qed

lemma tios_format:
  assumes "rtu_parity r \<in> {CHR ''N'', CHR ''E'', CHR ''O''}"
  shows "line_data (rtu_tios r) = (if rtu_data_bit r \<in> {5, 6, 7} then uint (rtu_data_bit r) else 8) \<and>
     line_parity (rtu_tios r) = rtu_parity r \<and>
     line_stop (rtu_tios r) = (if rtu_stop_bit r = 1 then 1 else 2) \<and> raw_line (rtu_tios r)"
  using frame_flags_read [OF assms tios_cflag]
  by (simp add: raw_line_def tios_fields)

text \<open>
  What is asked of \<open>modbus_new_rtu\<close> is what the line is set to when it is connected: the parity, the number
  of data bits from 5 to 7, with 8 for any other, and one stop bit, with two for any other number.
\<close>

theorem rtu_line_format:
  assumes "modbus_new_rtu c device baud parity data_bit stop_bit = Some (Inr c')"
    and "0 \<le> data_bit" "data_bit < 256" "0 \<le> stop_bit" "stop_bit < 256"
  shows "\<exists>r. mb_backend_data c' = RtuData r \<and> raw_line (rtu_tios r) \<and>
     line_data (rtu_tios r) = (if data_bit \<in> {5, 6, 7} then data_bit else 8) \<and>
     line_parity (rtu_tios r) = parity \<and> line_stop (rtu_tios r) = (if stop_bit = 1 then 1 else 2) \<and>
     c_ispeed (rtu_tios r) = speed_of_baud baud \<and> c_ospeed (rtu_tios r) = speed_of_baud baud"
proof -
  obtain dev where r: "mb_backend_data c' = RtuData \<lparr>rtu_device = dev, rtu_baud = baud, rtu_data_bit = byte data_bit,
      rtu_stop_bit = byte stop_bit, rtu_parity = parity, rtu_old_tios = None, rtu_serial_mode = None\<rparr>" (is "_ = RtuData ?r")
    and p: "parity \<in> {CHR ''N'', CHR ''E'', CHR ''O''}"
    using assms(1) by (auto simp: modbus_new_rtu_def Option.bind_eq_Some_conv split: if_splits)
  have eq: "uint (byte x) = x" "byte x = (of_nat n :: u8) \<longleftrightarrow> x = int n" if "0 \<le> x" "x < 256" "n < 256" for x n
  proof -
    show u: "uint (byte x) = x" using that by (simp add: byte_def unsigned_of_int take_bit_int_eq_self)
    have "uint (of_nat n :: u8) = int n" using that(3) by (simp add: unsigned_of_nat take_bit_nat_eq_self)
    with u show "byte x = (of_nat n :: u8) \<longleftrightarrow> x = int n" by (metis word_uint_eq_iff)
  qed
  have d: "byte data_bit \<in> {5, 6, 7} \<longleftrightarrow> data_bit \<in> {5, 6, 7}"
    using eq(2) [OF assms(2,3), of 5] eq(2) [OF assms(2,3), of 6] eq(2) [OF assms(2,3), of 7] by simp
  have s: "byte stop_bit = 1 \<longleftrightarrow> stop_bit = 1" using eq(2) [OF assms(4,5), of 1] by simp
  show ?thesis
    using tios_format [of ?r] r p d s eq(1) [OF assms(2,3), of 0] by (simp add: tios_fields)
qed

theorem rtu_line_format_witness:
  "\<exists>c' r. modbus_new_rtu (ctx (line_state 1 [])) (''/dev/ttyS4'' @ [NUL]) 19200 (CHR ''E'') 7 2 = Some (Inr c') \<and>
     mb_backend_data c' = RtuData r \<and> line_data (rtu_tios r) = 7 \<and> line_parity (rtu_tios r) = CHR ''E'' \<and>
     line_stop (rtu_tios r) = 2"
proof -
  obtain c' where new: "modbus_new_rtu (ctx (line_state 1 [])) (''/dev/ttyS4'' @ [NUL]) 19200 (CHR ''E'') 7 2 = Some (Inr c')"
    using strlcpy_fits [of "''/dev/ttyS4''" 16 "fresh 16"] by (auto simp: modbus_new_rtu_def NUL_def)
  with rtu_line_format [OF new] show ?thesis by auto
qed

section \<open>Sending until it succeeds\<close>

text \<open>One round of the loop of \<open>send_msg\<close>, and the state after some rounds that failed.\<close>

definition attempt :: "'w os \<Rightarrow> 'w modbus_backend \<Rightarrow> u8 cbuf \<Rightarrow> int \<Rightarrow> ('w, int) exec" where
  "attempt os be msg len st =
     do { (rc, st) \<leftarrow> be_send be msg len st;
          st \<leftarrow> (if rc = -1 \<and> recovery_link st then send_recover os be st else Some st);
          Some (rc, st) }"

fun after_failures :: "'w os \<Rightarrow> 'w modbus_backend \<Rightarrow> u8 cbuf \<Rightarrow> int \<Rightarrow> nat \<Rightarrow> 'w mstate \<Rightarrow> 'w mstate option" where
  "after_failures os be msg len 0 st = Some st"
| "after_failures os be msg len (Suc n) st =
     do { (rc, st) \<leftarrow> attempt os be msg len st;
          if rc = -1 \<and> recovery_link st then after_failures os be msg len n st else None }"

lemma send_loop_attempt:
  "send_loop os be msg len st =
     do { (rc, st) \<leftarrow> attempt os be msg len st;
          if rc = -1 \<and> recovery_link st then send_loop os be msg len st else Some (rc, st) }"
  by (subst send_loop.simps) (auto simp: attempt_def bind_assoc split: bind_split)

lemma send_loop_rounds:
  assumes "send_loop os be msg len st = Some (rc, st')"
  shows "\<exists>n s. after_failures os be msg len n st = Some s \<and> attempt os be msg len s = Some (rc, st') \<and>
     (rc = -1 \<longrightarrow> \<not> recovery_link st')"
proof -
  have "\<exists>n s. after_failures os be msg len n st = Some s \<and> attempt os be msg len s = Some y \<and>
      (fst y = -1 \<longrightarrow> \<not> recovery_link (snd y))" if "send_loop os be msg len st = Some y" for y
    using that
  proof (rule send_loop.raw_induct [rotated], goal_cases)
    case (1 loop os be msg len st y)
    from 1(2) obtain r s where at: "attempt os be msg len st = Some (r, s)"
      and rest: "(if recovery_link s \<and> r = -1 then loop os be msg len s else Some (r, s)) = Some y"
      by (auto simp: attempt_def Option.bind_eq_Some_conv)
    show ?case
    proof (cases "recovery_link s \<and> r = -1")
      case True
      with rest 1(1) obtain n u where "after_failures os be msg len n s = Some u" "attempt os be msg len u = Some y"
        "fst y = -1 \<longrightarrow> \<not> recovery_link (snd y)" by fastforce
      with at True show ?thesis by (intro exI [of _ "Suc n"] exI [of _ u]) simp
    next
      case False
      with rest at show ?thesis by (intro exI [of _ 0] exI [of _ st]) auto
    qed
  qed
  from this [OF assms] show ?thesis by simp
qed

text \<open>
  The call returns exactly when some round succeeds, or fails without recovery, and then with that
  round's result; where every round fails it never returns.
\<close>

theorem send_loop_returns_iff:
  "send_loop os be msg len st = Some (rc, st') \<longleftrightarrow>
     (\<exists>n s. after_failures os be msg len n st = Some s \<and> attempt os be msg len s = Some (rc, st') \<and>
        (rc = -1 \<longrightarrow> \<not> recovery_link st'))"
proof
  have "send_loop os be msg len st = Some (rc, st')"
    if "after_failures os be msg len n st = Some s" "attempt os be msg len s = Some (rc, st')" "rc = -1 \<longrightarrow> \<not> recovery_link st'" for n s
    using that
  proof (induction n arbitrary: st)
    case 0
    then show ?case by (subst send_loop_attempt) auto
  next
    case (Suc n)
    then show ?case by (subst send_loop_attempt) (auto simp: Option.bind_eq_Some_conv split: if_splits)
  qed
  then show "\<exists>n s. after_failures os be msg len n st = Some s \<and> attempt os be msg len s = Some (rc, st') \<and>
      (rc = -1 \<longrightarrow> \<not> recovery_link st') \<Longrightarrow> send_loop os be msg len st = Some (rc, st')" by blast
qed (rule send_loop_rounds)

section \<open>A serial line that is lost and found\<close>

lemma rtu_reopens:
  assumes "rtu_data st = Some r" "rtu_old_tios r = Some old" "world st = w1"
    and "sys_tcsetattr os (mb_s (ctx st)) old w1 = (a2, w2)" "sys_close os (mb_s (ctx st)) w2 = (a3, w3)"
    and "c_str (rtu_device r) = Some dev" "sys_open os dev w3 = (Inr fd, w4)" "fd \<noteq> -1"
    and "sys_tcgetattr os fd w4 = (Inr old', w5)" "sys_tcsetattr os fd (rtu_tios r) w5 = (Inr 0, w6)"
    and "errno st \<in> {EBADF, ECONNRESET, EPIPE}"
  shows "send_recover os (modbus_rtu_backend os) st = Some (st\<lparr>ctx := (ctx st)\<lparr>mb_s := fd,
     mb_backend_data := RtuData (r\<lparr>rtu_old_tios := Some old', rtu_serial_mode := Some MODBUS_RTU_RS232\<rparr>)\<rparr>, world := w6\<rparr>)"
proof -
  have tios: "rtu_tios (r\<lparr>rtu_old_tios := x\<rparr>) = rtu_tios r" for x
    by (simp add: rtu_tios_def rtu_speed_def rtu_cflags_def rtu_iflags_def)
  have data: "mb_backend_data (ctx st) = RtuData r"
    using assms(1) by (auto simp: rtu_data_def split: backend_data.splits)
  obtain c e t w where st: "st = \<lparr>ctx = c, errno = e, tcp_t_id = t, world = w\<rparr>" by (cases st)
  show ?thesis
    using assms data unfolding st
    by (auto simp: send_recover_def modbus_close_def modbus_connect_def modbus_rtu_close_def modbus_rtu_connect_def
        rtu_open_def rtu_data_def set_rtu_data_def set_s_def set_ctx_def c_ret_def tios Let_def split: sum.splits)
qed

text \<open>
  C37: A message that is sent on a serial line that was lost, with link recovery on, is sent
  after all: \<open>send_msg\<close> closes the line, opens it again with the settings of the
  context and returns the number of bytes written there. The context then has the new
  descriptor, and its serial mode is RS-232 whatever it was before.
\<close>

theorem rtu_send_recovers:
  assumes "recovery_link st" and "rtu_data st = Some r" "rtu_old_tios r = Some old" and "rds msg 0 (nat len) = Some bs"
    and "sys_write os (mb_s (ctx st)) bs (world st) = (Inl e, w1)" "e \<in> {EBADF, ECONNRESET, EPIPE}"
    and "sys_tcsetattr os (mb_s (ctx st)) old w1 = (a2, w2)" "sys_close os (mb_s (ctx st)) w2 = (a3, w3)"
    and "c_str (rtu_device r) = Some dev" "sys_open os dev w3 = (Inr fd, w4)" "fd \<noteq> -1"
    and "sys_tcgetattr os fd w4 = (Inr old', w5)" "sys_tcsetattr os fd (rtu_tios r) w5 = (Inr 0, w6)"
    and "sys_write os fd bs w6 = (Inr n, w7)" "n \<noteq> -1"
  shows "send_loop os (modbus_rtu_backend os) msg len st = Some (n, st\<lparr>ctx := (ctx st)\<lparr>mb_s := fd,
     mb_backend_data := RtuData (r\<lparr>rtu_old_tios := Some old', rtu_serial_mode := Some MODBUS_RTU_RS232\<rparr>)\<rparr>,
     errno := e, world := w7\<rparr>)"
proof -
  let ?be = "modbus_rtu_backend os" and ?st1 = "st\<lparr>errno := e, world := w1\<rparr>"
  let ?st2 = "st\<lparr>ctx := (ctx st)\<lparr>mb_s := fd,
     mb_backend_data := RtuData (r\<lparr>rtu_old_tios := Some old', rtu_serial_mode := Some MODBUS_RTU_RS232\<rparr>)\<rparr>,
     errno := e, world := w6\<rparr>"
  have "be_send ?be msg len st = Some (-1, ?st1)"
    using assms(4,5) by (simp add: modbus_rtu_send_def c_ret_def)
  moreover have "recovery_link ?st1" using assms(1) by (simp add: recovery_link_def)
  moreover have "send_recover os ?be ?st1 = Some ?st2"
    using rtu_reopens [of ?st1 r old w1 os a2 w2 a3 w3 dev fd w4 old' w5 w6] assms
    by (simp add: rtu_data_def)
  moreover have "recovery_link ?st2" using assms(1) by (simp add: recovery_link_def)
  ultimately have "after_failures os ?be msg len 1 st = Some ?st2"
    by (simp add: attempt_def)
  moreover have "attempt os ?be msg len ?st2 = Some (n, ?st2\<lparr>world := w7\<rparr>)"
    using assms(4,14,15) by (simp add: attempt_def modbus_rtu_send_def c_ret_def)
  ultimately have "send_loop os ?be msg len st = Some (n, ?st2\<lparr>world := w7\<rparr>)"
    using assms(15) send_loop_returns_iff by blast
  then show ?thesis by simp
qed

text \<open>The context holds a descriptor that is no longer valid; opening the line again gives number 3.\<close>

definition lost_line :: modbus_rtu_t where
  "lost_line = \<lparr>rtu_device = fill (fresh 16) 0 (''/dev/ttyS1'' @ [NUL]), rtu_baud = 9600, rtu_data_bit = 8,
     rtu_stop_bit = 1, rtu_parity = CHR ''N'', rtu_old_tios = Some tios_zero, rtu_serial_mode = Some MODBUS_RTU_RS485\<rparr>"

definition lost_state :: "(u8 list \<times> (u8 \<Rightarrow> device option)) mstate" where
  "lost_state = set_ctx (\<lambda>c. c\<lparr>mb_s := 5, mb_error_recovery := MODBUS_ERROR_RECOVERY_LINK, mb_backend_data := RtuData lost_line\<rparr>) bus_state"

definition found_bus :: "(u8 list \<times> (u8 \<Rightarrow> device option)) os" where
  "found_bus = module_bus\<lparr>sys_write := (\<lambda>fd bs w. if fd = 3 then (Inr (int (length bs)), w) else (Inl EBADF, w))\<rparr>"

theorem rtu_send_recovers_witness:
  "\<exists>st'. send_loop found_bus (modbus_rtu_backend found_bus) (init [1, 2, 3]) 3 lost_state = Some (3, st') \<and>
     mb_s (ctx st') = 3 \<and> errno st' = EBADF"
proof -
  have name: "c_str (rtu_device lost_line) = Some ''/dev/ttyS1''"
  proof -
    have "c_str (fill (fresh 16) 0 (''/dev/ttyS1'' @ [NUL])) = Some ''/dev/ttyS1''"
      by (rule c_str_fill) (simp_all add: NUL_def)
    then show ?thesis by (simp add: lost_line_def del: append_Cons append_Nil)
  qed
  have msg: "rds (init [1, 2, 3]) 0 (nat 3) = Some [1, 2, 3 :: u8]"
    by (simp add: rd_init numeral_3_eq_3)
  have "recovery_link lost_state" by (simp add: recovery_link_def lost_state_def set_ctx_def)
  moreover have "rtu_data lost_state = Some lost_line" by (simp add: rtu_data_def lost_state_def set_ctx_def)
  moreover have "rtu_old_tios lost_line = Some tios_zero" by (simp add: lost_line_def)
  ultimately show ?thesis
    using rtu_send_recovers [of lost_state lost_line tios_zero "init [1, 2, 3]" 3 "[1, 2, 3]" found_bus EBADF "world lost_state" _
      "world lost_state" _ "world lost_state" "''/dev/ttyS1''" 3 "world lost_state" tios_zero "world lost_state" "world lost_state" 3 "world lost_state"]
      name msg
    by (simp add: found_bus_def module_bus_def lost_state_def set_ctx_def)
qed

end
