(* ===== verification/Interleaving.thy ===== *)
theory Interleaving
  imports Prelude
begin

text \<open>
  Threads on shared state: each has a state of its own and takes its steps in any order with the
  others. Two contracts of a step, and what any interleaving keeps under them.
\<close>

text \<open>The shared state and the states of the threads.\<close>

inductive interleave :: "('g \<times> 'l \<Rightarrow> ('g \<times> 'l) option) \<Rightarrow> 'g \<times> ('c \<Rightarrow> 'l) \<Rightarrow> 'g \<times> ('c \<Rightarrow> 'l) \<Rightarrow> bool"
  for step :: "'g \<times> 'l \<Rightarrow> ('g \<times> 'l) option" where
  interleave: "step (g, ls c) = Some (g', l) \<Longrightarrow> interleave step (g, ls) (g', ls(c := l))"

inductive_cases interleaveE: "interleave step s s'"

text \<open>A step of one thread alone.\<close>

definition alone :: "('g \<times> 'l \<Rightarrow> ('g \<times> 'l) option) \<Rightarrow> 'g \<times> 'l \<Rightarrow> 'g \<times> 'l \<Rightarrow> bool" where
  "alone step s s' \<longleftrightarrow> step s = Some s'"

text \<open>
  A step that keeps a property of its thread and changes the shared state only along a preorder.
\<close>

locale guarantee =
  fixes step :: "'g \<times> 'l \<Rightarrow> ('g \<times> 'l) option" and ok :: "'l \<Rightarrow> bool" and rel :: "'g \<Rightarrow> 'g \<Rightarrow> bool"
  assumes step_ok: "step (g, l) = Some (g', l') \<Longrightarrow> ok l \<Longrightarrow> ok l' \<and> rel g g'"
    and rel_refl: "rel g g" and rel_trans: "rel g g' \<Longrightarrow> rel g' g'' \<Longrightarrow> rel g g''"
begin

lemma interleaving_keeps:
  assumes "(interleave step)\<^sup>*\<^sup>* (g, ls) (g', ls')" "\<forall>c. ok (ls c)"
  shows "rel g g' \<and> (\<forall>c. ok (ls' c))"
  using assms(1)
proof (induction rule: rtranclp_induct2)
  case refl
  then show ?case using assms(2) rel_refl by simp
next
  case (step g1 ls1 g2 ls2)
  then obtain c l where st: "step (g1, ls1 c) = Some (g2, l)" "ls2 = ls1(c := l)" by (auto elim: interleaveE)
  with step(3) step_ok [OF st(1)] show ?case by (auto intro: rel_trans)
qed

end

text \<open>
  A thread whose steps depend on a part of the shared state only, and others that do not change
  that part.
\<close>

locale isolation =
  fixes step :: "'g \<times> 'l \<Rightarrow> ('g \<times> 'l) option" and mine others :: "'l \<Rightarrow> bool" and same :: "'g \<Rightarrow> 'g \<Rightarrow> bool"
  assumes other_step: "step (g, l) = Some (g', l') \<Longrightarrow> others l \<Longrightarrow> others l' \<and> same g' g"
    and my_step: "step (g, l) = Some (g', l') \<Longrightarrow> mine l \<Longrightarrow> same g h \<Longrightarrow>
       mine l' \<and> (\<exists>h'. step (h, l) = Some (h', l') \<and> same g' h')"
    and same_refl: "same g g" and same_trans: "same g g' \<Longrightarrow> same g' g'' \<Longrightarrow> same g g''"
begin

lemma interleaving_projects:
  assumes "(interleave step)\<^sup>*\<^sup>* (g, ls) (g', ls')" "mine (ls c)" "\<forall>d. d \<noteq> c \<longrightarrow> others (ls d)"
  shows "\<exists>h. (alone step)\<^sup>*\<^sup>* (g, ls c) (h, ls' c) \<and> same g' h"
proof -
  have "mine (ls' c) \<and> (\<forall>d. d \<noteq> c \<longrightarrow> others (ls' d)) \<and> (\<exists>h. (alone step)\<^sup>*\<^sup>* (g, ls c) (h, ls' c) \<and> same g' h)"
    using assms(1)
  proof (induction rule: rtranclp_induct2)
    case refl
    then show ?case using assms(2,3) same_refl by auto
  next
    case (step g1 ls1 g2 ls2)
    then obtain d l where st: "step (g1, ls1 d) = Some (g2, l)" "ls2 = ls1(d := l)" by (auto elim: interleaveE)
    from step(3) obtain h where h: "(alone step)\<^sup>*\<^sup>* (g, ls c) (h, ls1 c)" "same g1 h" by blast
    show ?case
    proof (cases "d = c")
      case True
      with st(1) step(3) h(2) obtain h' where h': "mine l" "step (h, ls1 c) = Some (h', l)" "same g2 h'"
        using my_step by blast
      then have "(alone step)\<^sup>*\<^sup>* (g, ls c) (h', l)"
        using h(1) by (simp add: alone_def rtranclp.rtrancl_into_rtrancl)
      with True h'(1,3) st(2) step(3) show ?thesis by auto
    next
      case False
      with st(1) step(3) have "others l" "same g2 g1" using other_step by blast+
      with False h st(2) step(3) show ?thesis by (auto intro: same_trans)
    qed
  qed
  then show ?thesis by blast
qed

end

end
