(* ===== verification/Poll_Threads.thy ===== *)
theory Poll_Threads
  imports Consen Interleaving
begin

text \<open>
  \<open>ConsenCom::run\<close> of \<open>system/src/Consen.cpp\<close> on the two serial lines at once: the steps of the two
  threads on the shared regions and the shared \<open>static\<close> buffer, in any order. What a task does on the
  line and in the buffer is one step, each access to a byte of the region is one; each line has a
  kernel state of its own.
\<close>

section \<open>The steps of one line\<close>

datatype com = Com1 | Com2

text \<open>
  Where a thread is: before a task, between the read and \<open>assemble_io_status\<close>, or in its loop, with the
  position, the byte under construction and the number of its next bit.
\<close>

datatype pc = Next | Fetched consen_task_cfg_t | Packing consen_task_cfg_t int "int \<times> u8 \<times> nat"

record 'w line =
  task_vec :: "consen_task_cfg_t list"
  todo :: "consen_task_cfg_t list"
  pc :: pc
  mst :: "'w mstate"

definition nap :: "'w os \<Rightarrow> int \<Rightarrow> 'w mstate \<Rightarrow> 'w mstate" where
  "nap os ns st =
     (case sys_nanosleep os (0, ns) (world st) of
        (Inl e, w) \<Rightarrow> st\<lparr>errno := fst e, world := w\<rparr>
      | (Inr _, w) \<Rightarrow> st\<lparr>world := w\<rparr>)"

definition begin_task :: "'w os \<Rightarrow> consen_task_cfg_t \<Rightarrow> regions \<Rightarrow> 'w line \<Rightarrow> (regions \<times> 'w line) option" where
  "begin_task os t g l =
     (if cmd_id t = 2 then do {
        st \<leftarrow> setAddr os (slave_id t) (mst l);
        ((_, buf), st) \<leftarrow> modbus_read_input_bits os (modbus_rtu_backend os) (uint (task_addr t)) (uint (data_num t)) (poll_buf g) st;
        Some (g\<lparr>poll_buf := buf\<rparr>, l\<lparr>pc := Fetched t, mst := st\<rparr>) }
      else do {
        (g, st) \<leftarrow> poll_task os t g (mst l);
        Some (g, l\<lparr>pc := Next, mst := st\<rparr>) })"

definition line_step :: "'w os \<Rightarrow> regions \<times> 'w line \<Rightarrow> (regions \<times> 'w line) option" where
  "line_step os s =
     (case s of (g, l) \<Rightarrow>
        (case pc l of
           Next \<Rightarrow>
             (case todo l of
                [] \<Rightarrow> Some (g, l\<lparr>todo := task_vec l, mst := nap os 1000000 (mst l)\<rparr>)
              | t # ts \<Rightarrow> begin_task os t g (l\<lparr>todo := ts\<rparr>))
         | Fetched t \<Rightarrow> do {
             let a = int (unat (task_offset t));
             b \<leftarrow> rd (modbus_bool g) (a div 8);
             Some (g, l\<lparr>pc := Packing t 0 (a div 8, b, nat (a mod 8))\<rparr>) }
         | Packing t i (offset, b, shift) \<Rightarrow>
             if i < uint (data_num t) then do {
               (offset, b, shift, m) \<leftarrow> assemble_step (poll_buf g) i (offset, b, shift, modbus_bool g);
               Some (g\<lparr>modbus_bool := m\<rparr>, l\<lparr>pc := Packing t (i + 1) (offset, b, shift)\<rparr>) }
             else do {
               m \<leftarrow> wr (modbus_bool g) offset b;
               Some (g\<lparr>modbus_bool := m\<rparr>, l\<lparr>pc := Next\<rparr>) }))"

abbreviation line_rel :: "'w os \<Rightarrow> regions \<times> 'w line \<Rightarrow> regions \<times> 'w line \<Rightarrow> bool" where
  "line_rel os \<equiv> alone (line_step os)"

section \<open>Both lines\<close>

record 'w polling =
  shared :: regions
  line_of :: "com \<Rightarrow> 'w line"

inductive poll_step :: "'w os \<Rightarrow> 'w polling \<Rightarrow> 'w polling \<Rightarrow> bool" for os :: "'w os" where
  poll_step: "line_step os (shared s, line_of s c) = Some (g, l) \<Longrightarrow>
     poll_step os s (s\<lparr>shared := g, line_of := (line_of s)(c := l)\<rparr>)"

inductive_cases poll_stepE: "poll_step os s s'"

abbreviation polls :: "'w os \<Rightarrow> 'w polling \<Rightarrow> 'w polling \<Rightarrow> bool" where
  "polls os \<equiv> (poll_step os)\<^sup>*\<^sup>*"

lemma polls_interleave:
  "polls os s s' \<Longrightarrow> (interleave (line_step os))\<^sup>*\<^sup>* (shared s, line_of s) (shared s', line_of s')"
proof (induction rule: rtranclp_induct)
  case (step s1 s2)
  from step(2) have "interleave (line_step os) (shared s1, line_of s1) (shared s2, line_of s2)"
    by (auto elim!: poll_stepE intro: interleave.intros simp del: fun_upd_apply)
  with step(3) show ?case by (rule rtranclp.rtrancl_into_rtrancl)
qed simp

section \<open>The steps of a line alone\<close>

lemma line_rel_trans:
  "line_step os s = Some s' \<Longrightarrow> (line_rel os)\<^sup>*\<^sup>* s' s'' \<Longrightarrow> (line_rel os)\<^sup>*\<^sup>* s s''"
  by (simp add: alone_def converse_rtranclp_into_rtranclp)

lemma packing_runs:
  assumes "for_range i n (assemble_step (poll_buf g)) (o1, b1, s1, m1) = Some (o2, b2, s2, m2)"
    and "n = uint (data_num t)" "i \<le> n"
  shows "(line_rel os)\<^sup>*\<^sup>* (g\<lparr>modbus_bool := m1\<rparr>, l\<lparr>pc := Packing t i (o1, b1, s1)\<rparr>)
     (g\<lparr>modbus_bool := m2\<rparr>, l\<lparr>pc := Packing t n (o2, b2, s2)\<rparr>)"
  using assms
proof (induction "nat (n - i)" arbitrary: i o1 b1 s1 m1)
  case 0
  then show ?case by simp
next
  case (Suc k)
  then have i: "i < n" by simp
  with Suc.prems(1) obtain o' b' s' m' where
    st: "assemble_step (poll_buf g) i (o1, b1, s1, m1) = Some (o', b', s', m')"
      "for_range (i + 1) n (assemble_step (poll_buf g)) (o', b', s', m') = Some (o2, b2, s2, m2)"
    by (auto simp: for_range_step Option.bind_eq_Some_conv)
  have "(line_rel os)\<^sup>*\<^sup>* (g\<lparr>modbus_bool := m'\<rparr>, l\<lparr>pc := Packing t (i + 1) (o', b', s')\<rparr>)
     (g\<lparr>modbus_bool := m2\<rparr>, l\<lparr>pc := Packing t n (o2, b2, s2)\<rparr>)"
    using Suc.hyps st(2) Suc.prems(2) i by (intro Suc.hyps(1)) auto
  moreover have "line_step os (g\<lparr>modbus_bool := m1\<rparr>, l\<lparr>pc := Packing t i (o1, b1, s1)\<rparr>)
     = Some (g\<lparr>modbus_bool := m'\<rparr>, l\<lparr>pc := Packing t (i + 1) (o', b', s')\<rparr>)"
    using st(1) i Suc.prems(2) by (simp add: line_step_def)
  ultimately show ?case by (rule line_rel_trans [rotated])
qed

lemma fetched_runs:
  assumes "assemble_io_status (int (unat (task_offset t))) (uint (data_num t)) (poll_buf g) (modbus_bool g) = Some m"
  shows "(line_rel os)\<^sup>*\<^sup>* (g, l\<lparr>pc := Fetched t\<rparr>) (g\<lparr>modbus_bool := m\<rparr>, l\<lparr>pc := Next\<rparr>)"
proof -
  let ?a = "int (unat (task_offset t))" and ?n = "uint (data_num t)"
  from assms obtain b o' b' s' m' where r: "rd (modbus_bool g) (?a div 8) = Some b"
    "for_range 0 ?n (assemble_step (poll_buf g)) (?a div 8, b, nat (?a mod 8), modbus_bool g) = Some (o', b', s', m')"
    "wr m' o' b' = Some m"
    by (auto simp: assemble_io_status_def Option.bind_eq_Some_conv)
  have "line_step os (g, l\<lparr>pc := Fetched t\<rparr>) = Some (g, l\<lparr>pc := Packing t 0 (?a div 8, b, nat (?a mod 8))\<rparr>)"
    using r(1) by (simp add: line_step_def Let_def)
  moreover have "(line_rel os)\<^sup>*\<^sup>* (g, l\<lparr>pc := Packing t 0 (?a div 8, b, nat (?a mod 8))\<rparr>)
      (g\<lparr>modbus_bool := m'\<rparr>, l\<lparr>pc := Packing t ?n (o', b', s')\<rparr>)"
    using packing_runs [OF r(2), of t os l] by simp
  moreover have "line_step os (g\<lparr>modbus_bool := m'\<rparr>, l\<lparr>pc := Packing t ?n (o', b', s')\<rparr>)
      = Some (g\<lparr>modbus_bool := m\<rparr>, l\<lparr>pc := Next\<rparr>)"
    using r(3) by (simp add: line_step_def)
  ultimately show ?thesis
    by (meson line_rel_trans rtranclp.rtrancl_refl rtranclp_trans)
qed

lemma poll_task_fetch:
  assumes "cmd_id t = 2"
  shows "poll_task os t g st = Some (g', st') \<longleftrightarrow>
     (\<exists>st1 rc buf m. setAddr os (slave_id t) st = Some st1 \<and>
        modbus_read_input_bits os (modbus_rtu_backend os) (uint (task_addr t)) (uint (data_num t)) (poll_buf g) st1
          = Some ((rc, buf), st') \<and>
        assemble_io_status (int (unat (task_offset t))) (uint (data_num t)) buf (modbus_bool g) = Some m \<and>
        g' = g\<lparr>poll_buf := buf, modbus_bool := m\<rparr>)"
  using assms by (auto simp: poll_task_def Let_def Option.bind_eq_Some_conv)

lemma task_runs:
  assumes "poll_task os t g (mst l) = Some (g', st')" "pc l = Next" "todo l = t # ts"
  shows "(line_rel os)\<^sup>*\<^sup>* (g, l) (g', l\<lparr>todo := ts, mst := st'\<rparr>)"
proof (cases "cmd_id t = 2")
  case True
  with assms(1) obtain st1 rc buf m where r: "setAddr os (slave_id t) (mst l) = Some st1"
    "modbus_read_input_bits os (modbus_rtu_backend os) (uint (task_addr t)) (uint (data_num t)) (poll_buf g) st1
       = Some ((rc, buf), st')"
    "assemble_io_status (int (unat (task_offset t))) (uint (data_num t)) buf (modbus_bool g) = Some m"
    "g' = g\<lparr>poll_buf := buf, modbus_bool := m\<rparr>"
    by (auto simp: poll_task_fetch)
  have "line_step os (g, l) = Some (g\<lparr>poll_buf := buf\<rparr>, l\<lparr>todo := ts, mst := st'\<rparr>\<lparr>pc := Fetched t\<rparr>)"
    using True r(1,2) assms(2,3) by (cases l) (simp add: line_step_def begin_task_def)
  moreover have "(line_rel os)\<^sup>*\<^sup>* (g\<lparr>poll_buf := buf\<rparr>, l\<lparr>todo := ts, mst := st'\<rparr>\<lparr>pc := Fetched t\<rparr>)
      (g\<lparr>poll_buf := buf\<rparr>\<lparr>modbus_bool := m\<rparr>, l\<lparr>todo := ts, mst := st'\<rparr>\<lparr>pc := Next\<rparr>)"
    using r(3) by (intro fetched_runs) simp
  moreover have "l\<lparr>todo := ts, mst := st'\<rparr>\<lparr>pc := Next\<rparr> = l\<lparr>todo := ts, mst := st'\<rparr>"
    using assms(2) by (cases l) simp
  ultimately show ?thesis
    using r(4) line_rel_trans by fastforce
next
  case False
  then have "line_step os (g, l) = Some (g', l\<lparr>todo := ts, mst := st'\<rparr>)"
    using assms by (simp add: line_step_def begin_task_def)
  then show ?thesis by (auto intro: line_rel_trans)
qed

lemma poll_runs:
  assumes "poll os (todo l) g (mst l) = Some (g', st')" "pc l = Next"
  shows "(line_rel os)\<^sup>*\<^sup>* (g, l) (g', l\<lparr>todo := [], mst := st'\<rparr>)"
  using assms
proof (induction "todo l" arbitrary: l g)
  case Nil
  then have "g = g'" "l\<lparr>todo := [], mst := st'\<rparr> = l"
    by (cases l, simp_all)+
  then show ?case by simp
next
  case (Cons t ts)
  then obtain g1 st1 where s: "poll_task os t g (mst l) = Some (g1, st1)" "poll os ts g1 st1 = Some (g', st')"
    by (auto simp: Cons.hyps(2) [symmetric] Option.bind_eq_Some_conv)
  have "(line_rel os)\<^sup>*\<^sup>* (g, l) (g1, l\<lparr>todo := ts, mst := st1\<rparr>)"
    using task_runs [OF s(1) Cons.prems(2)] Cons.hyps(2) by simp
  also have "(line_rel os)\<^sup>*\<^sup>* (g1, l\<lparr>todo := ts, mst := st1\<rparr>) (g', l\<lparr>todo := ts, mst := st1\<rparr>\<lparr>todo := [], mst := st'\<rparr>)"
    using s(2) Cons.prems(2) by (intro Cons.hyps(1)) simp_all
  finally show ?case by simp
qed

lemma line_runs_polls:
  assumes "(line_rel os)\<^sup>*\<^sup>* (g, l) (g', l')" "shared s = g" "line_of s c = l"
  shows "polls os s (s\<lparr>shared := g', line_of := (line_of s)(c := l')\<rparr>)"
  using assms(1)
proof (induction rule: rtranclp_induct2)
  case refl
  have "s\<lparr>shared := g, line_of := (line_of s)(c := l)\<rparr> = s" using assms(2,3) by auto
  then show ?case by (simp del: fun_upd_apply)
next
  case (step g1 l1 g2 l2)
  have "poll_step os (s\<lparr>shared := g1, line_of := (line_of s)(c := l1)\<rparr>)
      (s\<lparr>shared := g1, line_of := (line_of s)(c := l1)\<rparr>\<lparr>shared := g2, line_of := (line_of (s\<lparr>shared := g1, line_of := (line_of s)(c := l1)\<rparr>))(c := l2)\<rparr>)"
    using step(2) by (intro poll_step.intros) (simp add: alone_def)
  with step(3) show ?case by (simp add: rtranclp.rtrancl_into_rtrancl del: fun_upd_apply)
qed

section \<open>Bytes that no task addresses\<close>

definition touched :: "consen_task_cfg_t \<Rightarrow> nat set" where
  "touched t = {unat (task_offset t) div 8 .. (unat (task_offset t) + unat (data_num t)) div 8}"

definition packs :: "'w line \<Rightarrow> consen_task_cfg_t \<Rightarrow> bool" where
  "packs l t \<longleftrightarrow> t \<in> set (task_vec l) \<and> cmd_id t = 2"

definition line_ok :: "'w line \<Rightarrow> bool" where
  "line_ok l \<longleftrightarrow> set (todo l) \<subseteq> set (task_vec l) \<and>
     (case pc l of
        Next \<Rightarrow> True
      | Fetched t \<Rightarrow> packs l t
      | Packing t i (p, b, sh) \<Rightarrow> packs l t \<and> 0 \<le> i \<and> i \<le> uint (data_num t) \<and> sh < 8 \<and>
          8 * p + int sh = int (unat (task_offset t)) + i)"

text \<open>Nothing changes outside the bytes of some tasks.\<close>

definition kept :: "consen_task_cfg_t set \<Rightarrow> regions \<Rightarrow> regions \<Rightarrow> bool" where
  "kept T g g' \<longleftrightarrow> length (modbus_bool g') = length (modbus_bool g) \<and>
     (\<forall>k. (\<forall>t \<in> T. k \<notin> touched t) \<longrightarrow> modbus_bool g' ! k = modbus_bool g ! k)"

definition line_within :: "consen_task_cfg_t set \<Rightarrow> 'w line \<Rightarrow> bool" where
  "line_within T l \<longleftrightarrow> line_ok l \<and> Collect (packs l) \<subseteq> T"

lemma kept_at:
  assumes "t \<in> T" "p \<in> touched t" "length m = length (modbus_bool g)" "\<forall>k. k \<noteq> p \<longrightarrow> m ! k = modbus_bool g ! k"
  shows "kept T g (g\<lparr>modbus_bool := m\<rparr>)"
proof -
  have "k \<noteq> p" if "\<forall>t \<in> T. k \<notin> touched t" for k
    using that assms(1,2) by blast
  with assms(3,4) show ?thesis by (simp add: kept_def)
qed

lemma assemble_step_moves:
  assumes "assemble_step tab i (p, b, sh, m) = Some (p', b', sh', m')" "sh < 8"
  shows "sh' < 8 \<and> 8 * p' + int sh' = 8 * p + int sh + 1 \<and> length m' = length m \<and>
     (\<forall>k. k \<noteq> nat p \<longrightarrow> m' ! k = m ! k)"
  using assms by (auto simp: assemble_step_def wr_def Let_def Option.bind_eq_Some_conv split: if_splits)

lemma position_touched:
  assumes "8 * p + int sh = int (unat (task_offset t)) + i" "0 \<le> i" "i \<le> uint (data_num t)" "sh < 8"
  shows "nat p \<in> touched t"
proof -
  let ?a = "unat (task_offset t)"
  have "0 \<le> p" using assms(1,2,4) by linarith
  then obtain q where q: "p = int q" by (metis nonneg_int_cases)
  obtain j where j: "i = int j" using assms(2) by (metis nonneg_int_cases)
  have "uint (data_num t) = int (unat (data_num t))" by simp
  with assms(3) have "j \<le> unat (data_num t)" unfolding j by (simp only: of_nat_le_iff)
  moreover have "8 * q + sh = ?a + j" using assms(1) q j by linarith
  ultimately show ?thesis using q assms(4) by (auto simp: touched_def)
qed

lemma poll_task_other_bits:
  "poll_task os t g st = Some (g', st') \<Longrightarrow> cmd_id t \<noteq> 2 \<Longrightarrow> modbus_bool g' = modbus_bool g \<and> poll_buf g' = poll_buf g"
  by (auto simp: poll_task_def Let_def Option.bind_eq_Some_conv split: if_splits)

lemma begin_task_kept:
  assumes "begin_task os t g l = Some (g', l')" "packs l t \<or> cmd_id t \<noteq> 2"
  shows "modbus_bool g' = modbus_bool g \<and> task_vec l' = task_vec l \<and> todo l' = todo l \<and>
     (pc l' = Next \<or> pc l' = Fetched t \<and> packs l t)"
  using assms by (auto simp: begin_task_def Option.bind_eq_Some_conv dest: poll_task_other_bits split: if_splits)

lemma line_step_kept:
  assumes "line_step os (g, l) = Some (g', l')" "line_ok l"
  shows "line_ok l' \<and> task_vec l' = task_vec l \<and> kept (Collect (packs l)) g g'"
proof (cases "pc l")
  case Next
  show ?thesis
  proof (cases "todo l")
    case Nil
    with Next assms show ?thesis by (auto simp: line_step_def line_ok_def kept_def)
  next
    case (Cons t ts)
    then have "packs (l\<lparr>todo := ts\<rparr>) t \<or> cmd_id t \<noteq> 2"
      using assms(2) by (auto simp: line_ok_def packs_def)
    moreover from Next Cons assms(1) have "begin_task os t g (l\<lparr>todo := ts\<rparr>) = Some (g', l')"
      by (simp add: line_step_def)
    ultimately show ?thesis
      using begin_task_kept [of os t g "l\<lparr>todo := ts\<rparr>" g' l'] assms(2) Cons
      by (auto simp: line_ok_def kept_def packs_def)
  qed
next
  case (Fetched t)
  with assms show ?thesis
    by (auto simp: line_step_def line_ok_def kept_def packs_def Let_def Option.bind_eq_Some_conv)
next
  case (Packing t i r)
  obtain p b sh where r: "r = (p, b, sh)" by (cases r)
  have ok: "packs l t" "0 \<le> i" "i \<le> uint (data_num t)" "sh < 8" "8 * p + int sh = int (unat (task_offset t)) + i"
    using assms(2) Packing r by (simp_all add: line_ok_def)
  have here: "nat p \<in> touched t" using ok by (intro position_touched)
  show ?thesis
  proof (cases "i < uint (data_num t)")
    case True
    with Packing r assms(1) obtain p' b' sh' m' where
      st: "assemble_step (poll_buf g) i (p, b, sh, modbus_bool g) = Some (p', b', sh', m')"
        "g' = g\<lparr>modbus_bool := m'\<rparr>" "l' = l\<lparr>pc := Packing t (i + 1) (p', b', sh')\<rparr>"
      by (auto simp: line_step_def Option.bind_eq_Some_conv)
    from assemble_step_moves [OF st(1) ok(4)] have
      mv: "sh' < 8" "8 * p' + int sh' = 8 * p + int sh + 1" "length m' = length (modbus_bool g)"
        "\<forall>k. k \<noteq> nat p \<longrightarrow> m' ! k = modbus_bool g ! k" by simp_all
    have "line_ok l'"
      using assms(2) True ok mv(1,2) st(3) by (simp add: line_ok_def packs_def)
    moreover have "kept (Collect (packs l)) g g'"
      unfolding st(2) using ok(1) by (intro kept_at [OF _ here mv(3,4)]) simp
    ultimately show ?thesis using st(3) by simp
  next
    case False
    with Packing r assms(1) obtain m' where
      st: "wr (modbus_bool g) p b = Some m'" "g' = g\<lparr>modbus_bool := m'\<rparr>" "l' = l\<lparr>pc := Next\<rparr>"
      by (auto simp: line_step_def Option.bind_eq_Some_conv)
    have "line_ok l'" using assms(2) st(3) by (simp add: line_ok_def)
    moreover have "kept (Collect (packs l)) g g'"
      unfolding st(2) using st(1) ok(1) by (intro kept_at [OF _ here]) (auto simp: wr_def split: if_splits)
    ultimately show ?thesis using st(3) by simp
  qed
qed

lemma kept_mono: "kept S g g' \<Longrightarrow> S \<subseteq> T \<Longrightarrow> kept T g g'"
  by (auto simp: kept_def)

interpretation within: guarantee "line_step os" "line_within T" "kept T" for os T
proof
  fix g :: regions and l g' l'
  assume st: "line_step os (g, l) = Some (g', l')" and l: "line_within T l"
  then have "line_ok l'" "task_vec l' = task_vec l" "kept (Collect (packs l)) g g'"
    using line_step_kept [OF st] by (simp_all add: line_within_def)
  with l show "line_within T l' \<and> kept T g g'"
    by (auto simp: line_within_def packs_def intro: kept_mono)
qed (simp_all add: kept_def)

text \<open>
  C29: However the threads of the two lines interleave, a byte of the region outside the bytes
  that the tasks for discrete inputs address, the one behind their last bit included, never
  changes, nor does the size of the region.
\<close>

theorem stray_bytes_kept:
  assumes "polls os s s'" and "\<forall>c. pc (line_of s c) = Next \<and> set (todo (line_of s c)) \<subseteq> set (task_vec (line_of s c))"
    and "\<forall>c. \<forall>t \<in> set (task_vec (line_of s c)). cmd_id t = 2 \<longrightarrow>
       k < unat (task_offset t) div 8 \<or> (unat (task_offset t) + unat (data_num t)) div 8 < k"
  shows "length (modbus_bool (shared s')) = length (modbus_bool (shared s)) \<and>
     modbus_bool (shared s') ! k = modbus_bool (shared s) ! k"
proof -
  let ?T = "\<Union>c. Collect (packs (line_of s c))"
  have "\<forall>c. line_within ?T (line_of s c)" using assms(2) by (auto simp: line_within_def line_ok_def)
  from within.interleaving_keeps [OF polls_interleave [OF assms(1)] this]
  have "kept ?T (shared s) (shared s')" ..
  moreover have "k \<notin> touched t" if "packs (line_of s c) t" for c t
    using assms(3) that by (fastforce simp: packs_def touched_def)
  ultimately show ?thesis by (simp add: kept_def)
qed

section \<open>A line is not disturbed by one that polls no inputs\<close>

definition same_bits :: "regions \<Rightarrow> regions \<Rightarrow> bool" where
  "same_bits g h \<longleftrightarrow> modbus_bool g = modbus_bool h \<and> poll_buf g = poll_buf h"

definition only :: "(u8 \<Rightarrow> bool) \<Rightarrow> 'w line \<Rightarrow> bool" where
  "only P l \<longleftrightarrow> (\<forall>t \<in> set (task_vec l) \<union> set (todo l). P (cmd_id t))"

lemma line_step_only:
  assumes "line_step os (g, l) = Some (g', l')" "only P l"
  shows "only P l'"
proof -
  have "set (todo l') \<subseteq> set (task_vec l) \<union> set (todo l)" "task_vec l' = task_vec l"
    using assms(1)
    by (auto simp: line_step_def begin_task_def Let_def Option.bind_eq_Some_conv
      split: pc.splits list.splits if_splits prod.splits)
  with assms(2) show ?thesis by (auto simp: only_def)
qed

lemma line_step_same_bits:
  assumes "line_step os (g, l) = Some (g', l')" "only (\<lambda>n. n \<noteq> 2) l" "pc l = Next"
  shows "same_bits g' g \<and> pc l' = Next"
  using assms
  by (auto simp: line_step_def begin_task_def only_def same_bits_def Option.bind_eq_Some_conv
    dest: poll_task_other_bits split: list.splits if_splits)

lemma poll_task_frame:
  assumes "poll_task os t g st = Some (g', st')" "same_bits g h" "cmd_id t \<noteq> 2" "cmd_id t \<noteq> 4" "cmd_id t \<noteq> 16"
  shows "\<exists>h'. poll_task os t h st = Some (h', st') \<and> same_bits g' h'"
  using assms
  by (auto simp: poll_task_def same_bits_def Let_def Option.bind_eq_Some_conv split: if_splits)

lemma begin_task_frame:
  assumes "begin_task os t g l = Some (g', l')" "same_bits g h" "cmd_id t \<noteq> 4" "cmd_id t \<noteq> 16"
  shows "\<exists>h'. begin_task os t h l = Some (h', l') \<and> same_bits g' h'"
proof (cases "cmd_id t = 2")
  case True
  with assms(1,2) show ?thesis
    by (auto simp: begin_task_def same_bits_def Option.bind_eq_Some_conv)
next
  case False
  with assms(1) obtain st where st: "poll_task os t g (mst l) = Some (g', st)" "l' = l\<lparr>pc := Next, mst := st\<rparr>"
    by (auto simp: begin_task_def Option.bind_eq_Some_conv)
  with False assms(2-4) poll_task_frame [OF st(1), of h]
  obtain h' where "poll_task os t h (mst l) = Some (h', st)" "same_bits g' h'" by blast
  with False st(2) show ?thesis by (simp add: begin_task_def)
qed

lemma line_step_frame:
  assumes "line_step os (g, l) = Some (g', l')" "same_bits g h" "only (\<lambda>n. n \<noteq> 4 \<and> n \<noteq> 16) l"
  shows "\<exists>h'. line_step os (h, l) = Some (h', l') \<and> same_bits g' h'"
proof (cases "pc l")
  case Next
  show ?thesis
  proof (cases "todo l")
    case Nil
    with Next assms show ?thesis by (auto simp: line_step_def)
  next
    case (Cons t ts)
    then have "cmd_id t \<noteq> 4" "cmd_id t \<noteq> 16" using assms(3) by (auto simp: only_def)
    with Next Cons assms(1,2) begin_task_frame [of os t g "l\<lparr>todo := ts\<rparr>" g' l' h] show ?thesis
      by (simp add: line_step_def)
  qed
next
  case (Fetched t)
  with assms(1,2) show ?thesis
    by (auto simp: line_step_def same_bits_def Let_def Option.bind_eq_Some_conv)
next
  case (Packing t i r)
  with assms(1,2) show ?thesis
    by (auto simp: line_step_def same_bits_def Option.bind_eq_Some_conv split: if_splits prod.splits)
qed

interpretation isolated: isolation "line_step os" "only (\<lambda>n. n \<noteq> 4 \<and> n \<noteq> 16)"
  "\<lambda>l. only (\<lambda>n. n \<noteq> 2) l \<and> pc l = Next" same_bits for os
  using line_step_only line_step_same_bits line_step_frame
  by unfold_locales (blast+, auto simp: same_bits_def)

text \<open>
  C30: If the other line polls no discrete inputs and is between two tasks, and the line itself
  has no tasks for registers (commands 4 and 16), every interleaving gives it the same regions
  of bits, the same buffer and the same state as some run of that line alone. A line with such
  tasks is not covered: it shares the words of the region with the other line.
\<close>

theorem line_isolated:
  assumes "polls os s s'" and "c \<noteq> d" and "pc (line_of s d) = Next"
    and "\<forall>t \<in> set (task_vec (line_of s d)) \<union> set (todo (line_of s d)). cmd_id t \<noteq> 2"
    and "\<forall>t \<in> set (task_vec (line_of s c)) \<union> set (todo (line_of s c)). cmd_id t \<noteq> 4 \<and> cmd_id t \<noteq> 16"
  shows "\<exists>g. (line_rel os)\<^sup>*\<^sup>* (shared s, line_of s c) (g, line_of s' c) \<and>
     modbus_bool g = modbus_bool (shared s') \<and> poll_buf g = poll_buf (shared s')"
proof -
  have mine: "only (\<lambda>n. n \<noteq> 4 \<and> n \<noteq> 16) (line_of s c)" using assms(5) by (simp add: only_def)
  have "e = d" if "e \<noteq> c" for e using that assms(2) by (cases c; cases d; cases e) auto
  then have others: "\<forall>e. e \<noteq> c \<longrightarrow> only (\<lambda>n. n \<noteq> 2) (line_of s e) \<and> pc (line_of s e) = Next"
    using assms(3,4) by (auto simp: only_def)
  from isolated.interleaving_projects [OF polls_interleave [OF assms(1)] mine others]
  show ?thesis by (auto simp: same_bits_def)
qed

section \<open>Two lines that poll inputs disturb each other\<close>

definition fetched_inputs :: "device \<Rightarrow> consen_task_cfg_t \<Rightarrow> u8 cbuf \<Rightarrow> u8 cbuf" where
  "fetched_inputs d t buf =
     (let a = unat (task_addr t); n = unat (data_num t) in
      if a + n \<le> length (inputs d) then fill buf 0 (map of_bool (take n (drop a (inputs d)))) else buf)"

definition wanted :: "device \<Rightarrow> consen_task_cfg_t \<Rightarrow> bool list" where
  "wanted d t = take (unat (data_num t)) (drop (unat (task_addr t)) (inputs d))"

definition has_inputs :: "device \<Rightarrow> consen_task_cfg_t \<Rightarrow> bool" where
  "has_inputs d t \<longleftrightarrow> unat (task_addr t) + unat (data_num t) \<le> length (inputs d)"

lemma length_wanted: "has_inputs d t \<Longrightarrow> length (wanted d t) = unat (data_num t)"
  by (simp add: has_inputs_def wanted_def)

lemma data_num_less: "unat (data_num t) < 256"
  using unsigned_less [of "data_num t", where ?'a = nat] by simp

lemma length_fetched [simp]: "length buf = 256 \<Longrightarrow> length (fetched_inputs d t buf) = 256"
  using le_add_diff_inverse [OF less_imp_le [OF data_num_less [of t]]] by (simp add: fetched_inputs_def Let_def fill_def)

lemma rd_fetched:
  assumes "has_inputs d t" "length buf = 256" "k < unat (data_num t)"
  shows "\<exists>v. rd (fetched_inputs d t buf) (int k) = Some v \<and> (v \<noteq> 0) = wanted d t ! k"
proof -
  have "k < 256" using less_trans [OF assms(3) data_num_less] .
  then have "k < length (fetched_inputs d t buf)" using assms(2) by simp
  then have "rd (fetched_inputs d t buf) (int k) = fetched_inputs d t buf ! k" by (simp add: rd_def)
  with assms show ?thesis
    by (auto simp: fetched_inputs_def wanted_def has_inputs_def Let_def fill_def nth_append)
qed

text \<open>A thread about to poll inputs, on an idle line whose slave is the device.\<close>

definition polling_inputs ::
  "'w os \<Rightarrow> ('w \<Rightarrow> u8 list \<times> (u8 \<Rightarrow> device option)) \<Rightarrow> (u8 \<Rightarrow> device option) \<Rightarrow> device \<Rightarrow>
   consen_task_cfg_t \<Rightarrow> consen_task_cfg_t list \<Rightarrow> 'w line \<Rightarrow> bool" where
  "polling_inputs os line modules d t ts l \<longleftrightarrow>
     pc l = Next \<and> todo l = t # ts \<and> cmd_id t = 2 \<and> 1 \<le> data_num t \<and> slave_id t \<le> 247 \<and>
     idle os line modules (mst l) \<and> modules (slave_id t) = Some d"

lemma polling_reads:
  assumes "polling_inputs os line modules d t ts l" "length buf = 256"
  shows "\<exists>s1 s2 rc. setAddr os (slave_id t) (mst l) = Some s1 \<and>
     modbus_read_input_bits os (modbus_rtu_backend os) (uint (task_addr t)) (uint (data_num t)) buf s1
       = Some ((rc, fetched_inputs d t buf), s2)"
proof -
  let ?n = "unat (data_num t)" and ?a = "unat (task_addr t)"
  have p: "1 \<le> data_num t" "slave_id t \<le> 247" "idle os line modules (mst l)" "modules (slave_id t) = Some d"
    using assms(1) by (simp_all add: polling_inputs_def)
  from idle_setAddr [OF p(3,2)] obtain s1 where
    s1: "setAddr os (slave_id t) (mst l) = Some s1" "idle os line modules s1" "mb_slave (ctx s1) = uint (slave_id t)" by blast
  have lt: "?n < 256" "?a < 65536"
    using data_num_less [of t] unsigned_less [of "task_addr t", where ?'a = nat] by simp_all
  then have n: "1 \<le> ?n" "?n \<le> 255" "?n \<le> length buf" "?a < 65536"
    using p(1) [unfolded word_le_nat_alt] assms(2) by (simp, linarith+)
  from read_input_bits_idle [OF s1(2,3) p(4) n] obtain rc s2 where
    "modbus_read_input_bits os (modbus_rtu_backend os) (int ?a) (int ?n) buf s1 = Some ((rc, fetched_inputs d t buf), s2)"
    unfolding fetched_inputs_def Let_def by blast
  with s1(1) show ?thesis by simp
qed

lemma begin_polling:
  assumes "polling_inputs os line modules d t ts l" "length (poll_buf g) = 256"
  shows "\<exists>st. line_step os (g, l) = Some (g\<lparr>poll_buf := fetched_inputs d t (poll_buf g)\<rparr>, l\<lparr>todo := ts, mst := st\<rparr>\<lparr>pc := Fetched t\<rparr>)"
proof -
  obtain s1 s2 rc where r: "setAddr os (slave_id t) (mst l) = Some s1"
    "modbus_read_input_bits os (modbus_rtu_backend os) (uint (task_addr t)) (uint (data_num t)) (poll_buf g) s1
       = Some ((rc, fetched_inputs d t (poll_buf g)), s2)"
    using polling_reads [OF assms] by blast
  have p: "pc l = Next" "todo l = t # ts" "cmd_id t = 2"
    using assms(1) by (simp_all add: polling_inputs_def)
  have "line_step os (g, l) = Some (g\<lparr>poll_buf := fetched_inputs d t (poll_buf g)\<rparr>, l\<lparr>todo := ts, mst := s2\<rparr>\<lparr>pc := Fetched t\<rparr>)"
    using r p by (cases l) (simp add: line_step_def begin_task_def)
  then show ?thesis ..
qed

lemma polls_line_step:
  assumes "line_step os (shared s, line_of s c) = Some (g, l)"
  shows "polls os s (s\<lparr>shared := g, line_of := (line_of s)(c := l)\<rparr>)"
  using poll_step.intros [OF assms] by (rule r_into_rtranclp)

text \<open>
  C31: When both lines are about to poll discrete inputs, the second one at least as many as the
  first and all of them inputs that its slave has, there is an order of their steps after which
  the first line has finished its task and the bits of that task hold the inputs of the second
  line's slave, whatever those of its own slave are: the buffer is one for both.
\<close>

theorem polls_mix_slaves:
  assumes "polling_inputs os line mods1 d1 t1 ts1 (line_of s Com1)" and "polling_inputs os line mods2 d2 t2 ts2 (line_of s Com2)"
    and "has_inputs d2 t2" and "data_num t1 \<le> data_num t2"
    and "length (poll_buf (shared s)) = 256" and "modbus_bool (shared s) = init bs"
    and "unat (task_offset t1) + unat (data_num t1) < 8 * length bs"
  shows "\<exists>s' bs'. polls os s s' \<and> pc (line_of s' Com1) = Next \<and> todo (line_of s' Com1) = ts1 \<and>
     modbus_bool (shared s') = init bs' \<and> length bs' = length bs \<and>
     (\<forall>k < 8 * length bs. region_bit bs' k =
        (if unat (task_offset t1) \<le> k \<and> k < unat (task_offset t1) + unat (data_num t1)
         then inputs d2 ! (unat (task_addr t2) + (k - unat (task_offset t1))) else region_bit bs k))"
proof -
  let ?g = "shared s" and ?a = "unat (task_offset t1)" and ?n = "unat (data_num t1)"
  let ?buf1 = "fetched_inputs d1 t1 (poll_buf ?g)" and ?vs = "take (unat (data_num t1)) (wanted d2 t2)"
  let ?buf = "fetched_inputs d2 t2 ?buf1"
  obtain st1 where st1: "line_step os (?g, line_of s Com1)
      = Some (?g\<lparr>poll_buf := ?buf1\<rparr>, line_of s Com1\<lparr>todo := ts1, mst := st1\<rparr>\<lparr>pc := Fetched t1\<rparr>)" (is "_ = Some (?g1, ?l1)")
    using begin_polling [OF assms(1,5)] by blast
  let ?s1 = "s\<lparr>shared := ?g1, line_of := (line_of s)(Com1 := ?l1)\<rparr>"
  have "polling_inputs os line mods2 d2 t2 ts2 (line_of ?s1 Com2)" using assms(2) by simp
  moreover have "length (poll_buf (shared ?s1)) = 256" using assms(5) by simp
  ultimately obtain l2 where st2: "line_step os (shared ?s1, line_of ?s1 Com2)
      = Some ((shared ?s1)\<lparr>poll_buf := ?buf\<rparr>, l2)" (is "_ = Some (?g2, _)")
    using begin_polling by fastforce
  let ?s2 = "?s1\<lparr>shared := ?g2, line_of := (line_of ?s1)(Com2 := l2)\<rparr>"
  have n: "?n \<le> unat (data_num t2)" using assms(4) by (simp add: word_le_nat_alt)
  then have len: "length ?vs = ?n" using length_wanted [OF assms(3)] by simp
  have "\<exists>v. rd ?buf (int k) = Some v \<and> (v \<noteq> 0) = ?vs ! k" if "k < length ?vs" for k
    using rd_fetched [OF assms(3), of ?buf1 k] that len n assms(5) by simp
  from assemble_assembles [of ?a ?vs bs ?buf, OF _ this] assms(7) len
  obtain bs' where bs': "assemble_io_status (int ?a) (int ?n) ?buf (init bs) = Some (init bs')" "assembled bs ?a ?vs bs'"
    by auto
  have "(line_rel os)\<^sup>*\<^sup>* (?g2, line_of s Com1\<lparr>todo := ts1, mst := st1\<rparr>\<lparr>pc := Fetched t1\<rparr>)
      (?g2\<lparr>modbus_bool := init bs'\<rparr>, line_of s Com1\<lparr>todo := ts1, mst := st1\<rparr>\<lparr>pc := Next\<rparr>)"
    using bs'(1) assms(6) by (intro fetched_runs) simp
  from line_runs_polls [OF this, of ?s2 Com1] have
    "polls os ?s2 (?s2\<lparr>shared := ?g2\<lparr>modbus_bool := init bs'\<rparr>,
       line_of := (line_of ?s2)(Com1 := line_of s Com1\<lparr>todo := ts1, mst := st1\<rparr>\<lparr>pc := Next\<rparr>)\<rparr>)" (is "polls os _ ?s3") by simp
  with polls_line_step [OF st1] polls_line_step [OF st2] have "polls os s ?s3"
    by (meson rtranclp_trans)
  moreover have "?vs ! j = inputs d2 ! (unat (task_addr t2) + j)" if "j < ?n" for j
    using that n assms(3) by (simp add: wanted_def has_inputs_def)
  ultimately show ?thesis
    using bs'(2) len by (intro exI [of _ ?s3] exI [of _ bs']) (auto simp: assembled_def)
qed

lemma packing_in_byte:
  assumes "\<And>k. k < n \<Longrightarrow> rd tab (int k) \<noteq> None" "sh + n < 8"
  shows "\<exists>b'. for_range 0 (int n) (assemble_step tab) (p, b, sh, m) = Some (p, b', sh + n, m)"
proof -
  let ?I = "\<lambda>i r. \<exists>b'. r = (p, b', sh + nat i, m)"
  have "\<exists>v. assemble_step tab i u = Some v \<and> ?I (i + 1) v" if i: "0 \<le> i" "i < int n" "?I i u" for i u
  proof -
    obtain k where k: "i = int k" "k < n" using i(1,2) by (metis nonneg_int_cases of_nat_less_iff)
    then obtain v where "rd tab i = Some v" using assms(1) by blast
    with i(3) k assms(2) show ?thesis by (auto simp: assemble_step_def Let_def nat_add_distrib)
  qed
  from for_range_total [of 0 "int n" ?I "(p, b, sh, m)", OF _ _ this] show ?thesis by auto
qed

lemma wr_init_cell: "p < length bs \<Longrightarrow> wr (init bs) (int p) b = Some (init (bs[p := b]))"
  by (simp add: wr_def init_def map_update)

text \<open>A line with its inputs in the buffer gets as far as the last write.\<close>

lemma fetched_almost:
  assumes "\<And>k. k < unat (data_num t) \<Longrightarrow> rd (poll_buf g) (int k) \<noteq> None"
    and "unat (task_offset t) mod 8 + unat (data_num t) < 8" and "modbus_bool g = init bs"
    and "unat (task_offset t) div 8 < length bs"
  shows "\<exists>b sh. (line_rel os)\<^sup>*\<^sup>* (g, l\<lparr>pc := Fetched t\<rparr>)
       (g, l\<lparr>pc := Packing t (uint (data_num t)) (int (unat (task_offset t) div 8), b, sh)\<rparr>) \<and>
     assemble_io_status (int (unat (task_offset t))) (uint (data_num t)) (poll_buf g) (init bs)
       = Some (init (bs[unat (task_offset t) div 8 := b]))"
proof -
  let ?a = "unat (task_offset t)" and ?n = "unat (data_num t)"
  have n: "uint (data_num t) = int ?n" by simp
  have b0: "rd (init bs) (int ?a div 8) = Some (bs ! (?a div 8))"
    using rd_init [of "int (?a div 8)" bs] assms(4) by (simp add: nat_div_distrib zdiv_int pos_imp_zdiv_nonneg_iff)
  obtain b' where loop: "for_range 0 (uint (data_num t)) (assemble_step (poll_buf g))
      (int ?a div 8, bs ! (?a div 8), ?a mod 8, init bs) = Some (int ?a div 8, b', ?a mod 8 + ?n, init bs)"
    using packing_in_byte [OF assms(1,2), of "int ?a div 8" "bs ! (?a div 8)" "init bs"] unfolding n by blast
  have sh: "nat (int ?a mod 8) = ?a mod 8" by (simp add: nat_mod_distrib)
  have "line_step os (g, l\<lparr>pc := Fetched t\<rparr>)
      = Some (g, l\<lparr>pc := Packing t 0 (int ?a div 8, bs ! (?a div 8), ?a mod 8)\<rparr>)"
    using b0 assms(3) sh by (simp add: line_step_def Let_def)
  moreover have "(line_rel os)\<^sup>*\<^sup>* (g\<lparr>modbus_bool := init bs\<rparr>, l\<lparr>pc := Packing t 0 (int ?a div 8, bs ! (?a div 8), ?a mod 8)\<rparr>)
      (g\<lparr>modbus_bool := init bs\<rparr>, l\<lparr>pc := Packing t (uint (data_num t)) (int ?a div 8, b', ?a mod 8 + ?n)\<rparr>)"
    by (rule packing_runs [OF loop refl]) simp
  moreover have "g\<lparr>modbus_bool := init bs\<rparr> = g" using assms(3) by (cases g) simp
  moreover have "wr (init bs) (int ?a div 8) b' = Some (init (bs[?a div 8 := b']))"
    using wr_init_cell [OF assms(4), of b'] zdiv_int [of ?a 8] by (simp only: of_nat_numeral)
  ultimately show ?thesis
    using b0 loop sh line_rel_trans [of os "(g, l\<lparr>pc := Fetched t\<rparr>)"]
    by (intro exI [of _ b'] exI [of _ "?a mod 8 + ?n"]) (simp add: assemble_io_status_def zdiv_int)
qed

text \<open>Reading the inputs and packing them, all but the last write, is steps of one line.\<close>

lemma polling_almost:
  assumes "polling_inputs os line modules d t ts (line_of s c)" "has_inputs d t" "length (poll_buf (shared s)) = 256"
    and "unat (task_offset t) mod 8 + unat (data_num t) < 8" "modbus_bool (shared s) = init bs"
    and "unat (task_offset t) div 8 < length bs"
  shows "\<exists>l b sh bs'. polls os s (s\<lparr>shared := (shared s)\<lparr>poll_buf := fetched_inputs d t (poll_buf (shared s))\<rparr>, line_of := (line_of s)(c := l)\<rparr>) \<and>
     pc l = Packing t (uint (data_num t)) (int (unat (task_offset t) div 8), b, sh) \<and> todo l = ts \<and>
     bs' = bs[unat (task_offset t) div 8 := b] \<and> assembled bs (unat (task_offset t)) (wanted d t) bs'"
proof -
  let ?a = "unat (task_offset t)" and ?n = "unat (data_num t)"
  let ?g = "(shared s)\<lparr>poll_buf := fetched_inputs d t (poll_buf (shared s))\<rparr>"
  obtain st where st: "line_step os (shared s, line_of s c) = Some (?g, line_of s c\<lparr>todo := ts, mst := st\<rparr>\<lparr>pc := Fetched t\<rparr>)"
    using begin_polling [OF assms(1,3)] by blast
  have bits: "\<exists>v. rd (poll_buf ?g) (int k) = Some v \<and> (v \<noteq> 0) = wanted d t ! k" if "k < ?n" for k
    using rd_fetched [OF assms(2,3) that] by simp
  then have "rd (poll_buf ?g) (int k) \<noteq> None" if "k < ?n" for k
    using that by fastforce
  from fetched_almost [OF this assms(4) _ assms(6), of os "line_of s c\<lparr>todo := ts, mst := st\<rparr>"] assms(5)
  obtain b sh where
    run: "(line_rel os)\<^sup>*\<^sup>* (?g, line_of s c\<lparr>todo := ts, mst := st\<rparr>\<lparr>pc := Fetched t\<rparr>)
       (?g, line_of s c\<lparr>todo := ts, mst := st\<rparr>\<lparr>pc := Packing t (uint (data_num t)) (int (?a div 8), b, sh)\<rparr>)"
    and out: "assemble_io_status (int ?a) (uint (data_num t)) (poll_buf ?g) (init bs) = Some (init (bs[?a div 8 := b]))"
    by auto
  have "?a + length (wanted d t) < 8 * length bs"
    using assms(4,6) length_wanted [OF assms(2)] mult_div_mod_eq [of 8 ?a] by linarith
  moreover have "int (length (wanted d t)) = uint (data_num t)"
    using length_wanted [OF assms(2)] by simp
  ultimately have "assembled bs ?a (wanted d t) (bs[?a div 8 := b])"
    using assemble_assembles [of ?a "wanted d t" bs "poll_buf ?g"] bits out length_wanted [OF assms(2)]
    by (auto simp: init_def)
  moreover let ?l = "line_of s c\<lparr>todo := ts, mst := st\<rparr>\<lparr>pc := Packing t (uint (data_num t)) (int (?a div 8), b, sh)\<rparr>"
  have "polls os s (s\<lparr>shared := ?g, line_of := (line_of s)(c := ?l)\<rparr>)"
    using line_runs_polls [OF line_rel_trans [OF st run] refl refl] .
  ultimately show ?thesis
    by (intro exI [of _ ?l] exI [of _ b] exI [of _ sh]) simp
qed

text \<open>
  When the tasks of the two lines lie in the same byte of the region, there is an order
  after which both have finished but the first line's inputs are lost: outside the second line's
  bits the region is as before.
\<close>

theorem polls_lose_update:
  assumes "polling_inputs os line mods1 d1 t1 ts1 (line_of s Com1)" and "polling_inputs os line mods2 d2 t2 ts2 (line_of s Com2)"
    and "has_inputs d1 t1" and "has_inputs d2 t2" and "length (poll_buf (shared s)) = 256" and "modbus_bool (shared s) = init bs"
    and "unat (task_offset t1) div 8 = unat (task_offset t2) div 8" and "unat (task_offset t2) div 8 < length bs"
    and "unat (task_offset t1) mod 8 + unat (data_num t1) < 8" and "unat (task_offset t2) mod 8 + unat (data_num t2) < 8"
  shows "\<exists>s' bs'. polls os s s' \<and> (\<forall>c. pc (line_of s' c) = Next) \<and>
     todo (line_of s' Com1) = ts1 \<and> todo (line_of s' Com2) = ts2 \<and>
     modbus_bool (shared s') = init bs' \<and> length bs' = length bs \<and>
     (\<forall>k < 8 * length bs. region_bit bs' k =
        (if unat (task_offset t2) \<le> k \<and> k < unat (task_offset t2) + unat (data_num t2)
         then inputs d2 ! (unat (task_addr t2) + (k - unat (task_offset t2))) else region_bit bs k))"
proof -
  let ?g = "shared s" and ?p = "unat (task_offset t2) div 8"
  let ?g1 = "?g\<lparr>poll_buf := fetched_inputs d1 t1 (poll_buf ?g)\<rparr>"
  have p: "unat (task_offset t1) div 8 < length bs" using assms(7,8) by simp
  obtain l1 b1 sh1 where
    run1: "polls os s (s\<lparr>shared := ?g1, line_of := (line_of s)(Com1 := l1)\<rparr>)" (is "polls os s ?s1")
    and l1: "pc l1 = Packing t1 (uint (data_num t1)) (int ?p, b1, sh1)" "todo l1 = ts1"
    using polling_almost [OF assms(1,3,5,9,6) p] assms(7) by auto
  have com2: "polling_inputs os line mods2 d2 t2 ts2 (line_of ?s1 Com2)" "length (poll_buf (shared ?s1)) = 256"
    "modbus_bool (shared ?s1) = init bs"
    using assms(2,5,6) by simp_all
  let ?g2 = "(shared ?s1)\<lparr>poll_buf := fetched_inputs d2 t2 (poll_buf (shared ?s1))\<rparr>"
  obtain l2 b2 sh2 where
    run2: "polls os ?s1 (?s1\<lparr>shared := ?g2, line_of := (line_of ?s1)(Com2 := l2)\<rparr>)" (is "polls os _ ?s2")
    and l2: "pc l2 = Packing t2 (uint (data_num t2)) (int ?p, b2, sh2)" "todo l2 = ts2"
    and bits: "assembled bs (unat (task_offset t2)) (wanted d2 t2) (bs[?p := b2])"
    using polling_almost [OF com2(1) assms(4) com2(2) assms(10) com2(3) assms(8)] by blast
  let ?g3 = "?g2\<lparr>modbus_bool := init (bs[?p := b1])\<rparr>" and ?l1 = "l1\<lparr>pc := Next\<rparr>"
  let ?s3 = "?s2\<lparr>shared := ?g3, line_of := (line_of ?s2)(Com1 := ?l1)\<rparr>"
  have "line_step os (shared ?s2, line_of ?s2 Com1) = Some (?g3, ?l1)"
    using l1(1) assms(6) wr_init_cell [OF assms(8), of b1] by (simp add: line_step_def)
  from polls_line_step [OF this] have run3: "polls os ?s2 ?s3" .
  let ?g4 = "?g3\<lparr>modbus_bool := init (bs[?p := b2])\<rparr>" and ?l2 = "l2\<lparr>pc := Next\<rparr>"
  let ?s4 = "?s3\<lparr>shared := ?g4, line_of := (line_of ?s3)(Com2 := ?l2)\<rparr>"
  have "wr (init (bs[?p := b1])) (int ?p) b2 = Some (init (bs[?p := b2]))"
    using wr_init_cell [of ?p "bs[?p := b1]" b2] assms(8) by simp
  then have "line_step os (shared ?s3, line_of ?s3 Com2) = Some (?g4, ?l2)"
    using l2(1) by (simp add: line_step_def)
  from polls_line_step [OF this] run1 run2 run3 have "polls os s ?s4" by (meson rtranclp_trans)
  moreover have "pc (line_of ?s4 c) = Next" for c by (cases c) simp_all
  moreover have "wanted d2 t2 ! j = inputs d2 ! (unat (task_addr t2) + j)" if "j < unat (data_num t2)" for j
    using that assms(4) by (simp add: wanted_def has_inputs_def)
  ultimately show ?thesis
    using bits l1(2) l2(2) length_wanted [OF assms(4)]
    by (intro exI [of _ ?s4] exI [of _ "bs[?p := b2]"]) (auto simp: assembled_def)
qed

section \<open>Two lines\<close>

text \<open>The slave of the first line has all inputs set, the one of the second none.\<close>

definition bus_with :: "(u8 \<Rightarrow> device option) \<Rightarrow> (u8 list \<times> (u8 \<Rightarrow> device option)) mstate" where
  "bus_with modules = bus_state\<lparr>world := ([], modules)\<rparr>"

definition quiet_module :: device where
  "quiet_module = some_module\<lparr>inputs := replicate 8 False\<rparr>"

definition quiet_modules :: "u8 \<Rightarrow> device option" where
  "quiet_modules n = (if n = 3 then Some quiet_module else None)"

definition input_task :: "u8 \<Rightarrow> u16 \<Rightarrow> consen_task_cfg_t" where
  "input_task slave off =
     \<lparr>task_com = 0, task_id = 1, slave_id = slave, cmd_id = 2, task_addr = 0, data_num = 3, task_offset = off\<rparr>"

definition line_with :: "(u8 \<Rightarrow> device option) \<Rightarrow> consen_task_cfg_t list \<Rightarrow> (u8 list \<times> (u8 \<Rightarrow> device option)) line" where
  "line_with modules ts = \<lparr>task_vec = ts, todo = ts, pc = Next, mst = bus_with modules\<rparr>"

definition some_regions :: regions where
  "some_regions = \<lparr>modbus_bool = init [0xFF, 0x55], modbus_word = [], poll_buf = init (replicate 256 0)\<rparr>"

definition two_lines :: "consen_task_cfg_t list \<Rightarrow> (u8 list \<times> (u8 \<Rightarrow> device option)) polling" where
  "two_lines ts = \<lparr>shared = some_regions,
     line_of = (\<lambda>c. if c = Com1 then line_with four_modules [input_task 2 1] else line_with quiet_modules ts)\<rparr>"

lemma two_lines_polling [simp]:
  "polling_inputs module_bus (\<lambda>w. w) four_modules some_module (input_task 2 1) [] (line_of (two_lines ts) Com1)"
  "polling_inputs module_bus (\<lambda>w. w) quiet_modules quiet_module (input_task 3 4) [] (line_of (two_lines [input_task 3 4]) Com2)"
  using bus_state_idle
  by (simp_all add: polling_inputs_def two_lines_def line_with_def input_task_def quiet_modules_def bus_with_def idle_def
    recovery_protocol_def bus_state_def)

lemma two_lines_sel [simp]:
  "shared (two_lines ts) = some_regions" "modbus_bool some_regions = init [0xFF, 0x55]"
  "length (poll_buf some_regions) = 256"
  "line_of (two_lines ts) Com1 = line_with four_modules [input_task 2 1]"
  "line_of (two_lines ts) Com2 = line_with quiet_modules ts"
  "pc (line_with m ts) = Next" "todo (line_with m ts) = ts" "task_vec (line_with m ts) = ts"
  by (simp_all add: two_lines_def some_regions_def line_with_def)

lemma input_task_sel [simp]:
  "cmd_id (input_task a off) = 2" "task_offset (input_task a off) = off" "data_num (input_task a off) = 3"
  "task_addr (input_task a off) = 0" "slave_id (input_task a off) = a"
  by (simp_all add: input_task_def)

lemma has_inputs_sel [simp]: "has_inputs some_module (input_task a off)" "has_inputs quiet_module (input_task a off)"
  by (simp_all add: has_inputs_def some_module_def quiet_module_def)

lemma quiet_inputs: "j < 3 \<Longrightarrow> \<not> inputs quiet_module ! j"
  by (simp add: quiet_module_def)

theorem polls_mix_slaves_witness:
  "\<exists>s' bs'. polls module_bus (two_lines [input_task 3 4]) s' \<and> modbus_bool (shared s') = init bs' \<and>
     (\<forall>k < 16. region_bit bs' k = (if 1 \<le> k \<and> k < 4 then False else region_bit [0xFF, 0x55] k))"
proof -
  obtain s' bs' where "polls module_bus (two_lines [input_task 3 4]) s'" "modbus_bool (shared s') = init bs'"
    "\<forall>k < 16. region_bit bs' k = (if 1 \<le> k \<and> k < 4 then inputs quiet_module ! (k - 1) else region_bit [0xFF, 0x55] k)"
    using polls_mix_slaves [OF two_lines_polling, of "[0xFF, 0x55]"] by auto
  with quiet_inputs show ?thesis by (intro exI [of _ s'] exI [of _ bs']) auto
qed

theorem polls_lose_update_witness:
  "\<exists>s' bs'. polls module_bus (two_lines [input_task 3 4]) s' \<and> todo (line_of s' Com1) = [] \<and>
     modbus_bool (shared s') = init bs' \<and>
     (\<forall>k < 16. region_bit bs' k = (if 4 \<le> k \<and> k < 7 then False else region_bit [0xFF, 0x55] k))"
proof -
  obtain s' bs' where "polls module_bus (two_lines [input_task 3 4]) s'" "todo (line_of s' Com1) = []"
    "modbus_bool (shared s') = init bs'"
    "\<forall>k < 16. region_bit bs' k = (if 4 \<le> k \<and> k < 7 then inputs quiet_module ! (k - 4) else region_bit [0xFF, 0x55] k)"
    using polls_lose_update [OF two_lines_polling, of "[0xFF, 0x55]"] by auto
  with quiet_inputs show ?thesis by (intro exI [of _ s'] exI [of _ bs']) auto
qed

lemma two_lines_run:
  "\<exists>s'. polls module_bus (two_lines ts) s' \<and> todo (line_of s' Com1) = [] \<and> pc (line_of s' Com1) \<noteq> Next"
  using polling_almost [OF two_lines_polling(1) has_inputs_sel(1), of ts "[0xFF, 0x55]"] by fastforce

theorem stray_bytes_kept_witness:
  "\<exists>s'. polls module_bus (two_lines [input_task 3 4]) s' \<and> todo (line_of s' Com1) = [] \<and>
     modbus_bool (shared s') ! 1 = Some 0x55"
proof -
  obtain s' where s': "polls module_bus (two_lines [input_task 3 4]) s'" "todo (line_of s' Com1) = []"
    using two_lines_run by blast
  have "pc (line_of (two_lines [input_task 3 4]) c) = Next \<and>
      set (todo (line_of (two_lines [input_task 3 4]) c)) \<subseteq> set (task_vec (line_of (two_lines [input_task 3 4]) c)) \<and>
      (\<forall>t \<in> set (task_vec (line_of (two_lines [input_task 3 4]) c)). (unat (task_offset t) + unat (data_num t)) div 8 < 1)" for c
    by (cases c) simp_all
  with stray_bytes_kept [OF s'(1), of 1] have "modbus_bool (shared s') ! 1 = init [0xFF, 0x55] ! 1" by simp
  with s' show ?thesis by (auto simp: init_def)
qed

theorem line_isolated_witness:
  "\<exists>s' g. polls module_bus (two_lines []) s' \<and> pc (line_of s' Com1) \<noteq> Next \<and>
     (line_rel module_bus)\<^sup>*\<^sup>* (some_regions, line_with four_modules [input_task 2 1]) (g, line_of s' Com1) \<and>
     modbus_bool g = modbus_bool (shared s')"
proof -
  obtain s' where s': "polls module_bus (two_lines []) s'" "pc (line_of s' Com1) \<noteq> Next"
    using two_lines_run by blast
  from line_isolated [OF this(1), of Com1 Com2] s' show ?thesis by auto
qed

end
