(* ===== verification/Poll_Rounds.thy ===== *)
theory Poll_Rounds
  imports Poll_Threads
begin

text \<open>
  What one line's thread of \<open>system/src/Consen.cpp\<close> achieves when the other does not run: a
  specification in terms of bits, words and slaves, without steps, messages or bytes under
  construction, and the proof that the steps of \<open>Poll_Threads\<close> implement it for tasks of every command.
\<close>

section \<open>What a task is to do\<close>

text \<open>
  The world as the configuration sees it: which values the buffer holds, the bits and the words of the
  two regions, the slaves on the line.
\<close>

record poll_image =
  latest :: "bool list"
  bit_region :: "bool list"
  word_region :: "u16 list"
  slaves :: "u8 \<Rightarrow> device option"

text \<open>
  Inputs are stored bit by bit from bit \<open>task_offset\<close> on; coils are taken from whole bytes, from byte
  \<open>task_offset\<close> on, a byte of zero being off. A request the slave refuses changes nothing, except that
  a refused read of inputs stores what the buffer held.
\<close>

definition byte_on :: "bool list \<Rightarrow> nat \<Rightarrow> bool" where
  "byte_on bits k \<longleftrightarrow> (\<exists>j < 8. bits ! (8 * k + j))"

definition poll_inputs_spec :: "nat \<Rightarrow> nat \<Rightarrow> nat \<Rightarrow> device \<Rightarrow> poll_image \<Rightarrow> poll_image" where
  "poll_inputs_spec a n off d im =
     (let v = (if a + n \<le> length (inputs d) then put_at (latest im) 0 (take n (drop a (inputs d))) else latest im)
      in im\<lparr>latest := v, bit_region := put_at (bit_region im) off (take n v)\<rparr>)"

definition poll_registers_spec :: "nat \<Rightarrow> nat \<Rightarrow> nat \<Rightarrow> device \<Rightarrow> poll_image \<Rightarrow> poll_image" where
  "poll_registers_spec a n off d im =
     (if n \<le> 125 \<and> a + n \<le> length (input_regs d)
      then im\<lparr>word_region := put_at (word_region im) off (take n (drop a (input_regs d)))\<rparr> else im)"

definition send_coils_spec :: "nat \<Rightarrow> nat \<Rightarrow> nat \<Rightarrow> u8 \<Rightarrow> device \<Rightarrow> poll_image \<Rightarrow> poll_image" where
  "send_coils_spec a n off u d im =
     (if a + n \<le> length (coils d)
      then im\<lparr>slaves := (slaves im)(u \<mapsto> d\<lparr>coils := put_at (coils d) a (map (byte_on (bit_region im)) [off..<off + n])\<rparr>)\<rparr> else im)"

definition send_registers_spec :: "nat \<Rightarrow> nat \<Rightarrow> nat \<Rightarrow> u8 \<Rightarrow> device \<Rightarrow> poll_image \<Rightarrow> poll_image" where
  "send_registers_spec a n off u d im =
     (if n \<le> 123 \<and> a + n \<le> length (holding d)
      then im\<lparr>slaves := (slaves im)(u \<mapsto> d\<lparr>holding := put_at (holding d) a (take n (drop off (word_region im)))\<rparr>)\<rparr> else im)"

definition task_spec :: "consen_task_cfg_t \<Rightarrow> poll_image \<Rightarrow> poll_image" where
  "task_spec t im =
     (let a = unat (task_addr t); n = unat (data_num t); off = unat (task_offset t); u = slave_id t;
          d = the (slaves im u) in
      if cmd_id t = 2 then poll_inputs_spec a n off d im
      else if cmd_id t = 4 then poll_registers_spec a n off d im
      else if cmd_id t = 15 then send_coils_spec a n off u d im
      else if cmd_id t = 16 then send_registers_spec a n off u d im
      else im)"

text \<open>A task lies inside the regions and its slave is on the line.\<close>

definition task_fits :: "poll_image \<Rightarrow> consen_task_cfg_t \<Rightarrow> bool" where
  "task_fits im t \<longleftrightarrow>
     (let n = unat (data_num t); off = unat (task_offset t) in
      slaves im (slave_id t) \<noteq> None \<and> slave_id t \<le> 247 \<and> 1 \<le> n \<and>
      (cmd_id t = 2 \<longrightarrow> off + n < length (bit_region im)) \<and>
      (cmd_id t = 4 \<or> cmd_id t = 16 \<longrightarrow> off + n \<le> length (word_region im)) \<and>
      (cmd_id t = 15 \<longrightarrow> 8 * (off + n) \<le> length (bit_region im)))"

section \<open>The state behind the image\<close>

definition shows_image ::
  "'w os \<Rightarrow> ('w \<Rightarrow> u8 list \<times> (u8 \<Rightarrow> device option)) \<Rightarrow> poll_image \<Rightarrow> regions \<Rightarrow> 'w mstate \<Rightarrow> bool" where
  "shows_image os line im g st \<longleftrightarrow> idle os line (slaves im) st \<and>
     (\<exists>buf bs. poll_buf g = init buf \<and> length buf = 256 \<and> latest im = map (\<lambda>v. v \<noteq> 0) buf \<and>
        modbus_bool g = init bs \<and> bit_region im = map (region_bit bs) [0..<8 * length bs] \<and>
        modbus_word g = init (word_region im))"

lemma shows_imageI:
  "idle os line (slaves im) st \<Longrightarrow> poll_buf g = init buf \<Longrightarrow> length buf = 256 \<Longrightarrow> latest im = map (\<lambda>v. v \<noteq> 0) buf \<Longrightarrow>
   modbus_bool g = init bs \<Longrightarrow> map (region_bit bs) [0..<8 * length bs] = bit_region im \<Longrightarrow>
   modbus_word g = init (word_region im) \<Longrightarrow> shows_image os line im g st"
  unfolding shows_image_def by metis

lemma put_at_nth:
  "off + length vs \<le> length xs \<Longrightarrow> k < length xs \<Longrightarrow>
     put_at xs off vs ! k = (if off \<le> k \<and> k < off + length vs then vs ! (k - off) else xs ! k)"
  by (auto simp: put_at_def nth_append)

lemma assembled_put_at:
  assumes "assembled bs off vs bs'" "off + length vs \<le> 8 * length bs"
  shows "map (region_bit bs') [0..<8 * length bs'] = put_at (map (region_bit bs) [0..<8 * length bs]) off vs"
  using assms by (intro nth_equalityI) (auto simp: assembled_def put_at_nth)

lemma byte_on_region:
  assumes "k < length bs"
  shows "byte_on (map (region_bit bs) [0..<8 * length bs]) k \<longleftrightarrow> bs ! k \<noteq> 0"
proof -
  have "bs ! k = 0 \<longleftrightarrow> (\<forall>j < 8. \<not> bit (bs ! k) j)"
    by (auto intro!: bit_word_eqI)
  moreover have "8 * k + j < 8 * length bs" if "j < 8" for j using assms that by linarith
  ultimately show ?thesis by (auto simp: byte_on_def region_bit_def)
qed

section \<open>One task\<close>

lemma rd_drop_init: "off + n \<le> length xs \<Longrightarrow> k < n \<Longrightarrow> rd (drop off (init xs)) (int k) = Some (xs ! (off + k))"
  by (simp add: rd_def init_def)

lemma fill_put_at: "off + length xs \<le> length ys \<Longrightarrow> take off (init ys) @ fill (drop off (init ys)) 0 xs = init (put_at ys off xs)"
  by (simp add: fill_def init_def put_at_def take_map drop_map add.commute)

lemma read_input_registers_idle:
  assumes "idle os line modules st" "mb_slave (ctx st) = uint a" "modules a = Some d"
    and n: "1 \<le> n" "n \<le> length dest" "addr < 65536"
  shows "\<exists>rc st'. modbus_read_input_registers os (modbus_rtu_backend os) (int addr) (int n) dest st
      = Some ((rc, if n \<le> 125 \<and> addr + n \<le> length (input_regs d) then fill dest 0 (take n (drop addr (input_regs d))) else dest), st') \<and>
     idle os line modules st'"
proof (cases "n \<le> 125")
  case True
  let ?q = "request5 (byte 4) (int addr) (int n)"
  have b: "byte 4 = 4" by (simp add: byte_def)
  have "serve ?q d = (Some (serve_regs ?q (input_regs d)), d)"
    by (rule serve_read) (simp add: b)
  from idle_exchange [OF assms(1,3) this assms(2)]
  have ex: "exchange os (sys_write os) (sys_read os) line st (rtu_frame 0 (byte (mb_slave (ctx st))) ?q)
      (rtu_frame 0 a (serve_regs ?q (input_regs d)), modules)"
    by (simp only: fun_upd_idem [of modules a, OF assms(3)])
  have "mb_slave (ctx st) \<noteq> -1" using assms(2) uint_ge_0 [of a] by linarith
  then obtain st' r where
    "read_registers os (modbus_rtu_backend os) 4 (int addr) (int n) dest st
      = Some (if addr + n \<le> length (input_regs d)
              then (int n, fill dest 0 (take n (drop addr (input_regs d)))) else (-1, dest), st')"
    and s: "settled line modules st r st'"
    using rtu.read_registers_served [OF _ _ n(1) True n(2,3) ex] by blast
  with settled_idle [OF assms(1) s] True show ?thesis
    by (auto simp: modbus_read_input_registers_def)
next
  case False
  then show ?thesis
    using assms(1) by (simp add: modbus_read_input_registers_def idle_def recovery_protocol_def)
qed

lemma write_bits_idle_at:
  assumes "idle os line modules st" "mb_slave (ctx st) = uint a" "modules a = Some d"
    and n: "length vs \<le> 1968" "addr < 65536"
    and src: "\<And>k. k < length vs \<Longrightarrow> \<exists>v. rd src (int k) = Some v \<and> (v \<noteq> 0) = vs ! k"
  shows "\<exists>rc st'. modbus_write_bits os (modbus_rtu_backend os) (int addr) (int (length vs)) src st = Some (rc, st') \<and>
     idle os line (if addr + length vs \<le> length (coils d)
       then modules(a \<mapsto> d\<lparr>coils := put_at (coils d) addr vs\<rparr>) else modules) st'"
proof -
  let ?q = "request5 0x0F (int addr) (int (length vs)) @ word_of_nat (length (pack_bits vs)) # pack_bits vs"
  obtain p d' where srv: "serve ?q d = (Some p, d')"
    using serve_write_coils_confirmed(2) [OF n, of d] by (auto split: if_splits)
  have "mb_slave (ctx st) \<noteq> -1" using assms(2) uint_ge_0 [of a] by linarith
  from rtu.write_bits_served [OF this n src refl srv idle_exchange [OF assms(1,3) srv assms(2)]]
  obtain st' rc r where st': "modbus_write_bits os (modbus_rtu_backend os) (int addr) (int (length vs)) src st = Some (rc, st')"
    "settled line (modules(a \<mapsto> d')) st r st'"
    "d' = (if addr + length vs \<le> length (coils d) then d\<lparr>coils := put_at (coils d) addr vs\<rparr> else d)" by blast
  from settled_idle [OF assms(1) st'(2)] st'(1,3) show ?thesis
    by (auto simp: fun_upd_idem [of modules a, OF assms(3)])
qed

lemma write_registers_idle:
  assumes "idle os line modules st" "mb_slave (ctx st) = uint a" "modules a = Some d"
    and n: "addr < 65536" and src: "\<And>k. k < length vs \<Longrightarrow> rd src (int k) = Some (vs ! k)"
  shows "\<exists>rc st'. modbus_write_registers os (modbus_rtu_backend os) (int addr) (int (length vs)) src st = Some (rc, st') \<and>
     idle os line (if length vs \<le> 123 \<and> addr + length vs \<le> length (holding d)
       then modules(a \<mapsto> d\<lparr>holding := put_at (holding d) addr vs\<rparr>) else modules) st'"
proof (cases "length vs \<le> 123")
  case True
  let ?q = "request5 0x10 (int addr) (int (length vs)) @ word_of_nat (2 * length vs) # regs_pdu vs"
  obtain p d' where srv: "serve ?q d = (Some p, d')"
    using serve_write_registers_confirmed(2) [OF True n, of d] by (auto split: if_splits)
  have "mb_slave (ctx st) \<noteq> -1" using assms(2) uint_ge_0 [of a] by linarith
  from rtu.write_registers_served [OF this True n src refl srv idle_exchange [OF assms(1,3) srv assms(2)]]
  obtain st' rc r where st': "modbus_write_registers os (modbus_rtu_backend os) (int addr) (int (length vs)) src st = Some (rc, st')"
    "settled line (modules(a \<mapsto> d')) st r st'"
    "d' = (if addr + length vs \<le> length (holding d) then d\<lparr>holding := put_at (holding d) addr vs\<rparr> else d)" by blast
  from settled_idle [OF assms(1) st'(2)] st'(1,3) True show ?thesis
    by (auto simp: fun_upd_idem [of modules a, OF assms(3)])
next
  case False
  then show ?thesis
    using assms(1) by (auto simp: modbus_write_registers_def idle_def recovery_protocol_def)
qed

text \<open>A task does what it is to do, and leaves the sizes of the regions and the other slaves.\<close>

lemma task_frame:
  assumes "task_fits im t"
    and "length (latest im) = 256"
  shows "length (latest (task_spec t im)) = 256"
    "length (bit_region (task_spec t im)) = length (bit_region im)"
    "length (word_region (task_spec t im)) = length (word_region im)"
    "slaves (task_spec t im) u = None \<longleftrightarrow> slaves im u = None"
proof -
  have n: "unat (data_num t) \<le> 256" using data_num_less [of t] by linarith
  show "length (latest (task_spec t im)) = 256"
    "length (bit_region (task_spec t im)) = length (bit_region im)"
    "length (word_region (task_spec t im)) = length (word_region im)"
    "slaves (task_spec t im) u = None \<longleftrightarrow> slaves im u = None"
    using assms n
    by (auto simp: task_fits_def task_spec_def poll_inputs_spec_def poll_registers_spec_def send_coils_spec_def
        send_registers_spec_def Let_def)
qed

lemma task_fits_frame:
  assumes "task_fits im t" "length (latest im) = 256" "task_fits im u"
  shows "task_fits (task_spec t im) u"
  using assms(3) by (simp add: task_fits_def task_frame [OF assms(1,2)])

lemma task_setup:
  assumes "shows_image os line im g st" "task_fits im t"
  obtains buf bs d s1 where
    "poll_buf g = init buf" "length buf = 256" "latest im = map (\<lambda>v. v \<noteq> 0) buf"
    "modbus_bool g = init bs" "bit_region im = map (region_bit bs) [0..<8 * length bs]"
    "modbus_word g = init (word_region im)"
    "slaves im (slave_id t) = Some d" "1 \<le> unat (data_num t)"
    "setAddr os (slave_id t) st = Some s1" "idle os line (slaves im) s1" "mb_slave (ctx s1) = uint (slave_id t)"
proof -
  obtain d where d: "slaves im (slave_id t) = Some d" "slave_id t \<le> 247" "1 \<le> unat (data_num t)"
    using assms(2) by (auto simp: task_fits_def Let_def)
  from assms(1) have "idle os line (slaves im) st" by (simp add: shows_image_def)
  from idle_setAddr [OF this d(2)] obtain s1 where
    "setAddr os (slave_id t) st = Some s1" "idle os line (slaves im) s1" "mb_slave (ctx s1) = uint (slave_id t)" by blast
  with d(1,3) assms(1) that show thesis by (auto simp: shows_image_def)
qed

lemma task_numbers: "unat (data_num t) \<le> 255" "unat (task_addr t) < 65536"
  using data_num_less [of t] unsigned_less [of "task_addr t", where ?'a = nat] by (linarith, simp)

abbreviation meets_spec where
  "meets_spec os line im g st t \<equiv>
     (\<exists>g' st'. poll_task os t g st = Some (g', st') \<and> shows_image os line (task_spec t im) g' st')"

lemma inputs_task_meets:
  assumes "shows_image os line im g st" "task_fits im t" "cmd_id t = 2"
  shows "meets_spec os line im g st t"
proof -
  let ?a = "unat (task_addr t)" and ?n = "unat (data_num t)" and ?off = "unat (task_offset t)"
  from task_setup [OF assms(1,2)] obtain buf bs d s1 where
    buf: "poll_buf g = init buf" "length buf = 256" "latest im = map (\<lambda>v. v \<noteq> 0) buf"
    and bits: "modbus_bool g = init bs" "bit_region im = map (region_bit bs) [0..<8 * length bs]"
    and words: "modbus_word g = init (word_region im)" and d: "slaves im (slave_id t) = Some d" "1 \<le> ?n"
    and s1: "setAddr os (slave_id t) st = Some s1" "idle os line (slaves im) s1" "mb_slave (ctx s1) = uint (slave_id t)" .
  let ?ok = "?a + ?n \<le> length (inputs d)" and ?ins = "take ?n (drop ?a (inputs d))"
  let ?buf = "if ?ok then put_at buf 0 (map of_bool ?ins) else buf" and ?v = "if ?ok then put_at (latest im) 0 ?ins else latest im"
  have n: "?n \<le> 255" "?n \<le> length (init buf)"
    using task_numbers(1) [of t] buf(2) by simp_all
  have new: "(if ?ok then fill (init buf) 0 (map of_bool ?ins) else init buf) = init ?buf"
    using fill_put_at [of 0 "map of_bool ?ins" buf] n by simp
  from read_input_bits_idle [OF s1(2,3) d n task_numbers(2) [of t]] obtain rc s2 where
    s2: "modbus_read_input_bits os (modbus_rtu_backend os) (int ?a) (int ?n) (init buf) s1 = Some ((rc, init ?buf), s2)"
      "idle os line (slaves im) s2" unfolding new by blast
  have v: "?v = map (\<lambda>v. v \<noteq> 0) ?buf" "length ?buf = 256"
    using n buf(2,3) by (auto simp: put_at_def take_map drop_map comp_def)
  have len: "length (take ?n ?v) = ?n" using v n by simp
  have off: "?off + ?n < 8 * length bs" using assms(2,3) by (simp add: task_fits_def Let_def bits(2))
  have "\<exists>w. rd (init ?buf) (int k) = Some w \<and> (w \<noteq> 0) = take ?n ?v ! k" if "k < ?n" for k
    unfolding v(1) using that n(1) v(2) by (simp add: rd_init)
  then obtain bs' where bs': "assemble_io_status (int ?off) (int ?n) (init ?buf) (init bs) = Some (init bs')"
    "assembled bs ?off (take ?n ?v) bs'"
    using assemble_assembles [of ?off "take ?n ?v" bs "init ?buf"] len off by auto
  have "map (region_bit bs') [0..<8 * length bs'] = put_at (bit_region im) ?off (take ?n ?v)"
    using assembled_put_at [OF bs'(2)] len off bits(2) by simp
  moreover have spec: "task_spec t im = im\<lparr>latest := ?v, bit_region := put_at (bit_region im) ?off (take ?n ?v)\<rparr>"
    using assms(3) d(1) by (simp add: task_spec_def poll_inputs_spec_def Let_def)
  moreover have "poll_task os t g st = Some (g\<lparr>poll_buf := init ?buf, modbus_bool := init bs'\<rparr>, s2)"
    using s1(1) s2(1) bs'(1) assms(3) buf(1) bits(1) by (simp add: poll_task_def Let_def)
  ultimately show ?thesis
    using s2(2) v spec words by (auto intro: shows_imageI)
qed

lemma registers_task_meets:
  assumes "shows_image os line im g st" "task_fits im t" "cmd_id t = 4"
  shows "meets_spec os line im g st t"
proof -
  let ?a = "unat (task_addr t)" and ?n = "unat (data_num t)" and ?off = "unat (task_offset t)" and ?ws = "word_region im"
  from task_setup [OF assms(1,2)] obtain buf bs d s1 where
    st: "poll_buf g = init buf" "length buf = 256" "latest im = map (\<lambda>v. v \<noteq> 0) buf"
      "modbus_bool g = init bs" "bit_region im = map (region_bit bs) [0..<8 * length bs]"
    and words: "modbus_word g = init ?ws" and d: "slaves im (slave_id t) = Some d" "1 \<le> ?n"
    and s1: "setAddr os (slave_id t) st = Some s1" "idle os line (slaves im) s1" "mb_slave (ctx s1) = uint (slave_id t)" .
  let ?ok = "?n \<le> 125 \<and> ?a + ?n \<le> length (input_regs d)"
  let ?new = "if ?ok then put_at ?ws ?off (take ?n (drop ?a (input_regs d))) else ?ws"
  have off: "?off + ?n \<le> length ?ws" using assms(2,3) by (simp add: task_fits_def Let_def)
  then have "?n \<le> length (drop ?off (init ?ws))" by simp
  from read_input_registers_idle [OF s1(2,3) d this task_numbers(2) [of t]] obtain rc d' s2 where
    s2: "modbus_read_input_registers os (modbus_rtu_backend os) (int ?a) (int ?n) (drop ?off (init ?ws)) s1 = Some ((rc, d'), s2)"
      "d' = (if ?ok then fill (drop ?off (init ?ws)) 0 (take ?n (drop ?a (input_regs d))) else drop ?off (init ?ws))"
      "idle os line (slaves im) s2" by blast
  have "take ?off (init ?ws) @ d' = init ?new"
    using fill_put_at [of ?off "take ?n (drop ?a (input_regs d))" ?ws] off by (simp add: s2(2))
  then have "poll_task os t g st = Some (g\<lparr>modbus_word := init ?new\<rparr>, s2)"
    using s1(1) s2(1) assms(3) words by (simp add: poll_task_def Let_def)
  with s2(3) assms(3) d(1) st show ?thesis
    by (auto simp: shows_image_def task_spec_def poll_registers_spec_def Let_def)
qed

lemma coils_task_meets:
  assumes "shows_image os line im g st" "task_fits im t" "cmd_id t = 15"
  shows "meets_spec os line im g st t"
proof -
  let ?a = "unat (task_addr t)" and ?n = "unat (data_num t)" and ?off = "unat (task_offset t)"
  let ?vs = "map (byte_on (bit_region im)) [?off..<?off + ?n]"
  from task_setup [OF assms(1,2)] obtain buf bs d s1 where
    st: "poll_buf g = init buf" "length buf = 256" "latest im = map (\<lambda>v. v \<noteq> 0) buf" "modbus_word g = init (word_region im)"
    and bits: "modbus_bool g = init bs" "bit_region im = map (region_bit bs) [0..<8 * length bs]"
    and d: "slaves im (slave_id t) = Some d" "1 \<le> ?n"
    and s1: "setAddr os (slave_id t) st = Some s1" "idle os line (slaves im) s1" "mb_slave (ctx s1) = uint (slave_id t)" .
  have off: "?off + ?n \<le> length bs" using assms(2,3) by (simp add: task_fits_def Let_def bits(2))
  then have "\<exists>v. rd (drop ?off (init bs)) (int k) = Some v \<and> (v \<noteq> 0) = ?vs ! k" if "k < length ?vs" for k
    using that rd_drop_init [OF off, of k] by (simp add: bits(2) byte_on_region)
  moreover have "length ?vs = ?n" "?n \<le> 1968" using task_numbers(1) [of t] by simp_all
  ultimately obtain rc s2 where
    s2: "modbus_write_bits os (modbus_rtu_backend os) (int ?a) (int ?n) (drop ?off (init bs)) s1 = Some (rc, s2)"
      "idle os line (if ?a + ?n \<le> length (coils d)
         then (slaves im)(slave_id t \<mapsto> d\<lparr>coils := put_at (coils d) ?a ?vs\<rparr>) else slaves im) s2"
    using write_bits_idle_at [OF s1(2,3) d(1) _ task_numbers(2) [of t], of ?vs "drop ?off (init bs)"] by auto
  have "poll_task os t g st = Some (g, s2)"
    using s1(1) s2(1) assms(3) bits by (simp add: poll_task_def Let_def)
  with s2(2) assms(3) d(1) st bits show ?thesis
    by (auto simp: shows_image_def task_spec_def send_coils_spec_def Let_def)
qed

lemma holding_task_meets:
  assumes "shows_image os line im g st" "task_fits im t" "cmd_id t = 16"
  shows "meets_spec os line im g st t"
proof -
  let ?a = "unat (task_addr t)" and ?n = "unat (data_num t)" and ?off = "unat (task_offset t)" and ?ws = "word_region im"
  let ?vs = "take ?n (drop ?off ?ws)"
  from task_setup [OF assms(1,2)] obtain buf bs d s1 where
    st: "poll_buf g = init buf" "length buf = 256" "latest im = map (\<lambda>v. v \<noteq> 0) buf"
      "modbus_bool g = init bs" "bit_region im = map (region_bit bs) [0..<8 * length bs]"
    and words: "modbus_word g = init ?ws" and d: "slaves im (slave_id t) = Some d" "1 \<le> ?n"
    and s1: "setAddr os (slave_id t) st = Some s1" "idle os line (slaves im) s1" "mb_slave (ctx s1) = uint (slave_id t)" .
  have off: "?off + ?n \<le> length ?ws" using assms(2,3) by (simp add: task_fits_def Let_def)
  then have "rd (drop ?off (init ?ws)) (int k) = Some (?vs ! k)" if "k < length ?vs" for k
    using that rd_drop_init [OF off, of k] by simp
  moreover have "length ?vs = ?n" using off by simp
  ultimately obtain rc s2 where
    s2: "modbus_write_registers os (modbus_rtu_backend os) (int ?a) (int ?n) (drop ?off (init ?ws)) s1 = Some (rc, s2)"
      "idle os line (if ?n \<le> 123 \<and> ?a + ?n \<le> length (holding d)
         then (slaves im)(slave_id t \<mapsto> d\<lparr>holding := put_at (holding d) ?a ?vs\<rparr>) else slaves im) s2"
    using write_registers_idle [OF s1(2,3) d(1) task_numbers(2) [of t], of ?vs "drop ?off (init ?ws)"] by auto
  have "poll_task os t g st = Some (g, s2)"
    using s1(1) s2(1) assms(3) words by (simp add: poll_task_def Let_def)
  with s2(2) assms(3) d(1) st words show ?thesis
    by (auto simp: shows_image_def task_spec_def send_registers_spec_def Let_def)
qed

lemma task_meets_spec:
  assumes "shows_image os line im g st" "task_fits im t"
  shows "meets_spec os line im g st t"
proof -
  consider "cmd_id t = 2" | "cmd_id t = 4" | "cmd_id t = 15" | "cmd_id t = 16" | "cmd_id t \<notin> {2, 4, 15, 16}" by auto
  then show ?thesis
  proof cases
    case 5
    obtain s1 where "setAddr os (slave_id t) st = Some s1" "idle os line (slaves im) s1"
      by (rule task_setup [OF assms])
    with 5 assms(1) show ?thesis
      by (auto simp: poll_task_def task_spec_def shows_image_def Let_def)
  qed (auto intro: inputs_task_meets registers_task_meets coils_task_meets holding_task_meets assms)
qed

section \<open>Rounds\<close>

lemma shows_length: "shows_image os line im g st \<Longrightarrow> length (latest im) = 256"
  by (auto simp: shows_image_def)

lemma poll_meets_spec:
  assumes "shows_image os line im g st" "\<forall>t \<in> set ts. task_fits im t"
  shows "\<exists>g' st'. poll os ts g st = Some (g', st') \<and> shows_image os line (fold task_spec ts im) g' st'"
  using assms
proof (induction ts arbitrary: im g st)
  case (Cons t ts)
  then have fits: "task_fits im t" by simp
  from task_meets_spec [OF Cons.prems(1) this] obtain g1 st1 where
    1: "poll_task os t g st = Some (g1, st1)" "shows_image os line (task_spec t im) g1 st1" by blast
  have "\<forall>u \<in> set ts. task_fits (task_spec t im) u"
    using task_fits_frame [OF fits shows_length [OF Cons.prems(1)]] Cons.prems(2) by simp
  with Cons.IH [OF 1(2)] 1(1) show ?case by auto
qed auto

lemma fits_after_tasks:
  assumes "\<forall>t \<in> set ts. task_fits im t" "length (latest im) = 256"
  shows "(task_fits im u \<longrightarrow> task_fits (fold task_spec ts im) u) \<and> length (latest (fold task_spec ts im)) = 256"
  using assms
proof (induction ts arbitrary: im)
  case (Cons t ts)
  then have "\<forall>u \<in> set ts. task_fits (task_spec t im) u" "length (latest (task_spec t im)) = 256"
    using task_fits_frame [of im t] task_frame(1) [of im t] by auto
  from Cons.IH [OF this] Cons.prems task_fits_frame [of im t u] show ?case by auto
qed simp

lemma nap_shows:
  assumes "shows_image os line im g st"
  shows "shows_image os line im g (nap os ns st)"
proof -
  have "idle os line (slaves im) (nap os ns st)"
    using assms by (auto simp: shows_image_def nap_def idle_def bus_def recovery_protocol_def split: sum.split prod.split)
       (metis snd_conv)+
  with assms show ?thesis by (auto simp: shows_image_def)
qed

lemma round_meets_spec:
  assumes "shows_image os line im g (mst l)" "pc l = Next" "\<forall>t \<in> set (todo l). task_fits im t"
  shows "\<exists>g' st'. (line_rel os)\<^sup>*\<^sup>* (g, l) (g', l\<lparr>todo := [], mst := st'\<rparr>) \<and>
     shows_image os line (fold task_spec (todo l) im) g' st'"
  using poll_meets_spec [OF assms(1,3)] poll_runs [OF _ assms(2)] by blast


section \<open>A line with three tasks\<close>

text \<open>Inputs of slave 2 to the bits from 1 on, registers to the words from 1 on, one coil from byte 0.\<close>

definition mixed_tasks :: "consen_task_cfg_t list" where
  "mixed_tasks =
     [\<lparr>task_com = 0, task_id = 1, slave_id = 2, cmd_id = 2, task_addr = 0, data_num = 3, task_offset = 1\<rparr>,
      \<lparr>task_com = 0, task_id = 2, slave_id = 2, cmd_id = 4, task_addr = 0, data_num = 2, task_offset = 1\<rparr>,
      \<lparr>task_com = 0, task_id = 3, slave_id = 2, cmd_id = 15, task_addr = 5, data_num = 1, task_offset = 0\<rparr>]"

definition blank_image :: poll_image where
  "blank_image = \<lparr>latest = replicate 256 False, bit_region = replicate 16 False, word_region = [0, 0, 0], slaves = four_modules\<rparr>"

definition blank_regions :: regions where
  "blank_regions = \<lparr>modbus_bool = init [0, 0], modbus_word = init [0, 0, 0], poll_buf = init (replicate 256 0)\<rparr>"

lemma blank_bits: "map (region_bit [0, 0]) [0..<16] = replicate 16 False"
proof (rule nth_equalityI)
  fix k assume "k < length (map (region_bit [0, 0]) [0..<16])"
  then have "k div 8 = 0 \<or> k div 8 = 1" by simp linarith
  then show "map (region_bit [0, 0]) [0..<16] ! k = replicate 16 False ! k"
    using \<open>k < _\<close> by (auto simp: region_bit_def)
qed simp

lemma blank_shown: "shows_image module_bus (\<lambda>w. w) blank_image blank_regions (mst (line_with four_modules mixed_tasks))"
proof (rule shows_imageI [of _ _ _ _ _ "replicate 256 0" "[0, 0]"])
  show "idle module_bus (\<lambda>w. w) (slaves blank_image) (mst (line_with four_modules mixed_tasks))"
    using bus_state_idle
    by (simp add: blank_image_def line_with_def bus_with_def bus_state_def)
  show "map (region_bit [0, 0]) [0..<8 * length [0, 0 :: u8]] = bit_region blank_image"
    using blank_bits by (simp add: blank_image_def)
qed (simp_all add: blank_image_def blank_regions_def)

lemma mixed_fit: "\<forall>t \<in> set mixed_tasks. task_fits blank_image t"
  by (simp add: mixed_tasks_def task_fits_def blank_image_def)

lemma mixed_result:
  "word_region ((fold task_spec mixed_tasks ^^ 1) (fold task_spec mixed_tasks blank_image)) = [0, 7, 7]"
  "bit_region ((fold task_spec mixed_tasks ^^ 1) (fold task_spec mixed_tasks blank_image))
     = [False, True, True, True] @ replicate 12 False"
  "map_option coils (slaves ((fold task_spec mixed_tasks ^^ 1) (fold task_spec mixed_tasks blank_image)) 2)
     = Some ((replicate 8 False)[5 := True])"
  by code_simp+


end
