(* ===== verification/Active_Object.thy ===== *)
theory Active_Object
  imports Consen
begin

text \<open>
  The active object of the old driver, \<open>src/modbus-mgr.cpp\<close>: a state machine of one state that polls
  the inputs of one slave on a timer. The framework that runs it and \<open>modbus_rtu_set_rts\<close>, which the
  library does not have, are parameters: the framework enters the state after the initial transition
  and then hands it one event after the other.
\<close>

section \<open>The state machine\<close>

datatype signal = Q_ENTRY_SIG | Q_EXIT_SIG | TIME_OUT_SIG | Other_SIG

datatype q_state = Initial | Running

datatype status = Q_HANDLED | Q_SUPER_top

text \<open>
  The object: its context, which \<open>modbus_new_rtu\<close> may have failed to make, its tables, the period of
  its time event in ticks while armed, its subscription and state.
\<close>

record ModbusMgr =
  has_ctx :: bool
  tab_bits :: "u8 cbuf"
  table_registers :: "u16 cbuf"
  time_evt :: "nat option"
  subscribed :: bool
  q_state :: q_state

definition BSP_TICKS_PER_SEC :: nat where [simp]: "BSP_TICKS_PER_SEC = 500"

text \<open>The constructor sets eight of the ten registers.\<close>

definition new_ModbusMgr ::
  "modbus_t \<Rightarrow> string \<Rightarrow> int \<Rightarrow> char \<Rightarrow> int \<Rightarrow> int \<Rightarrow> 'w mstate \<Rightarrow> (ModbusMgr \<times> 'w mstate) option" where
  "new_ModbusMgr c port baud parity data_bit stop_bit st =
     do { bits \<leftarrow> wrs (fresh 8) 0 (replicate 8 0);
          regs \<leftarrow> wrs (fresh 10) 0 (replicate 8 0);
          let me = \<lparr>has_ctx = False, tab_bits = bits, table_registers = regs, time_evt = None, subscribed = False, q_state = Initial\<rparr>;
          r \<leftarrow> modbus_new_rtu c (port @ [NUL]) baud parity data_bit stop_bit;
          case r of
            Inl e \<Rightarrow> Some (me, st\<lparr>errno := e\<rparr>)
          | Inr c \<Rightarrow> Some (me\<lparr>has_ctx := True\<rparr>, st\<lparr>ctx := c\<rparr>) }"

definition the_ModbusMgr :: "modbus_t \<Rightarrow> 'w mstate \<Rightarrow> (ModbusMgr \<times> 'w mstate) option" where
  "the_ModbusMgr c st = new_ModbusMgr c ''/dev/ttyS1'' 9600 (CHR ''N'') 8 1 st"

text \<open>The results of the calls on the line are ignored.\<close>

definition initial :: "'w os \<Rightarrow> ('w mstate \<Rightarrow> 'w mstate option) \<Rightarrow> ModbusMgr \<Rightarrow> ('w, ModbusMgr) exec" where
  "initial os set_rts me st =
     (if \<not> has_ctx me then None
      else do {
        let be = modbus_rtu_backend os;
        (_, st) \<leftarrow> modbus_rtu_set_serial_mode os be MODBUS_RTU_RS485 st;
        st \<leftarrow> set_rts st;
        (_, st) \<leftarrow> modbus_connect be st;
        (_, st) \<leftarrow> modbus_set_slave be 2 st;
        Some (me\<lparr>subscribed := True, q_state := Running\<rparr>, st) })"

definition running :: "'w os \<Rightarrow> signal \<Rightarrow> ModbusMgr \<Rightarrow> ('w, status \<times> ModbusMgr) exec" where
  "running os sig me st =
     (case sig of
        Q_ENTRY_SIG \<Rightarrow> Some ((Q_HANDLED, me\<lparr>time_evt := Some (BSP_TICKS_PER_SEC * 100)\<rparr>), st)
      | Q_EXIT_SIG \<Rightarrow> Some ((Q_HANDLED, me\<lparr>time_evt := None\<rparr>), st)
      | TIME_OUT_SIG \<Rightarrow> do {
          ((rc, bits), st) \<leftarrow> modbus_read_input_bits os (modbus_rtu_backend os) 0 8 (tab_bits me) st;
          Some ((Q_HANDLED, me\<lparr>tab_bits := bits\<rparr>), st) }
      | Other_SIG \<Rightarrow> Some ((Q_SUPER_top, me), st))"

text \<open>What the framework does with it: the initial transition with the entry of its target, then events.\<close>

definition start_object :: "'w os \<Rightarrow> ('w mstate \<Rightarrow> 'w mstate option) \<Rightarrow> ModbusMgr \<Rightarrow> ('w, ModbusMgr) exec" where
  "start_object os set_rts me st =
     do { (me, st) \<leftarrow> initial os set_rts me st;
          ((_, me), st) \<leftarrow> running os Q_ENTRY_SIG me st;
          Some (me, st) }"

fun dispatch :: "'w os \<Rightarrow> signal list \<Rightarrow> ModbusMgr \<Rightarrow> ('w, ModbusMgr) exec" where
  "dispatch os [] me st = Some (me, st)"
| "dispatch os (e # es) me st = do { ((_, me), st) \<leftarrow> running os e me st; dispatch os es me st }"

section \<open>The line that is opened\<close>

text \<open>
  C40: Started where the system refuses the setting of a line that is not open, the active
  object opens its line, runs with its timer armed and unit 2 chosen, and leaves the line in
  RS-232 mode: it asks for RS-485 before it connects. Of \<open>modbus_rtu_set_rts\<close>,
  which the library does not have, only this is assumed: it returns and leaves the fields that
  the context has in this library alone, whatever it does to the system and to
  \<open>errno\<close>.
\<close>

theorem object_never_rs485:
  assumes "sys_ioctl_rs485 os (-1) \<lparr>rs485_flags = 3\<rparr> (world st) = (Inl e, w0)"
    and "\<forall>s. \<exists>s'. set_rts s = Some s' \<and> ctx s' = ctx s \<and> world s' = rts (world s)"
    and "sys_open os ''/dev/ttyS1'' (rts w0) = (Inr fd, w1)" "fd \<noteq> -1"
    and "sys_tcgetattr os fd w1 = (Inr old, w2)"
    and "sys_tcsetattr os fd (rtu_tios r) w2 = (Inr 0, w3)"
    and "r = \<lparr>rtu_device = fill (fresh 16) 0 (''/dev/ttyS1'' @ [NUL]), rtu_baud = 9600, rtu_data_bit = 8,
              rtu_stop_bit = 1, rtu_parity = CHR ''N'', rtu_old_tios = None, rtu_serial_mode = None\<rparr>"
  shows "\<exists>me st0 me' st'. the_ModbusMgr c st = Some (me, st0) \<and> start_object os set_rts me st0 = Some (me', st') \<and>
     q_state me' = Running \<and> subscribed me' \<and> time_evt me' = Some 50000 \<and>
     tab_bits me' = init (replicate 8 0) \<and> world st' = w3 \<and>
     ctx st' = (modbus_init_common c)\<lparr>mb_slave := 2, mb_s := fd,
       mb_backend_data := RtuData (r\<lparr>rtu_old_tios := Some old, rtu_serial_mode := Some MODBUS_RTU_RS232\<rparr>)\<rparr>"
proof -
  let ?dev = "fill (fresh 16) 0 (''/dev/ttyS1'' @ [NUL])"
  have dev: "strlcpy (fresh 16) (''/dev/ttyS1'' @ [NUL]) 16 = Some (10, ?dev)"
    using strlcpy_fits [of "''/dev/ttyS1''" 16 "fresh 16"] by (simp add: NUL_def)
  have name: "c_str ?dev = Some ''/dev/ttyS1''"
    by (rule c_str_fill) (simp add: NUL_def)
  have new: "modbus_new_rtu c (''/dev/ttyS1'' @ [NUL]) 9600 (CHR ''N'') 8 1
      = Some (Inr ((modbus_init_common c)\<lparr>mb_backend_data := RtuData r\<rparr>))"
    using dev by (simp add: modbus_new_rtu_def assms(7) byte_def)
  have bits: "wrs (fresh 8) 0 (replicate 8 0) = Some (init (replicate 8 (0 :: u8)))"
    using wrs_fill [of 0 "replicate 8 (0 :: u8)" "fresh 8"] by (simp add: fill_def fresh_def init_def)
  have regs: "wrs (fresh 10) 0 (replicate 8 (0 :: u16)) \<noteq> None"
    using wrs_fill [of 0 "replicate 8 (0 :: u16)" "fresh 10"] by (simp add: fresh_def)
  let ?st0 = "st\<lparr>ctx := (modbus_init_common c)\<lparr>mb_backend_data := RtuData r\<rparr>\<rparr>"
  obtain regs0 where me: "the_ModbusMgr c st = Some (\<lparr>has_ctx = True, tab_bits = init (replicate 8 0), table_registers = regs0,
      time_evt = None, subscribed = False, q_state = Initial\<rparr>, ?st0)"
    using regs by (auto simp: the_ModbusMgr_def new_ModbusMgr_def bits new simp del: append_Cons append_Nil)
  have tios: "rtu_tios (r\<lparr>rtu_old_tios := x\<rparr>) = rtu_tios r" for x
    by (simp add: rtu_tios_def rtu_speed_def rtu_cflags_def rtu_iflags_def)
  have r: "rtu_device r = ?dev" by (simp add: assms(7))
  have s: "mb_s (ctx ?st0) = -1" by (simp add: modbus_init_common_def)
  let ?st1 = "?st0\<lparr>errno := e, world := w0\<rparr>"
  obtain st2 where st2: "set_rts ?st1 = Some st2" "ctx st2 = ctx ?st0" "world st2 = rts w0"
    using assms(2) by fastforce
  show ?thesis
    unfolding me
    using assms(1,3-6) name s st2
    by (auto simp: start_object_def initial_def running_def modbus_set_slave_def rtu_set_slave_def modbus_connect_def
        modbus_rtu_connect_def rtu_open_def rtu_data_def set_rtu_data_def set_s_def set_ctx_def c_ret_def r tios
        modbus_rtu_set_serial_mode_def Let_def)
qed

section \<open>Polling\<close>

lemma length_taken: "fill (init bs) 0 (map of_bool (take 8 ins)) = init (map of_bool (take 8 ins) :: u8 list)"
  if "length bs = 8" "8 \<le> length ins"
  using that by (simp add: fill_def init_def)

lemma timeout_polls:
  assumes "idle os line modules st" "mb_slave (ctx st) = 2" "modules 2 = Some d" "tab_bits me = init bs" "length bs = 8"
  shows "\<exists>st'. running os TIME_OUT_SIG me st = Some ((Q_HANDLED,
       me\<lparr>tab_bits := init (if 8 \<le> length (inputs d) then map of_bool (take 8 (inputs d)) else bs)\<rparr>), st') \<and>
     idle os line modules st' \<and> ctx st' = ctx st"
proof -
  have "mb_slave (ctx st) = uint (2 :: u8)" using assms(2) by simp
  from read_input_bits_idle [OF assms(1) this assms(3), of 8 "tab_bits me" 0] assms(4,5)
  obtain rc st' where "modbus_read_input_bits os (modbus_rtu_backend os) 0 8 (init bs) st
      = Some ((rc, if 8 \<le> length (inputs d) then fill (init bs) 0 (map of_bool (take 8 (inputs d))) else init bs), st')"
    "idle os line modules st'" "ctx st' = ctx st" by auto
  then show ?thesis
    using assms(4,5) length_taken [of bs "inputs d"] by (auto simp: running_def)
qed

text \<open>
  Whatever events the object receives on such a line, it handles them; its table holds the eight
  inputs of slave 2 as soon as one of them was the timer's, and its time event is armed as the
  last entry or exit left it.
\<close>

theorem dispatch_polls:
  assumes "idle os line modules st" "mb_slave (ctx st) = 2" "modules 2 = Some d" "tab_bits me = init bs" "length bs = 8"
    and "8 \<le> length (inputs d)"
  shows "\<exists>me' st'. dispatch os es me st = Some (me', st') \<and> idle os line modules st' \<and> q_state me' = q_state me \<and>
     tab_bits me' = init (if TIME_OUT_SIG \<in> set es then map of_bool (take 8 (inputs d)) else bs) \<and>
     time_evt me' = foldl (\<lambda>t e. if e = Q_ENTRY_SIG then Some 50000 else if e = Q_EXIT_SIG then None else t) (time_evt me) es"
  using assms
proof (induction es arbitrary: me st bs)
  case Nil
  then show ?case by simp
next
  case (Cons e es)
  let ?ins = "map of_bool (take 8 (inputs d)) :: u8 list"
  show ?case
  proof (cases "e = TIME_OUT_SIG")
    case True
    from timeout_polls [OF Cons.prems(1-5)] Cons.prems(6) obtain st1 where
      st1: "running os TIME_OUT_SIG me st = Some ((Q_HANDLED, me\<lparr>tab_bits := init ?ins\<rparr>), st1)"
        "idle os line modules st1" "ctx st1 = ctx st" by auto
    with True Cons.prems Cons.IH [of st1 "me\<lparr>tab_bits := init ?ins\<rparr>" ?ins] show ?thesis by auto
  next
    case False
    then obtain me1 s where e: "running os e me st = Some ((s, me1), st)" "q_state me1 = q_state me" "tab_bits me1 = tab_bits me"
      "time_evt me1 = (if e = Q_ENTRY_SIG then Some 50000 else if e = Q_EXIT_SIG then None else time_evt me)"
      by (cases e) (simp_all add: running_def)
    with False Cons.prems Cons.IH [of st me1 bs] show ?thesis by auto
  qed
qed

text \<open>On the bus of the examples, slave 2 has all inputs set.\<close>

theorem dispatch_polls_witness:
  "\<exists>me' st'. dispatch module_bus [Q_ENTRY_SIG, TIME_OUT_SIG, Other_SIG]
       \<lparr>has_ctx = True, tab_bits = init (replicate 8 0), table_registers = [], time_evt = None, subscribed = True, q_state = Running\<rparr>
       (set_ctx (\<lambda>c. c\<lparr>mb_slave := 2\<rparr>) bus_state) = Some (me', st') \<and>
     tab_bits me' = init (replicate 8 1) \<and> time_evt me' = Some 50000"
proof -
  let ?me = "\<lparr>has_ctx = True, tab_bits = init (replicate 8 0), table_registers = [], time_evt = None, subscribed = True, q_state = Running\<rparr>"
  let ?st = "set_ctx (\<lambda>c. c\<lparr>mb_slave := 2\<rparr>) bus_state"
  have "idle module_bus (\<lambda>w. w) four_modules ?st" "mb_slave (ctx ?st) = 2"
    using bus_state_idle by (simp_all add: idle_def set_ctx_def recovery_protocol_def)
  from dispatch_polls [OF this four_modules_sel(1), of ?me "replicate 8 0" "[Q_ENTRY_SIG, TIME_OUT_SIG, Other_SIG]"]
  show ?thesis by (auto simp: some_module_def)
qed

definition closed_line_bus :: "(u8 list \<times> (u8 \<Rightarrow> device option)) os" where
  "closed_line_bus = module_bus\<lparr>sys_ioctl_rs485 := (\<lambda>fd r w. if fd = -1 then (Inl EBADF, w) else (Inr 0, w))\<rparr>"

theorem object_never_rs485_witness:
  "\<exists>me st0 me' st' r. the_ModbusMgr (ctx bus_state) bus_state = Some (me, st0) \<and>
     start_object closed_line_bus (\<lambda>s. Some (s\<lparr>errno := EBADF\<rparr>)) me st0 = Some (me', st') \<and> mb_s (ctx st') = 3 \<and>
     mb_backend_data (ctx st') = RtuData r \<and> rtu_serial_mode r = Some MODBUS_RTU_RS232"
proof -
  let ?r = "\<lparr>rtu_device = fill (fresh 16) 0 (''/dev/ttyS1'' @ [NUL]), rtu_baud = 9600, rtu_data_bit = 8,
              rtu_stop_bit = 1, rtu_parity = CHR ''N'', rtu_old_tios = None, rtu_serial_mode = None\<rparr>"
  from object_never_rs485 [of closed_line_bus bus_state EBADF "world bus_state" "\<lambda>s. Some (s\<lparr>errno := EBADF\<rparr>)" "\<lambda>w. w" 3 "world bus_state" tios_zero "world bus_state" ?r
      "world bus_state" "ctx bus_state"]
  show ?thesis by (auto simp: closed_line_bus_def module_bus_def)
qed

end
