(* ===== verification/Shared_Memory.thy ===== *)
theory Shared_Memory
  imports Process_Image
begin

text \<open>
  The memory that the programs of the controller share: its layout (\<open>share_memory_area_t\<close> and
  \<open>system_area_t\<close> of \<open>system/inc/Interface.h\<close>) and how a program gets at it (\<open>fnShareMemory\<close> and
  \<open>setRealTime\<close> of \<open>system/src/main.cpp\<close>). The positions that the driver of the runtime writes as
  numbers are those of the fields.
\<close>

section \<open>Layout\<close>

text \<open>The fields in order with the number and the size of their elements; there is no padding.\<close>

type_synonym layout = "(string \<times> nat \<times> nat) list"

definition system_area_t :: layout where
  "system_area_t =
     [(''up_time'', 1, 8), (''run_ms'', 1, 4), (''run_sec'', 1, 1), (''run_min'', 1, 1), (''run_hour'', 1, 1),
      (''run_day'', 1, 1), (''run_mon'', 1, 1), (''run_year'', 1, 2), (''g_remain_flag'', 1, 1), (''set_sec'', 1, 1),
      (''set_min'', 1, 1), (''set_hour'', 1, 1), (''set_day'', 1, 1), (''set_mon'', 1, 1), (''set_year'', 1, 2),
      (''set_time_flag'', 1, 1), (''set_ip'', 4, 1), (''set_subnet_mask'', 4, 1), (''set_gateway'', 4, 1),
      (''set_dns'', 4, 1), (''set_ip_flag'', 1, 1), (''io_update_type'', 1, 1), (''io_update_period'', 1, 2),
      (''io_update_read_cmd'', 1, 1), (''io_update_write_cmd'', 1, 1), (''io_update_config'', 1, 1),
      (''modules_health_flag'', 256, 1), (''reserved_area'', 1741, 1)]"

fun layout_size :: "layout \<Rightarrow> nat" where
  "layout_size [] = 0"
| "layout_size ((f, n, sz) # fs) = n * sz + layout_size fs"

definition user_area :: layout where
  "user_area =
     [(''input_di'', 512, 1), (''input_ai'', 2048 div 2, 2), (''input_real'', 512 div 4, 4), (''output_do'', 512, 1),
      (''output_ao'', 512 div 2, 2), (''reserved'', 128 + 1024 + 1024, 1), (''system_area'', 1, layout_size system_area_t),
      (''io_config'', 2048 div 2, 2), (''modbus_bool'', 256, 1), (''modbus_word'', 4096 div 2, 2)]"

definition share_memory_size :: nat where
  "share_memory_size = max 65536 (layout_size user_area)"

text \<open>The position of a field, the number and the size of its elements.\<close>

fun field_at :: "layout \<Rightarrow> string \<Rightarrow> (nat \<times> nat \<times> nat) option" where
  "field_at [] f = None"
| "field_at ((g, n, sz) # fs) f =
     (if g = f then Some (0, n, sz)
      else map_option (\<lambda>(a, n', sz'). (n * sz + a, n', sz')) (field_at fs f))"

text \<open>The bytes of an element of a field of the shared memory.\<close>

definition element :: "u8 cbuf \<Rightarrow> string \<Rightarrow> nat \<Rightarrow> u8 list option" where
  "element m f k =
     do { (a, n, sz) \<leftarrow> field_at user_area f;
          if k < n then rds m (int (a + k * sz)) sz else None }"

definition set_element :: "u8 cbuf \<Rightarrow> string \<Rightarrow> nat \<Rightarrow> u8 list \<Rightarrow> u8 cbuf option" where
  "set_element m f k bs =
     do { (a, n, sz) \<leftarrow> field_at user_area f;
          if k < n \<and> length bs = sz then wrs m (int (a + k * sz)) bs else None }"

text \<open>A number of several bytes, the low one first.\<close>

definition little_endian :: "u8 list \<Rightarrow> nat" where
  "little_endian bs = horner_sum unat 256 bs"

lemma fields:
  "field_at user_area ''input_di'' = Some (0, 512, 1)" "field_at user_area ''input_ai'' = Some (512, 1024, 2)"
  "field_at user_area ''input_real'' = Some (2560, 128, 4)" "field_at user_area ''output_do'' = Some (3072, 512, 1)"
  "field_at user_area ''output_ao'' = Some (3584, 256, 2)" "field_at user_area ''system_area'' = Some (6272, 1, 2048)"
  "field_at user_area ''io_config'' = Some (8320, 1024, 2)" "field_at user_area ''modbus_bool'' = Some (10368, 256, 1)"
  "field_at user_area ''modbus_word'' = Some (10624, 2048, 2)"
  by (simp_all add: user_area_def system_area_t_def)

text \<open>The fields end within the memory, which has the size of the segment that the programs ask for.\<close>

lemma layout_fits: "layout_size user_area = 14720" "share_memory_size = 65536"
  by (simp_all add: user_area_def system_area_t_def share_memory_size_def)

section \<open>The runtime's accesses\<close>

lemma little_endian_2: "little_endian [l, h] = unat l + 256 * unat h"
  by (simp add: little_endian_def)

lemma little_endian_4: "little_endian [a, b, c, d] = unat a + 256 * unat b + 65536 * unat c + 16777216 * unat d"
  by (simp add: little_endian_def)

lemma unat_bytes:
  fixes a b c d :: u8
  shows "unat (ucast a + ucast b * 256 :: u16) = unat a + 256 * unat b"
    and "unat (ucast a + push_bit 8 (ucast b) + push_bit 16 (ucast c) + push_bit 24 (ucast d) :: u32)
       = unat a + 256 * unat b + 65536 * unat c + 16777216 * unat d"
proof -
  have lt: "unat x < 256" for x :: u8 using unsigned_less [of x, where ?'a = nat] by simp
  have "unat a + 256 * unat b < 65536" using lt [of a] lt [of b] by linarith
  moreover have "(ucast a + ucast b * 256 :: u16) = of_nat (unat a + 256 * unat b)" by simp
  ultimately show "unat (ucast a + ucast b * 256 :: u16) = unat a + 256 * unat b"
    by (simp add: unsigned_of_nat take_bit_nat_eq_self del: of_nat_add of_nat_mult)
  have "unat a + 256 * unat b + 65536 * unat c + 16777216 * unat d < 4294967296"
    using lt [of a] lt [of b] lt [of c] lt [of d] by linarith
  moreover have "(ucast a + push_bit 8 (ucast b) + push_bit 16 (ucast c) + push_bit 24 (ucast d) :: u32)
      = of_nat (unat a + 256 * unat b + 65536 * unat c + 16777216 * unat d)"
    by (simp add: push_bit_eq_mult)
  ultimately show "unat (ucast a + push_bit 8 (ucast b) + push_bit 16 (ucast c) + push_bit 24 (ucast d) :: u32)
       = unat a + 256 * unat b + 65536 * unat c + 16777216 * unat d"
    by (simp add: unsigned_of_nat take_bit_nat_eq_self del: of_nat_add of_nat_mult)
qed

lemma rds_few:
  "rds m i 1 = map_option (\<lambda>x. [x]) (rd m i)"
  "rds m i 2 = do { x \<leftarrow> rd m i; y \<leftarrow> rd m (i + 1); Some [x, y] }"
  "rds m i 4 = do { x \<leftarrow> rd m i; y \<leftarrow> rd m (i + 1); z \<leftarrow> rd m (i + 2); u \<leftarrow> rd m (i + 3); Some [x, y, z, u] }"
proof -
  have n: "(1::nat) = Suc 0" "(2::nat) = Suc (Suc 0)" "(4::nat) = Suc (Suc (Suc (Suc 0)))" by simp_all
  show "rds m i 1 = map_option (\<lambda>x. [x]) (rd m i)"
    "rds m i 2 = do { x \<leftarrow> rd m i; y \<leftarrow> rd m (i + 1); Some [x, y] }"
    "rds m i 4 = do { x \<leftarrow> rd m i; y \<leftarrow> rd m (i + 1); z \<leftarrow> rd m (i + 2); u \<leftarrow> rd m (i + 3); Some [x, y, z, u] }"
    unfolding n by (simp_all add: add.assoc map_conv_bind_option o_def)
qed

lemma ucast_low: "(ucast (v AND 0xFF) :: u8) = ucast (v :: u16)"
proof -
  have m: "(0xFF :: u16) = mask 8" by (simp add: mask_eq_exp_minus_1)
  show ?thesis unfolding m by (intro bit_word_eqI) (simp add: bit_simps)
qed

lemma element_bytes:
  "k < 512 \<Longrightarrow> element m ''input_di'' k = map_option (\<lambda>x. [x]) (rd m (int k))"
  "k < 1024 \<Longrightarrow> element m ''input_ai'' k =
     do { x \<leftarrow> rd m (512 + int k * 2); y \<leftarrow> rd m (512 + int k * 2 + 1); Some [x, y] }"
  "k < 128 \<Longrightarrow> element m ''input_real'' k =
     do { x \<leftarrow> rd m (2560 + int k * 4); y \<leftarrow> rd m (2560 + int k * 4 + 1);
          z \<leftarrow> rd m (2560 + int k * 4 + 2); u \<leftarrow> rd m (2560 + int k * 4 + 3); Some [x, y, z, u] }"
  "k < 512 \<Longrightarrow> set_element m ''output_do'' k [b] = wr m (3072 + int k) b"
  "k < 256 \<Longrightarrow> set_element m ''output_ao'' k [a, b] = do { m \<leftarrow> wr m (3584 + int k * 2) a; wr m (3584 + int k * 2 + 1) b }"
  by (simp_all add: element_def set_element_def fields rds_few map_conv_bind_option o_def)

text \<open>
  The runtime's reads and writes at a number below the size of a field are those of its elements, the
  numbers with the low byte first.
\<close>

theorem runtime_reads_fields:
  "(k < 512 \<longrightarrow> ReadByte p (int k) = map_option hd (element (shm p) ''input_di'' k)) \<and>
   (k < 1024 \<longrightarrow> map_option unat (ReadUInt16 p (int k)) = map_option little_endian (element (shm p) ''input_ai'' k)) \<and>
   (k < 128 \<longrightarrow> map_option unat (ReadSingle p (int k)) = map_option little_endian (element (shm p) ''input_real'' k)) \<and>
   (k < 512 \<longrightarrow> map_option shm (WriteByte (int k) b p) = set_element (shm p) ''output_do'' k [b]) \<and>
   (k < 256 \<longrightarrow> map_option shm (WriteUInt16 (int k) v p) = set_element (shm p) ''output_ao'' k (low_high v))"
proof (intro conjI impI)
  assume "k < 512"
  then show "ReadByte p (int k) = map_option hd (element (shm p) ''input_di'' k)"
    by (simp add: ReadByte_def element_bytes option.map_comp o_def option.map_ident)
next
  assume "k < 1024"
  then show "map_option unat (ReadUInt16 p (int k)) = map_option little_endian (element (shm p) ''input_ai'' k)"
    by (simp add: ReadUInt16_def element_bytes map_option_bind o_def little_endian_2 unat_bytes(1))
next
  assume "k < 128"
  then show "map_option unat (ReadSingle p (int k)) = map_option little_endian (element (shm p) ''input_real'' k)"
    by (simp add: ReadSingle_def element_bytes map_option_bind o_def little_endian_4 unat_bytes(2))
next
  assume "k < 512"
  then show "map_option shm (WriteByte (int k) b p) = set_element (shm p) ''output_do'' k [b]"
    by (simp add: WriteByte_def element_bytes map_option_bind o_def)
next
  assume "k < 256"
  then show "map_option shm (WriteUInt16 (int k) v p) = set_element (shm p) ''output_ao'' k (low_high v)"
    by (simp add: WriteUInt16_def low_high_def ucast_low element_bytes map_option_bind o_def)
qed

theorem runtime_reads_fields_witness:
  "ReadByte \<lparr>io = bsp_zero, shm = init [1, 2, 3]\<rparr> (int 2) = Some 3 \<and>
   map_option hd (element (init [1, 2, 3]) ''input_di'' 2) = Some 3"
  using runtime_reads_fields [of 2 "\<lparr>io = bsp_zero, shm = init [1, 2, 3]\<rparr>"]
  by (simp add: ReadByte_def rd_init)

section \<open>Getting at the memory\<close>

text \<open>
  The calls: a key for a file, the number of the segment for a key, or -1, and its address, or none.
\<close>

record 'w shm_os =
  sh_ftok :: "string \<Rightarrow> int \<Rightarrow> 'w \<Rightarrow> int \<times> 'w"
  sh_get :: "int \<Rightarrow> nat \<Rightarrow> int \<Rightarrow> 'w \<Rightarrow> int \<times> 'w"
  sh_at :: "int \<Rightarrow> 'w \<Rightarrow> int option \<times> 'w"

definition IPC_CREAT :: int where [simp]: "IPC_CREAT = 512"
definition IPC_EXCL :: int where [simp]: "IPC_EXCL = 1024"

definition fnShareMemory :: "'w shm_os \<Rightarrow> 'w \<Rightarrow> int option \<times> 'w" where
  "fnShareMemory os w =
     (let (key, w) = sh_ftok os ''/tmp'' 3 w;
          (shm_id, w) = sh_get os key 65536 (IPC_CREAT OR IPC_EXCL OR 384) w;
          (shm_id, w) = (if shm_id = -1 then sh_get os key 0 0 w else (shm_id, w))
      in sh_at os shm_id w)"

text \<open>The scheduling of a process: its policy and priority; the results of the calls are ignored.\<close>

record 'w sched_os =
  sc_getpid :: "'w \<Rightarrow> int"
  sc_max :: "int \<Rightarrow> int"
  sc_set :: "int \<Rightarrow> int \<Rightarrow> int \<Rightarrow> 'w \<Rightarrow> 'w"

definition SCHED_RR :: int where [simp]: "SCHED_RR = 2"

definition setRealTime :: "'w sched_os \<Rightarrow> 'w \<Rightarrow> 'w" where
  "setRealTime os w = sc_set os (sc_getpid os w) SCHED_RR (sc_max os SCHED_RR) w"

text \<open>
  The segments of the kernel: by key, a number and the bytes. A new segment is zero; the exclusive
  flag refuses an existing one, as does a size that it does not have.
\<close>

type_synonym segments = "int \<Rightarrow> (nat \<times> u8 list) option"

record kernel =
  segs :: segments
  next_id :: nat

definition kernel_get :: "int \<Rightarrow> nat \<Rightarrow> int \<Rightarrow> kernel \<Rightarrow> int \<times> kernel" where
  "kernel_get key n flags k =
     (case segs k key of
        Some (i, m) \<Rightarrow>
          if (flags AND IPC_CREAT \<noteq> 0 \<and> flags AND IPC_EXCL \<noteq> 0) \<or> length m < n then (-1, k) else (int i, k)
      | None \<Rightarrow>
          if flags AND IPC_CREAT \<noteq> 0
          then (int (next_id k), k\<lparr>segs := (segs k)(key \<mapsto> (next_id k, replicate n 0)), next_id := next_id k + 1\<rparr>)
          else (-1, k))"

definition kernel_os :: "int \<Rightarrow> kernel shm_os" where
  "kernel_os tmp_key =
     \<lparr>sh_ftok = (\<lambda>f n k. (tmp_key, k)),
      sh_get = kernel_get,
      sh_at = (\<lambda>i k. (if i = -1 then None else Some i, k))\<rparr>"

lemma kernel_flags: "(IPC_CREAT OR IPC_EXCL OR 384) AND IPC_CREAT \<noteq> (0 :: int)" "(IPC_CREAT OR IPC_EXCL OR 384) AND IPC_EXCL \<noteq> (0 :: int)"
  by simp_all

lemma fnShareMemory_kernel:
  "fnShareMemory (kernel_os key) k =
     (case segs k key of
        Some (i, m) \<Rightarrow> (Some (int i), k)
      | None \<Rightarrow> (Some (int (next_id k)),
          k\<lparr>segs := (segs k)(key \<mapsto> (next_id k, replicate 65536 0)), next_id := next_id k + 1\<rparr>))"
  using kernel_flags
  by (simp add: fnShareMemory_def kernel_os_def kernel_get_def Let_def del: IPC_CREAT_def IPC_EXCL_def split: option.split prod.split)

text \<open>
  Two programs that get at the memory get the same segment: a new one of the size of the
  structure, all zero, or the one that exists, whatever its size.
\<close>

theorem programs_share:
  "let (a, k1) = fnShareMemory (kernel_os key) k; (b, k2) = fnShareMemory (kernel_os key) k1
   in a = b \<and> a \<noteq> None \<and> k2 = k1 \<and>
      (case segs k key of
         None \<Rightarrow> segs k1 key = Some (nat (the a), replicate share_memory_size 0)
       | Some (i, m) \<Rightarrow> a = Some (int i) \<and> segs k1 = segs k)"
  by (simp add: fnShareMemory_kernel layout_fits split: option.split prod.split)

end
