(* ===== verification/Image_File.thy ===== *)
theory Image_File
  imports Prelude
begin

text \<open>
  \<open>kw/src/linuxfile.cpp\<close> and \<open>kw/src/eclrImageFile.cpp\<close>: how the runtime of the controller stores its
  program. A download goes to a temporary file, which \<open>Activate\<close> renames to the boot file; at the next
  start the boot file is read back. The files of the C library are modelled as inodes with
  contents, a directory and open streams; a write to a stream that allows it stores all its bytes, and at
  once: a full disk and the buffers of the C library are left out.
\<close>

section \<open>Files\<close>

record stream =
  st_inode :: nat
  st_pos :: nat
  st_read :: bool
  st_write :: bool

record fs =
  dir :: "string \<Rightarrow> nat option"
  content :: "nat \<Rightarrow> u8 list"
  next_inode :: nat
  streams :: "nat \<Rightarrow> stream option"
  next_stream :: nat
  creatable :: "string \<Rightarrow> bool"

definition new_stream :: "nat \<Rightarrow> bool \<Rightarrow> bool \<Rightarrow> fs \<Rightarrow> nat option \<times> fs" where
  "new_stream i r w fs =
     (Some (next_stream fs),
      fs\<lparr>streams := (streams fs)(next_stream fs \<mapsto> \<lparr>st_inode = i, st_pos = 0, st_read = r, st_write = w\<rparr>),
         next_stream := next_stream fs + 1\<rparr>)"

text \<open>\<open>fopen\<close> of an existing file, and of one that is created or emptied.\<close>

definition fopen_existing :: "string \<Rightarrow> bool \<Rightarrow> bool \<Rightarrow> fs \<Rightarrow> nat option \<times> fs" where
  "fopen_existing fname r w fs =
     (case dir fs fname of None \<Rightarrow> (None, fs) | Some i \<Rightarrow> new_stream i r w fs)"

definition fopen_empty :: "string \<Rightarrow> bool \<Rightarrow> bool \<Rightarrow> fs \<Rightarrow> nat option \<times> fs" where
  "fopen_empty fname r w fs =
     (case dir fs fname of
        Some i \<Rightarrow> new_stream i r w (fs\<lparr>content := (content fs)(i := [])\<rparr>)
      | None \<Rightarrow>
          if creatable fs fname
          then new_stream (next_inode fs) r w
                 (fs\<lparr>dir := (dir fs)(fname \<mapsto> next_inode fs), content := (content fs)(next_inode fs := []),
                     next_inode := next_inode fs + 1\<rparr>)
          else (None, fs))"

definition c_remove :: "string \<Rightarrow> fs \<Rightarrow> int \<times> fs" where
  "c_remove fname fs =
     (if dir fs fname = None then (-1, fs) else (0, fs\<lparr>dir := (dir fs)(fname := None)\<rparr>))"

definition c_rename :: "string \<Rightarrow> string \<Rightarrow> fs \<Rightarrow> int \<times> fs" where
  "c_rename src dst fs =
     (case dir fs src of
        None \<Rightarrow> (-1, fs)
      | Some i \<Rightarrow> if src = dst then (0, fs) else (0, fs\<lparr>dir := (dir fs)(src := None, dst \<mapsto> i)\<rparr>))"

definition write_at :: "u8 list \<Rightarrow> nat \<Rightarrow> u8 list \<Rightarrow> u8 list" where
  "write_at xs pos ys = take pos (xs @ replicate (pos - length xs) 0) @ ys @ drop (pos + length ys) xs"

section \<open>EclrFile\<close>

datatype OpenFlags = Open_r | Open_w | Open_rw | Open_c

datatype SeekModes = Seek_cur | Seek_set | Seek_end

text \<open>A file is a stream or the null pointer; using the null pointer or a closed stream is undefined.\<close>

fun EclrFile_Open :: "string \<Rightarrow> OpenFlags \<Rightarrow> fs \<Rightarrow> nat option \<times> fs" where
  "EclrFile_Open fname Open_r fs = fopen_existing fname True False fs"
| "EclrFile_Open fname Open_w fs = fopen_empty fname False True fs"
| "EclrFile_Open fname Open_rw fs = fopen_existing fname True True fs"
| "EclrFile_Open fname Open_c fs = fopen_empty fname True True fs"

definition EclrFile_Remove :: "string \<Rightarrow> fs \<Rightarrow> bool \<times> fs" where
  "EclrFile_Remove fname fs = (case c_remove fname fs of (r, fs) \<Rightarrow> (r = 0, fs))"

definition the_stream :: "nat option \<Rightarrow> fs \<Rightarrow> (nat \<times> stream) option" where
  "the_stream pFile fs = do { k \<leftarrow> pFile; s \<leftarrow> streams fs k; Some (k, s) }"

definition EclrFile_Close :: "nat option \<Rightarrow> fs \<Rightarrow> (bool \<times> fs) option" where
  "EclrFile_Close pFile fs =
     (if pFile = None then Some (False, fs)
      else do { (k, s) \<leftarrow> the_stream pFile fs; Some (True, fs\<lparr>streams := (streams fs)(k := None)\<rparr>) })"

definition EclrFile_Read :: "nat option \<Rightarrow> nat \<Rightarrow> fs \<Rightarrow> (u8 list \<times> fs) option" where
  "EclrFile_Read pFile n fs =
     do { (k, s) \<leftarrow> the_stream pFile fs;
          if \<not> st_read s then Some ([], fs)
          else do {
            let bs = take n (drop (st_pos s) (content fs (st_inode s)));
            Some (bs, fs\<lparr>streams := (streams fs)(k \<mapsto> s\<lparr>st_pos := st_pos s + length bs\<rparr>)\<rparr>) } }"

definition EclrFile_Write :: "nat option \<Rightarrow> u8 list \<Rightarrow> fs \<Rightarrow> (int \<times> fs) option" where
  "EclrFile_Write pFile bs fs =
     do { (k, s) \<leftarrow> the_stream pFile fs;
          if \<not> st_write s then Some (0, fs)
          else Some (int (length bs),
                 fs\<lparr>content := (content fs)(st_inode s := write_at (content fs (st_inode s)) (st_pos s) bs),
                    streams := (streams fs)(k \<mapsto> s\<lparr>st_pos := st_pos s + length bs\<rparr>)\<rparr>) }"

text \<open>Seeking to a negative position fails and leaves the position alone.\<close>

definition EclrFile_Seek :: "nat option \<Rightarrow> int \<Rightarrow> SeekModes \<Rightarrow> fs \<Rightarrow> (int \<times> fs) option" where
  "EclrFile_Seek pFile offset seekMode fs =
     do { (k, s) \<leftarrow> the_stream pFile fs;
          let base = (case seekMode of
              Seek_set \<Rightarrow> 0
            | Seek_cur \<Rightarrow> int (st_pos s)
            | Seek_end \<Rightarrow> int (length (content fs (st_inode s))));
          if base + offset < 0 then Some (-1, fs)
          else Some (base + offset, fs\<lparr>streams := (streams fs)(k \<mapsto> s\<lparr>st_pos := nat (base + offset)\<rparr>)\<rparr>) }"

section \<open>PcosImageFile\<close>

definition s_pPersistentName :: string where "s_pPersistentName = ''bootfile.img''"
definition s_pTmpPersistentName :: string where "s_pTmpPersistentName = ''_bootfile.img''"
definition s_pNonPersistentName :: string where "s_pNonPersistentName = ''bootfile.tmp''"
definition s_pTmpNonPersistentName :: string where "s_pTmpNonPersistentName = ''_bootfile.tmp''"

definition Mode_Create :: int where [simp]: "Mode_Create = 1"
definition Mode_NonPersistent :: int where [simp]: "Mode_NonPersistent = 8"

record image_file =
  m_pFile :: "nat option"
  m_pTmpName :: "string option"
  m_pImageName :: "string option"
  openCnt :: int

text \<open>The object is static, so the pointers start as null.\<close>

definition new_image_file :: image_file where
  "new_image_file = \<lparr>m_pFile = None, m_pTmpName = None, m_pImageName = None, openCnt = 0\<rparr>"

definition open_new :: "int \<Rightarrow> image_file \<Rightarrow> fs \<Rightarrow> image_file \<times> fs" where
  "open_new mode im fs =
     (let tmp = (if mode AND Mode_NonPersistent \<noteq> 0 then s_pTmpNonPersistentName else s_pTmpPersistentName);
          (f, fs) = EclrFile_Open tmp Open_c fs
      in (im\<lparr>m_pTmpName := Some tmp, m_pImageName := Some tmp, m_pFile := f\<rparr>, fs))"

definition open_existing :: "int \<Rightarrow> image_file \<Rightarrow> fs \<Rightarrow> image_file \<times> fs" where
  "open_existing mode im fs =
     (let name = (case m_pTmpName im of
            None \<Rightarrow> if mode AND Mode_NonPersistent \<noteq> 0 then s_pNonPersistentName else s_pPersistentName
          | Some tmp \<Rightarrow> tmp);
          (f, fs) = EclrFile_Open name Open_r fs
      in (im\<lparr>m_pImageName := Some name, m_pFile := f\<rparr>, fs))"

definition Image_Open :: "int \<Rightarrow> image_file \<times> fs \<Rightarrow> bool \<times> image_file \<times> fs" where
  "Image_Open mode r =
     (case r of (im, fs) \<Rightarrow>
        let (im, fs) =
          (if m_pFile im = None
           then (if mode AND Mode_Create \<noteq> 0 then open_new mode im fs else open_existing mode im fs)
           else (im, fs))
        in if m_pFile im \<noteq> None then (True, im\<lparr>openCnt := openCnt im + 1\<rparr>, fs) else (False, im, fs))"

definition Image_Close :: "image_file \<times> fs \<Rightarrow> (image_file \<times> fs) option" where
  "Image_Close r =
     (case r of (im, fs) \<Rightarrow>
        do { let im = im\<lparr>openCnt := openCnt im - 1\<rparr>;
             if m_pFile im \<noteq> None then do {
               (_, fs) \<leftarrow> EclrFile_Close (m_pFile im) fs;
               Some (im\<lparr>m_pFile := None\<rparr>, fs) }
             else Some (im, fs) })"

definition Image_Rename :: "string \<Rightarrow> string \<Rightarrow> fs \<Rightarrow> int \<times> fs" where
  "Image_Rename src dst fs = (case c_rename src dst fs of (r, fs) \<Rightarrow> (if r \<noteq> 0 then -1 else 0, fs))"

definition Image_Activate :: "bool \<Rightarrow> bool \<Rightarrow> image_file \<times> fs \<Rightarrow> bool \<times> image_file \<times> fs" where
  "Image_Activate isPersistent isOK r =
     (case r of (im, fs) \<Rightarrow>
        let name = (if isPersistent then s_pPersistentName else s_pNonPersistentName);
            (result, fs) =
              (if isOK then
                 (case m_pTmpName im of
                    Some tmp \<Rightarrow>
                      let (_, fs) = EclrFile_Remove name fs;
                          (r, fs) = c_rename tmp name fs;
                          (_, fs) = c_remove tmp fs
                      in (r = 0, fs)
                  | None \<Rightarrow> (False, fs))
               else (True, fs))
        in (result, im\<lparr>m_pImageName := Some name, m_pTmpName := None\<rparr>, fs))"

definition Image_Remove :: "image_file \<times> fs \<Rightarrow> image_file \<times> fs" where
  "Image_Remove r = (case r of (im, fs) \<Rightarrow> (im, snd (EclrFile_Remove s_pPersistentName fs)))"

text \<open>
  Positions and lengths are \<open>unsigned\<close>; the cast of a position to \<open>long\<close>, 32 bits wide on the
  controller, makes positions from \<open>2 ^ 31\<close> on negative. The result of the seek is not looked at.
\<close>

definition Image_Read :: "u32 \<Rightarrow> u32 \<Rightarrow> image_file \<times> fs \<Rightarrow> (u8 list \<times> image_file \<times> fs) option" where
  "Image_Read pos n r =
     (case r of (im, fs) \<Rightarrow>
        do { (_, fs) \<leftarrow> EclrFile_Seek (m_pFile im) (sint pos) Seek_set fs;
             (bs, fs) \<leftarrow> EclrFile_Read (m_pFile im) (unat n) fs;
             Some (bs, im, fs) })"

definition Image_Write :: "u32 \<Rightarrow> u8 list \<Rightarrow> image_file \<times> fs \<Rightarrow> (int \<times> image_file \<times> fs) option" where
  "Image_Write pos bs r =
     (case r of (im, fs) \<Rightarrow>
        do { (_, fs) \<leftarrow> EclrFile_Seek (m_pFile im) (sint pos) Seek_set fs;
             (n, fs) \<leftarrow> EclrFile_Write (m_pFile im) bs fs;
             Some (n, im, fs) })"

section \<open>Downloads\<close>

fun download :: "(u32 \<times> u8 list) list \<Rightarrow> image_file \<times> fs \<Rightarrow> (image_file \<times> fs) option" where
  "download [] r = Some r"
| "download ((pos, bs) # chunks) r = do { (_, r) \<leftarrow> Image_Write pos bs r; download chunks r }"

text \<open>What the chunks make of a file.\<close>

fun image_of :: "(u32 \<times> u8 list) list \<Rightarrow> u8 list \<Rightarrow> u8 list" where
  "image_of [] xs = xs"
| "image_of ((pos, bs) # chunks) xs = image_of chunks (write_at xs (unat pos) bs)"

definition file_bytes :: "fs \<Rightarrow> string \<Rightarrow> u8 list option" where
  "file_bytes fs f = map_option (content fs) (dir fs f)"

text \<open>Every name has an inode of its own, and new inodes are unused.\<close>

definition fs_ok :: "fs \<Rightarrow> bool" where
  "fs_ok fs \<longleftrightarrow> inj_on (dir fs) (dom (dir fs)) \<and> (\<forall>f i. dir fs f = Some i \<longrightarrow> i < next_inode fs)"

lemma sint_position:
  assumes "0 \<le> sint (pos :: u32)"
  shows "nat (sint pos) = unat pos"
proof -
  have "sint pos < 2 ^ 31" using sint_less [of pos] by simp
  with assms have "uint pos = sint pos" by (simp add: uint_sint take_bit_int_eq_self)
  then show ?thesis by (metis nat_uint_eq)
qed

lemma Image_Write_run:
  assumes "m_pFile im = Some k" "streams fs k = Some s" "st_write s" "0 \<le> sint pos"
  shows "\<exists>s'. st_inode s' = st_inode s \<and> st_write s' \<and> Image_Write pos bs (im, fs) = Some (int (length bs), im,
     fs\<lparr>content := (content fs)(st_inode s := write_at (content fs (st_inode s)) (unat pos) bs),
        streams := (streams fs)(k \<mapsto> s')\<rparr>)"
  using assms
  by (intro exI [of _ "s\<lparr>st_pos := unat pos + length bs\<rparr>"])
    (simp add: Image_Write_def EclrFile_Seek_def EclrFile_Write_def the_stream_def sint_position)

lemma download_run:
  assumes "m_pFile im = Some k" "streams fs k = Some s" "st_write s" "\<forall>(pos, bs) \<in> set chunks. 0 \<le> sint pos"
  shows "\<exists>s'. st_inode s' = st_inode s \<and> st_write s' \<and> download chunks (im, fs) = Some (im,
     fs\<lparr>content := (content fs)(st_inode s := image_of chunks (content fs (st_inode s))), streams := (streams fs)(k \<mapsto> s')\<rparr>)"
  using assms(2-4)
proof (induction chunks arbitrary: fs s)
  case Nil
  then show ?case by (intro exI [of _ s]) (simp add: fun_upd_idem)
next
  case (Cons c chunks)
  obtain pos bs where c: "c = (pos, bs)" by (cases c)
  let ?fs = "\<lambda>s'. fs\<lparr>content := (content fs)(st_inode s := write_at (content fs (st_inode s)) (unat pos) bs),
        streams := (streams fs)(k \<mapsto> s')\<rparr>"
  from Image_Write_run [OF assms(1) Cons.prems(1,2), of pos bs] Cons.prems(3) c obtain s1
    where s1: "st_inode s1 = st_inode s" "st_write s1" "Image_Write pos bs (im, fs) = Some (int (length bs), im, ?fs s1)"
    by auto
  have "streams (?fs s1) k = Some s1" "\<forall>(pos, bs) \<in> set chunks. 0 \<le> sint pos" using Cons.prems(3) by auto
  from Cons.IH [OF this(1) s1(2) this(2)] obtain s2
    where s2: "st_inode s2 = st_inode s1" "st_write s2" "download chunks (im, ?fs s1) = Some (im,
     (?fs s1)\<lparr>content := (content (?fs s1))(st_inode s1 := image_of chunks (content (?fs s1) (st_inode s1))),
       streams := (streams (?fs s1))(k \<mapsto> s2)\<rparr>)" by blast
  then show ?case using s1 c by (intro exI [of _ s2]) (simp del: fun_upd_apply add: fun_upd_same)
qed

text \<open>Opening for a download: a new, empty temporary file.\<close>

definition tmp_name :: "bool \<Rightarrow> string" where
  "tmp_name keep = (if keep then s_pTmpPersistentName else s_pTmpNonPersistentName)"

definition boot_name :: "bool \<Rightarrow> string" where
  "boot_name keep = (if keep then s_pPersistentName else s_pNonPersistentName)"

definition mode_of :: "bool \<Rightarrow> int \<Rightarrow> int" where
  "mode_of keep access = (if keep then access else access OR Mode_NonPersistent)"

lemma names_differ: "tmp_name keep \<noteq> boot_name keep'"
  by (simp add: tmp_name_def boot_name_def s_pPersistentName_def s_pTmpPersistentName_def s_pNonPersistentName_def
      s_pTmpNonPersistentName_def)

lemma open_create:
  assumes "m_pFile im = None" "dir fs (tmp_name keep) \<noteq> None \<or> creatable fs (tmp_name keep)"
  shows "\<exists>im1 fs1 k s. Image_Open (mode_of keep Mode_Create) (im, fs) = (True, im1, fs1) \<and>
     m_pFile im1 = Some k \<and> m_pTmpName im1 = Some (tmp_name keep) \<and> streams fs1 k = Some s \<and> st_write s \<and>
     dir fs1 = (dir fs)(tmp_name keep \<mapsto> st_inode s) \<and> content fs1 = (content fs)(st_inode s := []) \<and>
     (dir fs (tmp_name keep) = Some (st_inode s) \<or> st_inode s = next_inode fs)"
  using assms
  by (cases keep; cases "dir fs (tmp_name keep)")
    (simp_all add: Image_Open_def open_new_def mode_of_def tmp_name_def fopen_empty_def new_stream_def Let_def fun_upd_idem)

text \<open>Opening the boot file for reading, when no download is under way.\<close>

lemma open_boot:
  assumes "m_pFile im = None" "m_pTmpName im = None" "dir fs (boot_name keep) = Some i"
  shows "\<exists>im1 k. Image_Open (mode_of keep 2) (im, fs) = (True, im1,
       fs\<lparr>streams := (streams fs)(k \<mapsto> \<lparr>st_inode = i, st_pos = 0, st_read = True, st_write = False\<rparr>),
          next_stream := next_stream fs + 1\<rparr>) \<and> m_pFile im1 = Some k"
  using assms
  by (auto simp: Image_Open_def open_existing_def mode_of_def boot_name_def fopen_existing_def new_stream_def Let_def)

lemma read_run:
  assumes "m_pFile im = Some k" "streams fs k = Some s" "st_read s" "0 \<le> sint pos"
  shows "\<exists>fs1. Image_Read pos n (im, fs) = Some (take (unat n) (drop (unat pos) (content fs (st_inode s))), im, fs1) \<and>
     dir fs1 = dir fs \<and> content fs1 = content fs"
  using assms by (simp add: Image_Read_def EclrFile_Seek_def EclrFile_Read_def the_stream_def sint_position)

text \<open>Activating a closed download.\<close>

lemma activate_run:
  assumes "m_pTmpName im = Some (tmp_name keep)" "dir fs (tmp_name keep) = Some i"
  shows "Image_Activate keep True (im, fs) = (True, im\<lparr>m_pImageName := Some (boot_name keep), m_pTmpName := None\<rparr>,
     fs\<lparr>dir := (dir fs)(tmp_name keep := None, boot_name keep \<mapsto> i)\<rparr>)"
  using assms names_differ [of keep keep]
  by (auto simp: Image_Activate_def EclrFile_Remove_def c_remove_def c_rename_def Let_def boot_name_def fun_upd_twist)

text \<open>
  C38: An image written in any chunks at any positions, closed and activated, is what the next
  opening reads at every position; the temporary file is gone and no other file has changed.
  This holds for persistent and for non-persistent images: those are renamed to
  \<open>bootfile.tmp\<close>, although the description of \<open>Activate\<close> says that
  they keep the temporary name.
\<close>

theorem image_roundtrip:
  assumes "m_pFile im = None" "fs_ok fs" "dir fs (tmp_name keep) \<noteq> None \<or> creatable fs (tmp_name keep)"
    and "\<forall>(pos, bs) \<in> set chunks. 0 \<le> sint pos" "0 \<le> sint pos"
  shows "\<exists>s1 s2 s3 s4 s5 im6 fs6. Image_Open (mode_of keep Mode_Create) (im, fs) = (True, s1) \<and>
     download chunks s1 = Some s2 \<and> Image_Close s2 = Some s3 \<and> Image_Activate keep True s3 = (True, s4) \<and>
     Image_Open (mode_of keep 2) s4 = (True, s5) \<and>
     Image_Read pos n s5 = Some (take (unat n) (drop (unat pos) (image_of chunks [])), im6, fs6) \<and>
     file_bytes fs6 (boot_name keep) = Some (image_of chunks []) \<and> file_bytes fs6 (tmp_name keep) = None \<and>
     (\<forall>f. f \<noteq> boot_name keep \<and> f \<noteq> tmp_name keep \<longrightarrow> file_bytes fs6 f = file_bytes fs f)"
proof -
  obtain im1 fs1 k s where open1: "Image_Open (mode_of keep Mode_Create) (im, fs) = (True, im1, fs1)"
    "m_pFile im1 = Some k" "m_pTmpName im1 = Some (tmp_name keep)" "streams fs1 k = Some s" "st_write s"
    "dir fs1 = (dir fs)(tmp_name keep \<mapsto> st_inode s)" "content fs1 = (content fs)(st_inode s := [])"
    "dir fs (tmp_name keep) = Some (st_inode s) \<or> st_inode s = next_inode fs"
    using open_create [OF assms(1,3)] by blast
  obtain s2 where load: "download chunks (im1, fs1) = Some (im1,
     fs1\<lparr>content := (content fs1)(st_inode s := image_of chunks (content fs1 (st_inode s))), streams := (streams fs1)(k \<mapsto> s2)\<rparr>)"
    using download_run [OF open1(2,4,5) assms(4)] by blast
  let ?fs2 = "fs1\<lparr>content := (content fs1)(st_inode s := image_of chunks (content fs1 (st_inode s))), streams := (streams fs1)(k \<mapsto> s2)\<rparr>"
  let ?im3 = "im1\<lparr>openCnt := openCnt im1 - 1, m_pFile := None\<rparr>"
  let ?fs3 = "?fs2\<lparr>streams := (streams ?fs2)(k := None)\<rparr>"
  have close: "Image_Close (im1, ?fs2) = Some (?im3, ?fs3)"
    using open1(2) by (simp add: Image_Close_def EclrFile_Close_def the_stream_def)
  have tmp: "m_pTmpName ?im3 = Some (tmp_name keep)" "dir ?fs3 (tmp_name keep) = Some (st_inode s)" using open1(3,6) by simp_all
  let ?im4 = "?im3\<lparr>m_pImageName := Some (boot_name keep), m_pTmpName := None\<rparr>"
  let ?fs4 = "?fs3\<lparr>dir := (dir ?fs3)(tmp_name keep := None, boot_name keep \<mapsto> st_inode s)\<rparr>"
  note act = activate_run [OF tmp]
  have "m_pFile ?im4 = None" "m_pTmpName ?im4 = None" "dir ?fs4 (boot_name keep) = Some (st_inode s)" by simp_all
  from open_boot [OF this] obtain im5 k5 where open5: "Image_Open (mode_of keep 2) (?im4, ?fs4) = (True, im5,
       ?fs4\<lparr>streams := (streams ?fs4)(k5 \<mapsto> \<lparr>st_inode = st_inode s, st_pos = 0, st_read = True, st_write = False\<rparr>),
          next_stream := next_stream ?fs4 + 1\<rparr>)" "m_pFile im5 = Some k5" by blast
  let ?s5 = "\<lparr>st_inode = st_inode s, st_pos = 0, st_read = True, st_write = False\<rparr>"
  let ?fs5 = "?fs4\<lparr>streams := (streams ?fs4)(k5 \<mapsto> ?s5), next_stream := next_stream ?fs4 + 1\<rparr>"
  have "streams ?fs5 k5 = Some ?s5" "st_read ?s5" "content ?fs5 (st_inode ?s5) = image_of chunks []"
    using open1(7) by simp_all
  with read_run [OF open5(2) this(1,2) assms(5), of n] obtain fs6
    where read: "Image_Read pos n (im5, ?fs5) = Some (take (unat n) (drop (unat pos) (image_of chunks [])), im5, fs6)"
    and fs6: "dir fs6 = dir ?fs5" "content fs6 = content ?fs5" by metis
  have "file_bytes fs6 (boot_name keep) = Some (image_of chunks [])" "file_bytes fs6 (tmp_name keep) = None"
    using fs6 open1(7) names_differ [of keep keep] by (simp_all add: file_bytes_def)
  moreover have "file_bytes fs6 f = file_bytes fs f" if "f \<noteq> boot_name keep" "f \<noteq> tmp_name keep" for f
  proof -
    have "i \<noteq> st_inode s" if "dir fs f = Some i" for i
    proof (cases "st_inode s = next_inode fs")
      case True
      then show ?thesis using assms(2) that by (metis fs_ok_def less_irrefl)
    next
      case False
      then show ?thesis
        using assms(2) open1(8) that \<open>f \<noteq> tmp_name keep\<close> by (metis (no_types, lifting) domI fs_ok_def inj_onD)
    qed
    then show ?thesis using fs6 open1(6,7) that by (cases "dir fs f") (auto simp: file_bytes_def)
  qed
  ultimately show ?thesis using open1(1) load close act open5(1) read by blast
qed

text \<open>An empty disk.\<close>

definition empty_fs :: fs where
  "empty_fs = \<lparr>dir = \<lambda>_. None, content = \<lambda>_. [], next_inode = 0, streams = \<lambda>_. None, next_stream = 0, creatable = \<lambda>_. True\<rparr>"

theorem image_roundtrip_witness:
  "\<exists>s1 s2 s3 s4 s5 s6. Image_Open 1 (new_image_file, empty_fs) = (True, s1) \<and>
     download [(0, [1, 2]), (4, [5]), (1, [7, 8])] s1 = Some s2 \<and> Image_Close s2 = Some s3 \<and>
     Image_Activate True True s3 = (True, s4) \<and> Image_Open 2 s4 = (True, s5) \<and>
     Image_Read 1 10 s5 = Some ([7, 8, 0, 5], s6)"
proof -
  have mode: "mode_of True Mode_Create = 1" "mode_of True 2 = 2" by (simp_all add: mode_of_def)
  have pos: "0 \<le> sint (1 :: u32)" "\<forall>(pos, bs :: u8 list) \<in> set [(0, [1, 2]), (4, [5]), (1, [7, 8])]. 0 \<le> sint (pos :: u32)"
    by simp_all
  have "m_pFile new_image_file = None" "fs_ok empty_fs" "creatable empty_fs (tmp_name True)"
    by (simp_all add: new_image_file_def fs_ok_def empty_fs_def)
  moreover have "image_of [(0, [1, 2]), (4, [5]), (1, [7, 8])] [] = [1, 7, 8, 0, 5]"
    by code_simp
  then have "take (unat (10 :: u32)) (drop (unat (1 :: u32)) (image_of [(0, [1, 2]), (4, [5]), (1, [7, 8])] [])) = [7, 8, 0, 5]"
    by simp
  ultimately show ?thesis
    using image_roundtrip [where keep = True and n = 10, unfolded mode, OF _ _ _ pos(2,1)] by metis
qed

section \<open>A failed activation\<close>

text \<open>
  If the new image could not be created, activating it reports a failure and has removed
  the image that was there before: none is left.
\<close>

theorem activation_loses_image:
  assumes "m_pFile im = None" "dir fs (tmp_name keep) = None" "\<not> creatable fs (tmp_name keep)"
    and "dir fs (boot_name keep) = Some i"
  shows "\<exists>im1 im2 fs2. Image_Open (mode_of keep Mode_Create) (im, fs) = (False, im1, fs) \<and>
     Image_Activate keep True (im1, fs) = (False, im2, fs2) \<and>
     file_bytes fs (boot_name keep) \<noteq> None \<and> file_bytes fs2 (boot_name keep) = None"
  using assms names_differ [of keep keep]
  by (cases keep)
    (auto simp: Image_Open_def open_new_def Image_Activate_def EclrFile_Remove_def c_remove_def c_rename_def mode_of_def
      tmp_name_def boot_name_def fopen_empty_def file_bytes_def Let_def)

theorem activation_loses_image_witness:
  "\<exists>im1 im2 fs2. Image_Open 1 (new_image_file, empty_fs\<lparr>dir := [''bootfile.img'' \<mapsto> 0], creatable := \<lambda>_. False\<rparr>)
       = (False, im1, empty_fs\<lparr>dir := [''bootfile.img'' \<mapsto> 0], creatable := \<lambda>_. False\<rparr>) \<and>
     Image_Activate True True (im1, empty_fs\<lparr>dir := [''bootfile.img'' \<mapsto> 0], creatable := \<lambda>_. False\<rparr>) = (False, im2, fs2) \<and>
     file_bytes fs2 ''bootfile.img'' = None"
proof -
  let ?fs = "empty_fs\<lparr>dir := [''bootfile.img'' \<mapsto> 0], creatable := \<lambda>_. False\<rparr>"
  have "m_pFile new_image_file = None" "dir ?fs (tmp_name True) = None" "\<not> creatable ?fs (tmp_name True)"
    "dir ?fs (boot_name True) = Some 0"
    by (simp_all add: new_image_file_def tmp_name_def boot_name_def s_pTmpPersistentName_def s_pPersistentName_def)
  from activation_loses_image [OF this] show ?thesis
    by (simp add: mode_of_def boot_name_def s_pPersistentName_def) blast
qed

section \<open>Sequences of calls\<close>

inductive image_reachable :: "fs \<Rightarrow> image_file \<times> fs \<Rightarrow> bool" for fs0 where
  start: "image_reachable fs0 (new_image_file, fs0)"
| opens: "image_reachable fs0 r \<Longrightarrow> Image_Open mode r = (b, r') \<Longrightarrow> image_reachable fs0 r'"
| closes: "image_reachable fs0 r \<Longrightarrow> Image_Close r = Some r' \<Longrightarrow> image_reachable fs0 r'"
| activates: "image_reachable fs0 r \<Longrightarrow> Image_Activate keep ok r = (b, r') \<Longrightarrow> image_reachable fs0 r'"
| removes: "image_reachable fs0 r \<Longrightarrow> image_reachable fs0 (Image_Remove r)"
| reads: "image_reachable fs0 r \<Longrightarrow> Image_Read pos n r = Some (bs, r') \<Longrightarrow> image_reachable fs0 r'"
| writes: "image_reachable fs0 r \<Longrightarrow> Image_Write pos bs r = Some (k, r') \<Longrightarrow> image_reachable fs0 r'"

text \<open>The open file is the only stream in use, and the disk is in order.\<close>

definition image_ok :: "image_file \<times> fs \<Rightarrow> bool" where
  "image_ok r \<longleftrightarrow> (case r of (im, fs) \<Rightarrow> dom (streams fs) = set_option (m_pFile im) \<and> fs_ok fs)"

lemma fs_ok_create:
  assumes "fs_ok fs"
  shows "fs_ok (fs\<lparr>dir := (dir fs)(f \<mapsto> next_inode fs), content := c, next_inode := Suc (next_inode fs)\<rparr>)"
proof -
  have "dir fs g \<noteq> Some (next_inode fs)" for g using assms by (metis fs_ok_def less_irrefl)
  with assms show ?thesis by (auto simp: fs_ok_def inj_on_def dom_def less_Suc_eq)
qed

lemma fs_ok_remove: "fs_ok fs \<Longrightarrow> fs_ok (snd (c_remove f fs))"
  by (auto simp: fs_ok_def c_remove_def inj_on_def dom_def)

lemma fs_ok_rename:
  assumes "fs_ok fs"
  shows "fs_ok (snd (c_rename f g fs))"
proof -
  have "f' = g'" if "dir fs f' = Some i" "dir fs g' = Some i" for f' g' i
    using assms that by (metis domI fs_ok_def inj_onD)
  moreover have "i < next_inode fs" if "dir fs f' = Some i" for f' i using assms that by (simp add: fs_ok_def)
  ultimately show ?thesis
    by (auto simp: fs_ok_def c_rename_def inj_on_def dom_def split: option.splits if_splits)
qed

lemma fs_ok_frame [simp]: "fs_ok (fs\<lparr>streams := s\<rparr>) = fs_ok fs" "fs_ok (fs\<lparr>content := c\<rparr>) = fs_ok fs"
  "fs_ok (fs\<lparr>next_stream := n\<rparr>) = fs_ok fs"
  by (simp_all add: fs_ok_def)

lemma streams_remove [simp]: "streams (snd (c_remove f fs)) = streams fs" "streams (snd (c_rename f g fs)) = streams fs"
  by (simp_all add: c_remove_def c_rename_def split: option.splits)

text \<open>Calls on an open stream keep the set of streams and the directory.\<close>

definition same_disk :: "fs \<Rightarrow> fs \<Rightarrow> bool" where
  "same_disk fs fs' \<longleftrightarrow> dom (streams fs') = dom (streams fs) \<and> dir fs' = dir fs \<and> next_inode fs' = next_inode fs"

lemma same_disk_ok: "same_disk fs fs' \<Longrightarrow> image_ok (im, fs) \<Longrightarrow> image_ok (im, fs')"
  by (simp add: same_disk_def image_ok_def fs_ok_def)

lemma seek_same: "EclrFile_Seek f k m fs = Some (r, fs') \<Longrightarrow> same_disk fs fs'"
  by (auto simp: EclrFile_Seek_def the_stream_def same_disk_def Let_def Option.bind_eq_Some_conv split: if_splits)

lemma read_same: "EclrFile_Read f n fs = Some (r, fs') \<Longrightarrow> same_disk fs fs'"
  by (auto simp: EclrFile_Read_def the_stream_def same_disk_def Let_def Option.bind_eq_Some_conv split: if_splits)

lemma write_same: "EclrFile_Write f bs fs = Some (r, fs') \<Longrightarrow> same_disk fs fs'"
  by (auto simp: EclrFile_Write_def the_stream_def same_disk_def Let_def Option.bind_eq_Some_conv split: if_splits)

lemma image_ok_read: "image_ok r \<Longrightarrow> Image_Read pos n r = Some (bs, r') \<Longrightarrow> image_ok r'"
  by (auto simp: Image_Read_def Option.bind_eq_Some_conv split: prod.splits dest!: seek_same read_same intro: same_disk_ok)

lemma image_ok_write: "image_ok r \<Longrightarrow> Image_Write pos bs r = Some (k, r') \<Longrightarrow> image_ok r'"
  by (auto simp: Image_Write_def Option.bind_eq_Some_conv split: prod.splits dest!: seek_same write_same intro: same_disk_ok)

lemma image_ok_close: "image_ok r \<Longrightarrow> Image_Close r = Some r' \<Longrightarrow> image_ok r'"
  by (auto simp: image_ok_def Image_Close_def EclrFile_Close_def the_stream_def Let_def Option.bind_eq_Some_conv
      split: prod.splits if_splits)

lemma image_ok_open:
  assumes "image_ok r" "Image_Open mode r = (b, r')"
  shows "image_ok r'"
proof -
  obtain im fs where r: "r = (im, fs)" by fastforce
  have ok: "fs_ok fs" "dom (streams fs) = set_option (m_pFile im)" using assms(1) r by (simp_all add: image_ok_def)
  show ?thesis
    using assms(2) ok fs_ok_create [OF ok(1)]
    by (auto simp: r Image_Open_def open_new_def open_existing_def fopen_empty_def fopen_existing_def new_stream_def
        image_ok_def Let_def split: if_splits option.splits)
qed

lemma image_ok_names:
  "image_ok (im, fs) \<Longrightarrow> m_pFile im' = m_pFile im \<Longrightarrow> streams fs' = streams fs \<Longrightarrow> fs_ok fs' \<Longrightarrow> image_ok (im', fs')"
  by (simp add: image_ok_def)

lemma image_ok_activate:
  assumes "image_ok r" "Image_Activate keep ok r = (b, r')"
  shows "image_ok r'"
proof -
  obtain im fs where r: "r = (im, fs)" by fastforce
  have ok: "fs_ok fs" using assms(1) r by (simp add: image_ok_def)
  show ?thesis
    using assms(2)
    by (auto simp: r Image_Activate_def EclrFile_Remove_def Let_def case_prod_beta fs_ok_remove fs_ok_rename ok
        split: if_splits option.splits intro!: image_ok_names [OF assms(1) [unfolded r]])
qed

lemma image_ok_remove: "image_ok r \<Longrightarrow> image_ok (Image_Remove r)"
  by (auto simp: image_ok_def Image_Remove_def EclrFile_Remove_def case_prod_beta fs_ok_remove)

lemma image_reachable_ok:
  assumes "image_reachable fs0 r" "fs_ok fs0" "dom (streams fs0) = {}"
  shows "image_ok r"
  using assms(1)
proof (induction rule: image_reachable.induct)
  case start
  then show ?case using assms(2,3) by (simp add: image_ok_def new_image_file_def)
qed (blast intro: image_ok_open image_ok_close image_ok_activate image_ok_remove image_ok_read image_ok_write)+

text \<open>
  In every state that calls can reach, the files are consistent, closing is defined, and
  reading and writing are defined exactly when the image is open.
\<close>

theorem image_calls_defined:
  assumes "image_reachable fs0 (im, fs)" "fs_ok fs0" "dom (streams fs0) = {}"
  shows "fs_ok fs \<and> Image_Close (im, fs) \<noteq> None \<and>
     (Image_Read pos n (im, fs) \<noteq> None \<longleftrightarrow> m_pFile im \<noteq> None) \<and> (Image_Write pos bs (im, fs) \<noteq> None \<longleftrightarrow> m_pFile im \<noteq> None)"
proof -
  have ok: "image_ok (im, fs)" by (rule image_reachable_ok [OF assms])
  have "\<exists>s. the_stream (m_pFile im) fs = Some (k, s) \<and> streams fs k = Some s" if "m_pFile im = Some k" for k
  proof -
    have "k \<in> dom (streams fs)" using ok that by (simp add: image_ok_def)
    then show ?thesis using that by (auto simp: the_stream_def)
  qed
  then show ?thesis
    using ok
    by (cases "m_pFile im")
      (fastforce simp: image_ok_def Image_Close_def EclrFile_Close_def Image_Read_def Image_Write_def EclrFile_Seek_def
        EclrFile_Read_def EclrFile_Write_def the_stream_def Let_def)+
qed

theorem image_calls_defined_witness:
  "\<exists>im fs. image_reachable empty_fs (im, fs) \<and> m_pFile im \<noteq> None \<and> Image_Read 0 4 (im, fs) \<noteq> None"
proof -
  obtain im fs where open1: "Image_Open 1 (new_image_file, empty_fs) = (True, im, fs)" "m_pFile im \<noteq> None"
    by (simp add: Image_Open_def open_new_def fopen_empty_def new_stream_def new_image_file_def empty_fs_def Let_def)
  then have reach: "image_reachable empty_fs (im, fs)" by (blast intro: image_reachable.intros)
  from image_calls_defined [OF reach] open1(2) reach show ?thesis
    by (force simp: fs_ok_def empty_fs_def)
qed

text \<open>
  When a second reader closes the image file the first one's reads have no stream.
\<close>

theorem image_nested_close:
  assumes "image_reachable fs0 (im, fs)" "fs_ok fs0" "dom (streams fs0) = {}" "m_pFile im \<noteq> None"
  shows "\<exists>im2 im3 fs3. Image_Open mode (im, fs) = (True, im2, fs) \<and> Image_Close (im2, fs) = Some (im3, fs3) \<and>
     openCnt im3 = openCnt im \<and> (\<forall>pos n bs. Image_Read pos n (im3, fs3) = None \<and> Image_Write pos bs (im3, fs3) = None)"
proof -
  have "image_ok (im, fs)" by (rule image_reachable_ok [OF assms(1-3)])
  then obtain k where "m_pFile im = Some k" "k \<in> dom (streams fs)" using assms(4) by (auto simp: image_ok_def)
  then show ?thesis
    by (auto simp: Image_Open_def Image_Close_def EclrFile_Close_def Image_Read_def Image_Write_def EclrFile_Seek_def
        the_stream_def Let_def)
qed

theorem image_nested_close_witness:
  "\<exists>im fs im2 im3 fs3. image_reachable empty_fs (im, fs) \<and> Image_Open 2 (im, fs) = (True, im2, fs) \<and>
     Image_Close (im2, fs) = Some (im3, fs3) \<and> openCnt im3 = 1 \<and> Image_Read 0 4 (im3, fs3) = None"
proof -
  obtain im fs where open1: "Image_Open 1 (new_image_file, empty_fs) = (True, im, fs)" "m_pFile im \<noteq> None" "openCnt im = 1"
    by (simp add: Image_Open_def open_new_def fopen_empty_def new_stream_def new_image_file_def empty_fs_def Let_def)
  then have reach: "image_reachable empty_fs (im, fs)" by (blast intro: image_reachable.intros)
  have "fs_ok empty_fs" "dom (streams empty_fs) = {}" by (simp_all add: fs_ok_def empty_fs_def)
  from image_nested_close [OF reach this open1(2), of 2] open1(3) reach show ?thesis by metis
qed

end
