(* ===== verification/Runtime_Threads.thy ===== *)
theory Runtime_Threads
  imports Prelude
begin

text \<open>
  \<open>kw/src/threadimpl.cpp\<close>: threads, events and critical sections of the runtime on POSIX threads.
  A thread is created waiting at a semaphore that \<open>Start\<close> posts; \<open>Suspend\<close> and \<open>Resume\<close> send it two
  signals. What the other threads and the kernel do to one thread is a step relation.
\<close>

section \<open>Creating a thread\<close>

text \<open>The calls of the system that creating a thread makes, each of which may fail.\<close>

record 'w pthread_os =
  os_sem_init :: "nat \<Rightarrow> 'w \<Rightarrow> int \<times> 'w"
  os_sem_destroy :: "'w \<Rightarrow> 'w"
  os_setstacksize :: "int \<Rightarrow> 'w \<Rightarrow> int \<times> 'w"
  os_pthread_create :: "'w \<Rightarrow> (int + nat) \<times> 'w"
  os_getschedparam :: "nat \<Rightarrow> 'w \<Rightarrow> int"
  os_setschedparam :: "nat \<Rightarrow> int \<Rightarrow> 'w \<Rightarrow> int \<times> 'w"
  os_pthread_cancel :: "nat \<Rightarrow> 'w \<Rightarrow> 'w"

definition PTHREAD_STACK_MIN :: int where [simp]: "PTHREAD_STACK_MIN = 16384"

text \<open>\<open>unsigned\<close> plus 8000, converted to \<open>int\<close>.\<close>

definition stack_size :: "u32 \<Rightarrow> int" where
  "stack_size stackSize =
     (let n = sint (stackSize + 8000) in if n < PTHREAD_STACK_MIN then PTHREAD_STACK_MIN + 4 else n)"

definition Thread_create :: "'w pthread_os \<Rightarrow> u32 \<Rightarrow> 'w \<Rightarrow> nat option \<times> 'w" where
  "Thread_create os stackSize w =
     (let (r, w) = os_sem_init os 0 w in
      if r \<noteq> 0 then (None, w)
      else
        let (r, w) = os_setstacksize os (stack_size stackSize) w in
        if r \<noteq> 0 then (None, os_sem_destroy os w)
        else
          case os_pthread_create os w of
            (Inl e, w) \<Rightarrow> (None, os_sem_destroy os w)
          | (Inr tid, w) \<Rightarrow> (Some tid, w))"

text \<open>The object: the thread's number, 0 before it was created, and whether the semaphore exists.\<close>

record thread_impl =
  m_threadId :: nat
  has_sem :: bool

definition Thread_Create :: "'w pthread_os \<Rightarrow> u32 \<Rightarrow> 'w \<Rightarrow> thread_impl option \<times> 'w" where
  "Thread_Create os stackSize w =
     (case Thread_create os stackSize w of
        (None, w) \<Rightarrow> (None, w)
      | (Some tid, w) \<Rightarrow> (Some \<lparr>m_threadId = tid, has_sem = True\<rparr>, w))"

definition SetPriority :: "'w pthread_os \<Rightarrow> thread_impl \<Rightarrow> int \<Rightarrow> 'w \<Rightarrow> bool \<times> 'w" where
  "SetPriority os t prio w =
     (if os_getschedparam os (m_threadId t) w = 0
      then case os_setschedparam os (m_threadId t) prio w of (r, w) \<Rightarrow> (r = 0, w)
      else (False, w))"

text \<open>
  Aborting the calling thread does not return, which is \<open>Inl\<close>. Destroying the semaphore a second
  time is undefined.
\<close>

definition Abort :: "'w pthread_os \<Rightarrow> nat \<Rightarrow> thread_impl \<Rightarrow> 'w \<Rightarrow> (unit + bool \<times> thread_impl \<times> 'w) option" where
  "Abort os self t w =
     (if m_threadId t = 0 then Some (Inr (False, t, w))
      else if m_threadId t = self then Some (Inl ())
      else
        let w = os_pthread_cancel os (m_threadId t) w in
        if has_sem t then Some (Inr (True, t\<lparr>has_sem := False\<rparr>, os_sem_destroy os w)) else None)"

text \<open>The product is computed in \<open>int\<close>.\<close>

definition Sleep_us :: "int \<Rightarrow> int option" where
  "Sleep_us ms = (if - (2 ^ 31) \<le> ms * 1000 \<and> ms * 1000 < 2 ^ 31 then Some (ms * 1000) else None)"

lemma abort_twice:
  assumes "Abort os self t w = Some (Inr (True, t', w'))"
  shows "Abort os self t' w'' = None"
  using assms by (auto simp: Abort_def Let_def split: if_splits)

section \<open>One thread\<close>

text \<open>
  \<open>Starting\<close>: before \<open>sem_wait\<close>; \<open>At_gate\<close>: in \<open>sem_wait\<close> of \<open>TaskWrapper\<close>; \<open>In_body\<close>: in the thread's function; \<open>Exited\<close>. The handler of
  \<open>SIGUSR1\<close> is entered, and then sleeps in \<open>sigsuspend\<close>, which lets only \<open>SIGUSR2\<close> through. A signal
  that is sent again while it is pending is lost.
\<close>

datatype phase = Starting | At_gate | In_body | Exited

datatype handler = No_handler | Entered | Asleep

record task =
  phase :: phase
  handler :: handler
  sem :: nat
  usr1 :: bool
  usr2 :: bool

definition new_task :: task where
  "new_task = \<lparr>phase = Starting, handler = No_handler, sem = 0, usr1 = False, usr2 = False\<rparr>"

definition Start :: "task \<Rightarrow> task" where
  "Start t = t\<lparr>sem := sem t + 1\<rparr>"

definition Suspend :: "task \<Rightarrow> task" where
  "Suspend t = (if phase t = Exited then t else t\<lparr>usr1 := True\<rparr>)"

definition Resume :: "task \<Rightarrow> task" where
  "Resume t = (if phase t = Exited then t else t\<lparr>usr2 := True\<rparr>)"

text \<open>
  The wait at the gate is interrupted by a signal handler, as the handlers are installed without
  \<open>SA_RESTART\<close>, and \<open>TaskWrapper\<close> does not look at its result.
\<close>

definition interrupted :: "task \<Rightarrow> task" where
  "interrupted t = (if phase t = At_gate then t\<lparr>phase := In_body\<rparr> else t)"

text \<open>What the thread and the kernel do.\<close>

inductive task_step :: "task \<Rightarrow> task \<Rightarrow> bool" where
  arrive: "phase t = Starting \<Longrightarrow> handler t = No_handler \<Longrightarrow> task_step t (t\<lparr>phase := At_gate\<rparr>)"
| gate: "phase t = At_gate \<Longrightarrow> handler t = No_handler \<Longrightarrow> 0 < sem t \<Longrightarrow>
     task_step t (t\<lparr>phase := In_body, sem := sem t - 1\<rparr>)"
| enter: "phase t \<noteq> Exited \<Longrightarrow> handler t = No_handler \<Longrightarrow> usr1 t \<Longrightarrow>
     task_step t (t\<lparr>usr1 := False, handler := Entered\<rparr>)"
| resume_early: "phase t \<noteq> Exited \<Longrightarrow> handler t = No_handler \<Longrightarrow> usr2 t \<Longrightarrow>
     task_step t (interrupted (t\<lparr>usr2 := False\<rparr>))"
| resume_entered: "handler t = Entered \<Longrightarrow> usr2 t \<Longrightarrow> task_step t (t\<lparr>usr2 := False\<rparr>)"
| sleep: "handler t = Entered \<Longrightarrow> \<not> usr2 t \<Longrightarrow> task_step t (t\<lparr>handler := Asleep\<rparr>)"
| wake: "handler t = Asleep \<Longrightarrow> usr2 t \<Longrightarrow> task_step t (interrupted (t\<lparr>usr2 := False, handler := No_handler\<rparr>))"
| exit: "phase t = In_body \<Longrightarrow> handler t = No_handler \<Longrightarrow> task_step t (t\<lparr>phase := Exited\<rparr>)"

inductive_cases task_stepE: "task_step t t'"

text \<open>What the other threads do to it.\<close>

datatype call = Call_Start | Call_Suspend | Call_Resume

fun apply_call :: "call \<Rightarrow> task \<Rightarrow> task" where
  "apply_call Call_Start = Start"
| "apply_call Call_Suspend = Suspend"
| "apply_call Call_Resume = Resume"

text \<open>The states a thread can reach, with the calls made so far, the last one first.\<close>

inductive reaches :: "call list \<Rightarrow> task \<Rightarrow> bool" where
  new: "reaches [] new_task"
| call: "reaches cs t \<Longrightarrow> reaches (c # cs) (apply_call c t)"
| step: "reaches cs t \<Longrightarrow> task_step t t' \<Longrightarrow> reaches cs t'"

section \<open>When the body runs\<close>

definition gate_inv :: "call list \<Rightarrow> task \<Rightarrow> bool" where
  "gate_inv cs t \<longleftrightarrow>
     (Call_Start \<notin> set cs \<longrightarrow> sem t = 0) \<and>
     (Call_Suspend \<notin> set cs \<and> Call_Resume \<notin> set cs \<longrightarrow>
        \<not> usr1 t \<and> \<not> usr2 t \<and> handler t = No_handler \<and> (phase t \<in> {In_body, Exited} \<longrightarrow> Call_Start \<in> set cs))"

lemma gate_inv_step: "task_step t t' \<Longrightarrow> gate_inv cs t \<Longrightarrow> gate_inv cs t'"
  by (induction rule: task_step.induct) (auto simp: gate_inv_def interrupted_def)

lemma reaches_gate_inv: "reaches cs t \<Longrightarrow> gate_inv cs t"
proof (induction rule: reaches.induct)
  case new
  then show ?case by (simp add: gate_inv_def new_task_def)
next
  case (call cs t c)
  then show ?case by (cases c) (auto simp: gate_inv_def Start_def Suspend_def Resume_def)
next
  case (step cs t t')
  then show ?case by (blast intro: gate_inv_step)
qed

text \<open>
  A thread's body runs only after another thread has called \<open>Start\<close>,
  \<open>Suspend\<close> or \<open>Resume\<close>.
\<close>

theorem thread_waits_for_start:
  assumes "reaches cs t" "phase t \<in> {In_body, Exited}"
  shows "Call_Start \<in> set cs \<or> Call_Suspend \<in> set cs \<or> Call_Resume \<in> set cs"
  using reaches_gate_inv [OF assms(1)] assms(2) by (auto simp: gate_inv_def)

section \<open>Suspended threads\<close>

lemma sleeps_inv: "task_step t t' \<Longrightarrow> (usr1 t \<or> handler t \<noteq> No_handler \<longrightarrow> P) \<Longrightarrow> usr1 t' \<or> handler t' \<noteq> No_handler \<Longrightarrow> P"
  by (induction rule: task_step.induct) (auto simp: interrupted_def split: if_splits)

lemma asleep_suspended:
  assumes "reaches cs t" "usr1 t \<or> handler t \<noteq> No_handler"
  shows "Call_Suspend \<in> set cs"
  using assms
proof (induction rule: reaches.induct)
  case new
  then show ?case by (simp add: new_task_def)
next
  case (call cs t c)
  then show ?case by (cases c) (auto simp: Start_def Suspend_def Resume_def split: if_splits)
next
  case (step cs t t')
  then show ?case using sleeps_inv by blast
qed

text \<open>A thread that sleeps can take no step until it is resumed, and then it wakes.\<close>

lemma asleep_stuck: "handler t = Asleep \<Longrightarrow> \<not> usr2 t \<Longrightarrow> \<not> task_step t t'"
  by (auto elim: task_stepE)

lemma handler_alive_step:
  "task_step t t' \<Longrightarrow> (handler t \<noteq> No_handler \<longrightarrow> phase t \<noteq> Exited) \<Longrightarrow> handler t' \<noteq> No_handler \<Longrightarrow> phase t' \<noteq> Exited"
  by (induction rule: task_step.induct) (auto simp: interrupted_def)

lemma handler_alive: "reaches cs t \<Longrightarrow> handler t \<noteq> No_handler \<Longrightarrow> phase t \<noteq> Exited"
proof (induction rule: reaches.induct)
  case new
  then show ?case by (simp add: new_task_def)
next
  case (call cs t c)
  then show ?case by (cases c) (auto simp: Start_def Suspend_def Resume_def split: if_splits)
next
  case (step cs t t')
  then show ?case using handler_alive_step by blast
qed

text \<open>
  A thread that sleeps has been suspended, takes no step before it is resumed, and can then
  wake.
\<close>

theorem resume_wakes:
  assumes "reaches cs t" "handler t = Asleep"
  shows "Call_Suspend \<in> set cs \<and> (usr2 t \<or> (\<forall>t'. \<not> task_step t t')) \<and>
     (\<exists>t'. task_step (Resume t) t' \<and> handler t' = No_handler \<and> phase t' \<noteq> At_gate)"
proof -
  have "phase t \<noteq> Exited" using handler_alive [OF assms(1)] assms(2) by simp
  then have "task_step (Resume t) (interrupted ((Resume t)\<lparr>usr2 := False, handler := No_handler\<rparr>))"
    using assms(2) by (intro task_step.wake) (simp_all add: Resume_def)
  moreover have "handler (interrupted u) = handler u" "phase (interrupted u) \<noteq> At_gate" for u
    by (simp_all add: interrupted_def)
  moreover have "Call_Suspend \<in> set cs" using asleep_suspended [OF assms(1)] assms(2) by simp
  ultimately show ?thesis using asleep_stuck [OF assms(2)] by fastforce
qed

section \<open>Signals that come too early or too often\<close>

lemma reaches_call: "reaches cs t \<Longrightarrow> apply_call c t = t' \<Longrightarrow> reaches (c # cs) t'"
  by (auto intro: reaches.call)

lemma reaches_step: "reaches cs t \<Longrightarrow> task_step t u \<Longrightarrow> u = t' \<Longrightarrow> reaches cs t'"
  by (auto intro: reaches.step)

lemmas task_calls = Start_def Suspend_def Resume_def interrupted_def new_task_def

lemma reaches_gate: "reaches [] (new_task\<lparr>phase := At_gate\<rparr>)"
  by (rule reaches_step [OF reaches.new task_step.arrive]) (simp_all add: task_calls)

lemma reaches_body: "reaches [Call_Start] (new_task\<lparr>phase := In_body\<rparr>)"
  by (rule reaches_step [OF reaches_call [OF reaches_gate refl, of Call_Start] task_step.gate]) (simp_all add: task_calls)

lemma resume_starts: "reaches [Call_Resume] (new_task\<lparr>phase := In_body\<rparr>)"
  by (rule reaches_step [OF reaches_call [OF reaches_gate refl, of Call_Resume] task_step.resume_early]) (simp_all add: task_calls)

lemma resume_lost: "reaches [Call_Resume, Call_Suspend, Call_Start] (new_task\<lparr>phase := In_body, handler := Asleep\<rparr>)"
proof -
  have "reaches [Call_Resume, Call_Suspend, Call_Start] (new_task\<lparr>phase := In_body, usr1 := True, usr2 := True\<rparr>)"
    by (rule reaches_call [OF reaches_call [OF reaches_body refl]]) (simp add: task_calls)
  then have "reaches [Call_Resume, Call_Suspend, Call_Start] (new_task\<lparr>phase := In_body, handler := Entered, usr2 := True\<rparr>)"
    by (rule reaches_step [OF _ task_step.enter]) (simp_all add: task_calls)
  then have "reaches [Call_Resume, Call_Suspend, Call_Start] (new_task\<lparr>phase := In_body, handler := Entered\<rparr>)"
    by (rule reaches_step [OF _ task_step.resume_entered]) (simp_all add: task_calls)
  then show ?thesis
    by (rule reaches_step [OF _ task_step.sleep]) (simp_all add: task_calls)
qed

lemma suspended: "reaches [Call_Suspend, Call_Start] (new_task\<lparr>phase := In_body, handler := Asleep\<rparr>)"
proof -
  have "reaches [Call_Suspend, Call_Start] (new_task\<lparr>phase := In_body, usr1 := True\<rparr>)"
    by (rule reaches_call [OF reaches_body]) (simp add: task_calls)
  then have "reaches [Call_Suspend, Call_Start] (new_task\<lparr>phase := In_body, handler := Entered\<rparr>)"
    by (rule reaches_step [OF _ task_step.enter]) (simp_all add: task_calls)
  then show ?thesis
    by (rule reaches_step [OF _ task_step.sleep]) (simp_all add: task_calls)
qed

lemma suspend_nests:
  "reaches [Call_Resume, Call_Suspend, Call_Suspend, Call_Start] (new_task\<lparr>phase := In_body, handler := Asleep\<rparr>)"
proof -
  let ?cs = "[Call_Resume, Call_Suspend, Call_Suspend, Call_Start]"
  have "reaches ?cs (new_task\<lparr>phase := In_body, handler := Asleep, usr1 := True, usr2 := True\<rparr>)"
    by (rule reaches_call [OF reaches_call [OF suspended refl]]) (simp add: task_calls)
  then have "reaches ?cs (new_task\<lparr>phase := In_body, usr1 := True\<rparr>)"
    by (rule reaches_step [OF _ task_step.wake]) (simp_all add: task_calls)
  then have "reaches ?cs (new_task\<lparr>phase := In_body, handler := Entered\<rparr>)"
    by (rule reaches_step [OF _ task_step.enter]) (simp_all add: task_calls)
  then show ?thesis
    by (rule reaches_step [OF _ task_step.sleep]) (simp_all add: task_calls)
qed

text \<open>
  C39: Three sequences of calls end where they should not: a thread that was only resumed can
  run its body; one that was started, suspended and resumed can sleep with no signal pending;
  and so can one that was suspended twice and resumed once.
\<close>

theorem signals_misfire:
  "(\<exists>t. reaches [Call_Resume] t \<and> phase t = In_body) \<and>
   (\<exists>t. reaches [Call_Resume, Call_Suspend, Call_Start] t \<and> handler t = Asleep \<and> \<not> usr2 t) \<and>
   (\<exists>t. reaches [Call_Resume, Call_Suspend, Call_Suspend, Call_Start] t \<and> handler t = Asleep \<and> \<not> usr2 t)"
proof (intro conjI)
  show "\<exists>t. reaches [Call_Resume] t \<and> phase t = In_body"
    using resume_starts by (intro exI conjI) (assumption, simp)
  show "\<exists>t. reaches [Call_Resume, Call_Suspend, Call_Start] t \<and> handler t = Asleep \<and> \<not> usr2 t"
    using resume_lost by (intro exI conjI) (assumption, simp_all add: new_task_def)
  show "\<exists>t. reaches [Call_Resume, Call_Suspend, Call_Suspend, Call_Start] t \<and> handler t = Asleep \<and> \<not> usr2 t"
    using suspend_nests by (intro exI conjI) (assumption, simp_all add: new_task_def)
qed

theorem thread_waits_for_start_witness:
  "reaches [Call_Start] (new_task\<lparr>phase := In_body\<rparr>) \<and>
   (Call_Start \<in> set [Call_Start] \<or> Call_Suspend \<in> set [Call_Start] \<or> Call_Resume \<in> set [Call_Start])"
  using reaches_body thread_waits_for_start [OF reaches_body] by simp

theorem resume_wakes_witness:
  "\<exists>t'. task_step (Resume (new_task\<lparr>phase := In_body, handler := Asleep\<rparr>)) t' \<and>
     handler t' = No_handler \<and> phase t' \<noteq> At_gate"
  using resume_wakes [OF suspended] by simp

section \<open>Events and critical sections\<close>

text \<open>
  An event is a semaphore: its value, or none before it was created and after it was released.
  \<open>isAutoReset\<close> is not read.
\<close>

type_synonym event = "nat option"

definition CEventImpl_create :: "bool \<Rightarrow> bool \<Rightarrow> int \<Rightarrow> bool \<times> event" where
  "CEventImpl_create initialstate isAutoReset sem_init_result =
     (if sem_init_result \<noteq> 0 then (False, None) else (True, Some (if initialstate then 1 else 0)))"

definition CEventImpl_Create :: "bool \<Rightarrow> bool \<Rightarrow> int \<Rightarrow> event option" where
  "CEventImpl_Create initialstate isAutoReset sem_init_result =
     (case CEventImpl_create initialstate isAutoReset sem_init_result of
        (True, e) \<Rightarrow> Some e
      | (False, e) \<Rightarrow> None)"

text \<open>The calls: \<open>None\<close> is undefined, \<open>Blocked\<close> a call that does not return until another thread posts.\<close>

datatype 'a outcome = Blocked | Returns bool 'a

definition SEM_VALUE_MAX :: nat where [simp]: "SEM_VALUE_MAX = 2147483647"

definition Event_Set :: "event \<Rightarrow> event outcome option" where
  "Event_Set e =
     (case e of
        None \<Rightarrow> None
      | Some v \<Rightarrow> Some (if v = SEM_VALUE_MAX then Returns False e else Returns True (Some (v + 1))))"

definition Event_Reset :: "event \<Rightarrow> event outcome option" where
  "Event_Reset e = Some (Returns True e)"

definition Event_WaitOne :: "event \<Rightarrow> event outcome option" where
  "Event_WaitOne e =
     (case e of
        None \<Rightarrow> None
      | Some v \<Rightarrow> Some (if v = 0 then Blocked else Returns True (Some (v - 1))))"

definition Event_Release :: "event \<Rightarrow> event option" where
  "Event_Release e = (case e of None \<Rightarrow> None | Some v \<Rightarrow> Some None)"

datatype event_op = Op_Set | Op_Reset | Op_Wait

fun event_call :: "event_op \<Rightarrow> event \<Rightarrow> event outcome option" where
  "event_call Op_Set = Event_Set"
| "event_call Op_Reset = Event_Reset"
| "event_call Op_Wait = Event_WaitOne"

text \<open>A sequence of calls: the event after them, or how many were made before the one that blocks.\<close>

fun event_run :: "event_op list \<Rightarrow> event \<Rightarrow> (nat + event) option" where
  "event_run [] e = Some (Inr e)"
| "event_run (c # cs) e =
     (case event_call c e of
        None \<Rightarrow> None
      | Some Blocked \<Rightarrow> Some (Inl 0)
      | Some (Returns r e) \<Rightarrow>
          (case event_run cs e of
             None \<Rightarrow> None
           | Some (Inl n) \<Rightarrow> Some (Inl (n + 1))
           | Some (Inr e) \<Rightarrow> Some (Inr e)))"

definition sets :: "event_op list \<Rightarrow> nat" where
  "sets cs = count_list cs Op_Set"

definition waits :: "event_op list \<Rightarrow> nat" where
  "waits cs = count_list cs Op_Wait"

lemmas event_ops = Event_Set_def Event_Reset_def Event_WaitOne_def sets_def waits_def

text \<open>No call waits for a post that has not been made.\<close>

definition balanced :: "nat \<Rightarrow> event_op list \<Rightarrow> bool" where
  "balanced v cs \<longleftrightarrow> (\<forall>k \<le> length cs. waits (take k cs) \<le> v + sets (take k cs))"

lemma balanced_Nil: "balanced v []"
  by (simp add: balanced_def sets_def waits_def)

lemma balanced_Cons:
  "balanced v (Op_Set # cs) \<longleftrightarrow> balanced (v + 1) cs"
  "balanced v (Op_Reset # cs) \<longleftrightarrow> balanced v cs"
  "balanced v (Op_Wait # cs) \<longleftrightarrow> 0 < v \<and> balanced (v - 1) cs"
proof -
  have split: "(\<forall>k \<le> Suc n. P k) \<longleftrightarrow> P 0 \<and> (\<forall>k \<le> n. P (Suc k))" for P n
    by (metis Suc_le_mono not0_implies_Suc zero_le)
  show "balanced v (Op_Set # cs) \<longleftrightarrow> balanced (v + 1) cs" "balanced v (Op_Reset # cs) \<longleftrightarrow> balanced v cs"
    by (simp_all add: balanced_def sets_def waits_def split)
  show "balanced v (Op_Wait # cs) \<longleftrightarrow> 0 < v \<and> balanced (v - 1) cs"
    by (cases v) (auto simp: balanced_def sets_def waits_def split dest: spec [of _ 0])
qed

lemma counts_Cons:
  "sets (Op_Set # cs) = sets cs + 1" "waits (Op_Set # cs) = waits cs"
  "sets (Op_Reset # cs) = sets cs" "waits (Op_Reset # cs) = waits cs"
  "sets (Op_Wait # cs) = sets cs" "waits (Op_Wait # cs) = waits cs + 1"
  "sets [] = 0" "waits [] = 0"
  by (simp_all add: sets_def waits_def)

definition event_spec :: "nat \<Rightarrow> event_op list \<Rightarrow> (nat + event) option \<Rightarrow> bool" where
  "event_spec v cs r =
     (case r of
        None \<Rightarrow> False
      | Some (Inr e) \<Rightarrow> balanced v cs \<and> e = Some (v + sets cs - waits cs)
      | Some (Inl n) \<Rightarrow> n < length cs \<and> cs ! n = Op_Wait \<and> balanced v (take n cs) \<and>
          waits (take n cs) = v + sets (take n cs))"

lemma event_run_spec: "v + length cs \<le> SEM_VALUE_MAX \<Longrightarrow> event_spec v cs (event_run cs (Some v))"
proof (induction cs arbitrary: v)
  case Nil
  then show ?case by (simp add: event_spec_def balanced_Nil counts_Cons)
next
  case (Cons c cs)
  show ?case
  proof (cases c)
    case Op_Set
    then show ?thesis using Cons.IH [of "v + 1"] Cons.prems
      by (auto simp: event_spec_def event_ops(1) balanced_Cons counts_Cons split: option.splits sum.splits)
  next
    case Op_Reset
    then show ?thesis using Cons.IH [of v] Cons.prems
      by (auto simp: event_spec_def event_ops(2) balanced_Cons counts_Cons split: option.splits sum.splits)
  next
    case Op_Wait
    show ?thesis
    proof (cases v)
      case 0
      then show ?thesis using Op_Wait
        by (simp add: event_spec_def event_ops(3) balanced_Nil counts_Cons)
    next
      case (Suc u)
      then show ?thesis using Op_Wait Cons.IH [of u] Cons.prems
        by (auto simp: event_spec_def event_ops(3) balanced_Cons counts_Cons split: option.splits sum.splits)
    qed
  qed
qed

text \<open>
  Any sequence of calls on an event counts: it runs to its end exactly when at no point
  more waits than posts, the initial ones included, have been made, and leaves their difference;
  otherwise it blocks at the first wait without a post. Resetting has no effect.
\<close>

theorem event_counts:
  assumes "v + length cs \<le> SEM_VALUE_MAX"
  shows "case event_run cs (Some v) of
       None \<Rightarrow> False
     | Some (Inr e) \<Rightarrow>
         (\<forall>k \<le> length cs. waits (take k cs) \<le> v + sets (take k cs)) \<and> e = Some (v + sets cs - waits cs)
     | Some (Inl n) \<Rightarrow>
         n < length cs \<and> cs ! n = Op_Wait \<and> waits (take n cs) = v + sets (take n cs) \<and>
         (\<forall>k \<le> n. waits (take k cs) \<le> v + sets (take k cs))"
  using event_run_spec [OF assms]
  by (auto simp: event_spec_def balanced_def min_def split: option.splits sum.splits)

theorem event_counts_witness:
  "event_run [Op_Set, Op_Reset, Op_Wait, Op_Wait] (Some 0) = Some (Inl 3) \<and>
   waits (take 3 [Op_Set, Op_Reset, Op_Wait, Op_Wait]) = 0 + sets (take 3 [Op_Set, Op_Reset, Op_Wait, Op_Wait])"
  using event_counts [of 0 "[Op_Set, Op_Reset, Op_Wait, Op_Wait]"]
  by (simp add: event_ops(1-3))

text \<open>
  A critical section is a mutex of the default kind: none, free, or held by a thread. Entering it twice
  blocks; leaving it is defined for the thread that holds it, and destroying it while it is free.
\<close>

type_synonym mutex = "nat option option"

definition CMutexImpl_create :: "int \<Rightarrow> bool \<times> mutex" where
  "CMutexImpl_create mutex_init_result =
     (if mutex_init_result \<noteq> 0 then (False, None) else (True, Some None))"

definition CMutexImpl_Create :: "int \<Rightarrow> mutex option" where
  "CMutexImpl_Create mutex_init_result =
     (case CMutexImpl_create mutex_init_result of (True, m) \<Rightarrow> Some m | (False, m) \<Rightarrow> None)"

definition Mutex_Enter :: "nat \<Rightarrow> mutex \<Rightarrow> mutex option option" where
  "Mutex_Enter self m =
     (case m of None \<Rightarrow> None | Some None \<Rightarrow> Some (Some (Some (Some self))) | Some (Some tid) \<Rightarrow> Some None)"

definition Mutex_Leave :: "nat \<Rightarrow> mutex \<Rightarrow> mutex option" where
  "Mutex_Leave self m = (if m = Some (Some self) then Some (Some None) else None)"

definition Mutex_Release :: "mutex \<Rightarrow> mutex option" where
  "Mutex_Release m = (if m = Some None then Some None else None)"

lemma mutex_exclusive:
  assumes "Mutex_Enter a m = Some (Some m')"
  shows "Mutex_Enter b m' = Some None \<and> Mutex_Leave a m' = Some m \<and> (b \<noteq> a \<longrightarrow> Mutex_Leave b m' = None)"
  using assms by (auto simp: Mutex_Enter_def Mutex_Leave_def split: option.splits)

end
