(* ===== verification/Runtime_Clock.thy ===== *)
theory Runtime_Clock
  imports Prelude
begin

text \<open>
  The clocks: the tick counters and the date of the runtime (\<open>kw/src/eclrEnvironment.cpp\<close>), and the
  date and time in the system area of the shared memory (\<open>TimeUpdater\<close> of \<open>system/src/main.cpp\<close>).
  A \<open>long\<close> and a \<open>time_t\<close> of the controller have 32 bits.
\<close>

section \<open>Ticks\<close>

definition long32 :: "int \<Rightarrow> int option" where
  "long32 x = (if - (2 ^ 31) \<le> x \<and> x < 2 ^ 31 then Some x else None)"

text \<open>The argument is what \<open>clock_gettime (CLOCK_MONOTONIC)\<close> gives: seconds and nanoseconds.\<close>

definition GetTickCount :: "int \<times> int \<Rightarrow> u32 option" where
  "GetTickCount tp =
     do { a \<leftarrow> long32 (fst tp * 1000);
          b \<leftarrow> long32 (a + snd tp div 1000000);
          Some (word_of_int b) }"

definition GetMicroTickCount :: "int \<times> int \<Rightarrow> u32 option" where
  "GetMicroTickCount tp =
     do { a \<leftarrow> long32 (fst tp * 1000000);
          b \<leftarrow> long32 (a + snd tp div 1000);
          Some (word_of_int b) }"

text \<open>The time of the clock in nanoseconds.\<close>

definition clock_ns :: "int \<times> int \<Rightarrow> int" where
  "clock_ns tp = fst tp * 1000000000 + snd tp"

definition proper_time :: "int \<times> int \<Rightarrow> bool" where
  "proper_time tp \<longleftrightarrow> 0 \<le> fst tp \<and> 0 \<le> snd tp \<and> snd tp < 1000000000"

lemma ticks:
  assumes "proper_time tp"
  shows "GetTickCount tp =
      (if clock_ns tp div 1000000 < 2 ^ 31 then Some (word_of_int (clock_ns tp div 1000000)) else None)"
    and "GetMicroTickCount tp =
      (if clock_ns tp div 1000 < 2 ^ 31 then Some (word_of_int (clock_ns tp div 1000)) else None)"
proof -
  have "clock_ns tp = snd tp + (fst tp * 1000) * 1000000" "clock_ns tp = snd tp + (fst tp * 1000000) * 1000"
    by (simp_all add: clock_ns_def)
  then have "clock_ns tp div 1000000 = fst tp * 1000 + snd tp div 1000000"
    "clock_ns tp div 1000 = fst tp * 1000000 + snd tp div 1000"
    by (simp only: div_mult_self1, simp)+
  moreover have "0 \<le> snd tp div 1000000" "0 \<le> snd tp div 1000" "0 \<le> fst tp"
    using assms by (simp_all add: proper_time_def pos_imp_zdiv_nonneg_iff)
  ultimately show "GetTickCount tp =
      (if clock_ns tp div 1000000 < 2 ^ 31 then Some (word_of_int (clock_ns tp div 1000000)) else None)"
    "GetMicroTickCount tp =
      (if clock_ns tp div 1000 < 2 ^ 31 then Some (word_of_int (clock_ns tp div 1000)) else None)"
    by (auto simp: GetTickCount_def GetMicroTickCount_def long32_def)
qed

lemma tick_difference:
  assumes "x \<le> y" "0 \<le> x" "y < 2 ^ 31"
  shows "uint (word_of_int y - word_of_int x :: u32) = y - x"
  using assms by (simp add: of_int_diff [symmetric] unsigned_of_int take_bit_int_eq_self del: of_int_diff)

lemma tick_pair:
  assumes "0 \<le> x" "x \<le> y"
    and "r1 = (if x < 2 ^ 31 then Some (word_of_int x :: u32) else None)"
    and "r2 = (if y < 2 ^ 31 then Some (word_of_int y :: u32) else None)"
  shows "case (r1, r2) of (Some a, Some b) \<Rightarrow> y < 2 ^ 31 \<and> uint (b - a) = y - x | _ \<Rightarrow> 2 ^ 31 \<le> y"
proof (cases "y < 2 ^ 31")
  case True
  with assms(2) have "x < 2 ^ 31" by linarith
  with True assms tick_difference [of x y] show ?thesis by simp
next
  case False
  with assms(3,4) show ?thesis by (simp split: option.split)
qed

text \<open>
  The difference of two ticks is the time between them in milliseconds and in microseconds,
  as long as the later one lies below 2 to the 31; from there on the computation overflows a
  signed number.
\<close>

theorem ticks_measure_time:
  assumes "proper_time t1" "proper_time t2" "clock_ns t1 \<le> clock_ns t2"
  shows "(case (GetTickCount t1, GetTickCount t2) of
       (Some a, Some b) \<Rightarrow> clock_ns t2 div 1000000 < 2 ^ 31 \<and> uint (b - a) = clock_ns t2 div 1000000 - clock_ns t1 div 1000000
     | _ \<Rightarrow> 2 ^ 31 \<le> clock_ns t2 div 1000000) \<and>
   (case (GetMicroTickCount t1, GetMicroTickCount t2) of
       (Some a, Some b) \<Rightarrow> clock_ns t2 div 1000 < 2 ^ 31 \<and> uint (b - a) = clock_ns t2 div 1000 - clock_ns t1 div 1000
     | _ \<Rightarrow> 2 ^ 31 \<le> clock_ns t2 div 1000)"
proof -
  have "0 \<le> clock_ns t1" using assms(1) by (simp add: clock_ns_def proper_time_def)
  then have "0 \<le> clock_ns t1 div 1000000" "0 \<le> clock_ns t1 div 1000"
    "clock_ns t1 div 1000000 \<le> clock_ns t2 div 1000000" "clock_ns t1 div 1000 \<le> clock_ns t2 div 1000"
    using assms(3) by (simp_all add: zdiv_mono1 pos_imp_zdiv_nonneg_iff)
  then show ?thesis
    using tick_pair [OF _ _ ticks(1) [OF assms(1)] ticks(1) [OF assms(2)]]
      tick_pair [OF _ _ ticks(2) [OF assms(1)] ticks(2) [OF assms(2)]] by blast
qed

theorem ticks_measure_time_witness:
  "GetMicroTickCount (2147, 483647999) = Some 0x7FFFFFFF \<and> GetMicroTickCount (2148, 0) = None \<and>
   uint (the (GetTickCount (2, 5000000)) - the (GetTickCount (1, 0))) = 1005"
  using ticks_measure_time [of "(1, 0)" "(2, 5000000)"]
  by (simp add: proper_time_def clock_ns_def GetMicroTickCount_def GetTickCount_def long32_def)

section \<open>Date and time\<close>

text \<open>The broken-down time of the C library.\<close>

record tm =
  tm_sec :: int
  tm_min :: int
  tm_hour :: int
  tm_mday :: int
  tm_mon :: int
  tm_year :: int
  tm_isdst :: int

record DateTime =
  year :: int
  month :: int
  day :: int
  hour :: int
  minute :: int
  second :: int
  millisecond :: int

text \<open>The date is what \<open>localtime\<close> makes of the present time, if anything.\<close>

definition GetCurrentDateTime :: "tm option \<Rightarrow> DateTime \<Rightarrow> bool \<times> DateTime" where
  "GetCurrentDateTime currentLocalTime dateTime =
     (case currentLocalTime of
        None \<Rightarrow> (False, dateTime)
      | Some t \<Rightarrow> (True, \<lparr>year = tm_year t + 1900, month = tm_mon t + 1, day = tm_mday t, hour = tm_hour t,
          minute = tm_min t, second = tm_sec t, millisecond = 0\<rparr>))"

text \<open>The calendar date that a broken-down time stands for.\<close>

definition civil :: "tm \<Rightarrow> int \<times> int \<times> int \<times> int \<times> int \<times> int" where
  "civil t = (tm_year t + 1900, tm_mon t + 1, tm_mday t, tm_hour t, tm_min t, tm_sec t)"

lemma GetCurrentDateTime_civil:
  "GetCurrentDateTime (Some t) d = (True, d') \<Longrightarrow>
     (year d', month d', day d', hour d', minute d', second d') = civil t \<and> millisecond d' = 0"
  by (auto simp: GetCurrentDateTime_def civil_def)

section \<open>The time in the system area\<close>

record system_time =
  up_time :: "64 word"
  run_ms :: u32
  run_sec :: u8
  run_min :: u8
  run_hour :: u8
  run_day :: u8
  run_mon :: u8
  run_year :: u16
  set_sec :: u8
  set_min :: u8
  set_hour :: u8
  set_day :: u8
  set_mon :: u8
  set_year :: u16
  set_time_flag :: u8

text \<open>The argument is the date \<open>Poco::DateTime\<close> of the present time.\<close>

definition updateTime :: "DateTime \<Rightarrow> system_time \<Rightarrow> system_time" where
  "updateTime date a =
     a\<lparr>run_year := word_of_int (year date), run_mon := word_of_int (month date), run_day := word_of_int (day date),
       run_hour := word_of_int (hour date), run_min := word_of_int (minute date), run_sec := word_of_int (second date),
       run_ms := word_of_int (millisecond date)\<rparr>"

text \<open>The member \<open>tm_isdst\<close> is not set, so what \<open>mktime\<close> finds there is a parameter.\<close>

definition set_tm :: "int \<Rightarrow> system_time \<Rightarrow> tm" where
  "set_tm isdst a =
     \<lparr>tm_sec = uint (set_sec a), tm_min = uint (set_min a), tm_hour = uint (set_hour a), tm_mday = uint (set_day a),
      tm_mon = uint (set_mon a), tm_year = uint (set_year a), tm_isdst = isdst\<rparr>"

text \<open>
  The seconds handed to \<open>settimeofday\<close>. The microseconds next to them are not set; what the call
  makes of them is part of the parameter.
\<close>

definition setTime :: "(tm \<Rightarrow> int) \<Rightarrow> int \<Rightarrow> (int \<Rightarrow> 'w \<Rightarrow> 'w) \<Rightarrow> system_time \<Rightarrow> 'w \<Rightarrow> 'w" where
  "setTime mktime isdst settimeofday a w = settimeofday (mktime (set_tm isdst a)) w"

definition uptime :: "int \<Rightarrow> system_time \<Rightarrow> system_time" where
  "uptime seconds a = a\<lparr>up_time := word_of_int seconds\<rparr>"

text \<open>One round of \<open>run\<close>; the sleep that ends it is left out.\<close>

definition time_round ::
  "(tm \<Rightarrow> int) \<Rightarrow> int \<Rightarrow> (int \<Rightarrow> 'w \<Rightarrow> 'w) \<Rightarrow> DateTime \<Rightarrow> int \<Rightarrow> system_time \<Rightarrow> 'w \<Rightarrow> system_time \<times> 'w" where
  "time_round mktime isdst settimeofday date seconds a w =
     (let a = uptime seconds (updateTime date a) in
      if set_time_flag a \<noteq> 0
      then (a\<lparr>set_time_flag := 0\<rparr>, setTime mktime isdst settimeofday a w)
      else (a, w))"

definition proper_date :: "DateTime \<Rightarrow> bool" where
  "proper_date d \<longleftrightarrow> 0 \<le> year d \<and> year d < 10000 \<and> 1 \<le> month d \<and> month d \<le> 12 \<and> 1 \<le> day d \<and> day d \<le> 31 \<and>
     0 \<le> hour d \<and> hour d < 24 \<and> 0 \<le> minute d \<and> minute d < 60 \<and> 0 \<le> second d \<and> second d < 60"

definition request_shown :: "system_time \<Rightarrow> system_time" where
  "request_shown a = a\<lparr>set_year := run_year a, set_mon := run_mon a, set_day := run_day a, set_hour := run_hour a,
     set_min := run_min a, set_sec := run_sec a, set_time_flag := 1\<rparr>"

text \<open>
  Asking for the time that the system area shows sets the clock 1900 years and one month ahead:
  full years and months from 1 are taken for years since 1900 and months from 0. The request is
  served once.
\<close>

theorem set_time_shifts:
  assumes "proper_date d" and "a = request_shown (updateTime d a0)"
  shows "\<exists>t a'. time_round mktime isdst settimeofday d' seconds a w = (a', settimeofday (mktime t) w) \<and>
     civil t = (year d + 1900, month d + 1, day d, hour d, minute d, second d) \<and> set_time_flag a' = 0 \<and>
     time_round mktime isdst settimeofday d' seconds a' w' = (a', w')"
proof -
  have "uint (word_of_int x :: u8) = x" if "0 \<le> x" "x < 256" for x
    using that by (simp add: unsigned_of_int take_bit_int_eq_self)
  moreover have "uint (word_of_int x :: u16) = x" if "0 \<le> x" "x < 65536" for x
    using that by (simp add: unsigned_of_int take_bit_int_eq_self)
  ultimately show ?thesis
    using assms
    by (intro exI [of _ "set_tm isdst a"])
      (simp add: time_round_def setTime_def set_tm_def request_shown_def updateTime_def uptime_def civil_def proper_date_def Let_def)
qed

definition some_date :: DateTime where
  "some_date = \<lparr>year = 2014, month = 12, day = 24, hour = 12, minute = 30, second = 0, millisecond = 0\<rparr>"

theorem set_time_shifts_witness:
  "\<forall>a0. \<exists>a'. time_round (\<lambda>t. 100 * fst (civil t) + fst (snd (civil t))) 0 (\<lambda>s w. s) some_date 0
     (request_shown (updateTime some_date a0)) 0 = (a', 391413) \<and> set_time_flag a' = 0"
proof
  fix a0
  have "proper_date some_date" by (simp add: proper_date_def some_date_def)
  from set_time_shifts [OF this refl, of "\<lambda>t. 100 * fst (civil t) + fst (snd (civil t))" 0 "\<lambda>s w. s" some_date 0 a0 0 0]
  show "\<exists>a'. time_round (\<lambda>t. 100 * fst (civil t) + fst (snd (civil t))) 0 (\<lambda>s w. s) some_date 0
     (request_shown (updateTime some_date a0)) 0 = (a', 391413) \<and> set_time_flag a' = 0"
    by (auto simp: some_date_def)
qed

end
