(* ===== verification/Net_Config.thy ===== *)
theory Net_Config
  imports Prelude
begin

text \<open>
  Network settings: the functions of \<open>dbus/net_config.cpp\<close>, which ask the connection manager of the
  system over its bus, and the command interpreter \<open>tools/rtu_sh.cpp\<close> with its own version of one of
  them in \<open>tools/net_config.cpp\<close>. The bus is a parameter.
\<close>

section \<open>The bus\<close>

text \<open>The values of the bus; a map has its keys in order.\<close>

datatype variant = Text string | Texts "string list" | Dict "(string \<times> variant) list"

text \<open>
  The calls: the paths of the services, the properties of a service, setting one. Each may throw,
  which is \<open>Inl\<close>, as converting a value to another type does. \<open>None\<close> is undefined.
\<close>

record 'w net_bus =
  GetServices :: "'w \<Rightarrow> (string + string list) \<times> 'w"
  GetProperties :: "string \<Rightarrow> 'w \<Rightarrow> (string + (string \<times> variant) list) \<times> 'w"
  SetProperty :: "string \<Rightarrow> string \<Rightarrow> variant \<Rightarrow> 'w \<Rightarrow> (string + unit) \<times> 'w"

type_synonym ('w, 'a) bus_call = "'w \<Rightarrow> ((string + 'a) \<times> 'w) option"

definition pass :: "'a \<Rightarrow> ('w, 'a) bus_call" where
  "pass x w = Some (Inr x, w)"

definition throw :: "string \<Rightarrow> ('w, 'a) bus_call" where
  "throw e w = Some (Inl e, w)"

definition andthen :: "('w, 'a) bus_call \<Rightarrow> ('a \<Rightarrow> ('w, 'b) bus_call) \<Rightarrow> ('w, 'b) bus_call" where
  "andthen f g w =
     (case f w of
        None \<Rightarrow> None
      | Some (Inl e, w) \<Rightarrow> Some (Inl e, w)
      | Some (Inr x, w) \<Rightarrow> g x w)"

definition invoke :: "('w \<Rightarrow> (string + 'a) \<times> 'w) \<Rightarrow> ('w, 'a) bus_call" where
  "invoke f w = Some (f w)"

text \<open>\<open>vec_path[0]\<close>, whether or not there is a service.\<close>

definition first_path :: "string list \<Rightarrow> ('w, string) bus_call" where
  "first_path ps w = (case ps of [] \<Rightarrow> None | p # _ \<Rightarrow> Some (Inr p, w))"

text \<open>Conversions of a looked-up property; a missing one is an empty value.\<close>

definition as_text :: "variant option \<Rightarrow> ('w, string) bus_call" where
  "as_text v = (case v of Some (Text s) \<Rightarrow> pass s | _ \<Rightarrow> throw ''type'')"

definition as_texts :: "variant option \<Rightarrow> ('w, string list) bus_call" where
  "as_texts v = (case v of Some (Texts s) \<Rightarrow> pass s | _ \<Rightarrow> throw ''type'')"

definition as_dict :: "variant option \<Rightarrow> ('w, (string \<times> variant) list) bus_call" where
  "as_dict v = (case v of Some (Dict d) \<Rightarrow> pass d | _ \<Rightarrow> throw ''type'')"

lemmas bus_calls = pass_def throw_def andthen_def invoke_def as_text_def as_texts_def as_dict_def

section \<open>Reading and writing the settings\<close>

definition setDNS :: "'w net_bus \<Rightarrow> string list \<Rightarrow> ('w, int) bus_call" where
  "setDNS bus dns =
     andthen (invoke (GetServices bus)) (\<lambda>vec_path.
     andthen (first_path vec_path) (\<lambda>path.
     andthen (invoke (SetProperty bus path ''Nameservers.Configuration'' (Texts dns))) (\<lambda>_.
     pass 0)))"

definition getDNS :: "'w net_bus \<Rightarrow> ('w, int \<times> string list) bus_call" where
  "getDNS bus =
     andthen (invoke (GetServices bus)) (\<lambda>vec_path.
     andthen (first_path vec_path) (\<lambda>path.
     andthen (invoke (GetProperties bus path)) (\<lambda>properties.
     andthen (as_texts (map_of properties ''Nameservers'')) (\<lambda>dns.
     pass (0, dns)))))"

definition ipv4_config :: "string \<Rightarrow> string \<Rightarrow> string \<Rightarrow> string \<Rightarrow> variant" where
  "ipv4_config meth ip netmask gateway =
     Dict [(''Address'', Text ip), (''Gateway'', Text gateway), (''Method'', Text meth), (''Netmask'', Text netmask)]"

definition setIP :: "'w net_bus \<Rightarrow> string \<Rightarrow> string \<Rightarrow> string \<Rightarrow> string \<Rightarrow> ('w, int) bus_call" where
  "setIP bus meth ip netmask gateway =
     andthen (invoke (GetServices bus)) (\<lambda>vec_path.
     andthen (first_path vec_path) (\<lambda>path.
     andthen (invoke (GetProperties bus path)) (\<lambda>properties.
     andthen (as_dict (map_of properties ''IPv4'')) (\<lambda>ipv4_property.
     andthen (invoke (SetProperty bus path ''IPv4.Configuration'' (ipv4_config meth ip netmask gateway))) (\<lambda>_.
     pass 0)))))"

text \<open>
  The map of the caller, with the entries that were stored. An entry that cannot be converted throws
  after the ones before it were stored.
\<close>

definition getIP :: "'w net_bus \<Rightarrow> (string \<rightharpoonup> string) \<Rightarrow> 'w \<Rightarrow> (((string + int) \<times> (string \<rightharpoonup> string)) \<times> 'w) option" where
  "getIP bus ipv4 w =
     (case (andthen (invoke (GetServices bus)) (\<lambda>vec_path.
            andthen (first_path vec_path) (\<lambda>path.
            andthen (invoke (GetProperties bus path)) (\<lambda>properties.
            as_dict (map_of properties ''IPv4''))))) w of
        None \<Rightarrow> None
      | Some (Inl e, w) \<Rightarrow> Some ((Inl e, ipv4), w)
      | Some (Inr d, w) \<Rightarrow>
          let step = (\<lambda>k r. case r of
                (Inl e, m) \<Rightarrow> (Inl e, m)
              | (Inr x, m) \<Rightarrow> (case map_of d k of Some (Text s) \<Rightarrow> (Inr x, m(k \<mapsto> s)) | _ \<Rightarrow> (Inl ''type'', m)))
          in Some (fold step [''Method'', ''Address'', ''Netmask'', ''Gateway''] (Inr 0, ipv4), w))"

text \<open>The version of the command interpreter.\<close>

definition SetIp :: "'w net_bus \<Rightarrow> string \<Rightarrow> string \<Rightarrow> string \<Rightarrow> string \<Rightarrow> ('w, int) bus_call" where
  "SetIp bus meth ip netmask gateway =
     andthen (invoke (GetServices bus)) (\<lambda>vec_path.
     (if vec_path = [] then pass (-1)
      else
        andthen (first_path vec_path) (\<lambda>path.
        andthen (invoke (GetProperties bus path)) (\<lambda>map.
        andthen (invoke (SetProperty bus path ''IPv4.Configuration'' (ipv4_config meth ip netmask gateway))) (\<lambda>_.
        pass 0)))))"

section \<open>The command interpreter\<close>

text \<open>Every exception is caught, and the result is not looked at.\<close>

definition ip_config :: "'w net_bus \<Rightarrow> string list \<Rightarrow> 'w \<Rightarrow> 'w option" where
  "ip_config bus argv w =
     (case argv of
        a0 # ip # netmask # gateway # rest \<Rightarrow>
          map_option snd (SetIp bus (if rest \<noteq> [] then ''dhcp'' else ''manual'') ip netmask gateway w)
      | _ \<Rightarrow> Some w)"

definition cmd_dispatch :: "'w net_bus \<Rightarrow> (string \<Rightarrow> 'w \<Rightarrow> 'w) \<Rightarrow> string list \<Rightarrow> 'w \<Rightarrow> 'w option" where
  "cmd_dispatch bus system argv w =
     (if argv = [] then Some w
      else if hd argv = ''net'' then Some (system ''/sbin/ifconfig'' w)
      else if hd argv = ''mem'' then Some (system ''/usr/sbin/free'' w)
      else if hd argv = ''ip'' then ip_config bus argv w
      else Some w)"

text \<open>The loop over the lines of the input; splitting a line at its spaces is a parameter.\<close>

fun shell :: "'w net_bus \<Rightarrow> (string \<Rightarrow> 'w \<Rightarrow> 'w) \<Rightarrow> (string \<Rightarrow> string list) \<Rightarrow> string list \<Rightarrow> 'w \<Rightarrow> 'w option" where
  "shell bus system tokens [] w = Some w"
| "shell bus system tokens (line # lines) w =
     (case cmd_dispatch bus system (tokens line) w of None \<Rightarrow> None | Some w \<Rightarrow> shell bus system tokens lines w)"

section \<open>What is set is what is read\<close>

text \<open>
  A bus with a service whose settings take effect: it shows the properties \<open>ps\<close>, and after one of the
  two configurations was set, the property it configures.
\<close>

definition configures :: "'w net_bus \<Rightarrow> string \<Rightarrow> 'w \<Rightarrow> (string \<times> variant) list \<Rightarrow> (string \<Rightarrow> variant \<Rightarrow> 'w) \<Rightarrow> bool" where
  "configures bus p w ps put \<longleftrightarrow>
     (\<exists>rest. GetServices bus w = (Inr (p # rest), w)) \<and> GetProperties bus p w = (Inr ps, w) \<and>
     (\<forall>f v. SetProperty bus p (f @ ''.Configuration'') v w = (Inr (), put f v) \<and>
        (\<exists>rest ps'. GetServices bus (put f v) = (Inr (p # rest), put f v) \<and>
           GetProperties bus p (put f v) = (Inr ps', put f v) \<and> map_of ps' f = Some v))"

lemma configuresD:
  assumes "configures bus p w ps put"
  shows "\<exists>rest. GetServices bus w = (Inr (p # rest), w)" "GetProperties bus p w = (Inr ps, w)"
    "SetProperty bus p ''IPv4.Configuration'' v w = (Inr (), put ''IPv4'' v)"
    "SetProperty bus p ''Nameservers.Configuration'' v w = (Inr (), put ''Nameservers'' v)"
    "\<exists>rest. GetServices bus (put f v) = (Inr (p # rest), put f v)"
    "\<exists>ps'. GetProperties bus p (put f v) = (Inr ps', put f v) \<and> map_of ps' f = Some v"
proof -
  have set: "SetProperty bus p (f @ ''.Configuration'') v w = (Inr (), put f v)" for f v
    using assms by (simp add: configures_def)
  show "SetProperty bus p ''IPv4.Configuration'' v w = (Inr (), put ''IPv4'' v)"
    "SetProperty bus p ''Nameservers.Configuration'' v w = (Inr (), put ''Nameservers'' v)"
    using set [of "''IPv4''" v] set [of "''Nameservers''" v] by simp_all
qed (use assms in \<open>auto simp: configures_def\<close>)

text \<open>
  On a bus whose service takes its settings over, the address and the name servers that were set
  are those that are read.
\<close>

theorem settings_roundtrip:
  assumes "configures bus p w ps put" and "map_of ps ''IPv4'' = Some (Dict d)"
  shows "(\<exists>w'. setIP bus meth ip netmask gateway w = Some (Inr 0, w') \<and>
       getIP bus m w' = Some ((Inr 0, m(''Method'' \<mapsto> meth, ''Address'' \<mapsto> ip, ''Netmask'' \<mapsto> netmask, ''Gateway'' \<mapsto> gateway)), w')) \<and>
     (\<exists>w'. setDNS bus dns w = Some (Inr 0, w') \<and> getDNS bus w' = Some (Inr (0, dns), w'))"
proof
  let ?v = "ipv4_config meth ip netmask gateway"
  obtain rest where s: "GetServices bus w = (Inr (p # rest), w)" using configuresD(1) [OF assms(1)] by blast
  obtain rest' where s': "GetServices bus (put ''IPv4'' ?v) = (Inr (p # rest'), put ''IPv4'' ?v)"
    using configuresD(5) [OF assms(1)] by blast
  obtain ps' where p': "GetProperties bus p (put ''IPv4'' ?v) = (Inr ps', put ''IPv4'' ?v)" "map_of ps' ''IPv4'' = Some ?v"
    using configuresD(6) [OF assms(1)] by blast
  have "setIP bus meth ip netmask gateway w = Some (Inr 0, put ''IPv4'' ?v)"
    using s configuresD(2,3) [OF assms(1)] assms(2) by (simp add: setIP_def bus_calls first_path_def)
  moreover have "getIP bus m (put ''IPv4'' ?v)
      = Some ((Inr 0, m(''Method'' \<mapsto> meth, ''Address'' \<mapsto> ip, ''Netmask'' \<mapsto> netmask, ''Gateway'' \<mapsto> gateway)), put ''IPv4'' ?v)"
    using s' p' by (simp add: getIP_def bus_calls first_path_def ipv4_config_def Let_def)
  ultimately show "\<exists>w'. setIP bus meth ip netmask gateway w = Some (Inr 0, w') \<and>
       getIP bus m w' = Some ((Inr 0, m(''Method'' \<mapsto> meth, ''Address'' \<mapsto> ip, ''Netmask'' \<mapsto> netmask, ''Gateway'' \<mapsto> gateway)), w')"
    by blast
next
  obtain rest where s: "GetServices bus w = (Inr (p # rest), w)" using configuresD(1) [OF assms(1)] by blast
  obtain rest' where s': "GetServices bus (put ''Nameservers'' (Texts dns)) = (Inr (p # rest'), put ''Nameservers'' (Texts dns))"
    using configuresD(5) [OF assms(1)] by blast
  obtain ps' where p': "GetProperties bus p (put ''Nameservers'' (Texts dns)) = (Inr ps', put ''Nameservers'' (Texts dns))"
    "map_of ps' ''Nameservers'' = Some (Texts dns)"
    using configuresD(6) [OF assms(1)] by blast
  from s s' p' show "\<exists>w'. setDNS bus dns w = Some (Inr 0, w') \<and> getDNS bus w' = Some (Inr (0, dns), w')"
    using configuresD(4) [OF assms(1)] by (simp add: setDNS_def getDNS_def bus_calls first_path_def)
qed

text \<open>A bus of one service that keeps what it is set.\<close>

definition store_bus :: "(string \<times> variant) list net_bus" where
  "store_bus =
     \<lparr>GetServices = (\<lambda>w. (Inr [''/eth''], w)), GetProperties = (\<lambda>p w. (Inr w, w)),
      SetProperty = (\<lambda>p f v w. (Inr (), (take (length f - 14) f, v) # w))\<rparr>"

lemma store_bus_configures: "configures store_bus ''/eth'' w w (\<lambda>f v. (f, v) # w)"
  by (simp add: configures_def store_bus_def)

theorem settings_roundtrip_witness:
  "\<exists>w'. setIP store_bus ''manual'' ''10.0.0.2'' ''255.0.0.0'' ''10.0.0.1'' [(''IPv4'', Dict [])] = Some (Inr 0, w') \<and>
     getIP store_bus Map.empty w' = Some ((Inr 0, [''Method'' \<mapsto> ''manual'', ''Address'' \<mapsto> ''10.0.0.2'',
       ''Netmask'' \<mapsto> ''255.0.0.0'', ''Gateway'' \<mapsto> ''10.0.0.1'']), w')"
  using settings_roundtrip [OF store_bus_configures, of "[(''IPv4'', Dict [])]" "[]" "''manual''" "''10.0.0.2''"
    "''255.0.0.0''" "''10.0.0.1''" Map.empty "[]"] by simp

section \<open>Setting the address from the interpreter\<close>

text \<open>
  The command \<open>ip\<close> with an address, a mask and a gateway sets these on the first
  service, by hand; with any further word, whatever it is, it asks for an address from a server
  instead.
\<close>

theorem shell_sets_address:
  assumes "configures bus p w ps put" and "tokens line = ''ip'' # ip # netmask # gateway # rest"
  shows "shell bus system tokens (line # lines) w =
     shell bus system tokens lines
       (put ''IPv4'' (ipv4_config (if rest = [] then ''manual'' else ''dhcp'') ip netmask gateway))"
proof -
  obtain more_ps where s: "GetServices bus w = (Inr (p # more_ps), w)" using configuresD(1) [OF assms(1)] by blast
  then have "SetIp bus meth ip netmask gateway w = Some (Inr 0, put ''IPv4'' (ipv4_config meth ip netmask gateway))" for meth
    using configuresD(2,3) [OF assms(1)] by (simp add: SetIp_def bus_calls first_path_def)
  with assms(2) show ?thesis by (simp add: cmd_dispatch_def ip_config_def)
qed

theorem shell_sets_address_witness:
  "shell store_bus (\<lambda>c w. w) (\<lambda>l. [''ip'', ''10.0.0.2'', ''255.0.0.0'', ''10.0.0.1'', ''manual'']) [''line''] []
   = Some [(''IPv4'', ipv4_config ''dhcp'' ''10.0.0.2'' ''255.0.0.0'' ''10.0.0.1'')]"
  using shell_sets_address [OF store_bus_configures, of "\<lambda>l. [''ip'', ''10.0.0.2'', ''255.0.0.0'', ''10.0.0.1'', ''manual'']" "''line''"
    "''10.0.0.2''" "''255.0.0.0''" "''10.0.0.1''" "[''manual'']" "\<lambda>c w. w" "[]" "[]"]
  by simp

text \<open>Without a service, the interpreter does nothing; the other functions have no defined behaviour.\<close>

lemma no_service:
  assumes "GetServices bus w = (Inr [], w)"
  shows "SetIp bus meth ip netmask gateway w = Some (Inr (-1), w)" "setIP bus meth ip netmask gateway w = None"
    "setDNS bus dns w = None" "getDNS bus w = None" "getIP bus m w = None"
  using assms by (simp_all add: SetIp_def setIP_def setDNS_def getDNS_def getIP_def bus_calls first_path_def)

end
