(* ===== verification/Event_Queue.thy ===== *)
theory Event_Queue
  imports Prelude
begin

text \<open>
  Events and their queues: \<open>include/qevt.h\<close>, \<open>qassert.h\<close> and \<open>qequeue.h\<close> of \<open>library/qpcpp\<close>, the functions of
  \<open>QEQueue\<close> (\<open>qf/source/qeq_*.cpp\<close>), and the queue of an active object (\<open>qa_fifo.cpp\<close>, \<open>qa_lifo.cpp\<close>,
  \<open>qa_get_.cpp\<close>, \<open>qa_defer.cpp\<close>) with the macros of \<open>ports/posix/gnu/qf_port.h\<close>. Every function runs
  inside the one critical section of the framework. The locale \<open>event_queue\<close> states that a queue is a
  bounded list.
\<close>

section \<open>Assertions\<close>

text \<open>
  A failed assertion calls \<open>Q_onAssert\<close> of the application. The first argument tells whether that
  function returns; then the code goes on.
\<close>

definition Q_ASSERT :: "bool \<Rightarrow> bool \<Rightarrow> unit option" where
  "Q_ASSERT returns test = (if test \<or> returns then Some () else None)"

lemma Q_ASSERT_true [simp]: "Q_ASSERT r True = Some ()"
  by (simp add: Q_ASSERT_def)

section \<open>Events\<close>

text \<open>Events by their addresses. An event from a pool has the number of the pool, a static one 0.\<close>

record QEvt =
  evt_sig :: u16
  poolId :: u8
  refCtr :: u8

type_synonym evts = "nat \<Rightarrow> QEvt option"

definition QF_EVT_REF_CTR_INC :: "nat \<Rightarrow> evts \<Rightarrow> evts option" where
  "QF_EVT_REF_CTR_INC e evts = do { ev \<leftarrow> evts e; Some (evts(e \<mapsto> ev\<lparr>refCtr := refCtr ev + 1\<rparr>)) }"

definition QF_EVT_REF_CTR_DEC :: "nat \<Rightarrow> evts \<Rightarrow> evts option" where
  "QF_EVT_REF_CTR_DEC e evts = do { ev \<leftarrow> evts e; Some (evts(e \<mapsto> ev\<lparr>refCtr := refCtr ev - 1\<rparr>)) }"

text \<open>What every post does first: a dynamic event is counted.\<close>

definition count_event :: "nat \<Rightarrow> evts \<Rightarrow> evts option" where
  "count_event e evts =
     do { ev \<leftarrow> evts e; if poolId ev \<noteq> 0 then QF_EVT_REF_CTR_INC e evts else Some evts }"

section \<open>The queue\<close>

record QEQueue =
  m_frontEvt :: "nat option"
  m_ring :: "nat cbuf"
  m_end :: u32
  m_head :: u32
  m_tail :: u32
  q_nFree :: u32
  q_nMin :: u32

definition QEQueue_init :: "nat cbuf \<Rightarrow> u32 \<Rightarrow> QEQueue" where
  "QEQueue_init qSto qLen =
     \<lparr>m_frontEvt = None, m_ring = qSto, m_end = qLen, m_head = 0, m_tail = 0, q_nFree = qLen, q_nMin = qLen\<rparr>"

text \<open>Storing behind the last event, and storing the front event before the others.\<close>

definition ring_fifo :: "bool \<Rightarrow> nat \<Rightarrow> QEQueue \<Rightarrow> QEQueue option" where
  "ring_fifo ret e q =
     do { Q_ASSERT ret (q_nFree q \<noteq> 0);
          ring \<leftarrow> wr (m_ring q) (uint (m_head q)) e;
          let q = q\<lparr>m_ring := ring, m_head := (if m_head q = 0 then m_end q else m_head q) - 1, q_nFree := q_nFree q - 1\<rparr>;
          Some (if q_nMin q > q_nFree q then q\<lparr>q_nMin := q_nFree q\<rparr> else q) }"

definition ring_lifo :: "bool \<Rightarrow> nat \<Rightarrow> QEQueue \<Rightarrow> QEQueue option" where
  "ring_lifo ret old q =
     do { Q_ASSERT ret (q_nFree q \<noteq> 0);
          let q = q\<lparr>m_tail := (if m_tail q + 1 = m_end q then 0 else m_tail q + 1)\<rparr>;
          ring \<leftarrow> wr (m_ring q) (uint (m_tail q)) old;
          let q = q\<lparr>m_ring := ring, q_nFree := q_nFree q - 1\<rparr>;
          Some (if q_nMin q > q_nFree q then q\<lparr>q_nMin := q_nFree q\<rparr> else q) }"

definition QEQueue_postFIFO :: "bool \<Rightarrow> nat \<Rightarrow> evts \<times> QEQueue \<Rightarrow> (evts \<times> QEQueue) option" where
  "QEQueue_postFIFO ret e s =
     (case s of (evts, q) \<Rightarrow>
        do { evts \<leftarrow> count_event e evts;
             q \<leftarrow> (if m_frontEvt q = None then Some (q\<lparr>m_frontEvt := Some e\<rparr>) else ring_fifo ret e q);
             Some (evts, q) })"

definition QEQueue_postLIFO :: "bool \<Rightarrow> nat \<Rightarrow> evts \<times> QEQueue \<Rightarrow> (evts \<times> QEQueue) option" where
  "QEQueue_postLIFO ret e s =
     (case s of (evts, q) \<Rightarrow>
        do { evts \<leftarrow> count_event e evts;
             q \<leftarrow> (case m_frontEvt q of None \<Rightarrow> Some q | Some old \<Rightarrow> ring_lifo ret old q);
             Some (evts, q\<lparr>m_frontEvt := Some e\<rparr>) })"

text \<open>Taking the front event: the next one comes from the ring, if there is one.\<close>

definition ring_get :: "QEQueue \<Rightarrow> QEQueue option" where
  "ring_get q =
     (if q_nFree q \<noteq> m_end q then do {
        e \<leftarrow> rd (m_ring q) (uint (m_tail q));
        Some (q\<lparr>m_frontEvt := Some e, m_tail := (if m_tail q = 0 then m_end q else m_tail q) - 1, q_nFree := q_nFree q + 1\<rparr>) }
      else Some (q\<lparr>m_frontEvt := None\<rparr>))"

definition QEQueue_get :: "QEQueue \<Rightarrow> (nat option \<times> QEQueue) option" where
  "QEQueue_get q =
     (case m_frontEvt q of
        None \<Rightarrow> Some (None, q)
      | Some e \<Rightarrow> do { q \<leftarrow> ring_get q; Some (Some e, q) })"

definition QEQueue_getNFree :: "QEQueue \<Rightarrow> u32" where
  "QEQueue_getNFree q = q_nFree q"

definition QEQueue_isEmpty :: "QEQueue \<Rightarrow> bool" where
  "QEQueue_isEmpty q \<longleftrightarrow> m_frontEvt q = None"

section \<open>The queue of an active object\<close>

text \<open>The signals sent to its condition variable are counted.\<close>

record QActive =
  m_eQueue :: QEQueue
  m_osObject :: nat
  m_thread :: u8
  m_prio :: u8

definition QACTIVE_EQUEUE_SIGNAL :: "QActive \<Rightarrow> QActive" where
  "QACTIVE_EQUEUE_SIGNAL me = me\<lparr>m_osObject := m_osObject me + 1\<rparr>"

definition QActive_postFIFO :: "bool \<Rightarrow> nat \<Rightarrow> evts \<times> QActive \<Rightarrow> (evts \<times> QActive) option" where
  "QActive_postFIFO ret e s =
     (case s of (evts, me) \<Rightarrow>
        do { evts \<leftarrow> count_event e evts;
             if m_frontEvt (m_eQueue me) = None
             then Some (evts, QACTIVE_EQUEUE_SIGNAL (me\<lparr>m_eQueue := (m_eQueue me)\<lparr>m_frontEvt := Some e\<rparr>\<rparr>))
             else do { q \<leftarrow> ring_fifo ret e (m_eQueue me); Some (evts, me\<lparr>m_eQueue := q\<rparr>) } })"

definition QActive_postLIFO :: "bool \<Rightarrow> nat \<Rightarrow> evts \<times> QActive \<Rightarrow> (evts \<times> QActive) option" where
  "QActive_postLIFO ret e s =
     (case s of (evts, me) \<Rightarrow>
        do { evts \<leftarrow> count_event e evts;
             case m_frontEvt (m_eQueue me) of
               None \<Rightarrow> Some (evts, QACTIVE_EQUEUE_SIGNAL (me\<lparr>m_eQueue := (m_eQueue me)\<lparr>m_frontEvt := Some e\<rparr>\<rparr>))
             | Some old \<Rightarrow> do { q \<leftarrow> ring_lifo ret old (m_eQueue me);
                               Some (evts, me\<lparr>m_eQueue := q\<lparr>m_frontEvt := Some e\<rparr>\<rparr>) } })"

text \<open>A thread that asks for an event waits while there is none.\<close>

datatype 'a blocking = Waits | Gets 'a

definition QActive_get :: "QActive \<Rightarrow> (nat \<times> QActive) blocking option" where
  "QActive_get me =
     (case m_frontEvt (m_eQueue me) of
        None \<Rightarrow> Some Waits
      | Some e \<Rightarrow> do { q \<leftarrow> ring_get (m_eQueue me); Some (Gets (e, me\<lparr>m_eQueue := q\<rparr>)) })"

definition QActive_defer :: "bool \<Rightarrow> nat \<Rightarrow> evts \<times> QEQueue \<Rightarrow> (evts \<times> QEQueue) option" where
  "QActive_defer ret e s = QEQueue_postFIFO ret e s"

definition QActive_recall :: "bool \<Rightarrow> evts \<times> QActive \<times> QEQueue \<Rightarrow> (bool \<times> evts \<times> QActive \<times> QEQueue) option" where
  "QActive_recall ret s =
     (case s of (evts, me, eq) \<Rightarrow>
        do { (e, eq) \<leftarrow> QEQueue_get eq;
             case e of
               None \<Rightarrow> Some (False, evts, me, eq)
             | Some e \<Rightarrow> do {
                 (evts, me) \<leftarrow> QActive_postLIFO ret e (evts, me);
                 ev \<leftarrow> evts e;
                 evts \<leftarrow> (if poolId ev \<noteq> 0 then do { Q_ASSERT ret (refCtr ev > 1); QF_EVT_REF_CTR_DEC e evts } else Some evts);
                 Some (True, evts, me, eq) } })"

section \<open>The ring as a list\<close>

text \<open>The place of the \<open>i\<close>-th event of a ring of \<open>n\<close> places whose first is at \<open>t\<close>.\<close>

definition place :: "nat \<Rightarrow> nat \<Rightarrow> nat \<Rightarrow> nat" where
  "place n t i = (if i \<le> t then t - i else t + n - i)"

lemma place_less: "t < n \<Longrightarrow> i \<le> n \<Longrightarrow> place n t i < n"
  by (auto simp: place_def)

lemma place_inj: "t < n \<Longrightarrow> i < n \<Longrightarrow> j < n \<Longrightarrow> place n t i = place n t j \<longleftrightarrow> i = j"
  by (auto simp: place_def)

lemma place_down: "t < n \<Longrightarrow> i < n \<Longrightarrow> place n (if t = 0 then n - 1 else t - 1) i = place n t (Suc i)"
  by (auto simp: place_def)

lemma place_up: "t < n \<Longrightarrow> i < n \<Longrightarrow> place n (if Suc t = n then 0 else Suc t) (Suc i) = place n t i"
  by (auto simp: place_def)

lemma place_prev: "t < n \<Longrightarrow> i < n \<Longrightarrow> (if place n t i = 0 then n - 1 else place n t i - 1) = place n t (Suc i)"
  by (auto simp: place_def)

definition ring_used :: "QEQueue \<Rightarrow> nat" where
  "ring_used q = unat (m_end q) - unat (q_nFree q)"

definition ring_at :: "QEQueue \<Rightarrow> nat \<Rightarrow> nat option" where
  "ring_at q i = m_ring q ! place (unat (m_end q)) (unat (m_tail q)) i"

definition ring_list :: "QEQueue \<Rightarrow> nat list" where
  "ring_list q = map (\<lambda>i. the (ring_at q i)) [0..<ring_used q]"

definition contents :: "QEQueue \<Rightarrow> nat list" where
  "contents q = (case m_frontEvt q of None \<Rightarrow> [] | Some e \<Rightarrow> e # ring_list q)"

definition ring_ok :: "QEQueue \<Rightarrow> bool" where
  "ring_ok q \<longleftrightarrow>
     length (m_ring q) = unat (m_end q) \<and> q_nFree q \<le> m_end q \<and> q_nMin q \<le> q_nFree q \<and>
     (m_end q = 0 \<or> m_tail q < m_end q \<and> unat (m_head q) = place (unat (m_end q)) (unat (m_tail q)) (ring_used q)) \<and>
     (\<forall>i < ring_used q. ring_at q i \<noteq> None)"

definition queue_ok :: "QEQueue \<Rightarrow> bool" where
  "queue_ok q \<longleftrightarrow> ring_ok q \<and> (m_frontEvt q = None \<longrightarrow> ring_used q = 0)"

text \<open>The greatest number of events it holds: one more than the ring, for the front event.\<close>

definition capacity :: "QEQueue \<Rightarrow> nat" where
  "capacity q = Suc (unat (m_end q))"

lemma init_ok:
  assumes "length sto = unat n"
  shows "queue_ok (QEQueue_init sto n)" "contents (QEQueue_init sto n) = []" "capacity (QEQueue_init sto n) = Suc (unat n)"
proof -
  have "unat (0 :: u32) = place (unat n) (unat (0 :: u32)) 0" by (simp add: place_def)
  then show "queue_ok (QEQueue_init sto n)" "contents (QEQueue_init sto n) = []" "capacity (QEQueue_init sto n) = Suc (unat n)"
    using assms by (auto simp: queue_ok_def ring_ok_def QEQueue_init_def ring_used_def contents_def capacity_def word_greater_zero_iff)
qed

lemma pred_wrap: "unat ((if t = 0 then n else t) - 1) = (if unat t = 0 then unat n - 1 else unat t - 1)"
  if "n \<noteq> 0" for t n :: u32
  using that by (simp add: unat_minus_one unat_eq_0)

lemma unat_succ: "unat (t + 1) = Suc (unat t)" if "unat t < unat n" for t n :: u32
proof -
  have "unat t + unat (1 :: u32) < 2 ^ LENGTH(32)" using that unsigned_less [of n, where ?'a = nat] by simp
  then show ?thesis by (subst (asm) unat_add_lem) simp
qed

lemma succ_wrap: "unat (if t + 1 = n then 0 else t + 1) = (if Suc (unat t) = unat n then 0 else Suc (unat t))"
  if "t < n" for t n :: u32
proof -
  have "unat (t + 1) = Suc (unat t)" using that by (intro unat_succ) (simp add: word_less_nat_alt)
  then show ?thesis using that by (simp add: word_unat_eq_iff)
qed

lemma uint_less_int: "uint x < int n \<longleftrightarrow> unat x < n" for x :: u32
  by (metis of_nat_less_iff of_nat_unat)

lemma wr_word: "unat i < length b \<Longrightarrow> wr b (uint i) x = Some (b[unat i := Some x])" for i :: u32
  by (simp add: wr_def uint_less_int nat_uint_eq)

lemma rd_word: "unat i < length b \<Longrightarrow> rd b (uint i) = b ! unat i" for i :: u32
  by (simp add: rd_def uint_less_int nat_uint_eq)

lemma ring_room:
  assumes "ring_ok q" "q_nFree q \<noteq> 0"
  shows "unat (q_nFree q - 1) = unat (q_nFree q) - 1" "unat (q_nFree q) \<le> unat (m_end q)" "0 < unat (q_nFree q)"
    "q_nFree q - 1 \<le> m_end q" "m_end q \<noteq> 0" "ring_used q < unat (m_end q)" "length (m_ring q) = unat (m_end q)"
    "unat (m_tail q) < unat (m_end q)" "unat (m_head q) = place (unat (m_end q)) (unat (m_tail q)) (ring_used q)"
proof -
  show f: "unat (q_nFree q - 1) = unat (q_nFree q) - 1" "unat (q_nFree q) \<le> unat (m_end q)" "0 < unat (q_nFree q)"
    using assms by (simp_all add: unat_minus_one ring_ok_def word_le_nat_alt unat_gt_0)
  then show "q_nFree q - 1 \<le> m_end q" by (simp add: word_le_nat_alt)
  show n: "m_end q \<noteq> 0" "ring_used q < unat (m_end q)" using f by (auto simp: ring_used_def)
  show "length (m_ring q) = unat (m_end q)" "unat (m_tail q) < unat (m_end q)"
    "unat (m_head q) = place (unat (m_end q)) (unat (m_tail q)) (ring_used q)"
    using assms(1) n by (simp_all add: ring_ok_def word_less_nat_alt)
qed

text \<open>What both stores leave: a ring with one element more.\<close>

lemma ring_grown:
  assumes q: "ring_ok q" "q_nFree q \<noteq> 0"
    and q': "q_nFree q' = q_nFree q - 1" "m_end q' = m_end q" "q_nMin q' \<le> q_nFree q'" "length (m_ring q') = length (m_ring q)"
    and t: "unat (m_tail q') < unat (m_end q)"
    and h: "unat (m_head q') = place (unat (m_end q)) (unat (m_tail q')) (Suc (ring_used q))"
    and at: "\<And>i. i < Suc (ring_used q) \<Longrightarrow> ring_at q' i = Some (xs ! i)" "length xs = Suc (ring_used q)"
  shows "ring_ok q' \<and> ring_list q' = xs"
proof -
  note room = ring_room [OF q]
  have used: "ring_used q' = Suc (ring_used q)" using q'(1,2) room(1-3) by (simp add: ring_used_def)
  have "ring_ok q'"
    using q' t h at room by (simp add: ring_ok_def used word_less_nat_alt)
  moreover have "ring_list q' = xs"
    by (rule nth_equalityI) (use at used in \<open>auto simp: ring_list_def simp del: upt_Suc\<close>)
  ultimately show ?thesis ..
qed

lemma ring_list_at: "ring_ok q \<Longrightarrow> i < ring_used q \<Longrightarrow> ring_at q i = Some (ring_list q ! i)"
  by (auto simp: ring_ok_def ring_list_def)

lemma ring_list_length [simp]: "length (ring_list q) = ring_used q"
  by (simp add: ring_list_def)

lemma ring_fifo_list:
  assumes "ring_ok q" "q_nFree q \<noteq> 0"
  shows "\<exists>q'. ring_fifo ret e q = Some q' \<and> ring_ok q' \<and> ring_list q' = ring_list q @ [e] \<and>
     m_frontEvt q' = m_frontEvt q \<and> m_end q' = m_end q \<and> q_nFree q' = q_nFree q - 1"
proof -
  let ?n = "unat (m_end q)" and ?t = "unat (m_tail q)" and ?u = "ring_used q"
  note room = ring_room [OF assms]
  have h: "unat (m_head q) < ?n" using place_less [OF room(8), of ?u] room(6,9) by simp
  have "wr (m_ring q) (uint (m_head q)) e = Some ((m_ring q)[unat (m_head q) := Some e])"
    using h room(7) by (intro wr_word) simp
  then have "\<exists>q'. ring_fifo ret e q = Some q' \<and>
       m_ring q' = (m_ring q)[unat (m_head q) := Some e] \<and>
       m_head q' = (if m_head q = 0 then m_end q else m_head q) - 1 \<and>
       m_tail q' = m_tail q \<and>
       m_end q' = m_end q \<and>
       q_nFree q' = q_nFree q - 1 \<and>
       m_frontEvt q' = m_frontEvt q \<and>
       q_nMin q' \<le> q_nFree q'"
    using assms(2) by (auto simp: ring_fifo_def Let_def)
  then obtain q' where run: "ring_fifo ret e q = Some q'"
    and q': "m_ring q' = (m_ring q)[unat (m_head q) := Some e]" "m_head q' = (if m_head q = 0 then m_end q else m_head q) - 1" "m_tail q' = m_tail q" "m_end q' = m_end q" "q_nFree q' = q_nFree q - 1" "m_frontEvt q' = m_frontEvt q" "q_nMin q' \<le> q_nFree q'"
    by blast
  have "ring_at q' i = Some ((ring_list q @ [e]) ! i)" if "i < Suc ?u" for i
  proof (cases "i = ?u")
    case True
    then show ?thesis using q' h room by (simp add: ring_at_def nth_append)
  next
    case False
    then have i: "i < ?u" using that by simp
    then have "place ?n ?t i \<noteq> unat (m_head q)" using place_inj [OF room(8), of i ?u] room(6,9) by simp
    then have "ring_at q' i = ring_at q i" using q' by (simp add: ring_at_def)
    then show ?thesis using ring_list_at [OF assms(1) i] i by (simp add: nth_append)
  qed
  moreover have "unat (m_head q') = place ?n ?t (Suc ?u)"
    unfolding q'(2) pred_wrap [OF room(5)] room(9) by (rule place_prev [OF room(8,6)])
  ultimately have "ring_ok q' \<and> ring_list q' = ring_list q @ [e]"
    using q' room(8) by (intro ring_grown [OF assms]) simp_all
  with run q' show ?thesis by blast
qed

lemma ring_lifo_list:
  assumes "ring_ok q" "q_nFree q \<noteq> 0"
  shows "\<exists>q'. ring_lifo ret e q = Some q' \<and> ring_ok q' \<and> ring_list q' = e # ring_list q \<and>
     m_frontEvt q' = m_frontEvt q \<and> m_end q' = m_end q \<and> q_nFree q' = q_nFree q - 1"
proof -
  let ?n = "unat (m_end q)" and ?t = "unat (m_tail q)" and ?u = "ring_used q"
  let ?tail = "if m_tail q + 1 = m_end q then 0 else m_tail q + 1"
  note room = ring_room [OF assms]
  have t': "unat ?tail = (if Suc ?t = ?n then 0 else Suc ?t)"
    using room(8) by (intro succ_wrap) (simp add: word_less_nat_alt)
  then have t'n: "unat ?tail < ?n" using room(8) by simp
  have "wr (m_ring q) (uint ?tail) e = Some ((m_ring q)[unat ?tail := Some e])"
    using t'n room(7) by (intro wr_word) simp
  then have "\<exists>q'. ring_lifo ret e q = Some q' \<and>
       m_ring q' = (m_ring q)[unat ?tail := Some e] \<and>
       m_head q' = m_head q \<and>
       m_tail q' = ?tail \<and>
       m_end q' = m_end q \<and>
       q_nFree q' = q_nFree q - 1 \<and>
       m_frontEvt q' = m_frontEvt q \<and>
       q_nMin q' \<le> q_nFree q'"
    using assms(2) by (auto simp: ring_lifo_def Let_def)
  then obtain q' where run: "ring_lifo ret e q = Some q'"
    and q': "m_ring q' = (m_ring q)[unat ?tail := Some e]" "m_head q' = m_head q" "m_tail q' = ?tail" "m_end q' = m_end q" "q_nFree q' = q_nFree q - 1" "m_frontEvt q' = m_frontEvt q" "q_nMin q' \<le> q_nFree q'"
    by blast
  have up: "place ?n (unat ?tail) (Suc i) = place ?n ?t i" if "i < ?n" for i
    unfolding t' using place_up [OF room(8) that] .
  have "ring_at q' i = Some ((e # ring_list q) ! i)" if "i < Suc ?u" for i
  proof (cases i)
    case 0
    then show ?thesis using t'n room(7) q' by (simp add: ring_at_def place_def)
  next
    case (Suc j)
    then have j: "j < ?u" using that by simp
    have "place ?n (unat ?tail) (Suc j) \<noteq> unat ?tail"
      using place_inj [OF t'n, of "Suc j" 0] j room(6) by (simp add: place_def)
    then have "ring_at q' i = ring_at q j" using up [of j] j room(6) q' Suc by (simp add: ring_at_def)
    then show ?thesis using ring_list_at [OF assms(1) j] Suc by simp
  qed
  moreover have "unat (m_head q') = place ?n (unat ?tail) (Suc ?u)" using up [OF room(6)] room(9) q'(2) by simp
  ultimately have "ring_ok q' \<and> ring_list q' = e # ring_list q"
    using q' t'n by (intro ring_grown [OF assms]) simp_all
  with run q' show ?thesis by blast
qed

lemma ring_get_list:
  assumes "ring_ok q"
  shows "\<exists>q'. ring_get q = Some q' \<and> queue_ok q' \<and> contents q' = ring_list q \<and> m_end q' = m_end q"
proof (cases "q_nFree q = m_end q")
  case True
  then have "ring_used q = 0" by (simp add: ring_used_def)
  moreover have "queue_ok (q\<lparr>m_frontEvt := None\<rparr>)"
    using assms calculation by (simp add: queue_ok_def ring_ok_def ring_used_def ring_at_def)
  ultimately show ?thesis using True by (simp add: ring_get_def contents_def ring_list_def)
next
  case False
  let ?n = "unat (m_end q)" and ?t = "unat (m_tail q)" and ?u = "ring_used q"
  have le: "unat (q_nFree q) < ?n"
    using assms False word_unat_eq_iff [of "q_nFree q" "m_end q"] by (simp add: ring_ok_def word_le_nat_alt)
  then have n: "m_end q \<noteq> 0" "0 < ?u" "?u \<le> ?n" by (auto simp: ring_used_def)
  then have t: "?t < ?n" "unat (m_head q) = place ?n ?t ?u" "length (m_ring q) = ?n"
    using assms by (simp_all add: ring_ok_def word_less_nat_alt)
  let ?tail = "(if m_tail q = 0 then m_end q else m_tail q) - 1"
  have t': "unat ?tail = (if ?t = 0 then ?n - 1 else ?t - 1)" using pred_wrap [OF n(1)] .
  have f: "unat (q_nFree q + 1) = Suc (unat (q_nFree q))"
    using le by (rule unat_succ)
  obtain e where e: "ring_at q 0 = Some e" using assms n(2) by (auto simp: ring_ok_def)
  let ?q' = "q\<lparr>m_frontEvt := Some e, m_tail := ?tail, q_nFree := q_nFree q + 1\<rparr>"
  have rd: "rd (m_ring q) (uint (m_tail q)) = Some e"
    using e t by (simp add: rd_word ring_at_def place_def)
  then have run: "ring_get q = Some ?q'" using False by (simp add: ring_get_def)
  have used: "Suc (ring_used ?q') = ?u" using f le by (simp add: ring_used_def)
  have down: "place ?n (unat ?tail) i = place ?n ?t (Suc i)" if "i < ?n" for i
    unfolding t' using place_down [OF t(1) that] .
  have at: "ring_at ?q' i = ring_at q (Suc i)" if "i < ring_used ?q'" for i
    using down [of i] that used n(3) by (simp add: ring_at_def)
  have "ring_ok ?q'"
    unfolding ring_ok_def
  proof (intro conjI disjI2 allI impI)
    show "q_nFree ?q' \<le> m_end ?q'" using f le by (simp add: word_le_nat_alt)
    show "q_nMin ?q' \<le> q_nFree ?q'" using assms f by (simp add: ring_ok_def word_le_nat_alt)
    show "unat (m_head ?q') = place (unat (m_end ?q')) (unat (m_tail ?q')) (ring_used ?q')"
      using down [of "ring_used ?q'"] used n(3) t(2) by simp
    show "m_tail ?q' < m_end ?q'" using t' t(1) n(1) by (auto simp: word_less_nat_alt)
    show "ring_at ?q' i \<noteq> None" if "i < ring_used ?q'" for i
      using at [OF that] assms used that by (auto simp: ring_ok_def)
  qed (use t(3) in simp)
  moreover have "e # ring_list ?q' = ring_list q"
    unfolding ring_list_def used [symmetric] upt_conv_Cons [OF zero_less_Suc]
    by (simp add: e map_Suc_upt [symmetric] at del: upt_Suc)
  ultimately show ?thesis using run by (simp add: queue_ok_def contents_def)
qed

section \<open>What a queue promises\<close>

text \<open>Posting behind and before the others, and taking the first, on a list.\<close>

datatype queue_op = Fifo nat | Lifo nat | Get

fun op_events :: "queue_op \<Rightarrow> nat set" where
  "op_events (Fifo e) = {e}"
| "op_events (Lifo e) = {e}"
| "op_events Get = {}"

text \<open>What is taken, and what stays; \<open>None\<close> when more than \<open>n\<close> events are to be held.\<close>

fun queue_spec :: "nat \<Rightarrow> queue_op list \<Rightarrow> nat list \<Rightarrow> (nat option list \<times> nat list) option" where
  "queue_spec n [] es = Some ([], es)"
| "queue_spec n (Fifo e # ops) es = (if length es < n then queue_spec n ops (es @ [e]) else None)"
| "queue_spec n (Lifo e # ops) es = (if length es < n then queue_spec n ops (e # es) else None)"
| "queue_spec n (Get # ops) es =
     (case es of
        [] \<Rightarrow> do { (rs, es) \<leftarrow> queue_spec n ops []; Some (None # rs, es) }
      | e # es \<Rightarrow> do { (rs, es) \<leftarrow> queue_spec n ops es; Some (Some e # rs, es) })"

fun queue_run :: "(nat \<Rightarrow> 's \<Rightarrow> 's option) \<Rightarrow> (nat \<Rightarrow> 's \<Rightarrow> 's option) \<Rightarrow> ('s \<Rightarrow> (nat option \<times> 's) option) \<Rightarrow>
    queue_op list \<Rightarrow> 's \<Rightarrow> (nat option list \<times> 's) option" where
  "queue_run fifo lifo get [] s = Some ([], s)"
| "queue_run fifo lifo get (Fifo e # ops) s = do { s \<leftarrow> fifo e s; queue_run fifo lifo get ops s }"
| "queue_run fifo lifo get (Lifo e # ops) s = do { s \<leftarrow> lifo e s; queue_run fifo lifo get ops s }"
| "queue_run fifo lifo get (Get # ops) s =
     do { (r, s) \<leftarrow> get s; (rs, s) \<leftarrow> queue_run fifo lifo get ops s; Some (r # rs, s) }"

locale event_queue =
  fixes fifo lifo :: "nat \<Rightarrow> 's \<Rightarrow> 's option" and get :: "'s \<Rightarrow> (nat option \<times> 's) option" and
    items :: "'s \<Rightarrow> nat list" and ok :: "'s \<Rightarrow> bool" and cap :: "'s \<Rightarrow> nat" and known :: "nat \<Rightarrow> 's \<Rightarrow> bool"
  assumes fifo_items: "ok s \<Longrightarrow> known e s \<Longrightarrow> length (items s) < cap s \<Longrightarrow>
       \<exists>s'. fifo e s = Some s' \<and> ok s' \<and> items s' = items s @ [e] \<and> cap s' = cap s \<and> (\<forall>x. known x s' = known x s)"
    and lifo_items: "ok s \<Longrightarrow> known e s \<Longrightarrow> length (items s) < cap s \<Longrightarrow>
       \<exists>s'. lifo e s = Some s' \<and> ok s' \<and> items s' = e # items s \<and> cap s' = cap s \<and> (\<forall>x. known x s' = known x s)"
    and get_empty: "ok s \<Longrightarrow> items s = [] \<Longrightarrow> get s = Some (None, s)"
    and get_items: "ok s \<Longrightarrow> items s = e # es \<Longrightarrow>
       \<exists>s'. get s = Some (Some e, s') \<and> ok s' \<and> items s' = es \<and> cap s' = cap s \<and> (\<forall>x. known x s' = known x s)"
begin

lemma run_refines:
  assumes "ok s" "\<forall>x \<in> set ops. \<forall>e \<in> op_events x. known e s" "queue_spec (cap s) ops (items s) = Some (rs, es)"
  shows "\<exists>s'. queue_run fifo lifo get ops s = Some (rs, s') \<and> ok s' \<and> items s' = es"
  using assms
proof (induction ops arbitrary: s rs)
  case (Cons x ops)
  show ?case
  proof (cases x)
    case (Fifo e)
    with Cons.prems fifo_items [of s e] obtain s1 where
      s1: "fifo e s = Some s1" "ok s1" "items s1 = items s @ [e]" "cap s1 = cap s" "\<forall>x. known x s1 = known x s"
      by (auto split: if_splits)
    with Fifo Cons.prems Cons.IH [of s1 rs] show ?thesis by (auto split: if_splits)
  next
    case (Lifo e)
    with Cons.prems lifo_items [of s e] obtain s1 where
      s1: "lifo e s = Some s1" "ok s1" "items s1 = e # items s" "cap s1 = cap s" "\<forall>x. known x s1 = known x s"
      by (auto split: if_splits)
    with Lifo Cons.prems Cons.IH [of s1 rs] show ?thesis by (auto split: if_splits)
  next
    case Get
    show ?thesis
    proof (cases "items s")
      case Nil
      with Get Cons.prems(3) obtain rs1 where "rs = None # rs1" "queue_spec (cap s) ops [] = Some (rs1, es)"
        by (auto simp: Option.bind_eq_Some_conv)
      with Get Nil Cons.prems Cons.IH [of s rs1] get_empty [of s] show ?thesis by auto
    next
      case (Cons e es1)
      with Get Cons.prems(3) obtain rs1 where rs: "rs = Some e # rs1" "queue_spec (cap s) ops es1 = Some (rs1, es)"
        by (auto simp: Option.bind_eq_Some_conv)
      from get_items [OF Cons.prems(1) Cons] obtain s1 where
        "get s = Some (Some e, s1)" "ok s1" "items s1 = es1" "cap s1 = cap s" "\<forall>x. known x s1 = known x s" by blast
      with rs Get Cons.prems Cons.IH [of s1 rs1] show ?thesis by auto
    qed
  qed
qed auto

end

text \<open>Counting leaves every event where it is.\<close>

lemma count_event_known:
  assumes "evts e \<noteq> None"
  shows "\<exists>evts'. count_event e evts = Some evts' \<and> dom evts' = dom evts"
  using assms by (auto simp: count_event_def QF_EVT_REF_CTR_INC_def)

lemma room_iff: "ring_ok q \<Longrightarrow> ring_used q < unat (m_end q) \<longleftrightarrow> q_nFree q \<noteq> 0"
  using ring_room(6) [of q] unat_gt_0 [of "q_nFree q"] by (auto simp: ring_used_def)

lemma queue_room:
  assumes "queue_ok q" "length (contents q) < capacity q" "m_frontEvt q \<noteq> None"
  shows "ring_ok q" "q_nFree q \<noteq> 0"
proof -
  show ok: "ring_ok q" using assms(1) by (simp add: queue_ok_def)
  have "ring_used q < unat (m_end q)" using assms(2,3) by (auto simp: contents_def capacity_def)
  then show "q_nFree q \<noteq> 0" using room_iff [OF ok] by simp
qed

lemma queue_ok_front: "queue_ok (q\<lparr>m_frontEvt := Some e\<rparr>) \<longleftrightarrow> ring_ok q"
  by (simp add: queue_ok_def ring_ok_def ring_used_def ring_at_def)

lemma ring_list_front [simp]: "ring_list (q\<lparr>m_frontEvt := x\<rparr>) = ring_list q"
  by (simp add: ring_list_def ring_used_def ring_at_def)

lemma contents_front: "contents (q\<lparr>m_frontEvt := Some e\<rparr>) = e # ring_list q"
  by (simp add: contents_def ring_list_def ring_used_def ring_at_def)

lemma front_only: "queue_ok q \<Longrightarrow> m_frontEvt q = None \<Longrightarrow> ring_ok q \<and> ring_list q = [] \<and> contents q = []"
  by (simp add: queue_ok_def contents_def ring_list_def)

lemma post_fifo_queue:
  assumes "queue_ok q" "length (contents q) < capacity q"
  shows "\<exists>q'. (if m_frontEvt q = None then Some (q\<lparr>m_frontEvt := Some e\<rparr>) else ring_fifo ret e q) = Some q' \<and>
     queue_ok q' \<and> contents q' = contents q @ [e] \<and> capacity q' = capacity q"
proof (cases "m_frontEvt q")
  case None
  with front_only [OF assms(1)] show ?thesis by (simp add: queue_ok_front contents_front capacity_def)
next
  case (Some old)
  then have "m_frontEvt q \<noteq> None" by simp
  note room = queue_room [OF assms this]
  from ring_fifo_list [OF room, of ret e] Some show ?thesis
    by (auto simp: queue_ok_def contents_def capacity_def)
qed

lemma post_lifo_queue:
  assumes "queue_ok q" "length (contents q) < capacity q"
  shows "\<exists>q'. (case m_frontEvt q of None \<Rightarrow> Some q | Some old \<Rightarrow> ring_lifo ret old q) = Some q' \<and>
     queue_ok (q'\<lparr>m_frontEvt := Some e\<rparr>) \<and> contents (q'\<lparr>m_frontEvt := Some e\<rparr>) = e # contents q \<and> capacity q' = capacity q"
proof (cases "m_frontEvt q")
  case None
  with front_only [OF assms(1)] show ?thesis by (simp add: queue_ok_front contents_front)
next
  case (Some old)
  then have "m_frontEvt q \<noteq> None" by simp
  note room = queue_room [OF assms this]
  from ring_lifo_list [OF room, of ret old] Some show ?thesis
    by (auto simp: queue_ok_front contents_front contents_def capacity_def)
qed

lemma get_queue:
  assumes "queue_ok q" "contents q = e # es"
  shows "m_frontEvt q = Some e \<and> (\<exists>q'. ring_get q = Some q' \<and> queue_ok q' \<and> contents q' = es \<and> capacity q' = capacity q)"
proof -
  have f: "m_frontEvt q = Some e" "ring_list q = es" using assms(2) by (auto simp: contents_def split: option.splits)
  from ring_get_list [of q] assms(1) f(2) show ?thesis
    using f(1) by (auto simp: queue_ok_def capacity_def)
qed

interpretation raw_queue: event_queue "QEQueue_postFIFO ret" "QEQueue_postLIFO ret"
  "\<lambda>(evts, q). do { (e, q) \<leftarrow> QEQueue_get q; Some (e, evts, q) }"
  "\<lambda>(evts, q). contents q" "\<lambda>(evts, q). queue_ok q" "\<lambda>(evts, q). capacity q" "\<lambda>e (evts, q). evts e \<noteq> None" for ret
proof (unfold_locales, goal_cases)
  case (1 s e)
  obtain evts q where s: "s = (evts, q)" by (cases s)
  from 1 s post_fifo_queue [of q e ret] count_event_known [of evts e] show ?case
    by (auto simp: QEQueue_postFIFO_def domIff set_eq_iff)
next
  case (2 s e)
  obtain evts q where s: "s = (evts, q)" by (cases s)
  from 2 s post_lifo_queue [of q ret e] count_event_known [of evts e] show ?case
    by (auto simp: QEQueue_postLIFO_def capacity_def domIff set_eq_iff)
next
  case (3 s)
  then show ?case by (auto simp: QEQueue_get_def contents_def split: option.splits)
next
  case (4 s e es)
  obtain evts q where s: "s = (evts, q)" by (cases s)
  from 4 s get_queue [of q e es] show ?case by (auto simp: QEQueue_get_def)
qed

text \<open>The queue of an active object, asked for an event without waiting.\<close>

definition poll_active :: "evts \<times> QActive \<Rightarrow> (nat option \<times> evts \<times> QActive) option" where
  "poll_active s =
     (case s of (evts, me) \<Rightarrow>
        do { r \<leftarrow> QActive_get me;
             Some (case r of Waits \<Rightarrow> (None, evts, me) | Gets (e, me) \<Rightarrow> (Some e, evts, me)) })"

interpretation active_queue: event_queue "QActive_postFIFO ret" "QActive_postLIFO ret" poll_active
  "\<lambda>(evts, me). contents (m_eQueue me)" "\<lambda>(evts, me). queue_ok (m_eQueue me)" "\<lambda>(evts, me). capacity (m_eQueue me)"
  "\<lambda>e (evts, me). evts e \<noteq> None" for ret
proof (unfold_locales, goal_cases)
  case (1 s e)
  obtain evts me where s: "s = (evts, me)" by (cases s)
  from 1 s post_fifo_queue [of "m_eQueue me" e ret] count_event_known [of evts e] show ?case
    by (auto simp: QActive_postFIFO_def QACTIVE_EQUEUE_SIGNAL_def domIff set_eq_iff split: if_splits)
next
  case (2 s e)
  obtain evts me where s: "s = (evts, me)" by (cases s)
  from 2 s post_lifo_queue [of "m_eQueue me" ret e] count_event_known [of evts e] show ?case
    by (auto simp: QActive_postLIFO_def QACTIVE_EQUEUE_SIGNAL_def capacity_def domIff set_eq_iff split: option.splits)
next
  case (3 s)
  then show ?case by (auto simp: poll_active_def QActive_get_def contents_def split: option.splits)
next
  case (4 s e es)
  obtain evts me where s: "s = (evts, me)" by (cases s)
  from 4 s get_queue [of "m_eQueue me" e es] show ?case by (auto simp: poll_active_def QActive_get_def)
qed

section \<open>The queues of the framework\<close>

text \<open>
  C13: The queue of an active object is a list of at most one event more than its buffer has
  places: any sequence of posts at either end and of takings that the list allows has the list's
  results.
\<close>

theorem active_queue_is_list:
  assumes "length sto = unat n" "m_eQueue me = QEQueue_init sto n" "\<forall>x \<in> set ops. op_events x \<subseteq> dom evts"
    and "queue_spec (Suc (unat n)) ops [] = Some (rs, es)"
  shows "\<exists>evts' me'. queue_run (QActive_postFIFO ret) (QActive_postLIFO ret) poll_active ops (evts, me) = Some (rs, evts', me') \<and>
     queue_ok (m_eQueue me') \<and> contents (m_eQueue me') = es"
proof -
  have "\<forall>x \<in> set ops. \<forall>e \<in> op_events x. evts e \<noteq> None" using assms(3) by fast
  then show ?thesis
    using active_queue.run_refines [of "(evts, me)" ops rs es ret] assms init_ok [OF assms(1)] by auto
qed

theorem active_queue_is_list_witness:
  "\<exists>evts' me'. queue_run (QActive_postFIFO False) (QActive_postLIFO False) poll_active [Fifo 5, Fifo 7, Lifo 9, Get, Fifo 8, Get, Get]
       (\<lambda>e. Some \<lparr>evt_sig = 4, poolId = 0, refCtr = 0\<rparr>,
        \<lparr>m_eQueue = QEQueue_init (fresh 2) 2, m_osObject = 0, m_thread = 1, m_prio = 1\<rparr>)
     = Some ([Some 9, Some 5, Some 7], evts', me') \<and> contents (m_eQueue me') = [8]"
proof -
  have "queue_spec (Suc (unat (2 :: u32))) [Fifo 5, Fifo 7, Lifo 9, Get, Fifo 8, Get, Get] [] = Some ([Some 9, Some 5, Some 7], [8])"
    by simp
  with active_queue_is_list [of "fresh 2" 2 "\<lparr>m_eQueue = QEQueue_init (fresh 2) 2, m_osObject = 0, m_thread = 1, m_prio = 1\<rparr>"
      "[Fifo 5, Fifo 7, Lifo 9, Get, Fifo 8, Get, Get]" "\<lambda>e. Some \<lparr>evt_sig = 4, poolId = 0, refCtr = 0\<rparr>"
      "[Some 9, Some 5, Some 7]" "[8]" False]
  show ?thesis by (auto simp: fresh_def)
qed

text \<open>
  A post to a full queue fails its assertion. Where \<open>Q_onAssert\<close> returns, as that of \<open>src/bsp.cpp\<close> does, the
  oldest event of the ring is overwritten and the count of free places wraps around.
\<close>

lemma full_ring:
  assumes "queue_ok q" "length (contents q) = capacity q"
  shows "m_frontEvt q \<noteq> None" "ring_ok q" "q_nFree q = 0" "ring_used q = unat (m_end q)"
proof -
  show f: "m_frontEvt q \<noteq> None" using assms(2) by (cases "m_frontEvt q") (auto simp: contents_def capacity_def)
  show ok: "ring_ok q" using assms(1) by (simp add: queue_ok_def)
  show u: "ring_used q = unat (m_end q)" using assms(2) f by (auto simp: contents_def capacity_def)
  then show "q_nFree q = 0" using room_iff [OF ok] by auto
qed

theorem queue_overflow:
  assumes "queue_ok (m_eQueue me)" "length (contents (m_eQueue me)) = capacity (m_eQueue me)" "count_event e evts = Some evts'"
    and "m_end (m_eQueue me) \<noteq> 0"
  shows "QActive_postFIFO False e (evts, me) = None \<and>
     (\<exists>me'. QActive_postFIFO True e (evts, me) = Some (evts', me') \<and> q_nFree (m_eQueue me') = - 1 \<and>
        m_frontEvt (m_eQueue me') = m_frontEvt (m_eQueue me) \<and>
        ring_at (m_eQueue me') 0 = Some e \<and> (\<forall>i \<in> {1..<unat (m_end (m_eQueue me))}. ring_at (m_eQueue me') i = ring_at (m_eQueue me) i))"
proof -
  let ?q = "m_eQueue me" and ?n = "unat (m_end (m_eQueue me))" and ?t = "unat (m_tail (m_eQueue me))"
  note full = full_ring [OF assms(1,2)]
  have t: "?t < ?n" "unat (m_head ?q) = ?t" "length (m_ring ?q) = ?n"
    using full(2,4) assms(4) by (auto simp: ring_ok_def word_less_nat_alt place_def)
  have "\<not> q_nMin ?q > - 1" by (simp add: not_less word_le_nat_alt)
  then have run: "ring_fifo True e ?q = Some (?q\<lparr>m_ring := (m_ring ?q)[?t := Some e],
      m_head := (if m_head ?q = 0 then m_end ?q else m_head ?q) - 1, q_nFree := - 1\<rparr>)"
    using t full(3) wr_word [of "m_head ?q" "m_ring ?q" e] by (simp add: ring_fifo_def Q_ASSERT_def Let_def not_less)
  have "ring_fifo False e ?q = None" using full(3) by (simp add: ring_fifo_def Q_ASSERT_def)
  moreover have "place ?n ?t i \<noteq> ?t" if "i \<in> {1..<?n}" for i
    using place_inj [OF t(1), of i 0] that by (simp add: place_def)
  ultimately show ?thesis
    using full(1) run t assms(3) by (auto simp: QActive_postFIFO_def ring_at_def place_def)
qed

definition full_object :: QActive where
  "full_object = \<lparr>m_eQueue = \<lparr>m_frontEvt = Some 5, m_ring = init [6], m_end = 1, m_head = 0, m_tail = 0, q_nFree = 0, q_nMin = 0\<rparr>,
     m_osObject = 1, m_thread = 1, m_prio = 1\<rparr>"

theorem queue_overflow_witness:
  "contents (m_eQueue full_object) = [5, 6] \<and>
   (\<exists>me'. QActive_postFIFO True 7 (\<lambda>e. Some \<lparr>evt_sig = 4, poolId = 0, refCtr = 0\<rparr>, full_object)
       = Some (\<lambda>e. Some \<lparr>evt_sig = 4, poolId = 0, refCtr = 0\<rparr>, me') \<and> ring_at (m_eQueue me') 0 = Some 7)"
proof -
  have "queue_ok (m_eQueue full_object)" "contents (m_eQueue full_object) = [5, 6]"
    by (simp_all add: full_object_def queue_ok_def ring_ok_def ring_used_def ring_at_def place_def contents_def ring_list_def init_def)
  with queue_overflow [of full_object 7 "\<lambda>e. Some \<lparr>evt_sig = 4, poolId = 0, refCtr = 0\<rparr>"
      "\<lambda>e. Some \<lparr>evt_sig = 4, poolId = 0, refCtr = 0\<rparr>"]
  show ?thesis by (auto simp: full_object_def capacity_def count_event_def)
qed

text \<open>
  Recalling puts the oldest deferred event before all others of the object, and the event counts as
  often as before: once for the queue it left, once for the one it is in.
\<close>

theorem recall_moves:
  assumes "queue_ok (m_eQueue me)" "length (contents (m_eQueue me)) < capacity (m_eQueue me)"
    and "queue_ok eq" "contents eq = e # es" "evts e = Some ev" "poolId ev \<noteq> 0 \<longrightarrow> 0 < refCtr ev \<and> refCtr ev < 255"
  shows "\<exists>me' eq'. QActive_recall ret (evts, me, eq) = Some (True, evts, me', eq') \<and>
     queue_ok (m_eQueue me') \<and> contents (m_eQueue me') = e # contents (m_eQueue me) \<and> queue_ok eq' \<and> contents eq' = es"
proof -
  from get_queue [OF assms(3,4)] obtain eq' where eq': "QEQueue_get eq = Some (Some e, eq')" "queue_ok eq'" "contents eq' = es"
    by (auto simp: QEQueue_get_def)
  let ?ev = "if poolId ev \<noteq> 0 then ev\<lparr>refCtr := refCtr ev + 1\<rparr> else ev"
  have "refCtr ev + 1 > 1" if "poolId ev \<noteq> 0"
  proof -
    have "unat (refCtr ev + 1) = Suc (unat (refCtr ev))" "0 < unat (refCtr ev)"
      using assms(6) that by (auto simp: word_less_nat_alt unat_word_ariths)
    then show ?thesis by (simp add: word_less_nat_alt)
  qed
  moreover have "count_event e evts = Some (evts(e \<mapsto> ?ev))"
    using assms(5) by (auto simp: count_event_def QF_EVT_REF_CTR_INC_def fun_upd_idem)
  moreover obtain me' where "QActive_postLIFO ret e (evts, me) = Some (evts(e \<mapsto> ?ev), me')"
    "queue_ok (m_eQueue me')" "contents (m_eQueue me') = e # contents (m_eQueue me)"
    using post_lifo_queue [OF assms(1,2), of ret e] calculation(2)
    by (auto simp: QActive_postLIFO_def QACTIVE_EQUEUE_SIGNAL_def split: option.splits)
  ultimately show ?thesis
    using eq' assms(5) by (auto simp: QActive_recall_def QF_EVT_REF_CTR_DEC_def fun_upd_idem)
qed

end
