(* ===== verification/State_Machine.thy ===== *)
theory State_Machine
  imports Event_Queue
begin

text \<open>
  The processor of state machines, \<open>library/qpcpp/qep/source\<close> with \<open>include/qep.h\<close> and \<open>qep_pkg.h\<close>:
  hierarchical machines (\<open>QHsm\<close>) and flat ones (\<open>QFsm\<close>). A state is its handler function. A handler
  gets the signal and the object, of which it may change \<open>m_temp\<close> and the data of the application, and
  returns what it did. Theory \<open>State_Chart\<close> states what a hierarchical machine means.
\<close>

section \<open>Handlers and machines\<close>

datatype QState = Q_RET_HANDLED | Q_RET_IGNORED | Q_RET_TRAN | Q_RET_SUPER | Q_RET_UNHANDLED

text \<open>The reserved events of the processor, and those of the application.\<close>

datatype 'e QSignal = QEP_EMPTY | QEP_ENTRY | QEP_EXIT | QEP_INIT | User 'e

type_synonym ('s, 'e, 'd) handlers = "'s \<Rightarrow> 'e QSignal \<Rightarrow> 's \<times> 'd \<Rightarrow> (QState \<times> 's \<times> 'd) option"

record ('s, 'd) QHsm =
  m_state :: 's
  m_temp :: 's
  m_data :: 'd

definition new_QHsm :: "'s \<Rightarrow> 's \<Rightarrow> 'd \<Rightarrow> ('s, 'd) QHsm" where
  "new_QHsm tp initial d = \<lparr>m_state = tp, m_temp = initial, m_data = d\<rparr>"

text \<open>What the functions \<open>tran\<close> and \<open>super\<close> of a machine do for its handlers, and the state \<open>top\<close>.\<close>

definition Q_TRAN :: "'s \<Rightarrow> 's \<times> 'd \<Rightarrow> QState \<times> 's \<times> 'd" where
  "Q_TRAN target x = (Q_RET_TRAN, target, snd x)"

definition Q_SUPER :: "'s \<Rightarrow> 's \<times> 'd \<Rightarrow> QState \<times> 's \<times> 'd" where
  "Q_SUPER superstate x = (Q_RET_SUPER, superstate, snd x)"

definition QHsm_top :: "'s \<times> 'd \<Rightarrow> QState \<times> 's \<times> 'd" where
  "QHsm_top x = (Q_RET_IGNORED, x)"

definition QEP_MAX_NEST_DEPTH :: nat where "QEP_MAX_NEST_DEPTH = 6"

text \<open>Triggering a reserved event, whose result is not used.\<close>

definition trig :: "('s, 'e, 'd) handlers \<Rightarrow> 's \<Rightarrow> 'e QSignal \<Rightarrow> 's \<times> 'd \<Rightarrow> ('s \<times> 'd) option" where
  "trig h s sig x = do { (_, x) \<leftarrow> h s sig x; Some x }"

section \<open>Finding the way\<close>

text \<open>The event is offered to a state and its superstates; the last one that got it is the source.\<close>

partial_function (option) offer :: "('s, 'e, 'd) handlers \<Rightarrow> 'e QSignal \<Rightarrow> 's \<times> 'd \<Rightarrow> (QState \<times> 's \<times> 's \<times> 'd) option" where
  "offer h e x =
     do { let s = fst x;
          (r, x) \<leftarrow> h s e x;
          (r, x) \<leftarrow> (if r = Q_RET_UNHANDLED then h s QEP_EMPTY x else Some (r, x));
          if r = Q_RET_SUPER then offer h e x else Some (r, s, x) }"

text \<open>One state is left; then \<open>m_temp\<close> is its superstate.\<close>

definition leave :: "('s, 'e, 'd) handlers \<Rightarrow> 's \<Rightarrow> 's \<times> 'd \<Rightarrow> ('s \<times> 'd) option" where
  "leave h t x =
     do { (r, x) \<leftarrow> h t QEP_EXIT x;
          if r = Q_RET_HANDLED then trig h t QEP_EMPTY x else Some x }"

partial_function (option) leave_to :: "('s, 'e, 'd) handlers \<Rightarrow> 's \<Rightarrow> 's \<Rightarrow> 's \<times> 'd \<Rightarrow> ('s \<times> 'd) option" where
  "leave_to h s t x = (if t = s then Some x else do { x \<leftarrow> leave h t x; leave_to h s (fst x) x })"

text \<open>
  Case (e): the superstates of the target are stored in the path until the source is one of them or
  there is none left. The result tells whether the source was found, and the last index.
\<close>

partial_function (option) climb ::
  "bool \<Rightarrow> ('s, 'e, 'd) handlers \<Rightarrow> 's \<Rightarrow> QState \<Rightarrow> int \<Rightarrow> 's cbuf \<Rightarrow> 's \<times> 'd \<Rightarrow> (bool \<times> int \<times> 's cbuf \<times> 's \<times> 'd) option" where
  "climb ret h s r ip path x =
     (if r \<noteq> Q_RET_SUPER then Some (False, ip, path, x)
      else do {
        path \<leftarrow> wr path (ip + 1) (fst x);
        if fst x = s then do { Q_ASSERT ret (ip + 1 < int QEP_MAX_NEST_DEPTH); Some (True, ip, path, x) }
        else do { (r, x) \<leftarrow> h (fst x) QEP_EMPTY x; climb ret h s r (ip + 1) path x } })"

text \<open>Cases (f) and (g): the index of a state in the path, sought from index \<open>n\<close> down.\<close>

fun scan :: "'s \<Rightarrow> 's cbuf \<Rightarrow> nat \<Rightarrow> nat option option" where
  "scan t path 0 = do { p \<leftarrow> rd path 0; Some (if t = p then Some 0 else None) }"
| "scan t path (Suc n) = do { p \<leftarrow> rd path (int (Suc n)); if t = p then Some (Some (Suc n)) else scan t path n }"

partial_function (option) leave_to_path ::
  "('s, 'e, 'd) handlers \<Rightarrow> 's \<Rightarrow> nat \<Rightarrow> 's cbuf \<Rightarrow> 's \<times> 'd \<Rightarrow> (int \<times> 's \<times> 'd) option" where
  "leave_to_path h t ip path x =
     do { x \<leftarrow> leave h t x;
          f \<leftarrow> scan (fst x) path ip;
          case f of Some iq \<Rightarrow> Some (int iq - 1, x) | None \<Rightarrow> leave_to_path h (fst x) ip path x }"

text \<open>The seven cases: the states to be left are left, those to be entered are in the path up to the result.\<close>

definition tran_path ::
  "bool \<Rightarrow> ('s, 'e, 'd) handlers \<Rightarrow> 's \<Rightarrow> 's \<Rightarrow> 's cbuf \<Rightarrow> 's \<times> 'd \<Rightarrow> (int \<times> 's cbuf \<times> 's \<times> 'd) option" where
  "tran_path ret h s target path x =
     (if s = target then do { x \<leftarrow> trig h s QEP_EXIT x; Some (0, path, x) }
      else do {
        x \<leftarrow> trig h target QEP_EMPTY x;
        let t = fst x;
        if s = t then Some (0, path, x)
        else do {
          x \<leftarrow> trig h s QEP_EMPTY x;
          if fst x = t then do { x \<leftarrow> trig h s QEP_EXIT x; Some (0, path, x) }
          else if fst x = target then do { x \<leftarrow> trig h s QEP_EXIT x; Some (- 1, path, x) }
          else do {
            path \<leftarrow> wr path 1 t;
            let up = fst x;
            (r, x) \<leftarrow> h t QEP_EMPTY x;
            (found, ip, path, x) \<leftarrow> climb ret h s r 1 path x;
            if found then Some (ip, path, x)
            else do {
              Q_ASSERT ret (ip < int QEP_MAX_NEST_DEPTH);
              x \<leftarrow> trig h s QEP_EXIT x;
              f \<leftarrow> scan up path (nat ip);
              case f of
                Some iq \<Rightarrow> Some (int iq - 1, path, x)
              | None \<Rightarrow> do { (ip, x) \<leftarrow> leave_to_path h up (nat ip) path x; Some (ip, path, x) } } } } })"

text \<open>The path is entered from index \<open>n - 1\<close> down to 0.\<close>

fun enter_path :: "('s, 'e, 'd) handlers \<Rightarrow> 's cbuf \<Rightarrow> nat \<Rightarrow> 's \<times> 'd \<Rightarrow> ('s \<times> 'd) option" where
  "enter_path h path 0 x = Some x"
| "enter_path h path (Suc n) x = do { s \<leftarrow> rd path (int n); x \<leftarrow> trig h s QEP_ENTRY x; enter_path h path n x }"

text \<open>The way from the target of an initial transition up to its source \<open>t\<close>, stored in the path.\<close>

partial_function (option) path_up ::
  "('s, 'e, 'd) handlers \<Rightarrow> 's \<Rightarrow> int \<Rightarrow> 's cbuf \<Rightarrow> 's \<times> 'd \<Rightarrow> (int \<times> 's cbuf \<times> 's \<times> 'd) option" where
  "path_up h t ip path x =
     (if fst x = t then Some (ip, path, x)
      else do { path \<leftarrow> wr path (ip + 1) (fst x); x \<leftarrow> trig h (fst x) QEP_EMPTY x; path_up h t (ip + 1) path x })"

definition init_tran :: "bool \<Rightarrow> ('s, 'e, 'd) handlers \<Rightarrow> 's \<Rightarrow> 's cbuf \<Rightarrow> 's \<times> 'd \<Rightarrow> ('s cbuf \<times> 's \<times> 's \<times> 'd) option" where
  "init_tran ret h t path x =
     do { let target = fst x;
          path \<leftarrow> wr path 0 target;
          x \<leftarrow> trig h target QEP_EMPTY x;
          (ip, path, x) \<leftarrow> path_up h t 0 path x;
          let x = (target, snd x);
          Q_ASSERT ret (ip < int QEP_MAX_NEST_DEPTH);
          x \<leftarrow> enter_path h path (nat (ip + 1)) x;
          Some (path, target, x) }"

text \<open>The initial transitions of the states that were entered.\<close>

partial_function (option) drill :: "bool \<Rightarrow> ('s, 'e, 'd) handlers \<Rightarrow> 's \<Rightarrow> 's cbuf \<Rightarrow> 's \<times> 'd \<Rightarrow> ('s \<times> 'd) option" where
  "drill ret h t path x =
     do { (r, x) \<leftarrow> h t QEP_INIT x;
          if r = Q_RET_TRAN then do { (path, t, x) \<leftarrow> init_tran ret h t path x; drill ret h t path x }
          else Some (t, snd x) }"

section \<open>The functions of the machines\<close>

text \<open>
  The initial transition: the handler of the initial pseudo-state gets the event and names the first
  target. The code declares the path anew in every round, but reads only what the round has stored in it.
\<close>

definition QHsm_init :: "bool \<Rightarrow> ('s, 'e, 'd) handlers \<Rightarrow> 's \<Rightarrow> 'e QSignal \<Rightarrow> ('s, 'd) QHsm \<Rightarrow> ('s, 'd) QHsm option" where
  "QHsm_init ret h tp e m =
     do { let t = m_state m;
          Q_ASSERT ret (t = tp);
          (r, x) \<leftarrow> h (m_temp m) e (m_temp m, m_data m);
          Q_ASSERT ret (r = Q_RET_TRAN);
          (path, t, x) \<leftarrow> init_tran ret h t (fresh QEP_MAX_NEST_DEPTH) x;
          (t, d) \<leftarrow> drill ret h t path x;
          Some (m\<lparr>m_state := t, m_temp := t, m_data := d\<rparr>) }"

definition QHsm_dispatch :: "bool \<Rightarrow> ('s, 'e, 'd) handlers \<Rightarrow> 'e QSignal \<Rightarrow> ('s, 'd) QHsm \<Rightarrow> ('s, 'd) QHsm option" where
  "QHsm_dispatch ret h e m =
     do { let t = m_state m;
          Q_ASSERT ret (t = m_temp m);
          (r, s, x) \<leftarrow> offer h e (m_temp m, m_data m);
          (t, d) \<leftarrow>
            (if r = Q_RET_TRAN then do {
               let target = fst x;
               path \<leftarrow> wr (fresh QEP_MAX_NEST_DEPTH) 0 target;
               path \<leftarrow> wr path 1 t;
               x \<leftarrow> leave_to h s t x;
               (ip, path, x) \<leftarrow> tran_path ret h s target path x;
               x \<leftarrow> enter_path h path (nat (ip + 1)) x;
               drill ret h target path (target, snd x) }
             else Some (t, snd x));
          Some (m\<lparr>m_state := t, m_temp := t, m_data := d\<rparr>) }"

partial_function (option) is_in :: "('s, 'e, 'd) handlers \<Rightarrow> 's \<Rightarrow> 's \<times> 'd \<Rightarrow> (bool \<times> 'd) option" where
  "is_in h s x =
     (if fst x = s then Some (True, snd x)
      else do { (r, x) \<leftarrow> h (fst x) QEP_EMPTY x; if r = Q_RET_IGNORED then Some (False, snd x) else is_in h s x })"

definition QHsm_isIn :: "bool \<Rightarrow> ('s, 'e, 'd) handlers \<Rightarrow> 's \<Rightarrow> ('s, 'd) QHsm \<Rightarrow> (bool \<times> ('s, 'd) QHsm) option" where
  "QHsm_isIn ret h s m =
     do { Q_ASSERT ret (m_temp m = m_state m);
          (b, d) \<leftarrow> is_in h s (m_temp m, m_data m);
          Some (b, m\<lparr>m_temp := m_state m, m_data := d\<rparr>) }"

text \<open>Flat machines: no state is active before the initial transition.\<close>

record ('s, 'd) QFsm =
  f_state :: "'s option"
  f_temp :: 's
  f_data :: 'd

definition new_QFsm :: "'s \<Rightarrow> 'd \<Rightarrow> ('s, 'd) QFsm" where
  "new_QFsm initial d = \<lparr>f_state = None, f_temp = initial, f_data = d\<rparr>"

definition QFsm_init :: "bool \<Rightarrow> ('s, 'e, 'd) handlers \<Rightarrow> 'e QSignal \<Rightarrow> ('s, 'd) QFsm \<Rightarrow> ('s, 'd) QFsm option" where
  "QFsm_init ret h e m =
     do { Q_ASSERT ret (f_state m = None);
          (r, x) \<leftarrow> h (f_temp m) e (f_temp m, f_data m);
          Q_ASSERT ret (r = Q_RET_TRAN);
          (t, d) \<leftarrow> trig h (fst x) QEP_ENTRY x;
          Some (m\<lparr>f_state := Some t, f_temp := t, f_data := d\<rparr>) }"

definition QFsm_dispatch :: "bool \<Rightarrow> ('s, 'e, 'd) handlers \<Rightarrow> 'e QSignal \<Rightarrow> ('s, 'd) QFsm \<Rightarrow> ('s, 'd) QFsm option" where
  "QFsm_dispatch ret h e m =
     do { Q_ASSERT ret (f_state m = Some (f_temp m));
          s \<leftarrow> f_state m;
          (r, x) \<leftarrow> h s e (f_temp m, f_data m);
          if r = Q_RET_TRAN then do {
            x \<leftarrow> trig h s QEP_EXIT x;
            (t, d) \<leftarrow> trig h (fst x) QEP_ENTRY x;
            Some (m\<lparr>f_state := Some t, f_temp := t, f_data := d\<rparr>) }
          else Some (m\<lparr>f_temp := fst x, f_data := snd x\<rparr>) }"

end
