(* ===== verification/State_Chart.thy ===== *)
theory State_Chart
  imports State_Machine
begin

text \<open>
  What a hierarchical state machine means, and that \<open>QHsm\<close> does it. A chart is a tree of states with
  actions on entry and exit, initial transitions and reactions to events. The locale \<open>state_machine\<close> is
  the contract of the handlers the application writes: how they report the chart to the processor.
\<close>

section \<open>Charts\<close>

text \<open>A state has dealt with an event, takes a transition to a target, or leaves it to its superstate.\<close>

datatype ('s, 'd) reaction = Handled 'd | To 's 'd | Up 'd

record ('s, 'e, 'd) chart =
  top_state :: 's
  superstate :: "'s \<Rightarrow> 's"
  on_entry :: "'s \<Rightarrow> 'd \<Rightarrow> 'd"
  on_exit :: "'s \<Rightarrow> 'd \<Rightarrow> 'd"
  on_init :: "'s \<Rightarrow> 'd \<Rightarrow> ('s \<times> 'd) option"
  on_event :: "'s \<Rightarrow> 'e \<Rightarrow> 'd \<Rightarrow> ('s, 'd) reaction"

text \<open>The state and its superstates, as far as the nesting depth reaches.\<close>

fun lineage :: "('s, 'e, 'd) chart \<Rightarrow> nat \<Rightarrow> 's \<Rightarrow> 's list" where
  "lineage c 0 s = []"
| "lineage c (Suc n) s = s # (if s = top_state c then [] else lineage c n (superstate c s))"

definition chain :: "('s, 'e, 'd) chart \<Rightarrow> 's \<Rightarrow> 's list" where
  "chain c s = lineage c QEP_MAX_NEST_DEPTH s"

definition nested :: "('s, 'e, 'd) chart \<Rightarrow> 's \<Rightarrow> bool" where
  "nested c s \<longleftrightarrow> last (chain c s) = top_state c"

text \<open>Which state reacts to an event, and how.\<close>

datatype ('s, 'd) verdict = Stays 'd | Goes 's 's 'd

fun handle :: "('s, 'e, 'd) chart \<Rightarrow> 'e \<Rightarrow> 's list \<Rightarrow> 'd \<Rightarrow> ('s, 'd) verdict" where
  "handle c e [] d = Stays d"
| "handle c e (s # ss) d =
     (if s = top_state c then Stays d
      else (case on_event c s e d of Handled d \<Rightarrow> Stays d | To g d \<Rightarrow> Goes s g d | Up d \<Rightarrow> handle c e ss d))"

text \<open>
  The state below which a transition from \<open>s\<close> to \<open>g\<close> moves: their least common superstate, which may be
  one of them; a transition from a state to itself leaves it and enters it again.
\<close>

definition common :: "('s, 'e, 'd) chart \<Rightarrow> 's \<Rightarrow> 's \<Rightarrow> 's" where
  "common c s g = (if s = g then superstate c s else hd (filter (\<lambda>x. x \<in> set (chain c g)) (chain c s)))"

definition exits :: "('s, 'e, 'd) chart \<Rightarrow> 's \<Rightarrow> 's \<Rightarrow> 'd \<Rightarrow> 'd" where
  "exits c l s d = fold (on_exit c) (takeWhile (\<lambda>x. x \<noteq> l) (chain c s)) d"

definition entries :: "('s, 'e, 'd) chart \<Rightarrow> 's \<Rightarrow> 's \<Rightarrow> 'd \<Rightarrow> 'd" where
  "entries c l g d = fold (on_entry c) (rev (takeWhile (\<lambda>x. x \<noteq> l) (chain c g))) d"

fun settle :: "('s, 'e, 'd) chart \<Rightarrow> nat \<Rightarrow> 's \<Rightarrow> 'd \<Rightarrow> 's \<times> 'd" where
  "settle c 0 s d = (s, d)"
| "settle c (Suc n) s d =
     (case on_init c s d of None \<Rightarrow> (s, d) | Some (g, d) \<Rightarrow> settle c n g (entries c s g d))"

definition chart_dispatch :: "('s, 'e, 'd) chart \<Rightarrow> 'e \<Rightarrow> 's \<times> 'd \<Rightarrow> 's \<times> 'd" where
  "chart_dispatch c e x =
     (case x of (s0, d) \<Rightarrow>
        (case handle c e (chain c s0) d of
           Stays d \<Rightarrow> (s0, d)
         | Goes s g d \<Rightarrow>
             let l = common c s g in settle c QEP_MAX_NEST_DEPTH g (entries c l g (exits c l s0 d))))"

definition chart_init :: "('s, 'e, 'd) chart \<Rightarrow> 's \<Rightarrow> 'd \<Rightarrow> 's \<times> 'd" where
  "chart_init c g d = settle c QEP_MAX_NEST_DEPTH g (entries c (top_state c) g d)"

section \<open>The tree\<close>

lemma lineage_stable: "n \<noteq> 0 \<Longrightarrow> last (lineage c n s) = top_state c \<Longrightarrow> lineage c (n + k) s = lineage c n s"
proof (induction n arbitrary: s)
  case (Suc n)
  show ?case
  proof (cases "s = top_state c")
    case False
    with Suc.prems have "n \<noteq> 0" by (cases n) auto
    moreover from this False Suc.prems have "last (lineage c n (superstate c s)) = top_state c"
      by (cases n) (auto split: if_splits)
    ultimately show ?thesis using Suc.IH [of "superstate c s"] False by simp
  qed simp
qed simp

lemma chain_top [simp]: "chain c (top_state c) = [top_state c]" "nested c (top_state c)"
  by (simp_all add: chain_def nested_def QEP_MAX_NEST_DEPTH_def numeral_eq_Suc)

lemma chain_Cons:
  assumes "nested c s" "s \<noteq> top_state c"
  shows "chain c s = s # chain c (superstate c s)" "nested c (superstate c s)"
proof -
  have c: "chain c s = s # lineage c 5 (superstate c s)"
    using assms(2) by (simp add: chain_def QEP_MAX_NEST_DEPTH_def numeral_eq_Suc)
  moreover have "lineage c 5 (superstate c s) \<noteq> []" by (simp add: numeral_eq_Suc)
  ultimately have l: "last (lineage c 5 (superstate c s)) = top_state c" using assms(1) by (simp add: nested_def)
  have "chain c (superstate c s) = lineage c (5 + 1) (superstate c s)" by (simp add: chain_def QEP_MAX_NEST_DEPTH_def)
  also have "\<dots> = lineage c 5 (superstate c s)" by (rule lineage_stable) (use l in simp_all)
  finally show "chain c s = s # chain c (superstate c s)" "nested c (superstate c s)" using c l by (simp_all add: nested_def)
qed

lemma chain_length: "length (chain c s) \<le> QEP_MAX_NEST_DEPTH"
proof -
  have "length (lineage c n s) \<le> n" for n by (induction n arbitrary: s) auto
  then show ?thesis by (simp add: chain_def)
qed

lemma nested_induct [consumes 1, case_names top sub]:
  assumes "nested c s" "P (top_state c)"
    and "\<And>s. nested c s \<Longrightarrow> s \<noteq> top_state c \<Longrightarrow> nested c (superstate c s) \<Longrightarrow>
       chain c s = s # chain c (superstate c s) \<Longrightarrow> P (superstate c s) \<Longrightarrow> P s"
  shows "P s"
  using assms(1)
proof (induction "length (chain c s)" arbitrary: s rule: less_induct)
  case less
  show ?case
  proof (cases "s = top_state c")
    case False
    note sub = chain_Cons [OF less.prems False]
    have "length (chain c (superstate c s)) < length (chain c s)" by (simp add: sub(1))
    with less.hyps sub(2) have "P (superstate c s)" by blast
    with assms(3) [OF less.prems False sub(2,1)] show ?thesis by simp
  qed (simp add: assms(2))
qed

lemma chain_ends: "nested c s \<Longrightarrow> top_state c \<in> set (chain c s)"
  by (induction rule: nested_induct) simp_all

lemma chain_self: "nested c s \<Longrightarrow> s \<in> set (chain c s)"
  by (induction rule: nested_induct) simp_all

lemma chain_hd: "chain c s = s # tl (chain c s)"
  by (simp add: chain_def QEP_MAX_NEST_DEPTH_def numeral_eq_Suc)

lemma chain_mem:
  assumes "nested c s" "x \<in> set (chain c s)"
  shows "nested c x \<and> set (chain c x) \<subseteq> set (chain c s) \<and> length (chain c x) \<le> length (chain c s)"
  using assms
proof (induction rule: nested_induct)
  case (sub s)
  then show ?case by (cases "x = s") auto
qed simp

lemma chain_distinct: "nested c s \<Longrightarrow> distinct (chain c s)"
proof (induction rule: nested_induct)
  case (sub s)
  have "s \<notin> set (chain c (superstate c s))"
  proof
    assume "s \<in> set (chain c (superstate c s))"
    from chain_mem [OF sub(3) this] sub(4) show False by simp
  qed
  with sub show ?case by simp
qed simp

lemma chain_step:
  assumes "nested c s" "Suc i < length (chain c s)"
  shows "nested c (chain c s ! i) \<and> chain c s ! i \<noteq> top_state c \<and> superstate c (chain c s ! i) = chain c s ! Suc i"
  using assms
proof (induction arbitrary: i rule: nested_induct)
  case (sub s)
  show ?case
  proof (cases i)
    case 0
    then show ?thesis using sub chain_hd [of c "superstate c s"] by (metis nth_Cons_0 nth_Cons_Suc)
  next
    case (Suc j)
    with sub show ?thesis by simp
  qed
qed simp

lemma chain_last: "nested c s \<Longrightarrow> chain c s ! (length (chain c s) - 1) = top_state c"
  by (metis chain_hd last_conv_nth list.distinct(1) nested_def)

lemma below_self [simp]: "takeWhile (\<lambda>x. x \<noteq> s) (chain c s) = []"
  by (subst chain_hd) simp

lemma takeWhile_take:
  assumes "distinct xs" "i < length xs"
  shows "takeWhile (\<lambda>x. x \<noteq> xs ! i) xs = take i xs"
  using assms by (intro takeWhile_eq_take_P_nth) (auto simp: nth_eq_iff_index_eq)

section \<open>The path\<close>

text \<open>While the way is sought, the first \<open>n + 1\<close> elements of the path are the target and its superstates.\<close>

definition holds :: "'s cbuf \<Rightarrow> 's list \<Rightarrow> nat \<Rightarrow> bool" where
  "holds path xs n \<longleftrightarrow> length path = QEP_MAX_NEST_DEPTH \<and> n < length xs \<and> (\<forall>i \<le> n. path ! i = Some (xs ! i))"

text \<open>When it is found, the first \<open>m\<close> elements of the path are the states to be entered, the innermost first.\<close>

definition ready :: "('s, 'e, 'd) chart \<Rightarrow> 's cbuf \<Rightarrow> 's \<Rightarrow> 's \<Rightarrow> int \<Rightarrow> bool" where
  "ready c path g l ip \<longleftrightarrow> length path = QEP_MAX_NEST_DEPTH \<and> nat (ip + 1) \<le> length (chain c g) \<and>
     (\<forall>i < nat (ip + 1). path ! i = Some (chain c g ! i)) \<and> takeWhile (\<lambda>x. x \<noteq> l) (chain c g) = take (nat (ip + 1)) (chain c g)"

section \<open>The contract of the handlers\<close>

text \<open>
  A handler names its superstate for the empty event and whenever it has nothing to do for another
  reserved one; it may say either on entry and exit, after acting. Initial transitions lead downwards.
\<close>

locale state_machine =
  fixes h :: "('s, 'e, 'd) handlers" and c :: "('s, 'e, 'd) chart"
  assumes top_ignores: "h (top_state c) sig x = Some (Q_RET_IGNORED, x)"
    and empty_super: "nested c s \<Longrightarrow> s \<noteq> top_state c \<Longrightarrow> h s QEP_EMPTY (t, d) = Some (Q_RET_SUPER, superstate c s, d)"
    and entry_acts: "nested c s \<Longrightarrow> s \<noteq> top_state c \<Longrightarrow> \<exists>r t'. h s QEP_ENTRY (t, d) = Some (r, t', on_entry c s d)"
    and exit_acts: "nested c s \<Longrightarrow> s \<noteq> top_state c \<Longrightarrow>
       (\<exists>t'. h s QEP_EXIT (t, d) = Some (Q_RET_HANDLED, t', on_exit c s d)) \<or>
       h s QEP_EXIT (t, d) = Some (Q_RET_SUPER, superstate c s, on_exit c s d)"
    and init_none: "nested c s \<Longrightarrow> s \<noteq> top_state c \<Longrightarrow> on_init c s d = None \<Longrightarrow>
       \<exists>r t'. h s QEP_INIT (t, d) = Some (r, t', d) \<and> r \<noteq> Q_RET_TRAN"
    and init_some: "nested c s \<Longrightarrow> s \<noteq> top_state c \<Longrightarrow> on_init c s d = Some (g, d') \<Longrightarrow>
       h s QEP_INIT (t, d) = Some (Q_RET_TRAN, g, d') \<and> nested c g \<and> g \<noteq> s \<and> s \<in> set (chain c g)"
    and event_handled: "nested c s \<Longrightarrow> s \<noteq> top_state c \<Longrightarrow> on_event c s e d = Handled d' \<Longrightarrow>
       \<exists>t'. h s (User e) (t, d) = Some (Q_RET_HANDLED, t', d')"
    and event_tran: "nested c s \<Longrightarrow> s \<noteq> top_state c \<Longrightarrow> on_event c s e d = To g d' \<Longrightarrow>
       h s (User e) (t, d) = Some (Q_RET_TRAN, g, d') \<and> nested c g \<and> g \<noteq> top_state c"
    and event_up: "nested c s \<Longrightarrow> s \<noteq> top_state c \<Longrightarrow> on_event c s e d = Up d' \<Longrightarrow>
       h s (User e) (t, d) = Some (Q_RET_SUPER, superstate c s, d') \<or> (\<exists>t'. h s (User e) (t, d) = Some (Q_RET_UNHANDLED, t', d'))"
begin

lemma trig_empty: "nested c s \<Longrightarrow> s \<noteq> top_state c \<Longrightarrow> trig h s QEP_EMPTY (t, d) = Some (superstate c s, d)"
  by (simp add: trig_def empty_super)

lemma trig_exit: "nested c s \<Longrightarrow> s \<noteq> top_state c \<Longrightarrow> \<exists>t'. trig h s QEP_EXIT (t, d) = Some (t', on_exit c s d)"
  using exit_acts [of s t d] by (auto simp: trig_def)

lemma trig_entry: "nested c s \<Longrightarrow> s \<noteq> top_state c \<Longrightarrow> \<exists>t'. trig h s QEP_ENTRY (t, d) = Some (t', on_entry c s d)"
  using entry_acts [of s t d] by (auto simp: trig_def)

lemma leave_state: "nested c s \<Longrightarrow> s \<noteq> top_state c \<Longrightarrow> leave h s (t, d) = Some (superstate c s, on_exit c s d)"
  using exit_acts [of s t d] trig_empty [of s] by (auto simp: leave_def)

subsection \<open>Who reacts\<close>

lemma offer_stays:
  assumes "nested c s" "handle c e (chain c s) d = Stays d'"
  shows "\<exists>r s' t'. offer h (User e) (s, d) = Some (r, s', t', d') \<and> r \<noteq> Q_RET_TRAN"
  using assms
proof (induction arbitrary: d rule: nested_induct)
  case top
  then show ?case by (subst offer.simps) (simp add: top_ignores Let_def)
next
  case (sub s)
  show ?case
  proof (cases "on_event c s e d")
    case (Handled d1)
    with sub event_handled [of s e d d1 s] show ?thesis by (subst offer.simps) (auto simp: Let_def)
  next
    case (To g d1)
    with sub show ?thesis by simp
  next
    case (Up d1)
    with sub have "handle c e (chain c (superstate c s)) d1 = Stays d'" by simp
    with sub.IH obtain r s' t' where "offer h (User e) (superstate c s, d1) = Some (r, s', t', d')" "r \<noteq> Q_RET_TRAN" by blast
    with event_up [OF sub(1,2) Up, of s] empty_super [OF sub(1,2)] show ?thesis by (subst offer.simps) (auto simp: Let_def)
  qed
qed

lemma offer_goes:
  assumes "nested c s0" "handle c e (chain c s0) d = Goes s g d'"
  shows "offer h (User e) (s0, d) = Some (Q_RET_TRAN, s, g, d') \<and> s \<in> set (chain c s0) \<and> s \<noteq> top_state c \<and>
     nested c g \<and> g \<noteq> top_state c"
  using assms
proof (induction arbitrary: d rule: nested_induct)
  case (sub s0)
  show ?case
  proof (cases "on_event c s0 e d")
    case (To g1 d1)
    with sub have "s = s0" "g1 = g" "d1 = d'" by simp_all
    with sub To event_tran [of s0 e d g d' s0] show ?thesis by (subst offer.simps) (auto simp: Let_def)
  next
    case (Up d1)
    with sub have "handle c e (chain c (superstate c s0)) d1 = Goes s g d'" by simp
    with sub.IH have ih: "offer h (User e) (superstate c s0, d1) = Some (Q_RET_TRAN, s, g, d')"
      "s \<in> set (chain c (superstate c s0))" "s \<noteq> top_state c" "nested c g" "g \<noteq> top_state c" by blast+
    with sub event_up [OF sub(1,2) Up, of s0] empty_super [OF sub(1,2)] show ?thesis by (subst offer.simps) (auto simp: Let_def)
  qed (use sub in simp)
qed simp

subsection \<open>Leaving\<close>

lemma leave_to_source:
  assumes "nested c t" "s \<in> set (chain c t)"
  shows "\<exists>t'. leave_to h s t (t0, d) = Some (t', exits c s t d)"
  using assms
proof (induction arbitrary: t0 d rule: nested_induct)
  case top
  then show ?case by (subst leave_to.simps) (simp add: exits_def)
next
  case (sub t)
  show ?case
  proof (cases "t = s")
    case True
    with sub show ?thesis by (subst leave_to.simps) (simp add: exits_def)
  next
    case False
    with sub have "s \<in> set (chain c (superstate c t))" by simp
    from sub.IH [OF this, of "superstate c t" "on_exit c t d"] False sub leave_state [of t t0 d]
    show ?thesis by (subst leave_to.simps) (simp add: exits_def)
  qed
qed

lemma common_other:
  assumes "nested c s" "nested c g" "s \<noteq> g"
  shows "common c s g \<in> set (chain c s)" "common c s g \<in> set (chain c g)"
proof -
  have "top_state c \<in> set (filter (\<lambda>x. x \<in> set (chain c g)) (chain c s))"
    using chain_ends [OF assms(1)] chain_ends [OF assms(2)] by simp
  then have "hd (filter (\<lambda>x. x \<in> set (chain c g)) (chain c s)) \<in> set (filter (\<lambda>x. x \<in> set (chain c g)) (chain c s))"
    by (intro hd_in_set) (metis empty_iff list.set(1))
  with assms(3) show "common c s g \<in> set (chain c s)" "common c s g \<in> set (chain c g)"
    by (simp_all add: common_def)
qed

lemma exits_split:
  assumes "nested c t" "s \<in> set (chain c t)" "l \<in> set (chain c s)" "l \<notin> set (takeWhile (\<lambda>x. x \<noteq> s) (chain c t))"
  shows "exits c l s (exits c s t d) = exits c l t d"
  using assms
proof (induction arbitrary: d rule: nested_induct)
  case (sub t)
  show ?case
  proof (cases "t = s")
    case False
    then have s: "s \<in> set (chain c (superstate c t))" "l \<noteq> t" "l \<notin> set (takeWhile (\<lambda>x. x \<noteq> s) (chain c (superstate c t)))"
      using sub.prems sub(4) by simp_all
    from sub.IH [OF s(1) sub.prems(2) s(3), of "on_exit c t d"] False s(2) sub(4) show ?thesis by (simp add: exits_def)
  qed (simp add: exits_def)
qed (simp add: exits_def)

text \<open>A superstate of the source is not below it.\<close>

lemma below_source:
  assumes "nested c t" "s \<in> set (chain c t)" "l \<in> set (chain c s)"
  shows "l \<notin> set (takeWhile (\<lambda>x. x \<noteq> s) (chain c t))"
  using assms
proof (induction rule: nested_induct)
  case (sub t)
  show ?case
  proof (cases "t = s")
    case False
    with sub have s: "s \<in> set (chain c (superstate c t))" by simp
    have "l \<noteq> t"
    proof
      assume "l = t"
      from chain_mem [OF sub(3) s] sub.prems(2) have "t \<in> set (chain c (superstate c t))" using \<open>l = t\<close> by blast
      with chain_distinct [OF sub(1)] sub(4) show False by simp
    qed
    with False sub s show ?thesis by simp
  qed simp
qed simp


subsection \<open>The path\<close>

lemma holds_rd: "holds path xs n \<Longrightarrow> length xs \<le> QEP_MAX_NEST_DEPTH \<Longrightarrow> i \<le> n \<Longrightarrow> rd path (int i) = Some (xs ! i)"
  by (simp add: holds_def rd_def)

lemma holds_wr:
  assumes "holds path xs n" "Suc n < length xs" "length xs \<le> QEP_MAX_NEST_DEPTH"
  shows "\<exists>path'. wr path (int n + 1) (xs ! Suc n) = Some path' \<and> holds path' xs (Suc n)"
proof -
  have "nat (int n + 1) = Suc n" by simp
  then show ?thesis using assms by (auto simp: holds_def wr_def nth_list_update le_Suc_eq)
qed

lemma scan_found:
  assumes "holds path xs n" "length xs \<le> QEP_MAX_NEST_DEPTH" "distinct xs" "i \<le> n"
  shows "scan (xs ! i) path n = Some (Some i)"
  using assms
proof (induction n)
  case 0
  then show ?case using holds_rd [OF 0(1,2), of 0] by simp
next
  case (Suc n)
  have prev: "holds path xs n" using Suc.prems(1) by (simp add: holds_def)
  have rd: "rd path (int (Suc n)) = Some (xs ! Suc n)" using holds_rd [OF Suc.prems(1,2)] by blast
  show ?case
  proof (cases "i = Suc n")
    case False
    then have "i \<le> n" using Suc.prems(4) by simp
    moreover have "xs ! i \<noteq> xs ! Suc n"
      using False Suc.prems nth_eq_iff_index_eq [OF Suc.prems(3), of i "Suc n"] by (simp add: holds_def)
    ultimately show ?thesis using Suc.IH [OF prev Suc.prems(2,3)] rd by (simp del: of_nat_Suc)
  qed (use rd in \<open>simp del: of_nat_Suc\<close>)
qed

lemma scan_missing:
  assumes "holds path xs n" "length xs \<le> QEP_MAX_NEST_DEPTH" "t \<notin> set (take (Suc n) xs)"
  shows "scan t path n = Some None"
  using assms
proof (induction n)
  case 0
  then show ?case using holds_rd [OF 0(1,2), of 0] by (auto simp: holds_def take_Suc_conv_app_nth)
next
  case (Suc n)
  have prev: "holds path xs n" using Suc.prems(1) by (simp add: holds_def)
  have rd: "rd path (int (Suc n)) = Some (xs ! Suc n)" using holds_rd [OF Suc.prems(1,2)] by blast
  have "take (Suc (Suc n)) xs = take (Suc n) xs @ [xs ! Suc n]"
    using Suc.prems(1) by (simp add: holds_def take_Suc_conv_app_nth)
  with Suc.prems(3) have "t \<notin> set (take (Suc n) xs)" "t \<noteq> xs ! Suc n" by auto
  then show ?case using Suc.IH [OF prev Suc.prems(2)] rd by (simp del: of_nat_Suc)
qed

lemma climb_finds:
  assumes "nested c g" "holds path (chain c g) k" "k < i" "i < length (chain c g)"
  shows "\<exists>path'. climb ret h (chain c g ! i) Q_RET_SUPER (int k) path (chain c g ! Suc k, d) = Some (True, int i - 1, path', chain c g ! i, d) \<and>
     holds path' (chain c g) i"
  using assms
proof (induction "i - k" arbitrary: k path)
  case 0
  then show ?case by simp
next
  case (Suc n)
  note len = chain_length [of c g]
  obtain path1 where p: "wr path (int k + 1) (chain c g ! Suc k) = Some path1" "holds path1 (chain c g) (Suc k)"
    using holds_wr [OF Suc.prems(2) _ len] Suc.prems(3,4) by auto
  show ?case
  proof (cases "Suc k = i")
    case True
    then show ?thesis using p Suc.prems(4) len by (subst climb.simps) auto
  next
    case False
    have step: "nested c (chain c g ! Suc k)" "chain c g ! Suc k \<noteq> top_state c"
      "superstate c (chain c g ! Suc k) = chain c g ! Suc (Suc k)"
      using chain_step [OF Suc.prems(1), of "Suc k"] False Suc.prems(3,4) by simp_all
    have "chain c g ! Suc k \<noteq> chain c g ! i"
      using nth_eq_iff_index_eq [OF chain_distinct [OF Suc.prems(1)], of "Suc k" i] False Suc.prems(3,4) by simp
    moreover obtain path' where "climb ret h (chain c g ! i) Q_RET_SUPER (int (Suc k)) path1 (chain c g ! Suc (Suc k), d)
        = Some (True, int i - 1, path', chain c g ! i, d)" "holds path' (chain c g) i"
    proof -
      have "n = i - Suc k" "Suc k < i" using Suc.hyps(2) False Suc.prems(3) by simp_all
      from Suc.hyps(1) [OF this(1) Suc.prems(1) p(2) this(2) Suc.prems(4)] show thesis by (blast intro: that)
    qed
    ultimately show ?thesis
      using p(1) empty_super [OF step(1,2)] step(3) by (subst climb.simps) (simp add: add.commute)
  qed
qed

lemma climb_to_top:
  assumes "nested c g" "holds path (chain c g) k" "s \<notin> set (drop (Suc k) (chain c g))"
  defines "n \<equiv> length (chain c g) - 1"
  shows "\<exists>path' t'. climb ret h s (if k < n then Q_RET_SUPER else Q_RET_IGNORED) (int k) path
       (if k < n then chain c g ! Suc k else t, d) = Some (False, int n, path', t', d) \<and> holds path' (chain c g) n"
  using assms(1-3)
proof (induction "n - k" arbitrary: k path t)
  case 0
  then have "k = n" unfolding n_def holds_def by linarith
  then show ?case using 0 by (subst climb.simps) simp
next
  case (Suc m)
  note len = chain_length [of c g]
  have k: "k < n" "Suc k < length (chain c g)" using Suc.hyps(2) by (simp_all add: n_def)
  obtain path1 where p: "wr path (int k + 1) (chain c g ! Suc k) = Some path1" "holds path1 (chain c g) (Suc k)"
    using holds_wr [OF Suc.prems(2) k(2) len] by auto
  have drop: "drop (Suc k) (chain c g) = chain c g ! Suc k # drop (Suc (Suc k)) (chain c g)"
    using k(2) by (simp add: Cons_nth_drop_Suc)
  then have ns: "chain c g ! Suc k \<noteq> s" "s \<notin> set (drop (Suc (Suc k)) (chain c g))" using Suc.prems(3) by auto
  have "\<exists>path' t'. climb ret h s (if Suc k < n then Q_RET_SUPER else Q_RET_IGNORED) (int (Suc k)) path1
       (if Suc k < n then chain c g ! Suc (Suc k) else chain c g ! Suc k, d) = Some (False, int n, path', t', d) \<and> holds path' (chain c g) n"
    using Suc.hyps(1) [of "Suc k" path1 "chain c g ! Suc k"] Suc.hyps(2) Suc.prems(1) p(2) ns(2) by simp
  then obtain path' t' where ih: "climb ret h s (if Suc k < n then Q_RET_SUPER else Q_RET_IGNORED) (int (Suc k)) path1
       (if Suc k < n then chain c g ! Suc (Suc k) else chain c g ! Suc k, d) = Some (False, int n, path', t', d)"
    "holds path' (chain c g) n" by blast
  have "h (chain c g ! Suc k) QEP_EMPTY (chain c g ! Suc k, d)
      = Some (if Suc k < n then Q_RET_SUPER else Q_RET_IGNORED, if Suc k < n then chain c g ! Suc (Suc k) else chain c g ! Suc k, d)"
  proof (cases "Suc k < n")
    case True
    then show ?thesis using chain_step [OF Suc.prems(1), of "Suc k"] empty_super [of "chain c g ! Suc k"] by (simp add: n_def)
  next
    case False
    then have "Suc k = length (chain c g) - 1" using k by (simp add: n_def)
    then show ?thesis using chain_last [OF Suc.prems(1)] top_ignores False by simp
  qed
  then show ?case using k(1) p(1) ns(1) ih by (subst climb.simps) (simp add: add.commute)
qed

lemma leave_to_found:
  assumes "nested c t" "t \<noteq> top_state c" "nested c g" "t \<notin> set (chain c g)" "holds path (chain c g) (length (chain c g) - 1)"
  defines "l \<equiv> hd (filter (\<lambda>x. x \<in> set (chain c g)) (chain c t))"
  shows "\<exists>i. i < length (chain c g) \<and> chain c g ! i = l \<and>
     leave_to_path h t (length (chain c g) - 1) path (t0, d) = Some (int i - 1, l, exits c l t d)"
  unfolding l_def using assms(1-5)
proof (induction arbitrary: t0 d rule: nested_induct)
  case (sub t)
  let ?n = "length (chain c g) - 1"
  have len: "length (chain c g) \<le> QEP_MAX_NEST_DEPTH" by (rule chain_length)
  have leave: "leave h t (t0, d) = Some (superstate c t, on_exit c t d)" using leave_state sub(1,2) by blast
  have flt: "filter (\<lambda>x. x \<in> set (chain c g)) (chain c t) = filter (\<lambda>x. x \<in> set (chain c g)) (chain c (superstate c t))"
    using sub(4) sub.prems(3) by simp
  show ?case
  proof (cases "superstate c t \<in> set (chain c g)")
    case True
    then obtain i where i: "i < length (chain c g)" "chain c g ! i = superstate c t" by (auto simp: in_set_conv_nth)
    have "scan (superstate c t) path ?n = Some (Some i)"
      using scan_found [OF sub.prems(4) len chain_distinct [OF sub.prems(2)], of i] i by simp
    moreover have "hd (filter (\<lambda>x. x \<in> set (chain c g)) (chain c (superstate c t))) = superstate c t"
      using True by (subst chain_hd) simp
    moreover have "exits c (superstate c t) t d = on_exit c t d"
    proof -
      have "t \<noteq> superstate c t" using True sub.prems(3) by metis
      then show ?thesis using sub(4) by (simp add: exits_def)
    qed
    ultimately show ?thesis using i leave flt by (subst leave_to_path.simps) auto
  next
    case False
    have "set (take (Suc ?n) (chain c g)) = set (chain c g)"
      using chain_hd [of c g] by (metis One_nat_def Suc_pred length_greater_0_conv list.distinct(1) order_refl take_all)
    with False have "scan (superstate c t) path ?n = Some None" using scan_missing [OF sub.prems(4) len] by simp
    moreover have "superstate c t \<noteq> top_state c" using False chain_ends [OF sub.prems(2)] by metis
    from sub.IH [OF this sub.prems(2) False sub.prems(4), of "superstate c t" "on_exit c t d"] obtain i where
      i: "i < length (chain c g)" "chain c g ! i = hd (filter (\<lambda>x. x \<in> set (chain c g)) (chain c (superstate c t)))"
      "leave_to_path h (superstate c t) ?n path (superstate c t, on_exit c t d)
       = Some (int i - 1, chain c g ! i, exits c (chain c g ! i) (superstate c t) (on_exit c t d))" by auto
    moreover have "exits c (chain c g ! i) (superstate c t) (on_exit c t d) = exits c (chain c g ! i) t d"
    proof -
      have "t \<noteq> chain c g ! i" using i(1) sub.prems(3) by auto
      then show ?thesis using sub(4) by (simp add: exits_def)
    qed
    ultimately show ?thesis using leave flt by (intro exI [of _ i]) (subst leave_to_path.simps, simp)
  qed
qed simp

lemma below_super: "nested c s \<Longrightarrow> s \<noteq> top_state c \<Longrightarrow> takeWhile (\<lambda>x. x \<noteq> superstate c s) (chain c s) = [s]"
proof -
  assume s: "nested c s" "s \<noteq> top_state c"
  note up = chain_Cons [OF s]
  have "s \<notin> set (chain c (superstate c s))" using chain_distinct [OF s(1)] unfolding up(1) by simp
  then have "s \<noteq> superstate c s" using chain_self [OF up(2)] by metis
  then show ?thesis using up(1) by simp
qed

lemma common_source: "nested c s \<Longrightarrow> s \<noteq> g \<Longrightarrow> s \<in> set (chain c g) \<Longrightarrow> common c s g = s"
  by (subst common_def) (subst chain_hd, simp)

lemma common_above:
  assumes "nested c s" "s \<noteq> top_state c" "s \<notin> set (chain c g)" "nested c g"
  shows "common c s g = hd (filter (\<lambda>x. x \<in> set (chain c g)) (chain c (superstate c s)))"
    and "superstate c s \<in> set (chain c g) \<Longrightarrow> common c s g = superstate c s"
    and "l \<in> set (chain c g) \<Longrightarrow> exits c l (superstate c s) (on_exit c s d) = exits c l s d"
proof -
  have "s \<noteq> g" using assms(3) chain_self [OF assms(4)] by blast
  then show up: "common c s g = hd (filter (\<lambda>x. x \<in> set (chain c g)) (chain c (superstate c s)))"
    using assms chain_Cons(1) [OF assms(1,2)] by (simp add: common_def)
  show "common c s g = superstate c s" if "superstate c s \<in> set (chain c g)"
    unfolding up using that by (subst chain_hd) simp
  show "exits c l (superstate c s) (on_exit c s d) = exits c l s d" if "l \<in> set (chain c g)"
    using that assms(3) chain_Cons(1) [OF assms(1,2)] by (auto simp: exits_def)
qed

lemma ready_first:
  assumes "holds path (chain c g) 0" "takeWhile (\<lambda>x. x \<noteq> l) (chain c g) = [g]"
  shows "ready c path g l 0"
proof -
  have "take 1 (chain c g) = [g]" "chain c g \<noteq> []" using chain_hd [of c g] by (metis One_nat_def take0 take_Suc_Cons, metis list.distinct(1))
  then show ?thesis using assms by (simp add: ready_def holds_def Suc_le_eq)
qed

lemma ready_index:
  assumes "holds path (chain c g) n" "nested c g" "i \<le> Suc n" "i < length (chain c g)"
  shows "ready c path g (chain c g ! i) (int i - 1)"
  using assms takeWhile_take [OF chain_distinct [OF assms(2)] assms(4)] by (auto simp: ready_def holds_def)

lemma far_path:
  assumes "nested c s" "s \<noteq> top_state c" "nested c g" "g \<noteq> top_state c" "holds path (chain c g) 0"
    and "s \<noteq> g" "s \<noteq> superstate c g" "superstate c s \<noteq> superstate c g" "superstate c s \<noteq> g"
  shows "\<exists>ip path' t'. tran_path ret h s g path (t, d) = Some (ip, path', t', exits c (common c s g) s d) \<and>
     ready c path' g (common c s g) ip"
proof -
  let ?n = "length (chain c g) - 1" and ?up = "superstate c s"
  note sup_s = chain_Cons [OF assms(1,2)] and sup_g = chain_Cons [OF assms(3,4)]
  have len: "length (chain c g) \<le> QEP_MAX_NEST_DEPTH" by (rule chain_length)
  have one: "Suc 0 < length (chain c g)" "chain c g ! 1 = superstate c g" "chain c g ! 0 = g"
  proof -
    obtain rest where "chain c (superstate c g) = superstate c g # rest" by (rule that [OF chain_hd])
    then show "Suc 0 < length (chain c g)" "chain c g ! 1 = superstate c g" "chain c g ! 0 = g" using sup_g(1) by simp_all
  qed
  obtain path1 where p1: "wr path 1 (superstate c g) = Some path1" "holds path1 (chain c g) 1"
    using holds_wr [OF assms(5) _ len] one by auto
  have e1: "trig h g QEP_EMPTY (t, d) = Some (superstate c g, d)" using trig_empty assms(3,4) by blast
  have e2: "trig h s QEP_EMPTY (t', d) = Some (?up, d)" for t' using trig_empty assms(1,2) by blast
  have e3: "h (superstate c g) QEP_EMPTY (?up, d) = Some (if 1 < ?n then Q_RET_SUPER else Q_RET_IGNORED,
      if 1 < ?n then chain c g ! Suc 1 else ?up, d)"
  proof (cases "1 < ?n")
    case True
    then show ?thesis using chain_step [OF assms(3), of 1] one empty_super [of "superstate c g" ?up d] by simp
  next
    case False
    then have "?n = 1" using one(1) by simp
    then show ?thesis using chain_last [OF assms(3)] one(2) top_ignores by simp
  qed
  show ?thesis
  proof (cases "s \<in> set (chain c g)")
    case True
    then obtain i where i: "i < length (chain c g)" "chain c g ! i = s" by (auto simp: in_set_conv_nth)
    then have "i \<noteq> 0" "i \<noteq> 1" using one(2,3) assms(6,7) by metis+
    then have "1 < i" "1 < ?n" using i(1) by simp_all
    with climb_finds [OF assms(3) p1(2), of i ret d] i obtain path2 where
      "climb ret h s Q_RET_SUPER 1 path1 (chain c g ! Suc 1, d) = Some (True, int i - 1, path2, s, d)" "holds path2 (chain c g) i" by auto
    moreover have "ready c path2 g s (int i - 1)" using ready_index [OF calculation(2) assms(3) _ i(1)] i(2) by simp
    ultimately show ?thesis
      using assms e1 e2 e3 p1(1) common_source [OF assms(1,6) True] \<open>1 < ?n\<close>
      by (auto simp: tran_path_def Let_def exits_def)
  next
    case False
    then have "s \<notin> set (drop (Suc 1) (chain c g))" by (meson in_set_dropD)
    from climb_to_top [OF assms(3) p1(2) this, of ret ?up d] obtain path2 t2 where
      c2: "climb ret h s (if 1 < ?n then Q_RET_SUPER else Q_RET_IGNORED) 1 path1 (if 1 < ?n then chain c g ! Suc 1 else ?up, d)
         = Some (False, int ?n, path2, t2, d)" "holds path2 (chain c g) ?n" by auto
    obtain t3 where x: "trig h s QEP_EXIT (t2, d) = Some (t3, on_exit c s d)" using trig_exit [OF assms(1,2)] by blast
    have n: "int ?n < int QEP_MAX_NEST_DEPTH" "nat (int (length (chain c g)) - 1) = length (chain c g) - Suc 0"
      using len one(1) by simp_all
    note above = common_above [OF assms(1,2) False assms(3)]
    show ?thesis
    proof (cases "?up \<in> set (chain c g)")
      case True
      then obtain i where i: "i < length (chain c g)" "chain c g ! i = ?up" by (auto simp: in_set_conv_nth)
      have "scan ?up path2 ?n = Some (Some i)"
        using scan_found [OF c2(2) len chain_distinct [OF assms(3)], of i] i by simp
      moreover have "ready c path2 g ?up (int i - 1)" using ready_index [OF c2(2) assms(3) _ i(1)] i by simp
      moreover have "exits c ?up s d = on_exit c s d" using below_super [OF assms(1,2)] by (simp add: exits_def)
      ultimately show ?thesis
        using assms e1 e2 e3 p1(1) c2(1) x n above(2) [OF True] by (auto simp: tran_path_def Let_def)
    next
      case no: False
      have "set (take (Suc ?n) (chain c g)) = set (chain c g)" using one(1) by simp
      then have "scan ?up path2 ?n = Some None" using scan_missing [OF c2(2) len] no by simp
      moreover have "?up \<noteq> top_state c" using no chain_ends [OF assms(3)] by metis
      from leave_to_found [OF sup_s(2) this assms(3) no c2(2), of t3 "on_exit c s d"] obtain i where
        i: "i < length (chain c g)" "chain c g ! i = common c s g"
        "leave_to_path h ?up ?n path2 (t3, on_exit c s d) = Some (int i - 1, common c s g, exits c (common c s g) ?up (on_exit c s d))"
        unfolding above(1) by blast
      moreover have "ready c path2 g (common c s g) (int i - 1)" using ready_index [OF c2(2) assms(3) _ i(1)] i by simp
      moreover have "exits c (common c s g) ?up (on_exit c s d) = exits c (common c s g) s d"
        using above(3) i(1,2) nth_mem by metis
      ultimately show ?thesis
        using assms e1 e2 e3 p1(1) c2(1) x n by (auto simp: tran_path_def Let_def)
    qed
  qed
qed

lemma tran_path_way:
  assumes "nested c s" "s \<noteq> top_state c" "nested c g" "g \<noteq> top_state c" "holds path (chain c g) 0"
  shows "\<exists>ip path' t'. tran_path ret h s g path (t, d) = Some (ip, path', t', exits c (common c s g) s d) \<and>
     ready c path' g (common c s g) ip"
proof (cases "s = g")
  case True
  have "exits c (superstate c s) s d = on_exit c s d" using below_super [OF assms(1,2)] by (simp add: exits_def)
  moreover have "ready c path g (superstate c g) 0" using ready_first [OF assms(5) below_super [OF assms(3,4)]] .
  ultimately show ?thesis
    using True trig_exit [OF assms(1,2), of t d] by (auto simp: tran_path_def common_def)
next
  case ne: False
  note sup_s = chain_Cons [OF assms(1,2)] and sup_g = chain_Cons [OF assms(3,4)]
  have e1: "trig h g QEP_EMPTY (t, d) = Some (superstate c g, d)" using trig_empty assms(3,4) by blast
  have e2: "trig h s QEP_EMPTY (t', d') = Some (superstate c s, d')" for t' d' using trig_empty assms(1,2) by blast
  show ?thesis
  proof (cases "s = superstate c g")
    case True
    then have "s \<in> set (chain c g)" using sup_g chain_self [OF sup_g(2)] by simp
    note com = common_source [OF assms(1) ne this]
    have "ready c path g s 0" using ready_first [OF assms(5)] below_super [OF assms(3,4)] True by simp
    then show ?thesis using True ne e1 com by (auto simp: tran_path_def exits_def Let_def)
  next
    case nb: False
    show ?thesis
    proof (cases "superstate c s = superstate c g")
      case True
      have "s \<notin> set (chain c g)"
        using ne True sup_s(1) sup_g(1) chain_distinct [OF assms(1)] by auto
      moreover have "superstate c s \<in> set (chain c g)" using True sup_g chain_self [OF sup_g(2)] by simp
      ultimately have com: "common c s g = superstate c s" using common_above(2) assms by blast
      have "ready c path g (superstate c s) 0" using ready_first [OF assms(5)] below_super [OF assms(3,4)] True by simp
      moreover obtain t' where "trig h s QEP_EXIT (superstate c s, d) = Some (t', on_exit c s d)"
        using trig_exit [OF assms(1,2)] by blast
      ultimately show ?thesis
        using True ne nb e1 e2 com below_super [OF assms(1,2)] by (auto simp: tran_path_def exits_def Let_def)
    next
      case nc: False
      show ?thesis
      proof (cases "superstate c s = g")
        case True
        have "s \<notin> set (chain c g)" using True sup_s(1) chain_distinct [OF assms(1)] by auto
        moreover have "superstate c s \<in> set (chain c g)" using True chain_self [OF assms(3)] by simp
        ultimately have com: "common c s g = superstate c s" using common_above(2) assms by blast
        have "ready c path g g (- 1)" using assms(5) by (simp add: ready_def holds_def)
        moreover obtain t' where "trig h s QEP_EXIT (superstate c s, d) = Some (t', on_exit c s d)"
          using trig_exit [OF assms(1,2)] by blast
        ultimately show ?thesis
          using True ne nb nc e1 e2 com below_super [OF assms(1,2)] by (auto simp: tran_path_def exits_def Let_def)
      next
        case nd: False
        show ?thesis using far_path [OF assms ne nb nc nd] .
      qed
    qed
  qed
qed

subsection \<open>Entering\<close>

lemma enter_states:
  assumes "nested c g" "m \<le> length (chain c g)" "top_state c \<notin> set (take m (chain c g))"
    "\<forall>i < m. path ! i = Some (chain c g ! i)" "length path = QEP_MAX_NEST_DEPTH"
  shows "\<exists>t'. enter_path h path m (t, d) = Some (t', fold (on_entry c) (rev (take m (chain c g))) d)"
  using assms
proof (induction m arbitrary: t d)
  case (Suc m)
  have take: "take (Suc m) (chain c g) = take m (chain c g) @ [chain c g ! m]"
    using Suc.prems(2) by (simp add: take_Suc_conv_app_nth)
  have mem: "chain c g ! m \<in> set (chain c g)" using Suc.prems(2) by simp
  have st: "nested c (chain c g ! m)" "chain c g ! m \<noteq> top_state c"
    using chain_mem [OF Suc.prems(1) mem] Suc.prems(3) take by auto
  have "m < QEP_MAX_NEST_DEPTH" using Suc.prems(2) chain_length [of c g] by simp
  then have rd: "rd path (int m) = Some (chain c g ! m)" using Suc.prems(4,5) by (simp add: rd_def)
  obtain t1 where t1: "trig h (chain c g ! m) QEP_ENTRY (t, d) = Some (t1, on_entry c (chain c g ! m) d)"
    using trig_entry [OF st] by blast
  have "\<exists>t'. enter_path h path m (t1, on_entry c (chain c g ! m) d)
      = Some (t', fold (on_entry c) (rev (take m (chain c g))) (on_entry c (chain c g ! m) d))"
    using Suc.IH [of t1 "on_entry c (chain c g ! m) d"] Suc.prems take by simp
  then show ?case using rd t1 take by simp
qed simp

lemma below_not_top:
  assumes "nested c g" "l \<in> set (chain c g)"
  shows "top_state c \<notin> set (takeWhile (\<lambda>x. x \<noteq> l) (chain c g))"
proof -
  have "nested c l" using chain_mem [OF assms] by simp
  from below_source [OF assms chain_ends [OF this]] show ?thesis .
qed

lemma enter_ready:
  assumes "nested c g" "l \<in> set (chain c g)" "ready c path g l ip"
  shows "\<exists>t'. enter_path h path (nat (ip + 1)) (t, d) = Some (t', entries c l g d)"
  using enter_states [OF assms(1), of "nat (ip + 1)" path t d] assms(3) below_not_top [OF assms(1,2)]
  by (simp add: ready_def entries_def)

subsection \<open>Initial transitions\<close>

lemma path_up_found:
  assumes "nested c g" "holds path (chain c g) k" "k < i" "i < length (chain c g)"
  shows "\<exists>path'. path_up h (chain c g ! i) (int k) path (chain c g ! Suc k, d) = Some (int i - 1, path', chain c g ! i, d) \<and>
     holds path' (chain c g) (i - 1)"
  using assms
proof (induction "i - k" arbitrary: k path)
  case (Suc n)
  show ?case
  proof (cases "Suc k = i")
    case True
    then show ?thesis using Suc.prems(2) by (subst path_up.simps) auto
  next
    case False
    obtain path1 where p: "wr path (int k + 1) (chain c g ! Suc k) = Some path1" "holds path1 (chain c g) (Suc k)"
      using holds_wr [OF Suc.prems(2) _ chain_length] Suc.prems(3,4) by auto
    have step: "nested c (chain c g ! Suc k)" "chain c g ! Suc k \<noteq> top_state c"
      "superstate c (chain c g ! Suc k) = chain c g ! Suc (Suc k)"
      using chain_step [OF Suc.prems(1), of "Suc k"] False Suc.prems(3,4) by simp_all
    have "chain c g ! Suc k \<noteq> chain c g ! i"
      using nth_eq_iff_index_eq [OF chain_distinct [OF Suc.prems(1)], of "Suc k" i] False Suc.prems(3,4) by simp
    moreover have "n = i - Suc k" "Suc k < i" using Suc.hyps(2) False Suc.prems(3) by simp_all
    from Suc.hyps(1) [OF this(1) Suc.prems(1) p(2) this(2) Suc.prems(4)] obtain path' where
      "path_up h (chain c g ! i) (int (Suc k)) path1 (chain c g ! Suc (Suc k), d) = Some (int i - 1, path', chain c g ! i, d)"
      "holds path' (chain c g) (i - 1)" by blast
    ultimately show ?thesis
      using p(1) trig_empty [OF step(1,2)] step(3) by (subst path_up.simps) (simp add: add.commute)
  qed
qed simp

lemma init_tran_way:
  assumes "nested c g" "s \<in> set (chain c g)" "g \<noteq> s" "length path = QEP_MAX_NEST_DEPTH"
  shows "\<exists>path' t'. init_tran ret h s path (g, d) = Some (path', g, t', entries c s g d) \<and> length path' = QEP_MAX_NEST_DEPTH"
proof -
  obtain i where i: "i < length (chain c g)" "chain c g ! i = s" using assms(2) by (auto simp: in_set_conv_nth)
  have first: "chain c g ! 0 = g" by (subst chain_hd) simp
  have i0: "0 < i" using i(2) first assms(3) by (cases i) auto
  have len: "length (chain c g) \<le> QEP_MAX_NEST_DEPTH" "0 < length (chain c g)" using chain_length i(1) by auto
  have w: "wr path 0 g = Some (path[0 := Some g])" using assms(4) by (simp add: wr_def QEP_MAX_NEST_DEPTH_def)
  have h0: "holds (path[0 := Some g]) (chain c g) 0" using assms(4) len first by (simp add: holds_def QEP_MAX_NEST_DEPTH_def)
  have "Suc 0 < length (chain c g)" using i i0 by simp
  from chain_step [OF assms(1) this] first have st: "g \<noteq> top_state c" "superstate c g = chain c g ! Suc 0" by simp_all
  obtain path1 where p1: "path_up h s 0 (path[0 := Some g]) (chain c g ! Suc 0, d) = Some (int i - 1, path1, s, d)"
    "holds path1 (chain c g) (i - 1)"
    using path_up_found [OF assms(1) h0 i0 i(1), of d] i(2) by auto
  have "ready c path1 g s (int i - 1)" using ready_index [OF p1(2) assms(1) _ i(1)] i i0 by simp
  then obtain t' where "enter_path h path1 (nat (int i)) (g, d) = Some (t', entries c s g d)"
    using enter_ready [OF assms(1,2)] by fastforce
  moreover have "int i - 1 < int QEP_MAX_NEST_DEPTH" using i(1) len by simp
  moreover have "length path1 = QEP_MAX_NEST_DEPTH" using p1(2) by (simp add: holds_def)
  ultimately show ?thesis
    using w p1(1) trig_empty [OF assms(1) st(1)] st(2) by (simp add: init_tran_def Let_def)
qed

text \<open>The nesting depth is enough for all initial transitions: each leads further down.\<close>

lemma drill_settles:
  assumes "nested c s" "length path = QEP_MAX_NEST_DEPTH" "QEP_MAX_NEST_DEPTH < n + length (chain c s)" "s \<noteq> top_state c"
  shows "drill ret h s path (t, d) = Some (settle c n s d)"
  using assms
proof (induction n arbitrary: s path t d)
  case 0
  then show ?case using chain_length [of c s] by simp
next
  case (Suc n)
  show ?case
  proof (cases "on_init c s d")
    case None
    with init_none [OF Suc.prems(1,4) None, of t] show ?thesis by (subst drill.simps) auto
  next
    case (Some y)
    obtain g d1 where y: "y = (g, d1)" by (cases y)
    have i: "h s QEP_INIT (t, d) = Some (Q_RET_TRAN, g, d1)" "nested c g" "g \<noteq> s" "s \<in> set (chain c g)"
      using init_some [OF Suc.prems(1,4)] Some y by blast+
    obtain path1 t1 where p1: "init_tran ret h s path (g, d1) = Some (path1, g, t1, entries c s g d1)"
      "length path1 = QEP_MAX_NEST_DEPTH" using init_tran_way [OF i(2,4,3) Suc.prems(2)] by blast
    have gt: "g \<noteq> top_state c" using i(3,4) by auto
    have "s \<in> set (chain c (superstate c g))" using i(3,4) chain_Cons(1) [OF i(2) gt] by simp
    with chain_mem [OF chain_Cons(2) [OF i(2) gt] this] have "length (chain c s) < length (chain c g)"
      using chain_Cons(1) [OF i(2) gt] by simp
    then have "QEP_MAX_NEST_DEPTH < n + length (chain c g)" using Suc.prems(3) by simp
    from Suc.IH [OF i(2) p1(2) this gt, of t1 "entries c s g d1"] show ?thesis
      using i(1) p1(1) Some y by (subst drill.simps) simp
  qed
qed

subsection \<open>The machine does what the chart says\<close>

lemma settle_nested: "nested c s \<Longrightarrow> s \<noteq> top_state c \<Longrightarrow> settle c n s d = (t, d') \<Longrightarrow> nested c t \<and> t \<noteq> top_state c"
proof (induction n arbitrary: s d)
  case (Suc n)
  show ?case
  proof (cases "on_init c s d")
    case (Some y)
    obtain g d1 where y: "y = (g, d1)" by (cases y)
    have g: "nested c g" "g \<noteq> s" "s \<in> set (chain c g)" using init_some [OF Suc.prems(1,2)] Some y by blast+
    moreover have "g \<noteq> top_state c" using g by auto
    ultimately show ?thesis using Suc.IH [of g "entries c s g d1"] Suc.prems(3) Some y by simp
  qed (use Suc.prems in simp)
qed simp

lemma dispatch_stays:
  assumes "nested c s0" "handle c e (chain c s0) d = Stays d'"
  shows "QHsm_dispatch ret h (User e) \<lparr>m_state = s0, m_temp = s0, m_data = d\<rparr> = Some \<lparr>m_state = s0, m_temp = s0, m_data = d'\<rparr>"
proof -
  obtain r s t where "offer h (User e) (s0, d) = Some (r, s, t, d')" "r \<noteq> Q_RET_TRAN" using offer_stays [OF assms] by blast
  then show ?thesis by (simp add: QHsm_dispatch_def)
qed

lemma common_chains:
  assumes "nested c s" "s \<noteq> top_state c" "nested c g"
  shows "common c s g \<in> set (chain c s) \<and> common c s g \<in> set (chain c g)"
proof (cases "s = g")
  case True
  then show ?thesis using chain_Cons [OF assms(1,2)] chain_self [of c "superstate c s"] by (simp add: common_def)
next
  case False
  then show ?thesis using common_other [OF assms(1,3)] by blast
qed


lemma dispatch_goes:
  assumes "nested c s0" "handle c e (chain c s0) d = Goes s g d'"
  defines "l \<equiv> common c s g"
  shows "QHsm_dispatch ret h (User e) \<lparr>m_state = s0, m_temp = s0, m_data = d\<rparr> =
     (case settle c QEP_MAX_NEST_DEPTH g (entries c l g (exits c l s0 d')) of
        (t, d'') \<Rightarrow> Some \<lparr>m_state = t, m_temp = t, m_data = d''\<rparr>)"
proof -
  have off: "offer h (User e) (s0, d) = Some (Q_RET_TRAN, s, g, d')" "s \<in> set (chain c s0)" "s \<noteq> top_state c"
    "nested c g" "g \<noteq> top_state c" using offer_goes [OF assms(1,2)] by blast+
  have s: "nested c s" using chain_mem [OF assms(1) off(2)] by blast
  note com = common_chains [OF s off(3,4), THEN conjunct1] common_chains [OF s off(3,4), THEN conjunct2]
  obtain path0 path where p: "wr (fresh QEP_MAX_NEST_DEPTH) 0 g = Some path0" "wr path0 1 s0 = Some path" "holds path (chain c g) 0"
  proof
    let ?p0 = "(fresh QEP_MAX_NEST_DEPTH)[0 := Some g]"
    show "wr (fresh QEP_MAX_NEST_DEPTH) 0 g = Some ?p0" "wr ?p0 1 s0 = Some (?p0[1 := Some s0])"
      by (simp_all add: wr_def fresh_def QEP_MAX_NEST_DEPTH_def)
    have "chain c g ! 0 = g" "chain c g \<noteq> []" using chain_hd [of c g] by (metis nth_Cons_0, metis list.distinct(1))
    then show "holds (?p0[1 := Some s0]) (chain c g) 0" by (simp add: holds_def fresh_def QEP_MAX_NEST_DEPTH_def)
  qed
  obtain t1 where x1: "leave_to h s s0 (g, d') = Some (t1, exits c s s0 d')" using leave_to_source [OF assms(1) off(2)] by blast
  obtain ip path2 t2 where x2: "tran_path ret h s g path (t1, exits c s s0 d') = Some (ip, path2, t2, exits c l s (exits c s s0 d'))"
    "ready c path2 g l ip" using tran_path_way [OF s off(3-5) p(3)] unfolding l_def by blast
  have x3: "exits c l s (exits c s s0 d') = exits c l s0 d'"
    using exits_split [OF assms(1) off(2)] com(1) below_source [OF assms(1) off(2)] unfolding l_def by blast
  obtain t3 where x4: "enter_path h path2 (nat (ip + 1)) (t2, exits c l s0 d') = Some (t3, entries c l g (exits c l s0 d'))"
    using enter_ready [OF off(4) _ x2(2)] com(2) unfolding l_def by blast
  have "0 < length (chain c g)" by (subst chain_hd) simp
  moreover have "length path2 = QEP_MAX_NEST_DEPTH" using x2(2) by (simp add: ready_def)
  ultimately have "drill ret h g path2 (g, entries c l g (exits c l s0 d'))
      = Some (settle c QEP_MAX_NEST_DEPTH g (entries c l g (exits c l s0 d')))"
    using drill_settles [OF off(4) _ _ off(5)] by simp
  with off(1) p x1 x2(1) x3 x4 show ?thesis
    by (simp add: QHsm_dispatch_def Let_def split: prod.splits)
qed

lemma dispatch_chart:
  assumes "nested c s0" "s0 \<noteq> top_state c"
  shows "\<exists>t d'. chart_dispatch c e (s0, d) = (t, d') \<and> nested c t \<and> t \<noteq> top_state c \<and>
     QHsm_dispatch ret h (User e) \<lparr>m_state = s0, m_temp = s0, m_data = d\<rparr> = Some \<lparr>m_state = t, m_temp = t, m_data = d'\<rparr>"
proof (cases "handle c e (chain c s0) d")
  case (Stays d1)
  then show ?thesis using dispatch_stays [OF assms(1) Stays] assms by (simp add: chart_dispatch_def)
next
  case (Goes s g d1)
  obtain t d' where set: "settle c QEP_MAX_NEST_DEPTH g (entries c (common c s g) g (exits c (common c s g) s0 d1)) = (t, d')"
    by (cases "settle c QEP_MAX_NEST_DEPTH g (entries c (common c s g) g (exits c (common c s g) s0 d1))")
  have "nested c g" "g \<noteq> top_state c" using offer_goes [OF assms(1) Goes] by blast+
  from settle_nested [OF this set] show ?thesis
    using dispatch_goes [OF assms(1) Goes] set Goes by (simp add: chart_dispatch_def Let_def)
qed

lemma init_chart:
  assumes "h i e (i, d0) = Some (Q_RET_TRAN, g, d)" "nested c g" "g \<noteq> top_state c"
  shows "\<exists>t d'. chart_init c g d = (t, d') \<and> nested c t \<and> t \<noteq> top_state c \<and>
     QHsm_init ret h (top_state c) e (new_QHsm (top_state c) i d0) = Some \<lparr>m_state = t, m_temp = t, m_data = d'\<rparr>"
proof -
  obtain t d' where set: "settle c QEP_MAX_NEST_DEPTH g (entries c (top_state c) g d) = (t, d')"
    by (cases "settle c QEP_MAX_NEST_DEPTH g (entries c (top_state c) g d)")
  obtain path t1 where i: "init_tran ret h (top_state c) (fresh QEP_MAX_NEST_DEPTH) (g, d) = Some (path, g, t1, entries c (top_state c) g d)"
    "length path = QEP_MAX_NEST_DEPTH"
    using init_tran_way [OF assms(2) chain_ends [OF assms(2)] assms(3), of "fresh QEP_MAX_NEST_DEPTH" ret d] by (auto simp: fresh_def)
  have "0 < length (chain c g)" by (subst chain_hd) simp
  then have "drill ret h g path (t1, entries c (top_state c) g d) = Some (t, d')"
    using drill_settles [OF assms(2) i(2) _ assms(3), of QEP_MAX_NEST_DEPTH] set by simp
  then show ?thesis
    using settle_nested [OF assms(2,3) set] assms(1) i(1) set by (simp add: QHsm_init_def new_QHsm_def chart_init_def Let_def)
qed

lemma is_in_chart:
  assumes "nested c t"
  shows "is_in h s (t, d) = Some (s \<in> set (chain c t), d)"
  using assms
proof (induction rule: nested_induct)
  case top
  then show ?case by (subst is_in.simps) (simp add: top_ignores)
next
  case (sub t)
  then show ?case by (subst is_in.simps) (simp add: empty_super)
qed

end

section \<open>Runs\<close>

text \<open>What an active object's machine does: the initial transition, then one event after the other.\<close>

fun QHsm_events :: "bool \<Rightarrow> ('s, 'e, 'd) handlers \<Rightarrow> 'e list \<Rightarrow> ('s, 'd) QHsm \<Rightarrow> ('s, 'd) QHsm option" where
  "QHsm_events ret h [] m = Some m"
| "QHsm_events ret h (e # es) m = do { m \<leftarrow> QHsm_dispatch ret h (User e) m; QHsm_events ret h es m }"

definition QHsm_run :: "bool \<Rightarrow> ('s, 'e, 'd) handlers \<Rightarrow> 's \<Rightarrow> 's \<Rightarrow> 'e QSignal \<Rightarrow> 'e list \<Rightarrow> 'd \<Rightarrow> ('s, 'd) QHsm option" where
  "QHsm_run ret h tp i e0 es d = do { m \<leftarrow> QHsm_init ret h tp e0 (new_QHsm tp i d); QHsm_events ret h es m }"

definition chart_run :: "('s, 'e, 'd) chart \<Rightarrow> 's \<Rightarrow> 'e list \<Rightarrow> 'd \<Rightarrow> 's \<times> 'd" where
  "chart_run c g es d = fold (chart_dispatch c) es (chart_init c g d)"

context state_machine
begin

lemma events_chart:
  assumes "nested c s" "s \<noteq> top_state c" "fold (chart_dispatch c) es (s, d) = (t, d')"
  shows "nested c t \<and> t \<noteq> top_state c \<and>
     QHsm_events ret h es \<lparr>m_state = s, m_temp = s, m_data = d\<rparr> = Some \<lparr>m_state = t, m_temp = t, m_data = d'\<rparr>"
  using assms
proof (induction es arbitrary: s d)
  case (Cons e es)
  obtain u d1 where u: "chart_dispatch c e (s, d) = (u, d1)" "nested c u" "u \<noteq> top_state c"
    "QHsm_dispatch ret h (User e) \<lparr>m_state = s, m_temp = s, m_data = d\<rparr> = Some \<lparr>m_state = u, m_temp = u, m_data = d1\<rparr>"
    using dispatch_chart [OF Cons.prems(1,2), of e d ret] by blast
  from Cons.IH [OF u(2,3), of d1] Cons.prems(3) u(1,4) show ?case by simp
qed simp

lemma run_chart:
  assumes "h i e0 (i, d0) = Some (Q_RET_TRAN, g, d)" "nested c g" "g \<noteq> top_state c" "chart_run c g es d = (t, d')"
  shows "nested c t \<and> t \<noteq> top_state c \<and>
     QHsm_run ret h (top_state c) i e0 es d0 = Some \<lparr>m_state = t, m_temp = t, m_data = d'\<rparr>"
proof -
  obtain s d1 where s: "chart_init c g d = (s, d1)" "nested c s" "s \<noteq> top_state c"
    "QHsm_init ret h (top_state c) e0 (new_QHsm (top_state c) i d0) = Some \<lparr>m_state = s, m_temp = s, m_data = d1\<rparr>"
    using init_chart [OF assms(1-3), of ret] by blast
  have "fold (chart_dispatch c) es (s, d1) = (t, d')" using assms(4) s(1) by (simp add: chart_run_def)
  from events_chart [OF s(2,3) this] s(4) show ?thesis by (simp add: QHsm_run_def)
qed

end

end
