(* ===== verification/Hsm_Test.thy ===== *)
theory Hsm_Test
  imports State_Chart
begin

text \<open>
  The test machine of the framework, \<open>library/qpcpp/examples/posix/gnu/qhsmtst\<close>: six nested states with every
  kind of transition, and its main program, whose batch run the repository keeps as \<open>log_pass.txt\<close>. The
  machine's chart is an instance of the contract of handlers, and the run computed with it is the log.
\<close>

section \<open>The machine\<close>

datatype tst_state = QHsm_top_state | QHsmTst_initial_state | QHsmTst_s | QHsmTst_s1 | QHsmTst_s11 | QHsmTst_s2 | QHsmTst_s21 | QHsmTst_s211

datatype QHsmTstSignals = A_SIG | B_SIG | C_SIG | D_SIG | E_SIG | F_SIG | G_SIG | H_SIG | I_SIG | TERMINATE_SIG | IGNORE_SIG

text \<open>The variable of the machine, what has been displayed, and the code the program has ended with.\<close>

record QHsmTst =
  m_foo :: bool
  l_outFile :: string
  exit_code :: "int option"

definition BSP_display :: "string \<Rightarrow> QHsmTst \<Rightarrow> QHsmTst" where
  "BSP_display msg me = me\<lparr>l_outFile := l_outFile me @ msg\<rparr>"

definition BSP_terminate_tst :: "int \<Rightarrow> QHsmTst \<Rightarrow> QHsmTst" where
  "BSP_terminate_tst r me = me\<lparr>exit_code := Some r\<rparr>"

text \<open>The shapes of the answers of a handler that displays something first.\<close>

definition shown :: "string \<Rightarrow> 's \<times> QHsmTst \<Rightarrow> 's \<times> QHsmTst" where
  "shown msg x = (fst x, BSP_display msg (snd x))"

definition shown_foo :: "string \<Rightarrow> bool \<Rightarrow> 's \<times> QHsmTst \<Rightarrow> 's \<times> QHsmTst" where
  "shown_foo msg b x = (fst x, BSP_display msg ((snd x)\<lparr>m_foo := b\<rparr>))"

type_synonym tst_handler = "QHsmTstSignals QSignal \<Rightarrow> tst_state \<times> QHsmTst \<Rightarrow> QState \<times> tst_state \<times> QHsmTst"

definition h_initial :: tst_handler where
  "h_initial sig x = Q_TRAN QHsmTst_s2 (shown ''top-INIT;'' (fst x, (snd x)\<lparr>m_foo := False\<rparr>))"

definition h_s :: tst_handler where
  "h_s sig x =
     (case sig of
        QEP_ENTRY \<Rightarrow> (Q_RET_HANDLED, shown ''s-ENTRY;'' x)
      | QEP_EXIT \<Rightarrow> (Q_RET_HANDLED, shown ''s-EXIT;'' x)
      | QEP_INIT \<Rightarrow> Q_TRAN QHsmTst_s11 (shown ''s-INIT;'' x)
      | User I_SIG \<Rightarrow> (if m_foo (snd x) then (Q_RET_HANDLED, shown_foo ''s-I;'' False x) else (Q_RET_UNHANDLED, x))
      | User E_SIG \<Rightarrow> Q_TRAN QHsmTst_s11 (shown ''s-E;'' x)
      | User TERMINATE_SIG \<Rightarrow> (Q_RET_HANDLED, fst x, BSP_terminate_tst 0 (snd x))
      | _ \<Rightarrow> Q_SUPER QHsm_top_state x)"

definition h_s1 :: tst_handler where
  "h_s1 sig x =
     (case sig of
        QEP_ENTRY \<Rightarrow> (Q_RET_HANDLED, shown ''s1-ENTRY;'' x)
      | QEP_EXIT \<Rightarrow> (Q_RET_HANDLED, shown ''s1-EXIT;'' x)
      | QEP_INIT \<Rightarrow> Q_TRAN QHsmTst_s11 (shown ''s1-INIT;'' x)
      | User I_SIG \<Rightarrow> (Q_RET_HANDLED, shown ''s1-I;'' x)
      | User D_SIG \<Rightarrow> (if \<not> m_foo (snd x) then Q_TRAN QHsmTst_s (shown_foo ''s1-D;'' True x) else (Q_RET_UNHANDLED, x))
      | User A_SIG \<Rightarrow> Q_TRAN QHsmTst_s1 (shown ''s1-A;'' x)
      | User B_SIG \<Rightarrow> Q_TRAN QHsmTst_s11 (shown ''s1-B;'' x)
      | User F_SIG \<Rightarrow> Q_TRAN QHsmTst_s211 (shown ''s1-F;'' x)
      | User C_SIG \<Rightarrow> Q_TRAN QHsmTst_s2 (shown ''s1-C;'' x)
      | _ \<Rightarrow> Q_SUPER QHsmTst_s x)"

definition h_s11 :: tst_handler where
  "h_s11 sig x =
     (case sig of
        QEP_ENTRY \<Rightarrow> (Q_RET_HANDLED, shown ''s11-ENTRY;'' x)
      | QEP_EXIT \<Rightarrow> (Q_RET_HANDLED, shown ''s11-EXIT;'' x)
      | User H_SIG \<Rightarrow> Q_TRAN QHsmTst_s (shown ''s11-H;'' x)
      | User D_SIG \<Rightarrow> (if m_foo (snd x) then Q_TRAN QHsmTst_s1 (shown_foo ''s11-D;'' False x) else (Q_RET_UNHANDLED, x))
      | User G_SIG \<Rightarrow> Q_TRAN QHsmTst_s211 (shown ''s11-G;'' x)
      | _ \<Rightarrow> Q_SUPER QHsmTst_s1 x)"

definition h_s2 :: tst_handler where
  "h_s2 sig x =
     (case sig of
        QEP_ENTRY \<Rightarrow> (Q_RET_HANDLED, shown ''s2-ENTRY;'' x)
      | QEP_EXIT \<Rightarrow> (Q_RET_HANDLED, shown ''s2-EXIT;'' x)
      | QEP_INIT \<Rightarrow> Q_TRAN QHsmTst_s211 (shown ''s2-INIT;'' x)
      | User I_SIG \<Rightarrow> (if \<not> m_foo (snd x) then (Q_RET_HANDLED, shown_foo ''s2-I;'' True x) else (Q_RET_UNHANDLED, x))
      | User F_SIG \<Rightarrow> Q_TRAN QHsmTst_s11 (shown ''s2-F;'' x)
      | User C_SIG \<Rightarrow> Q_TRAN QHsmTst_s1 (shown ''s2-C;'' x)
      | _ \<Rightarrow> Q_SUPER QHsmTst_s x)"

definition h_s21 :: tst_handler where
  "h_s21 sig x =
     (case sig of
        QEP_ENTRY \<Rightarrow> (Q_RET_HANDLED, shown ''s21-ENTRY;'' x)
      | QEP_EXIT \<Rightarrow> (Q_RET_HANDLED, shown ''s21-EXIT;'' x)
      | QEP_INIT \<Rightarrow> Q_TRAN QHsmTst_s211 (shown ''s21-INIT;'' x)
      | User G_SIG \<Rightarrow> Q_TRAN QHsmTst_s1 (shown ''s21-G;'' x)
      | User A_SIG \<Rightarrow> Q_TRAN QHsmTst_s21 (shown ''s21-A;'' x)
      | User B_SIG \<Rightarrow> Q_TRAN QHsmTst_s211 (shown ''s21-B;'' x)
      | _ \<Rightarrow> Q_SUPER QHsmTst_s2 x)"

definition h_s211 :: tst_handler where
  "h_s211 sig x =
     (case sig of
        QEP_ENTRY \<Rightarrow> (Q_RET_HANDLED, shown ''s211-ENTRY;'' x)
      | QEP_EXIT \<Rightarrow> (Q_RET_HANDLED, shown ''s211-EXIT;'' x)
      | User H_SIG \<Rightarrow> Q_TRAN QHsmTst_s (shown ''s211-H;'' x)
      | User D_SIG \<Rightarrow> Q_TRAN QHsmTst_s21 (shown ''s211-D;'' x)
      | _ \<Rightarrow> Q_SUPER QHsmTst_s21 x)"

fun tst_handlers :: "(tst_state, QHsmTstSignals, QHsmTst) handlers" where
  "tst_handlers QHsm_top_state sig x = Some (QHsm_top x)"
| "tst_handlers QHsmTst_initial_state sig x = Some (h_initial sig x)"
| "tst_handlers QHsmTst_s sig x = Some (h_s sig x)"
| "tst_handlers QHsmTst_s1 sig x = Some (h_s1 sig x)"
| "tst_handlers QHsmTst_s11 sig x = Some (h_s11 sig x)"
| "tst_handlers QHsmTst_s2 sig x = Some (h_s2 sig x)"
| "tst_handlers QHsmTst_s21 sig x = Some (h_s21 sig x)"
| "tst_handlers QHsmTst_s211 sig x = Some (h_s211 sig x)"

section \<open>The main program\<close>

text \<open>The batch version displays the letter of every event before it is dispatched.\<close>

fun tst_letter :: "QHsmTstSignals \<Rightarrow> string" where
  "tst_letter A_SIG = ''A''"
| "tst_letter B_SIG = ''B''"
| "tst_letter C_SIG = ''C''"
| "tst_letter D_SIG = ''D''"
| "tst_letter E_SIG = ''E''"
| "tst_letter F_SIG = ''F''"
| "tst_letter G_SIG = ''G''"
| "tst_letter H_SIG = ''H''"
| "tst_letter I_SIG = ''I''"
| "tst_letter _ = []"

definition tst_dispatch :: "QHsmTstSignals \<Rightarrow> (tst_state, QHsmTst) QHsm \<Rightarrow> (tst_state, QHsmTst) QHsm option" where
  "tst_dispatch sig m =
     do { Q_ASSERT False (sig \<noteq> TERMINATE_SIG \<and> sig \<noteq> IGNORE_SIG);
          QHsm_dispatch False tst_handlers (User sig) (m\<lparr>m_data := BSP_display (CHR 0x0A # tst_letter sig @ '':'') (m_data m)\<rparr>) }"

fun tst_dispatches :: "QHsmTstSignals list \<Rightarrow> (tst_state, QHsmTst) QHsm \<Rightarrow> (tst_state, QHsmTst) QHsm option" where
  "tst_dispatches [] m = Some m"
| "tst_dispatches (e # es) m = do { m \<leftarrow> tst_dispatch e m; tst_dispatches es m }"

definition tst_batch :: "QHsmTstSignals list" where
  "tst_batch = [A_SIG, B_SIG, D_SIG, E_SIG, I_SIG, F_SIG, I_SIG, I_SIG, F_SIG, A_SIG, B_SIG, D_SIG, D_SIG, E_SIG, G_SIG,
     H_SIG, H_SIG, C_SIG, G_SIG, C_SIG, C_SIG]"

definition l_hsmtst :: "string \<Rightarrow> QHsmTst" where
  "l_hsmtst out = \<lparr>m_foo = False, l_outFile = out, exit_code = None\<rparr>"

text \<open>The version of the framework: four digits of a number.\<close>

definition QP_VERSION :: nat where "QP_VERSION = 0x4504"

definition getVersion :: string where
  "getVersion =
     [char_of ((QP_VERSION div 2 ^ 12) mod 16 + 48), CHR ''.'', char_of ((QP_VERSION div 2 ^ 8) mod 16 + 48), CHR ''.'',
      char_of ((QP_VERSION div 2 ^ 4) mod 16 + 48), char_of (QP_VERSION mod 16 + 48)]"

definition tst_main_batch :: "string option" where
  "tst_main_batch =
     do { let d = l_hsmtst (''QHsmTst example, QEP '' @ getVersion @ [CHR 0x0A]);
          m \<leftarrow> QHsm_init False tst_handlers QHsm_top_state QEP_EMPTY (new_QHsm QHsm_top_state QHsmTst_initial_state d);
          m \<leftarrow> tst_dispatches tst_batch m;
          Some (l_outFile (m_data m)) }"

section \<open>Its chart\<close>

fun tst_super :: "tst_state \<Rightarrow> tst_state" where
  "tst_super QHsmTst_s = QHsm_top_state"
| "tst_super QHsmTst_s1 = QHsmTst_s"
| "tst_super QHsmTst_s11 = QHsmTst_s1"
| "tst_super QHsmTst_s2 = QHsmTst_s"
| "tst_super QHsmTst_s21 = QHsmTst_s2"
| "tst_super QHsmTst_s211 = QHsmTst_s21"
| "tst_super st = st"

fun tst_name :: "tst_state \<Rightarrow> string" where
  "tst_name QHsmTst_s = ''s''"
| "tst_name QHsmTst_s1 = ''s1''"
| "tst_name QHsmTst_s11 = ''s11''"
| "tst_name QHsmTst_s2 = ''s2''"
| "tst_name QHsmTst_s21 = ''s21''"
| "tst_name QHsmTst_s211 = ''s211''"
| "tst_name _ = []"

fun tst_init :: "tst_state \<Rightarrow> tst_state option" where
  "tst_init QHsmTst_s = Some QHsmTst_s11"
| "tst_init QHsmTst_s1 = Some QHsmTst_s11"
| "tst_init QHsmTst_s2 = Some QHsmTst_s211"
| "tst_init QHsmTst_s21 = Some QHsmTst_s211"
| "tst_init _ = None"

text \<open>The transitions: the target of one, if it is not internal, and the new value of the variable.\<close>

fun tst_react :: "tst_state \<Rightarrow> QHsmTstSignals \<Rightarrow> bool \<Rightarrow> (tst_state option \<times> bool) option" where
  "tst_react QHsmTst_s e f =
     (case e of
        E_SIG \<Rightarrow> Some (Some QHsmTst_s11, f)
      | I_SIG \<Rightarrow> (if f then Some (None, False) else None)
      | _ \<Rightarrow> None)"
| "tst_react QHsmTst_s1 e f =
     (case e of
        A_SIG \<Rightarrow> Some (Some QHsmTst_s1, f)
      | B_SIG \<Rightarrow> Some (Some QHsmTst_s11, f)
      | C_SIG \<Rightarrow> Some (Some QHsmTst_s2, f)
      | D_SIG \<Rightarrow> (if \<not> f then Some (Some QHsmTst_s, True) else None)
      | F_SIG \<Rightarrow> Some (Some QHsmTst_s211, f)
      | I_SIG \<Rightarrow> Some (None, f)
      | _ \<Rightarrow> None)"
| "tst_react QHsmTst_s11 e f =
     (case e of
        D_SIG \<Rightarrow> (if f then Some (Some QHsmTst_s1, False) else None)
      | G_SIG \<Rightarrow> Some (Some QHsmTst_s211, f)
      | H_SIG \<Rightarrow> Some (Some QHsmTst_s, f)
      | _ \<Rightarrow> None)"
| "tst_react QHsmTst_s2 e f =
     (case e of
        C_SIG \<Rightarrow> Some (Some QHsmTst_s1, f)
      | F_SIG \<Rightarrow> Some (Some QHsmTst_s11, f)
      | I_SIG \<Rightarrow> (if \<not> f then Some (None, True) else None)
      | _ \<Rightarrow> None)"
| "tst_react QHsmTst_s21 e f =
     (case e of
        A_SIG \<Rightarrow> Some (Some QHsmTst_s21, f)
      | B_SIG \<Rightarrow> Some (Some QHsmTst_s211, f)
      | G_SIG \<Rightarrow> Some (Some QHsmTst_s1, f)
      | _ \<Rightarrow> None)"
| "tst_react QHsmTst_s211 e f =
     (case e of
        D_SIG \<Rightarrow> Some (Some QHsmTst_s21, f)
      | H_SIG \<Rightarrow> Some (Some QHsmTst_s, f)
      | _ \<Rightarrow> None)"
| "tst_react _ e f = None"

definition tst_event :: "tst_state \<Rightarrow> QHsmTstSignals \<Rightarrow> QHsmTst \<Rightarrow> (tst_state, QHsmTst) reaction" where
  "tst_event st e d =
     (if st = QHsmTst_s \<and> e = TERMINATE_SIG then Handled (BSP_terminate_tst 0 d)
      else (case tst_react st e (m_foo d) of
              None \<Rightarrow> Up d
            | Some (g, f) \<Rightarrow>
                let d = BSP_display (tst_name st @ ''-'' @ tst_letter e @ '';'') (d\<lparr>m_foo := f\<rparr>)
                in (case g of None \<Rightarrow> Handled d | Some g \<Rightarrow> To g d)))"

definition tst_chart :: "(tst_state, QHsmTstSignals, QHsmTst) chart" where
  "tst_chart =
     \<lparr>top_state = QHsm_top_state, superstate = tst_super,
      on_entry = (\<lambda>st. BSP_display (tst_name st @ ''-ENTRY;'')), on_exit = (\<lambda>st. BSP_display (tst_name st @ ''-EXIT;'')),
      on_init = (\<lambda>st d. map_option (\<lambda>g. (g, BSP_display (tst_name st @ ''-INIT;'') d)) (tst_init st)), on_event = tst_event\<rparr>"

lemma tst_chart_sel [simp]:
  "top_state tst_chart = QHsm_top_state" "superstate tst_chart = tst_super" "on_event tst_chart = tst_event"
  "on_entry tst_chart st = BSP_display (tst_name st @ ''-ENTRY;'')" "on_exit tst_chart st = BSP_display (tst_name st @ ''-EXIT;'')"
  "on_init tst_chart st d = map_option (\<lambda>g. (g, BSP_display (tst_name st @ ''-INIT;'') d)) (tst_init st)"
  by (simp_all add: tst_chart_def)

lemma tst_chain [simp]:
  "chain tst_chart QHsm_top_state = [QHsm_top_state]"
  "chain tst_chart QHsmTst_s = [QHsmTst_s, QHsm_top_state]"
  "chain tst_chart QHsmTst_s1 = [QHsmTst_s1, QHsmTst_s, QHsm_top_state]"
  "chain tst_chart QHsmTst_s11 = [QHsmTst_s11, QHsmTst_s1, QHsmTst_s, QHsm_top_state]"
  "chain tst_chart QHsmTst_s2 = [QHsmTst_s2, QHsmTst_s, QHsm_top_state]"
  "chain tst_chart QHsmTst_s21 = [QHsmTst_s21, QHsmTst_s2, QHsmTst_s, QHsm_top_state]"
  "chain tst_chart QHsmTst_s211 = [QHsmTst_s211, QHsmTst_s21, QHsmTst_s2, QHsmTst_s, QHsm_top_state]"
  by (simp_all add: chain_def QEP_MAX_NEST_DEPTH_def numeral_eq_Suc)

lemma tst_nested [simp]: "nested tst_chart st \<longleftrightarrow> st \<noteq> QHsmTst_initial_state"
  by (cases st) (simp_all add: nested_def, simp add: chain_def QEP_MAX_NEST_DEPTH_def numeral_eq_Suc)

lemmas tst_handler_defs = h_s_def h_s1_def h_s11_def h_s2_def h_s21_def h_s211_def shown_def shown_foo_def Q_TRAN_def Q_SUPER_def

lemma tst_kept [simp]: "m_foo d \<Longrightarrow> d\<lparr>m_foo := True\<rparr> = (d :: QHsmTst)" "\<not> m_foo d \<Longrightarrow> d\<lparr>m_foo := False\<rparr> = (d :: QHsmTst)"
  by (cases d; simp)+

interpretation tst: state_machine tst_handlers tst_chart
proof unfold_locales
  show "tst_handlers (top_state tst_chart) sig x = Some (Q_RET_IGNORED, x)" for sig x
    by (simp add: QHsm_top_def)
next
  fix st t d
  assume st: "nested tst_chart st" "st \<noteq> top_state tst_chart"
  show "tst_handlers st QEP_EMPTY (t, d) = Some (Q_RET_SUPER, superstate tst_chart st, d)"
    "\<exists>r t'. tst_handlers st QEP_ENTRY (t, d) = Some (r, t', on_entry tst_chart st d)"
    "(\<exists>t'. tst_handlers st QEP_EXIT (t, d) = Some (Q_RET_HANDLED, t', on_exit tst_chart st d)) \<or>
       tst_handlers st QEP_EXIT (t, d) = Some (Q_RET_SUPER, superstate tst_chart st, on_exit tst_chart st d)"
    using st by (cases st; simp add: tst_handler_defs)+
  show "\<exists>r t'. tst_handlers st QEP_INIT (t, d) = Some (r, t', d) \<and> r \<noteq> Q_RET_TRAN" if "on_init tst_chart st d = None"
    using st that by (cases st) (simp_all add: tst_handler_defs)
  show "tst_handlers st QEP_INIT (t, d) = Some (Q_RET_TRAN, g, d') \<and> nested tst_chart g \<and> g \<noteq> st \<and> st \<in> set (chain tst_chart g)"
    if "on_init tst_chart st d = Some (g, d')" for g d'
    using st that by (cases st) (auto simp: tst_handler_defs)
next
  fix st e t d
  assume st: "nested tst_chart st" "st \<noteq> top_state tst_chart"
  show "\<exists>t'. tst_handlers st (User e) (t, d) = Some (Q_RET_HANDLED, t', d')" if "on_event tst_chart st e d = Handled d'" for d'
    using st that
    by (cases st; cases e; cases "m_foo d"; auto simp: tst_handler_defs tst_event_def)
  show "tst_handlers st (User e) (t, d) = Some (Q_RET_TRAN, g, d') \<and> nested tst_chart g \<and> g \<noteq> top_state tst_chart"
    if "on_event tst_chart st e d = To g d'" for g d'
    using st that
    by (cases st; cases e; cases "m_foo d"; auto simp: tst_handler_defs tst_event_def)
  show "tst_handlers st (User e) (t, d) = Some (Q_RET_SUPER, superstate tst_chart st, d') \<or>
      (\<exists>t'. tst_handlers st (User e) (t, d) = Some (Q_RET_UNHANDLED, t', d'))" if "on_event tst_chart st e d = Up d'" for d'
    using st that
    by (cases st; cases e; cases "m_foo d"; auto simp: tst_handler_defs tst_event_def)
qed

section \<open>The run\<close>

definition tst_step :: "QHsmTstSignals \<Rightarrow> tst_state \<times> QHsmTst \<Rightarrow> tst_state \<times> QHsmTst" where
  "tst_step e x = chart_dispatch tst_chart e (fst x, BSP_display (CHR 0x0A # tst_letter e @ '':'') (snd x))"

lemma tst_dispatches_chart:
  assumes "st \<noteq> QHsm_top_state" "st \<noteq> QHsmTst_initial_state" "TERMINATE_SIG \<notin> set es" "IGNORE_SIG \<notin> set es"
  shows "tst_dispatches es \<lparr>m_state = st, m_temp = st, m_data = d\<rparr> =
     (case fold tst_step es (st, d) of (t, d) \<Rightarrow> Some \<lparr>m_state = t, m_temp = t, m_data = d\<rparr>)"
  using assms
proof (induction es arbitrary: st d)
  case (Cons e es)
  let ?d = "BSP_display (CHR 0x0A # tst_letter e @ '':'') d"
  have good: "(e \<noteq> TERMINATE_SIG \<and> e \<noteq> IGNORE_SIG) = True" using Cons.prems(3,4) by auto
  obtain u d1 where u: "chart_dispatch tst_chart e (st, ?d) = (u, d1)" "nested tst_chart u" "u \<noteq> QHsm_top_state"
    "QHsm_dispatch False tst_handlers (User e) \<lparr>m_state = st, m_temp = st, m_data = ?d\<rparr> = Some \<lparr>m_state = u, m_temp = u, m_data = d1\<rparr>"
    using tst.dispatch_chart [of st e ?d False] Cons.prems by auto
  moreover have "tst_dispatch e \<lparr>m_state = st, m_temp = st, m_data = d\<rparr> = Some \<lparr>m_state = u, m_temp = u, m_data = d1\<rparr>"
    using u(4) good by (simp add: tst_dispatch_def)
  ultimately show ?case using Cons.IH [of u d1] Cons.prems by (simp add: tst_step_def)
qed simp

lemma BSP_display_twice: "BSP_display b (BSP_display a d) = BSP_display (a @ b) d" "m_foo (BSP_display a d) = m_foo d"
  "(BSP_display a d)\<lparr>m_foo := f\<rparr> = BSP_display a (d\<lparr>m_foo := f\<rparr>)"
  by (simp_all add: BSP_display_def)

lemmas tst_eval = tst_step_def chart_dispatch_def tst_event_def Let_def common_def exits_def entries_def BSP_display_twice
  QEP_MAX_NEST_DEPTH_def numeral_eq_Suc

lemma tst_steps:
  "tst_step A_SIG (QHsmTst_s211, d) = (QHsmTst_s211, BSP_display (CHR 0x0A # ''A:s21-A;s211-EXIT;s21-EXIT;s21-ENTRY;s21-INIT;s211-ENTRY;'') d)"
  "tst_step B_SIG (QHsmTst_s211, d) = (QHsmTst_s211, BSP_display (CHR 0x0A # ''B:s21-B;s211-EXIT;s211-ENTRY;'') d)"
  "tst_step D_SIG (QHsmTst_s211, d) = (QHsmTst_s211, BSP_display (CHR 0x0A # ''D:s211-D;s211-EXIT;s21-INIT;s211-ENTRY;'') d)"
  "tst_step E_SIG (QHsmTst_s211, d) = (QHsmTst_s11, BSP_display (CHR 0x0A # ''E:s-E;s211-EXIT;s21-EXIT;s2-EXIT;s1-ENTRY;s11-ENTRY;'') d)"
  "tst_step I_SIG (QHsmTst_s11, d) = (QHsmTst_s11, BSP_display (CHR 0x0A # ''I:s1-I;'') d)"
  "tst_step F_SIG (QHsmTst_s11, d) = (QHsmTst_s211, BSP_display (CHR 0x0A # ''F:s1-F;s11-EXIT;s1-EXIT;s2-ENTRY;s21-ENTRY;s211-ENTRY;'') d)"
  "\<not> m_foo d \<Longrightarrow> tst_step I_SIG (QHsmTst_s211, d) = (QHsmTst_s211, BSP_display (CHR 0x0A # ''I:s2-I;'') (d\<lparr>m_foo := True\<rparr>))"
  "m_foo d \<Longrightarrow> tst_step I_SIG (QHsmTst_s211, d) = (QHsmTst_s211, BSP_display (CHR 0x0A # ''I:s-I;'') (d\<lparr>m_foo := False\<rparr>))"
  "tst_step F_SIG (QHsmTst_s211, d) = (QHsmTst_s11, BSP_display (CHR 0x0A # ''F:s2-F;s211-EXIT;s21-EXIT;s2-EXIT;s1-ENTRY;s11-ENTRY;'') d)"
  "tst_step A_SIG (QHsmTst_s11, d) = (QHsmTst_s11, BSP_display (CHR 0x0A # ''A:s1-A;s11-EXIT;s1-EXIT;s1-ENTRY;s1-INIT;s11-ENTRY;'') d)"
  "tst_step B_SIG (QHsmTst_s11, d) = (QHsmTst_s11, BSP_display (CHR 0x0A # ''B:s1-B;s11-EXIT;s11-ENTRY;'') d)"
  "\<not> m_foo d \<Longrightarrow> tst_step D_SIG (QHsmTst_s11, d) = (QHsmTst_s11, BSP_display (CHR 0x0A # ''D:s1-D;s11-EXIT;s1-EXIT;s-INIT;s1-ENTRY;s11-ENTRY;'') (d\<lparr>m_foo := True\<rparr>))"
  "m_foo d \<Longrightarrow> tst_step D_SIG (QHsmTst_s11, d) = (QHsmTst_s11, BSP_display (CHR 0x0A # ''D:s11-D;s11-EXIT;s1-INIT;s11-ENTRY;'') (d\<lparr>m_foo := False\<rparr>))"
  "tst_step E_SIG (QHsmTst_s11, d) = (QHsmTst_s11, BSP_display (CHR 0x0A # ''E:s-E;s11-EXIT;s1-EXIT;s1-ENTRY;s11-ENTRY;'') d)"
  "tst_step G_SIG (QHsmTst_s11, d) = (QHsmTst_s211, BSP_display (CHR 0x0A # ''G:s11-G;s11-EXIT;s1-EXIT;s2-ENTRY;s21-ENTRY;s211-ENTRY;'') d)"
  "tst_step H_SIG (QHsmTst_s211, d) = (QHsmTst_s11, BSP_display (CHR 0x0A # ''H:s211-H;s211-EXIT;s21-EXIT;s2-EXIT;s-INIT;s1-ENTRY;s11-ENTRY;'') d)"
  "tst_step H_SIG (QHsmTst_s11, d) = (QHsmTst_s11, BSP_display (CHR 0x0A # ''H:s11-H;s11-EXIT;s1-EXIT;s-INIT;s1-ENTRY;s11-ENTRY;'') d)"
  "tst_step C_SIG (QHsmTst_s11, d) = (QHsmTst_s211, BSP_display (CHR 0x0A # ''C:s1-C;s11-EXIT;s1-EXIT;s2-ENTRY;s2-INIT;s21-ENTRY;s211-ENTRY;'') d)"
  "tst_step G_SIG (QHsmTst_s211, d) = (QHsmTst_s11, BSP_display (CHR 0x0A # ''G:s21-G;s211-EXIT;s21-EXIT;s2-EXIT;s1-ENTRY;s1-INIT;s11-ENTRY;'') d)"
  "tst_step C_SIG (QHsmTst_s211, d) = (QHsmTst_s11, BSP_display (CHR 0x0A # ''C:s2-C;s211-EXIT;s21-EXIT;s2-EXIT;s1-ENTRY;s1-INIT;s11-ENTRY;'') d)"
  by (simp_all add: tst_eval)

lemma getVersion_is: "getVersion = ''4.5.04''"
  by (simp add: getVersion_def QP_VERSION_def char_of_def bit_0)

definition log_pass :: "string list" where
  "log_pass =
    [''QHsmTst example, QEP 4.5.04'',
     ''top-INIT;s-ENTRY;s2-ENTRY;s2-INIT;s21-ENTRY;s211-ENTRY;'',
     ''A:s21-A;s211-EXIT;s21-EXIT;s21-ENTRY;s21-INIT;s211-ENTRY;'',
     ''B:s21-B;s211-EXIT;s211-ENTRY;'',
     ''D:s211-D;s211-EXIT;s21-INIT;s211-ENTRY;'',
     ''E:s-E;s211-EXIT;s21-EXIT;s2-EXIT;s1-ENTRY;s11-ENTRY;'',
     ''I:s1-I;'',
     ''F:s1-F;s11-EXIT;s1-EXIT;s2-ENTRY;s21-ENTRY;s211-ENTRY;'',
     ''I:s2-I;'',
     ''I:s-I;'',
     ''F:s2-F;s211-EXIT;s21-EXIT;s2-EXIT;s1-ENTRY;s11-ENTRY;'',
     ''A:s1-A;s11-EXIT;s1-EXIT;s1-ENTRY;s1-INIT;s11-ENTRY;'',
     ''B:s1-B;s11-EXIT;s11-ENTRY;'',
     ''D:s1-D;s11-EXIT;s1-EXIT;s-INIT;s1-ENTRY;s11-ENTRY;'',
     ''D:s11-D;s11-EXIT;s1-INIT;s11-ENTRY;'',
     ''E:s-E;s11-EXIT;s1-EXIT;s1-ENTRY;s11-ENTRY;'',
     ''G:s11-G;s11-EXIT;s1-EXIT;s2-ENTRY;s21-ENTRY;s211-ENTRY;'',
     ''H:s211-H;s211-EXIT;s21-EXIT;s2-EXIT;s-INIT;s1-ENTRY;s11-ENTRY;'',
     ''H:s11-H;s11-EXIT;s1-EXIT;s-INIT;s1-ENTRY;s11-ENTRY;'',
     ''C:s1-C;s11-EXIT;s1-EXIT;s2-ENTRY;s2-INIT;s21-ENTRY;s211-ENTRY;'',
     ''G:s21-G;s211-EXIT;s21-EXIT;s2-EXIT;s1-ENTRY;s1-INIT;s11-ENTRY;'',
     ''C:s1-C;s11-EXIT;s1-EXIT;s2-ENTRY;s2-INIT;s21-ENTRY;s211-ENTRY;'',
     ''C:s2-C;s211-EXIT;s21-EXIT;s2-EXIT;s1-ENTRY;s1-INIT;s11-ENTRY;'']"

lemma l_hsmtst_foo: "(l_hsmtst out)\<lparr>m_foo := False\<rparr> = l_hsmtst out" "\<not> m_foo (l_hsmtst out)"
  by (simp_all add: l_hsmtst_def)

lemma test_init:
  "QHsm_init False tst_handlers QHsm_top_state QEP_EMPTY (new_QHsm QHsm_top_state QHsmTst_initial_state (l_hsmtst out))
     = Some \<lparr>m_state = QHsmTst_s211, m_temp = QHsmTst_s211,
         m_data = BSP_display ''top-INIT;s-ENTRY;s2-ENTRY;s2-INIT;s21-ENTRY;s211-ENTRY;'' (l_hsmtst out)\<rparr>"
proof -
  have "tst_handlers QHsmTst_initial_state QEP_EMPTY (QHsmTst_initial_state, l_hsmtst out)
      = Some (Q_RET_TRAN, QHsmTst_s2, BSP_display ''top-INIT;'' (l_hsmtst out))"
    by (simp add: h_initial_def Q_TRAN_def shown_def l_hsmtst_foo)
  from tst.init_chart [OF this, of False] show ?thesis by (simp add: chart_init_def tst_eval)
qed

lemma test_steps:
  assumes "\<not> m_foo d"
  shows "fold tst_step tst_batch (QHsmTst_s211, d) =
     (QHsmTst_s11, BSP_display (concat (map (\<lambda>l. CHR 0x0A # l) (drop 2 log_pass))) d)"
  using assms by (simp add: tst_batch_def tst_steps BSP_display_twice(2,3) log_pass_def, simp add: BSP_display_twice)

text \<open>
  C12: The test machine of the framework, run on its 21 events, writes line by line what the
  file \<open>log_pass.txt\<close> next to it records.
\<close>

theorem test_log: "tst_main_batch = Some (hd log_pass @ concat (map (\<lambda>l. CHR 0x0A # l) (tl log_pass)))"
proof -
  let ?d = "BSP_display ''top-INIT;s-ENTRY;s2-ENTRY;s2-INIT;s21-ENTRY;s211-ENTRY;'' (l_hsmtst (''QHsmTst example, QEP '' @ getVersion @ [CHR 0x0A]))"
  have foo: "\<not> m_foo ?d" unfolding BSP_display_twice(2) by (rule l_hsmtst_foo(2))
  have "TERMINATE_SIG \<notin> set tst_batch" "IGNORE_SIG \<notin> set tst_batch" by (simp_all add: tst_batch_def)
  then have "tst_dispatches tst_batch \<lparr>m_state = QHsmTst_s211, m_temp = QHsmTst_s211, m_data = ?d\<rparr>
      = Some \<lparr>m_state = QHsmTst_s11, m_temp = QHsmTst_s11, m_data = BSP_display (concat (map (\<lambda>l. CHR 0x0A # l) (drop 2 log_pass))) ?d\<rparr>"
    using tst_dispatches_chart [of QHsmTst_s211 tst_batch ?d] unfolding test_steps [OF foo] by simp
  then have "tst_main_batch = Some (l_outFile (BSP_display (concat (map (\<lambda>l. CHR 0x0A # l) (drop 2 log_pass))) ?d))"
    unfolding tst_main_batch_def Let_def test_init by simp
  then show ?thesis by (simp add: BSP_display_def l_hsmtst_def log_pass_def getVersion_is)
qed

text \<open>
  C11: A hierarchical machine whose handlers report a chart does what the chart says: after the
  initial transition and any sequence of events \<open>init\<close> and \<open>dispatch\<close>
  have left and entered exactly the states between each source and target, in the order of the
  nesting, and are in the chart's state; \<open>isIn\<close> holds for that state and its
  superstates only. No access leaves the array of the path.
\<close>

theorem machine_runs_chart:
  assumes "state_machine h c" "h i e0 (i, d0) = Some (Q_RET_TRAN, g, d)" "nested c g" "g \<noteq> top_state c"
  shows "\<exists>t d'. chart_run c g es d = (t, d') \<and> nested c t \<and> t \<noteq> top_state c \<and>
     QHsm_run ret h (top_state c) i e0 es d0 = Some \<lparr>m_state = t, m_temp = t, m_data = d'\<rparr> \<and>
     (\<forall>s. QHsm_isIn ret h s \<lparr>m_state = t, m_temp = t, m_data = d'\<rparr> =
        Some (s \<in> set (chain c t), \<lparr>m_state = t, m_temp = t, m_data = d'\<rparr>))"
proof -
  obtain t d' where run: "chart_run c g es d = (t, d')" by (cases "chart_run c g es d")
  note r = state_machine.run_chart [OF assms run]
  then show ?thesis using run state_machine.is_in_chart [OF assms(1)] by (simp add: QHsm_isIn_def)
qed

theorem machine_runs_chart_witness:
  "\<exists>t d'. chart_run tst_chart QHsmTst_s2 [E_SIG] (BSP_display ''top-INIT;'' (l_hsmtst [])) = (t, d') \<and>
     t = QHsmTst_s11 \<and>
     QHsm_run False tst_handlers QHsm_top_state QHsmTst_initial_state QEP_EMPTY [E_SIG] (l_hsmtst [])
       = Some \<lparr>m_state = t, m_temp = t, m_data = d'\<rparr>"
proof -
  have "tst_handlers QHsmTst_initial_state QEP_EMPTY (QHsmTst_initial_state, l_hsmtst [])
      = Some (Q_RET_TRAN, QHsmTst_s2, BSP_display ''top-INIT;'' (l_hsmtst []))"
    by (simp add: h_initial_def Q_TRAN_def shown_def l_hsmtst_foo)
  from machine_runs_chart [OF tst.state_machine_axioms this, of "[E_SIG]" False]
  show ?thesis by (auto simp: chart_run_def chart_init_def tst_eval)
qed

end
