(* ===== verification/Priority_Set.thy ===== *)
theory Priority_Set
  imports Prelude
begin

text \<open>
  Sets of priorities as bits, \<open>library/qpcpp/include/qpset.h\<close>, with the lookup tables of
  \<open>qf_log2.cpp\<close> and \<open>qf_pwr2.cpp\<close>. Priorities count from 1. The locale \<open>priority_set\<close> states what both
  classes promise.
\<close>

section \<open>The tables\<close>

definition QF_log2Lkup :: "u8 list" where
  "QF_log2Lkup =
    [0, 1, 2, 2, 3, 3, 3, 3, 4, 4, 4, 4, 4, 4, 4, 4, 5, 5, 5, 5, 5, 5, 5, 5, 5, 5, 5, 5, 5, 5, 5, 5,
     6, 6, 6, 6, 6, 6, 6, 6, 6, 6, 6, 6, 6, 6, 6, 6, 6, 6, 6, 6, 6, 6, 6, 6, 6, 6, 6, 6, 6, 6, 6, 6,
     7, 7, 7, 7, 7, 7, 7, 7, 7, 7, 7, 7, 7, 7, 7, 7, 7, 7, 7, 7, 7, 7, 7, 7, 7, 7, 7, 7, 7, 7, 7, 7,
     7, 7, 7, 7, 7, 7, 7, 7, 7, 7, 7, 7, 7, 7, 7, 7, 7, 7, 7, 7, 7, 7, 7, 7, 7, 7, 7, 7, 7, 7, 7, 7,
     8, 8, 8, 8, 8, 8, 8, 8, 8, 8, 8, 8, 8, 8, 8, 8, 8, 8, 8, 8, 8, 8, 8, 8, 8, 8, 8, 8, 8, 8, 8, 8,
     8, 8, 8, 8, 8, 8, 8, 8, 8, 8, 8, 8, 8, 8, 8, 8, 8, 8, 8, 8, 8, 8, 8, 8, 8, 8, 8, 8, 8, 8, 8, 8,
     8, 8, 8, 8, 8, 8, 8, 8, 8, 8, 8, 8, 8, 8, 8, 8, 8, 8, 8, 8, 8, 8, 8, 8, 8, 8, 8, 8, 8, 8, 8, 8,
     8, 8, 8, 8, 8, 8, 8, 8, 8, 8, 8, 8, 8, 8, 8, 8, 8, 8, 8, 8, 8, 8, 8, 8, 8, 8, 8, 8, 8, 8, 8, 8]"

definition QF_pwr2Lkup :: "u8 list" where
  "QF_pwr2Lkup =
    [0, 1, 2, 4, 8, 16, 32, 64, 128, 1, 2, 4, 8, 16, 32, 64,
     128, 1, 2, 4, 8, 16, 32, 64, 128, 1, 2, 4, 8, 16, 32, 64,
     128, 1, 2, 4, 8, 16, 32, 64, 128, 1, 2, 4, 8, 16, 32, 64,
     128, 1, 2, 4, 8, 16, 32, 64, 128, 1, 2, 4, 8, 16, 32, 64,
     128]"

definition QF_invPwr2Lkup :: "u8 list" where
  "QF_invPwr2Lkup =
    [255, 254, 253, 251, 247, 239, 223, 191, 127, 254, 253, 251, 247, 239, 223, 191,
     127, 254, 253, 251, 247, 239, 223, 191, 127, 254, 253, 251, 247, 239, 223, 191,
     127, 254, 253, 251, 247, 239, 223, 191, 127, 254, 253, 251, 247, 239, 223, 191,
     127, 254, 253, 251, 247, 239, 223, 191, 127, 254, 253, 251, 247, 239, 223, 191,
     127]"

definition QF_div8Lkup :: "u8 list" where
  "QF_div8Lkup =
    [0, 0, 0, 0, 0, 0, 0, 0, 0, 1, 1, 1, 1, 1, 1, 1, 1, 2, 2, 2, 2, 2, 2, 2, 2, 3, 3, 3, 3, 3, 3, 3,
     3, 4, 4, 4, 4, 4, 4, 4, 4, 5, 5, 5, 5, 5, 5, 5, 5, 6, 6, 6, 6, 6, 6, 6, 6, 7, 7, 7, 7, 7, 7, 7,
     7]"
text \<open>Access to an element of a table.\<close>

definition lookup :: "u8 list \<Rightarrow> u8 \<Rightarrow> u8 option" where
  "lookup t i = rd (init t) (uint i)"

definition QF_LOG2 :: "u8 \<Rightarrow> u8 option" where
  "QF_LOG2 n = lookup QF_log2Lkup n"

section \<open>Sets of up to 8 priorities\<close>

record QPSet8 =
  m_bits8 :: u8

definition QPSet8_isEmpty :: "QPSet8 \<Rightarrow> bool" where
  "QPSet8_isEmpty s \<longleftrightarrow> m_bits8 s = 0"

definition QPSet8_notEmpty :: "QPSet8 \<Rightarrow> bool" where
  "QPSet8_notEmpty s \<longleftrightarrow> m_bits8 s \<noteq> 0"

definition QPSet8_hasElement :: "u8 \<Rightarrow> QPSet8 \<Rightarrow> bool option" where
  "QPSet8_hasElement n s = do { b \<leftarrow> lookup QF_pwr2Lkup n; Some (m_bits8 s AND b \<noteq> 0) }"

definition QPSet8_insert :: "u8 \<Rightarrow> QPSet8 \<Rightarrow> QPSet8 option" where
  "QPSet8_insert n s = do { b \<leftarrow> lookup QF_pwr2Lkup n; Some (s\<lparr>m_bits8 := m_bits8 s OR b\<rparr>) }"

definition QPSet8_remove :: "u8 \<Rightarrow> QPSet8 \<Rightarrow> QPSet8 option" where
  "QPSet8_remove n s = do { b \<leftarrow> lookup QF_invPwr2Lkup n; Some (s\<lparr>m_bits8 := m_bits8 s AND b\<rparr>) }"

definition QPSet8_findMax :: "QPSet8 \<Rightarrow> u8 option" where
  "QPSet8_findMax s = QF_LOG2 (m_bits8 s)"

section \<open>Sets of up to 64 priorities\<close>

text \<open>A bit for every byte of the second array that is not zero, and the bytes.\<close>

record QPSet64 =
  m_bytes :: u8
  m_bits :: "u8 cbuf"

definition QPSet64_isEmpty :: "QPSet64 \<Rightarrow> bool" where
  "QPSet64_isEmpty s \<longleftrightarrow> m_bytes s = 0"

definition QPSet64_notEmpty :: "QPSet64 \<Rightarrow> bool" where
  "QPSet64_notEmpty s \<longleftrightarrow> m_bytes s \<noteq> 0"

definition QPSet64_hasElement :: "u8 \<Rightarrow> QPSet64 \<Rightarrow> bool option" where
  "QPSet64_hasElement n s =
     do { m \<leftarrow> lookup QF_div8Lkup n;
          x \<leftarrow> rd (m_bits s) (uint m);
          b \<leftarrow> lookup QF_pwr2Lkup n;
          Some (x AND b \<noteq> 0) }"

definition QPSet64_insert :: "u8 \<Rightarrow> QPSet64 \<Rightarrow> QPSet64 option" where
  "QPSet64_insert n s =
     do { m \<leftarrow> lookup QF_div8Lkup n;
          x \<leftarrow> rd (m_bits s) (uint m);
          b \<leftarrow> lookup QF_pwr2Lkup n;
          bits \<leftarrow> wr (m_bits s) (uint m) (x OR b);
          c \<leftarrow> lookup QF_pwr2Lkup (m + 1);
          Some (s\<lparr>m_bits := bits, m_bytes := m_bytes s OR c\<rparr>) }"

definition QPSet64_remove :: "u8 \<Rightarrow> QPSet64 \<Rightarrow> QPSet64 option" where
  "QPSet64_remove n s =
     do { m \<leftarrow> lookup QF_div8Lkup n;
          x \<leftarrow> rd (m_bits s) (uint m);
          b \<leftarrow> lookup QF_invPwr2Lkup n;
          bits \<leftarrow> wr (m_bits s) (uint m) (x AND b);
          let s = s\<lparr>m_bits := bits\<rparr>;
          if x AND b = 0 then do { c \<leftarrow> lookup QF_invPwr2Lkup (m + 1); Some (s\<lparr>m_bytes := m_bytes s AND c\<rparr>) }
          else Some s }"

definition QPSet64_findMax :: "QPSet64 \<Rightarrow> u8 option" where
  "QPSet64_findMax s =
     (if m_bytes s \<noteq> 0 then do {
        l \<leftarrow> QF_LOG2 (m_bytes s);
        let n = l - 1;
        x \<leftarrow> rd (m_bits s) (uint n);
        k \<leftarrow> QF_LOG2 x;
        Some (k + push_bit 3 n) }
      else Some 0)"

section \<open>What the tables hold\<close>

lemma lookup_nth: "unat i < length xs \<Longrightarrow> lookup xs i = Some (xs ! unat i)"
  using rd_init [of "uint i" xs] by (simp add: lookup_def nat_uint_eq)

lemma log2_blocks:
  "QF_log2Lkup = [0, 1] @ replicate 2 2 @ replicate 4 3 @ replicate 8 4 @ replicate 16 5 @ replicate 32 6 @ replicate 64 7 @ replicate 128 8"
  by code_simp

lemma power_tables:
  "\<forall>n \<in> {1..<65}. QF_pwr2Lkup ! n = 2 ^ ((n - 1) mod 8) \<and> QF_invPwr2Lkup ! n = NOT (2 ^ ((n - 1) mod 8)) \<and>
     QF_div8Lkup ! n = of_nat ((n - 1) div 8)"
  by code_simp

lemma table_lengths: "length QF_log2Lkup = 256" "length QF_pwr2Lkup = 65" "length QF_invPwr2Lkup = 65" "length QF_div8Lkup = 65"
  by code_simp+

lemma lookup_powers:
  assumes "1 \<le> n" "n \<le> 64"
  shows "lookup QF_pwr2Lkup (of_nat n) = Some (2 ^ ((n - 1) mod 8))"
    and "lookup QF_invPwr2Lkup (of_nat n) = Some (NOT (2 ^ ((n - 1) mod 8)))"
    and "lookup QF_div8Lkup (of_nat n) = Some (of_nat ((n - 1) div 8))"
proof -
  have "unat (of_nat n :: u8) = n" using assms by (simp add: unsigned_of_nat take_bit_nat_eq_self)
  then show "lookup QF_pwr2Lkup (of_nat n) = Some (2 ^ ((n - 1) mod 8))"
    and "lookup QF_invPwr2Lkup (of_nat n) = Some (NOT (2 ^ ((n - 1) mod 8)))"
    and "lookup QF_div8Lkup (of_nat n) = Some (of_nat ((n - 1) div 8))"
    using lookup_nth [of "of_nat n"] assms power_tables by (simp_all add: table_lengths)
qed

text \<open>The priorities of a byte: bit 0 stands for 1.\<close>

definition byte_set :: "u8 \<Rightarrow> nat set" where
  "byte_set b = {n. 1 \<le> n \<and> n \<le> 8 \<and> bit b (n - 1)}"

lemma finite_byte_set [simp]: "finite (byte_set b)"
  by (rule finite_subset [of _ "{..8}"]) (auto simp: byte_set_def)

lemma byte_set_empty_iff: "byte_set b = {} \<longleftrightarrow> b = 0"
proof
  assume e: "byte_set b = {}"
  show "b = 0"
  proof (rule bit_word_eqI)
    fix k assume "k < LENGTH(8)"
    then show "bit b k \<longleftrightarrow> bit 0 k" using e by (auto simp: byte_set_def dest: spec [of _ "Suc k"])
  qed
qed (simp add: byte_set_def)

lemma byte_set_max:
  assumes "2 ^ k \<le> unat b" "unat b < 2 ^ Suc k" "k < 8"
  shows "Max (byte_set b) = Suc k"
proof (rule Max_eqI)
  have "unat b div 2 ^ k = 1" using assms(1,2) by (intro div_nat_eqI) simp_all
  then have "bit (unat b) k" by (simp add: bit_iff_odd)
  then have "bit b k" by (simp add: bit_unsigned_iff)
  with assms(3) show "Suc k \<in> byte_set b" by (simp add: byte_set_def)
  fix n assume n: "n \<in> byte_set b"
  show "n \<le> Suc k"
  proof (rule ccontr)
    assume "\<not> n \<le> Suc k"
    then have "(2 :: nat) ^ Suc k \<le> 2 ^ (n - 1)" by (intro power_increasing) simp_all
    with assms(2) have "unat b < 2 ^ (n - 1)" by (rule less_le_trans)
    then have "\<not> bit (unat b) (n - 1)" by (simp add: bit_iff_odd)
    with n show False by (simp add: byte_set_def bit_unsigned_iff)
  qed
qed simp

lemma log2_nth:
  assumes "n < 256" "n \<noteq> 0"
  shows "\<exists>k < 8. 2 ^ k \<le> n \<and> n < 2 ^ Suc k \<and> QF_log2Lkup ! n = of_nat (Suc k)"
proof -
  consider "n = 1" | "2 \<le> n" "n < 4" | "4 \<le> n" "n < 8" | "8 \<le> n" "n < 16" | "16 \<le> n" "n < 32" | "32 \<le> n" "n < 64" | "64 \<le> n" "n < 128" | "128 \<le> n"
    using assms by linarith
  then show ?thesis
  proof cases
    case 1 then show ?thesis by (intro exI [of _ 0]) (simp add: log2_blocks)
  next
    case 2 then show ?thesis by (intro exI [of _ 1]) (auto simp: log2_blocks nth_append nth_Cons')
  next
    case 3 then show ?thesis by (intro exI [of _ 2]) (auto simp: log2_blocks nth_append)
  next
    case 4 then show ?thesis by (intro exI [of _ 3]) (auto simp: log2_blocks nth_append)
  next
    case 5 then show ?thesis by (intro exI [of _ 4]) (auto simp: log2_blocks nth_append)
  next
    case 6 then show ?thesis by (intro exI [of _ 5]) (auto simp: log2_blocks nth_append)
  next
    case 7 then show ?thesis by (intro exI [of _ 6]) (auto simp: log2_blocks nth_append)
  next
    case 8 then show ?thesis using assms by (intro exI [of _ 7]) (auto simp: log2_blocks nth_append)
  qed
qed

lemma QF_LOG2_max: "QF_LOG2 b = Some (if b = 0 then 0 else of_nat (Max (byte_set b)))"
proof (cases "b = 0")
  case True
  then show ?thesis using lookup_nth [of 0 QF_log2Lkup] by (simp add: QF_LOG2_def table_lengths) (simp add: log2_blocks)
next
  case False
  then obtain k where k: "k < 8" "2 ^ k \<le> unat b" "unat b < 2 ^ Suc k" "QF_log2Lkup ! unat b = of_nat (Suc k)"
    using log2_nth [of "unat b"] by (auto simp: unat_eq_0)
  with False byte_set_max [OF k(2,3,1)] show ?thesis
    using lookup_nth [of b QF_log2Lkup] by (simp add: QF_LOG2_def table_lengths)
qed

lemma byte_set_or: "k < 8 \<Longrightarrow> byte_set (b OR 2 ^ k) = insert (Suc k) (byte_set b)"
  by (auto simp: byte_set_def bit_or_iff bit_exp_iff)

lemma byte_set_and_not: "byte_set (b AND NOT (2 ^ k)) = byte_set b - {Suc k}"
  by (auto simp: byte_set_def bit_and_iff bit_not_iff bit_exp_iff)

lemma and_power_iff: "k < 8 \<Longrightarrow> (b :: u8) AND 2 ^ k \<noteq> 0 \<longleftrightarrow> bit b k"
  by (simp add: and_exp_eq_0_iff_not_bit)

section \<open>What the sets promise\<close>

text \<open>A sequence of changes, on a representation and on the set itself.\<close>

datatype set_op = Put nat | Take nat

fun set_run :: "(u8 \<Rightarrow> 's \<Rightarrow> 's option) \<Rightarrow> (u8 \<Rightarrow> 's \<Rightarrow> 's option) \<Rightarrow> set_op list \<Rightarrow> 's \<Rightarrow> 's option" where
  "set_run ins rem [] s = Some s"
| "set_run ins rem (Put n # ops) s = do { s \<leftarrow> ins (of_nat n) s; set_run ins rem ops s }"
| "set_run ins rem (Take n # ops) s = do { s \<leftarrow> rem (of_nat n) s; set_run ins rem ops s }"

fun set_spec :: "set_op list \<Rightarrow> nat set \<Rightarrow> nat set" where
  "set_spec [] S = S"
| "set_spec (Put n # ops) S = set_spec ops (insert n S)"
| "set_spec (Take n # ops) S = set_spec ops (S - {n})"

fun op_prio :: "set_op \<Rightarrow> nat" where
  "op_prio (Put n) = n"
| "op_prio (Take n) = n"

locale priority_set =
  fixes isEmpty :: "'s \<Rightarrow> bool" and hasElement :: "u8 \<Rightarrow> 's \<Rightarrow> bool option" and
    insert' remove' :: "u8 \<Rightarrow> 's \<Rightarrow> 's option" and findMax :: "'s \<Rightarrow> u8 option" and
    elems :: "'s \<Rightarrow> nat set" and ok :: "'s \<Rightarrow> bool" and limit :: nat
  assumes elems_range: "ok s \<Longrightarrow> elems s \<subseteq> {1..limit}"
    and isEmpty_iff: "ok s \<Longrightarrow> isEmpty s \<longleftrightarrow> elems s = {}"
    and hasElement_iff: "ok s \<Longrightarrow> 1 \<le> n \<Longrightarrow> n \<le> limit \<Longrightarrow> hasElement (of_nat n) s = Some (n \<in> elems s)"
    and insert_elems: "ok s \<Longrightarrow> 1 \<le> n \<Longrightarrow> n \<le> limit \<Longrightarrow>
       \<exists>s'. insert' (of_nat n) s = Some s' \<and> ok s' \<and> elems s' = insert n (elems s)"
    and remove_elems: "ok s \<Longrightarrow> 1 \<le> n \<Longrightarrow> n \<le> limit \<Longrightarrow>
       \<exists>s'. remove' (of_nat n) s = Some s' \<and> ok s' \<and> elems s' = elems s - {n}"
    and findMax_elems: "ok s \<Longrightarrow> findMax s = Some (if elems s = {} then 0 else of_nat (Max (elems s)))"
    and limit_small: "limit \<le> 64"
begin

lemma finite_elems: "ok s \<Longrightarrow> finite (elems s)"
  using elems_range finite_subset by blast

lemma findMax_in:
  assumes "ok s" "elems s \<noteq> {}"
  shows "\<exists>n. findMax s = Some (of_nat n) \<and> n \<in> elems s \<and> 1 \<le> n \<and> n \<le> limit \<and> (\<forall>k \<in> elems s. k \<le> n)"
  using assms findMax_elems [OF assms(1)] Max_in [OF finite_elems [OF assms(1)] assms(2)] elems_range [OF assms(1)]
    Max_ge [OF finite_elems [OF assms(1)]]
  by (intro exI [of _ "Max (elems s)"]) auto

lemma run_spec:
  assumes "ok s" "\<forall>x \<in> set ops. 1 \<le> op_prio x \<and> op_prio x \<le> limit"
  shows "\<exists>s'. set_run insert' remove' ops s = Some s' \<and> ok s' \<and> elems s' = set_spec ops (elems s)"
  using assms
proof (induction ops arbitrary: s)
  case (Cons x ops)
  show ?case
  proof (cases x)
    case (Put n)
    with Cons.prems insert_elems [of s n] obtain s1 where
      "insert' (of_nat n) s = Some s1" "ok s1" "elems s1 = insert n (elems s)" by auto
    with Put Cons.IH [of s1] Cons.prems(2) show ?thesis by simp
  next
    case (Take n)
    with Cons.prems remove_elems [of s n] obtain s1 where
      "remove' (of_nat n) s = Some s1" "ok s1" "elems s1 = elems s - {n}" by auto
    with Take Cons.IH [of s1] Cons.prems(2) show ?thesis by simp
  qed
qed simp

text \<open>Taking the greatest element again and again.\<close>

fun drain :: "nat \<Rightarrow> 's \<Rightarrow> nat list option" where
  "drain 0 s = (if isEmpty s then Some [] else None)"
| "drain (Suc k) s =
     (if isEmpty s then Some []
      else do { p \<leftarrow> findMax s; s \<leftarrow> remove' p s; ps \<leftarrow> drain k s; Some (unat p # ps) })"

lemma drain_descending:
  assumes "ok s" "card (elems s) \<le> k"
  shows "drain k s = Some (rev (sorted_list_of_set (elems s)))"
  using assms
proof (induction k arbitrary: s)
  case 0
  then have "elems s = {}" using finite_elems [of s] by simp
  then show ?case using 0 isEmpty_iff by simp
next
  case (Suc k)
  show ?case
  proof (cases "elems s = {}")
    case True
    then show ?thesis using Suc.prems isEmpty_iff by simp
  next
    case False
    from findMax_in [OF Suc.prems(1) False] obtain n where
      n: "findMax s = Some (of_nat n)" "n \<in> elems s" "1 \<le> n" "n \<le> limit" "\<forall>k \<in> elems s. k \<le> n" by blast
    from remove_elems [OF Suc.prems(1) n(3,4)] obtain s' where
      s': "remove' (of_nat n) s = Some s'" "ok s'" "elems s' = elems s - {n}" by blast
    have fin: "finite (elems s)" using finite_elems [OF Suc.prems(1)] .
    have "card (elems s') \<le> k" using Suc.prems(2) n(2) fin s'(3) by simp
    then have "drain k s' = Some (rev (sorted_list_of_set (elems s - {n})))" using Suc.IH s' by simp
    moreover have "sorted_list_of_set (elems s) = sorted_list_of_set (elems s - {n}) @ [n]"
    proof (rule sorted_distinct_set_unique)
      show "sorted (sorted_list_of_set (elems s - {n}) @ [n])" using n(5) fin by (simp add: sorted_append)
    qed (use fin n(2) in auto)
    moreover have "unat (of_nat n :: u8) = n" using n(4) limit_small by (simp add: unsigned_of_nat take_bit_nat_eq_self)
    ultimately show ?thesis using False Suc.prems(1) isEmpty_iff n(1) s'(1) by simp
  qed
qed

end

interpretation set8: priority_set QPSet8_isEmpty QPSet8_hasElement QPSet8_insert QPSet8_remove QPSet8_findMax
  "\<lambda>s. byte_set (m_bits8 s)" "\<lambda>s. True" 8
proof
  fix s :: QPSet8 and n :: nat
  show "byte_set (m_bits8 s) \<subseteq> {1..8}" by (auto simp: byte_set_def)
  show "QPSet8_isEmpty s \<longleftrightarrow> byte_set (m_bits8 s) = {}" by (simp add: QPSet8_isEmpty_def byte_set_empty_iff)
  show "QPSet8_findMax s = Some (if byte_set (m_bits8 s) = {} then 0 else of_nat (Max (byte_set (m_bits8 s))))"
    by (simp add: QPSet8_findMax_def QF_LOG2_max byte_set_empty_iff)
  assume n: "1 \<le> n" "n \<le> 8"
  then have k: "(n - 1) mod 8 = n - 1" "n - 1 < 8" "Suc (n - 1) = n" by simp_all
  note look = lookup_powers [of n]
  show "QPSet8_hasElement (of_nat n) s = Some (n \<in> byte_set (m_bits8 s))"
    using n look k and_power_iff [OF k(2)] by (simp add: QPSet8_hasElement_def byte_set_def)
  show "\<exists>s'. QPSet8_insert (of_nat n) s = Some s' \<and> True \<and> byte_set (m_bits8 s') = insert n (byte_set (m_bits8 s))"
    using n look k byte_set_or [OF k(2)] by (simp add: QPSet8_insert_def)
  show "\<exists>s'. QPSet8_remove (of_nat n) s = Some s' \<and> True \<and> byte_set (m_bits8 s') = byte_set (m_bits8 s) - {n}"
    using n look k byte_set_and_not [of _ "n - 1"] by (simp add: QPSet8_remove_def)
qed simp

lemma block_index:
  fixes i k :: nat
  assumes "1 \<le> k" "k \<le> 8"
  shows "(8 * i + k - 1) div 8 = i" "(8 * i + k - 1) mod 8 = k - 1"
proof -
  obtain j where "k = Suc j" "j < 8" using assms by (cases k) simp_all
  then show "(8 * i + k - 1) div 8 = i" "(8 * i + k - 1) mod 8 = k - 1" by simp_all
qed

text \<open>The larger sets: eight bytes, and the bits of the first array tell which of them are not empty.\<close>

definition bytes_elems :: "u8 cbuf \<Rightarrow> nat set" where
  "bytes_elems bs = {n. 1 \<le> n \<and> n \<le> 64 \<and> (\<exists>x. bs ! ((n - 1) div 8) = Some x \<and> bit x ((n - 1) mod 8))}"

definition bytes_ok :: "u8 cbuf \<Rightarrow> bool" where
  "bytes_ok bs \<longleftrightarrow> length bs = 8 \<and> None \<notin> set bs"

definition set64_ok :: "QPSet64 \<Rightarrow> bool" where
  "set64_ok s \<longleftrightarrow> bytes_ok (m_bits s) \<and> (\<forall>i < 8. bit (m_bytes s) i \<longleftrightarrow> m_bits s ! i \<noteq> Some 0)"

lemma bytes_okD: "bytes_ok bs \<Longrightarrow> i < 8 \<Longrightarrow> \<exists>x. bs ! i = Some x"
  by (metis bytes_ok_def nth_mem not_None_eq)

lemma bytes_update:
  assumes "bytes_ok bs" "i < 8"
  shows "bytes_ok (bs[i := Some y])"
    and "bytes_elems (bs[i := Some y]) = (bytes_elems bs - {8 * i + 1..8 * i + 8}) \<union> (\<lambda>k. 8 * i + k) ` byte_set y"
proof -
  show "bytes_ok (bs[i := Some y])" using assms set_update_subset_insert [of bs i "Some y"] by (auto simp: bytes_ok_def)
  have len: "length bs = 8" using assms(1) by (simp add: bytes_ok_def)
  show "bytes_elems (bs[i := Some y]) = (bytes_elems bs - {8 * i + 1..8 * i + 8}) \<union> (\<lambda>k. 8 * i + k) ` byte_set y" (is "?l = ?r")
  proof (rule set_eqI)
    fix n
    show "n \<in> ?l \<longleftrightarrow> n \<in> ?r"
    proof (cases "(n - 1) div 8 = i \<and> 1 \<le> n")
      case True
      then have n: "n = 8 * i + ((n - 1) mod 8 + 1)" "(n - 1) mod 8 < 8" "n \<le> 64"
        using assms(2) div_mult_mod_eq [of "n - 1" 8] by linarith+
      have inr: "n \<in> {8 * i + 1..8 * i + 8}" using n(1,2) unfolding atLeastAtMost_iff by linarith
      define r where "r = (n - 1) mod 8 + 1"
      have "n \<in> ?l \<longleftrightarrow> bit y (r - 1)"
        using True n(3) assms(2) len by (simp add: bytes_elems_def r_def)
      also have "\<dots> \<longleftrightarrow> r \<in> byte_set y" using n(2) by (auto simp: byte_set_def r_def)
      also have "\<dots> \<longleftrightarrow> 8 * i + r \<in> (\<lambda>k. 8 * i + k) ` byte_set y" by auto
      also have "8 * i + r = n" using n(1) by (simp add: r_def)
      also have "n \<in> (\<lambda>k. 8 * i + k) ` byte_set y \<longleftrightarrow> n \<in> ?r" using inr by blast
      finally show ?thesis .
    next
      case False
      then have "n \<notin> {8 * i + 1..8 * i + 8}" "n \<notin> (\<lambda>k. 8 * i + k) ` byte_set y"
        by (auto simp: byte_set_def)
      moreover have "n \<in> ?l \<longleftrightarrow> n \<in> bytes_elems bs"
        using False len by (cases "1 \<le> n") (auto simp: bytes_elems_def)
      ultimately show ?thesis by simp
    qed
  qed
qed

lemma bytes_change:
  assumes "bytes_ok bs" "i < 8" "bs ! i = Some x" "1 \<le> k" "k \<le> 8"
  shows "byte_set y = insert k (byte_set x) \<Longrightarrow> bytes_elems (bs[i := Some y]) = insert (8 * i + k) (bytes_elems bs)"
    and "byte_set y = byte_set x - {k} \<Longrightarrow> bytes_elems (bs[i := Some y]) = bytes_elems bs - {8 * i + k}"
proof -
  let ?B = "{8 * i + 1..8 * i + 8}"
  have same: "bytes_elems bs = (bytes_elems bs - ?B) \<union> (\<lambda>k. 8 * i + k) ` byte_set x"
    using bytes_update(2) [OF assms(1,2), of x] assms(3) by (metis list_update_id)
  show "bytes_elems (bs[i := Some y]) = insert (8 * i + k) (bytes_elems bs)" if y: "byte_set y = insert k (byte_set x)"
  proof -
    have "bytes_elems (bs[i := Some y]) = (bytes_elems bs - ?B) \<union> insert (8 * i + k) ((\<lambda>k. 8 * i + k) ` byte_set x)"
      using bytes_update(2) [OF assms(1,2), of y] by (simp add: y)
    with same show ?thesis by blast
  qed
  show "bytes_elems (bs[i := Some y]) = bytes_elems bs - {8 * i + k}" if y: "byte_set y = byte_set x - {k}"
  proof -
    have "(\<lambda>k. 8 * i + k) ` (byte_set x - {k}) = (\<lambda>k. 8 * i + k) ` byte_set x - {8 * i + k}" by auto
    then have new: "bytes_elems (bs[i := Some y]) = (bytes_elems bs - ?B) \<union> ((\<lambda>k. 8 * i + k) ` byte_set x - {8 * i + k})"
      using bytes_update(2) [OF assms(1,2), of y] by (simp add: y)
    have "8 * i + k \<in> ?B" using assms(4,5) by simp
    then show ?thesis using new same by blast
  qed
qed

lemma set64_max:
  assumes "set64_ok s"
  shows "QPSet64_findMax s = Some (if bytes_elems (m_bits s) = {} then 0 else of_nat (Max (bytes_elems (m_bits s))))"
proof (cases "m_bytes s = 0")
  case True
  have "n \<notin> bytes_elems (m_bits s)" for n
  proof
    assume "n \<in> bytes_elems (m_bits s)"
    then have "(n - 1) div 8 < 8" "\<exists>x. m_bits s ! ((n - 1) div 8) = Some x \<and> bit x ((n - 1) mod 8)"
      by (auto simp: bytes_elems_def)
    moreover have "\<not> bit (m_bytes s) ((n - 1) div 8)" using True by simp
    ultimately show False using assms by (auto simp: set64_ok_def)
  qed
  then have "bytes_elems (m_bits s) = {}" by blast
  with True show ?thesis by (simp add: QPSet64_findMax_def)
next
  case False
  let ?i = "Max (byte_set (m_bytes s)) - 1"
  have "Max (byte_set (m_bytes s)) \<in> byte_set (m_bytes s)"
    using False byte_set_empty_iff by (intro Max_in) simp_all
  then have i: "?i < 8" "bit (m_bytes s) ?i" "Max (byte_set (m_bytes s)) = Suc ?i" by (auto simp: byte_set_def)
  have above: "\<not> bit (m_bytes s) j" if "?i < j" "j < 8" for j
  proof
    assume "bit (m_bytes s) j"
    then have "Suc j \<in> byte_set (m_bytes s)" using that by (simp add: byte_set_def)
    then have "Suc j \<le> Max (byte_set (m_bytes s))" by (intro Max_ge) simp_all
    with that i(3) show False by linarith
  qed
  have ok: "bytes_ok (m_bits s)" using assms by (simp add: set64_ok_def)
  from bytes_okD [OF ok i(1)] obtain x where x: "m_bits s ! ?i = Some x" by blast
  have x0: "x \<noteq> 0" using assms i(1,2) x by (auto simp: set64_ok_def)
  let ?k = "Max (byte_set x)"
  have "?k \<in> byte_set x" using x0 byte_set_empty_iff by (intro Max_in) simp_all
  then have k: "1 \<le> ?k" "?k \<le> 8" "bit x (?k - 1)" by (auto simp: byte_set_def)
  have mem: "8 * ?i + ?k \<in> bytes_elems (m_bits s)"
  proof -
    show ?thesis using block_index [OF k(1,2), of ?i] k i x by (simp add: bytes_elems_def)
  qed
  have "Max (bytes_elems (m_bits s)) = 8 * ?i + ?k"
  proof (rule Max_eqI)
    show "finite (bytes_elems (m_bits s))" by (rule finite_subset [of _ "{..64}"]) (auto simp: bytes_elems_def)
    fix n assume n: "n \<in> bytes_elems (m_bits s)"
    then obtain y where y: "1 \<le> n" "n \<le> 64" "m_bits s ! ((n - 1) div 8) = Some y" "bit y ((n - 1) mod 8)"
      by (auto simp: bytes_elems_def)
    then have j: "(n - 1) div 8 < 8" "bit (m_bytes s) ((n - 1) div 8)"
      using assms by (auto simp: set64_ok_def)
    then have "(n - 1) div 8 \<le> ?i" using above by (meson not_le)
    moreover have "(n - 1) mod 8 + 1 \<le> ?k" if "(n - 1) div 8 = ?i"
    proof -
      have "(n - 1) mod 8 + 1 \<in> byte_set x" using that y x by (simp add: byte_set_def)
      then show ?thesis by (intro Max_ge) simp_all
    qed
    moreover have "n = 8 * ((n - 1) div 8) + ((n - 1) mod 8 + 1)" "(n - 1) mod 8 < 8"
      using y(1) div_mult_mod_eq [of "n - 1" 8] by (linarith, simp)
    ultimately show "n \<le> 8 * ?i + ?k" using k(1) by (cases "(n - 1) div 8 = ?i") linarith+
  qed (rule mem)
  moreover have "rd (m_bits s) (uint (of_nat (Suc ?i) - 1 :: u8)) = Some x"
    using i(1) x ok by (simp add: rd_def bytes_ok_def unsigned_of_nat take_bit_nat_eq_self)
  moreover have "push_bit 3 (of_nat ?i) = (of_nat (8 * ?i) :: u8)"
    by (simp add: push_bit_eq_mult)
  ultimately show ?thesis
    using False mem x0 i(3)
    by (auto simp: QPSet64_findMax_def QF_LOG2_max Let_def add.commute)
qed

lemma lookup_byte:
  assumes "i < 8"
  shows "lookup QF_pwr2Lkup (of_nat i + 1) = Some (2 ^ i)" "lookup QF_invPwr2Lkup (of_nat i + 1) = Some (NOT (2 ^ i))"
    and "uint (of_nat i :: u8) = int i"
proof -
  have "(of_nat (Suc i) :: u8) = of_nat i + 1" by simp
  then show "lookup QF_pwr2Lkup (of_nat i + 1) = Some (2 ^ i)" "lookup QF_invPwr2Lkup (of_nat i + 1) = Some (NOT (2 ^ i))"
    using lookup_powers(1,2) [of "Suc i"] assms by (simp_all add: add.commute)
  show "uint (of_nat i :: u8) = int i" using assms by (simp add: unsigned_of_nat take_bit_nat_eq_self)
qed

lemma set64_changes:
  assumes "set64_ok s" "1 \<le> n" "n \<le> 64"
  defines "i \<equiv> (n - 1) div 8" and "k \<equiv> (n - 1) mod 8"
  obtains x where "m_bits s ! i = Some x"
    "QPSet64_hasElement (of_nat n) s = Some (bit x k)"
    "QPSet64_insert (of_nat n) s = Some (s\<lparr>m_bits := (m_bits s)[i := Some (x OR 2 ^ k)], m_bytes := m_bytes s OR 2 ^ i\<rparr>)"
    "QPSet64_remove (of_nat n) s = Some (s\<lparr>m_bits := (m_bits s)[i := Some (x AND NOT (2 ^ k))],
       m_bytes := (if x AND NOT (2 ^ k) = 0 then m_bytes s AND NOT (2 ^ i) else m_bytes s)\<rparr>)"
proof -
  have i: "i < 8" "k < 8" using assms by (simp_all add: i_def k_def)
  have ok: "bytes_ok (m_bits s)" "length (m_bits s) = 8" using assms(1) by (simp_all add: set64_ok_def bytes_ok_def)
  from bytes_okD [OF ok(1) i(1)] obtain x where x: "m_bits s ! i = Some x" by blast
  note look = lookup_powers [OF assms(2,3), folded i_def k_def] lookup_byte [OF i(1)]
  have rd: "rd (m_bits s) (int i) = Some x" and wr: "wr (m_bits s) (int i) y = Some ((m_bits s)[i := Some y])" for y
    using i(1) ok(2) x by (simp_all add: rd_def wr_def)
  show thesis
    by (rule that [OF x])
      (simp_all add: QPSet64_hasElement_def QPSet64_insert_def QPSet64_remove_def look rd wr Let_def and_power_iff [OF i(2)])
qed

lemma set64_byte_bits:
  assumes "i < 8" "j < 8"
  shows "bit (b OR 2 ^ i :: u8) j \<longleftrightarrow> j = i \<or> bit b j" "bit (b AND NOT (2 ^ i) :: u8) j \<longleftrightarrow> j \<noteq> i \<and> bit b j"
  using assms by (auto simp: bit_or_iff bit_and_iff bit_not_iff bit_exp_iff)

interpretation set64: priority_set QPSet64_isEmpty QPSet64_hasElement QPSet64_insert QPSet64_remove QPSet64_findMax
  "\<lambda>s. bytes_elems (m_bits s)" set64_ok 64
proof
  fix s :: QPSet64 and n :: nat
  assume ok: "set64_ok s"
  show "bytes_elems (m_bits s) \<subseteq> {1..64}" by (auto simp: bytes_elems_def)
  show "QPSet64_findMax s = Some (if bytes_elems (m_bits s) = {} then 0 else of_nat (Max (bytes_elems (m_bits s))))"
    using set64_max [OF ok] .
  show "QPSet64_isEmpty s \<longleftrightarrow> bytes_elems (m_bits s) = {}"
  proof -
    have "m_bytes s = 0 \<longleftrightarrow> (\<forall>i < 8. m_bits s ! i = Some 0)"
      using ok byte_set_empty_iff [of "m_bytes s"] by (fastforce simp: set64_ok_def byte_set_def bit_word_eqI)
    also have "\<dots> \<longleftrightarrow> bytes_elems (m_bits s) = {}"
    proof
      assume e: "bytes_elems (m_bits s) = {}"
      show "\<forall>i < 8. m_bits s ! i = Some 0"
      proof (intro allI impI)
        fix i :: nat assume i: "i < 8"
        then obtain x where x: "m_bits s ! i = Some x" using ok bytes_okD unfolding set64_ok_def by blast
        have "byte_set x = {}"
        proof (rule ccontr)
          assume "byte_set x \<noteq> {}"
          then obtain k where "1 \<le> k" "k \<le> 8" "bit x (k - 1)" by (auto simp: byte_set_def)
          then have "8 * i + k \<in> bytes_elems (m_bits s)"
            using block_index [of k i] i x by (simp add: bytes_elems_def)
          with e show False by simp
        qed
        with x show "m_bits s ! i = Some 0" by (simp add: byte_set_empty_iff)
      qed
    qed (auto simp: bytes_elems_def)
    finally show ?thesis by (simp add: QPSet64_isEmpty_def)
  qed
  assume n: "1 \<le> n" "n \<le> 64"
  let ?i = "(n - 1) div 8" and ?k = "(n - 1) mod 8"
  have idx: "?i < 8" "?k < 8" "8 * ?i + Suc ?k = n" "1 \<le> Suc ?k" "Suc ?k \<le> 8"
    using n div_mult_mod_eq [of "n - 1" 8] by (auto simp: less_eq_Suc_le [symmetric])
  have b: "bytes_ok (m_bits s)" "length (m_bits s) = 8" using ok by (simp_all add: set64_ok_def bytes_ok_def)
  from set64_changes [OF ok n] obtain x where x: "m_bits s ! ?i = Some x"
    "QPSet64_hasElement (of_nat n) s = Some (bit x ?k)"
    "QPSet64_insert (of_nat n) s = Some (s\<lparr>m_bits := (m_bits s)[?i := Some (x OR 2 ^ ?k)], m_bytes := m_bytes s OR 2 ^ ?i\<rparr>)"
    "QPSet64_remove (of_nat n) s = Some (s\<lparr>m_bits := (m_bits s)[?i := Some (x AND NOT (2 ^ ?k))],
       m_bytes := (if x AND NOT (2 ^ ?k) = 0 then m_bytes s AND NOT (2 ^ ?i) else m_bytes s)\<rparr>)" .
  note change = bytes_change [OF b(1) idx(1) x(1) idx(4,5), unfolded idx(3)]
  show "QPSet64_hasElement (of_nat n) s = Some (n \<in> bytes_elems (m_bits s))"
    using x(1,2) n by (simp add: bytes_elems_def)
  have bits: "bit (m_bytes s) j \<longleftrightarrow> m_bits s ! j \<noteq> Some 0" if "j < 8" for j using ok that by (simp add: set64_ok_def)
  have "x OR 2 ^ ?k \<noteq> 0"
    using byte_set_or [OF idx(2), of x] byte_set_empty_iff [of "x OR 2 ^ ?k"] by force
  then have "set64_ok (s\<lparr>m_bits := (m_bits s)[?i := Some (x OR 2 ^ ?k)], m_bytes := m_bytes s OR 2 ^ ?i\<rparr>)"
    using bytes_update(1) [OF b(1) idx(1)] bits b(2) idx(1)
    by (auto simp: set64_ok_def set64_byte_bits nth_list_update)
  then show "\<exists>s'. QPSet64_insert (of_nat n) s = Some s' \<and> set64_ok s' \<and> bytes_elems (m_bits s') = insert n (bytes_elems (m_bits s))"
    using x(3) change(1) [OF byte_set_or [OF idx(2)]] by simp
  have "set64_ok (s\<lparr>m_bits := (m_bits s)[?i := Some (x AND NOT (2 ^ ?k))],
       m_bytes := (if x AND NOT (2 ^ ?k) = 0 then m_bytes s AND NOT (2 ^ ?i) else m_bytes s)\<rparr>)"
  proof -
    have "bit (m_bytes s) ?i" if "x AND NOT (2 ^ ?k) \<noteq> 0" using bits [OF idx(1)] x(1) that by auto
    then show ?thesis
      using bytes_update(1) [OF b(1) idx(1)] bits b(2) idx(1)
      by (auto simp: set64_ok_def set64_byte_bits nth_list_update)
  qed
  then show "\<exists>s'. QPSet64_remove (of_nat n) s = Some s' \<and> set64_ok s' \<and> bytes_elems (m_bits s') = bytes_elems (m_bits s) - {n}"
    using x(4) change(2) [OF byte_set_and_not] by simp
qed simp

lemmas set64_rules = set64.insert_elems set64.remove_elems set64.findMax_elems set64.hasElement_iff

text \<open>A set that nothing was put into: the static arrays are zero.\<close>

definition QPSet64_empty :: QPSet64 where
  "QPSet64_empty = \<lparr>m_bytes = 0, m_bits = init (replicate 8 0)\<rparr>"

lemma empty64: "set64_ok QPSet64_empty" "bytes_elems (m_bits QPSet64_empty) = {}"
  by (auto simp: QPSet64_empty_def set64_ok_def bytes_ok_def bytes_elems_def init_def)

text \<open>
  C18: The set of priorities implements a set of numbers from 1 to 64: after any insertions and
  removals membership and emptiness are those of the set, and \<open>findMax\<close>, which
  looks up two tables, yields its greatest element, 0 if there is none.
\<close>

theorem ready_set_refines:
  assumes "\<forall>x \<in> set ops. 1 \<le> op_prio x \<and> op_prio x \<le> 64"
  shows "\<exists>s. set_run QPSet64_insert QPSet64_remove ops QPSet64_empty = Some s \<and>
     (\<forall>n. 1 \<le> n \<and> n \<le> 64 \<longrightarrow> QPSet64_hasElement (of_nat n) s = Some (n \<in> set_spec ops {})) \<and>
     (QPSet64_isEmpty s \<longleftrightarrow> set_spec ops {} = {}) \<and>
     QPSet64_findMax s = Some (if set_spec ops {} = {} then 0 else of_nat (Max (set_spec ops {})))"
proof -
  obtain s where "set_run QPSet64_insert QPSet64_remove ops QPSet64_empty = Some s" "set64_ok s"
    "bytes_elems (m_bits s) = set_spec ops {}"
    using set64.run_spec [OF empty64(1) assms] empty64(2) by auto
  then show ?thesis using set64.hasElement_iff set64.isEmpty_iff set64.findMax_elems by auto
qed

theorem ready_set_refines_witness:
  "\<exists>s. set_run QPSet64_insert QPSet64_remove [Put 3, Put 64, Put 17, Take 64] QPSet64_empty = Some s \<and>
     QPSet64_findMax s = Some 17 \<and> QPSet64_hasElement 64 s = Some False"
proof -
  have S: "set_spec [Put 3, Put 64, Put 17, Take 64] {} = {3, 17}" by auto
  from ready_set_refines [of "[Put 3, Put 64, Put 17, Take 64]", unfolded S] obtain s where
    s: "set_run QPSet64_insert QPSet64_remove [Put 3, Put 64, Put 17, Take 64] QPSet64_empty = Some s"
      "\<forall>n. 1 \<le> n \<and> n \<le> 64 \<longrightarrow> QPSet64_hasElement (of_nat n) s = Some (n \<in> {3, 17})"
      "QPSet64_findMax s = Some (if {3, 17 :: nat} = {} then 0 else of_nat (Max {3, 17}))"
    by auto
  have "QPSet64_hasElement 64 s = Some False" using s(2) [rule_format, of 64] by simp
  with s(1,3) show ?thesis by auto
qed

end
