(* ===== verification/Linked_List.thy ===== *)
theory Linked_List
  imports Prelude
begin

text \<open>
  Singly linked lists: the segments between two links, for the list of time events and the free lists of
  the memory pools of \<open>library/qpcpp\<close>. A link is an address or null; the function gives the link stored
  at an address, if there is one.
\<close>

text \<open>A segment of the list from one link to another.\<close>

fun seg :: "(nat \<Rightarrow> nat option option) \<Rightarrow> nat option \<Rightarrow> nat list \<Rightarrow> nat option \<Rightarrow> bool" where
  "seg nx p [] q \<longleftrightarrow> p = q"
| "seg nx p (x # xs) q \<longleftrightarrow> p = Some x \<and> (\<exists>y. nx x = Some y \<and> seg nx y xs q)"

lemma seg_append: "seg nx p (xs @ ys) q \<longleftrightarrow> (\<exists>r. seg nx p xs r \<and> seg nx r ys q)"
  by (induction xs arbitrary: p) auto

lemma seg_cong: "(\<And>x. x \<in> set xs \<Longrightarrow> nx x = nx' x) \<Longrightarrow> seg nx p xs q \<longleftrightarrow> seg nx' p xs q"
  by (induction xs arbitrary: p) auto

lemma seg_other [simp]: "x \<notin> set xs \<Longrightarrow> seg (nx(x := y)) p xs q \<longleftrightarrow> seg nx p xs q"
  by (rule seg_cong) auto

lemma seg_redirect:
  assumes "seg nx p (xs @ [x]) q" "x \<notin> set xs"
  shows "seg (nx(x \<mapsto> q')) p (xs @ [x]) q'"
  using assms by (auto simp: seg_append)

lemma seg_head: "seg nx p xs None \<Longrightarrow> p = (case xs of [] \<Rightarrow> None | x # _ \<Rightarrow> Some x)"
  by (cases xs) auto

lemma seg_closed: "seg nx p ys (Some x) \<Longrightarrow> \<exists>h \<in> insert x (set ys). p = Some h \<and> (\<forall>y \<in> set ys. \<exists>z \<in> insert x (set ys). nx y = Some (Some z))"
proof (induction ys arbitrary: p)
  case (Cons y ys)
  then obtain q where "p = Some y" "nx y = Some q" "seg nx q ys (Some x)" by auto
  with Cons.IH [OF this(3)] show ?case by auto
qed auto

end
