(* ===== verification/Event_Pool.thy ===== *)
theory Event_Pool
  imports Event_Queue Linked_List
begin

text \<open>
  Memory pools and dynamic events, \<open>library/qpcpp/qf/source/qmp_*.cpp\<close>, \<open>qf_pool.cpp\<close>, \<open>qf_new.cpp\<close> and \<open>qf_gc.cpp\<close>.
  A pool links its free blocks in themselves. A dynamic event is a block of the first pool whose blocks
  are large enough; it is given back with its last reference. The memory is an array of cells of the size
  of a pointer, which is a parameter; a block that is not an event any more has no entry in the events.
\<close>

section \<open>Memory pools\<close>

type_synonym cells = "nat option cbuf"

record QMPool =
  mp_start :: nat
  mp_end :: nat
  mp_free :: "nat option"
  mp_blockSize :: u32
  mp_nTot :: u32
  mp_nFree :: u32
  mp_nMin :: u32

text \<open>The first loop of \<open>init\<close>: the block size in bytes and in cells.\<close>

partial_function (option) round_up :: "u32 \<Rightarrow> u32 \<Rightarrow> u32 \<Rightarrow> u32 \<Rightarrow> (u32 \<times> u32) option" where
  "round_up sz want b n = (if b < want then round_up sz want (b + sz) (n + 1) else Some (b, n))"

text \<open>The second loop: every block but the last gets the address of the next.\<close>

partial_function (option) chain_blocks ::
  "u32 \<Rightarrow> u32 \<Rightarrow> u32 \<Rightarrow> nat \<Rightarrow> u32 \<Rightarrow> cells \<Rightarrow> (nat \<times> u32 \<times> cells) option" where
  "chain_blocks b n avail fb nTot mem =
     (if b \<le> avail then do {
        mem \<leftarrow> wr mem (int fb) (Some (fb + unat n));
        chain_blocks b n (avail - b) (fb + unat n) (nTot + 1) mem }
      else Some (fb, nTot, mem))"

definition QMPool_init :: "bool \<Rightarrow> u32 \<Rightarrow> nat option \<Rightarrow> u32 \<Rightarrow> u32 \<Rightarrow> cells \<Rightarrow> (QMPool \<times> cells) option" where
  "QMPool_init ret sz poolSto poolSize blockSize mem =
     do { Q_ASSERT ret (poolSto \<noteq> None \<and> sz \<le> poolSize \<and> blockSize < blockSize + sz);
          (b, n) \<leftarrow> round_up sz blockSize sz 1;
          Q_ASSERT ret (b \<le> poolSize);
          start \<leftarrow> poolSto;
          (fb, nTot, mem) \<leftarrow> chain_blocks b n (poolSize - b) start 1 mem;
          mem \<leftarrow> wr mem (int fb) None;
          Some (\<lparr>mp_start = start, mp_end = fb, mp_free = poolSto, mp_blockSize = b, mp_nTot = nTot, mp_nFree = nTot, mp_nMin = nTot\<rparr>, mem) }"

definition QMPool_get :: "bool \<Rightarrow> QMPool \<Rightarrow> cells \<Rightarrow> (nat option \<times> QMPool) option" where
  "QMPool_get ret p mem =
     (case mp_free p of
        None \<Rightarrow> Some (None, p)
      | Some fb \<Rightarrow> do {
          nxt \<leftarrow> rd mem (int fb);
          Q_ASSERT ret (0 < mp_nFree p);
          let p = p\<lparr>mp_free := nxt, mp_nFree := mp_nFree p - 1\<rparr>;
          Some (Some fb, if mp_nMin p > mp_nFree p then p\<lparr>mp_nMin := mp_nFree p\<rparr> else p) })"

definition QMPool_put :: "bool \<Rightarrow> nat \<Rightarrow> QMPool \<Rightarrow> cells \<Rightarrow> (QMPool \<times> cells) option" where
  "QMPool_put ret b p mem =
     do { Q_ASSERT ret (mp_nFree p < mp_nTot p);
          Q_ASSERT ret (mp_start p \<le> b \<and> b \<le> mp_end p);
          mem \<leftarrow> wr mem (int b) (mp_free p);
          Some (p\<lparr>mp_free := Some b, mp_nFree := mp_nFree p + 1\<rparr>, mem) }"

definition getBlockSize :: "QMPool \<Rightarrow> u32" where
  "getBlockSize p = mp_blockSize p"

section \<open>Dynamic events\<close>

text \<open>The array of pools, which are zero until they are initialised, and how many were.\<close>

record pools =
  QF_pool :: "QMPool list"
  QF_maxPool :: u8
  QF_mem :: cells
  QF_evts :: evts

definition pool_at :: "nat \<Rightarrow> QMPool list \<Rightarrow> QMPool option" where
  "pool_at i ps = (if i < length ps then Some (ps ! i) else None)"

definition QF_poolInit :: "bool \<Rightarrow> u32 \<Rightarrow> nat option \<Rightarrow> u32 \<Rightarrow> u32 \<Rightarrow> pools \<Rightarrow> pools option" where
  "QF_poolInit ret sz poolSto poolSize evtSize s =
     do { let n = unat (QF_maxPool s);
          Q_ASSERT ret (n < length (QF_pool s));
          ok \<leftarrow> (if n = 0 then Some True else do { p \<leftarrow> pool_at (n - 1) (QF_pool s); Some (getBlockSize p < evtSize) });
          Q_ASSERT ret ok;
          _ \<leftarrow> pool_at n (QF_pool s);
          (p, mem) \<leftarrow> QMPool_init ret sz poolSto poolSize evtSize (QF_mem s);
          Some (s\<lparr>QF_pool := (QF_pool s)[n := p], QF_maxPool := QF_maxPool s + 1, QF_mem := mem\<rparr>) }"

text \<open>The pool for an event of some size: the first whose blocks are large enough.\<close>

function find_pool :: "bool \<Rightarrow> u32 \<Rightarrow> nat \<Rightarrow> QMPool list \<Rightarrow> nat \<Rightarrow> nat option" where
  "find_pool ret evtSize n ps i =
     (if i < length ps then
        if getBlockSize (ps ! i) < evtSize then do { Q_ASSERT ret (i + 1 < n); find_pool ret evtSize n ps (i + 1) } else Some i
      else None)"
  by pat_completeness auto
termination
  by (relation "measure (\<lambda>(ret, e, n, ps, i). length ps - i)") auto

declare find_pool.simps [simp del]

definition QF_new :: "bool \<Rightarrow> u32 \<Rightarrow> u16 \<Rightarrow> pools \<Rightarrow> (nat \<times> pools) option" where
  "QF_new ret evtSize sig s =
     do { i \<leftarrow> find_pool ret evtSize (unat (QF_maxPool s)) (QF_pool s) 0;
          p \<leftarrow> pool_at i (QF_pool s);
          (e, p) \<leftarrow> QMPool_get ret p (QF_mem s);
          Q_ASSERT ret (e \<noteq> None);
          e \<leftarrow> e;
          Some (e, s\<lparr>QF_pool := (QF_pool s)[i := p],
                     QF_evts := (QF_evts s)(e \<mapsto> \<lparr>evt_sig = sig, poolId = of_nat i + 1, refCtr = 0\<rparr>)\<rparr>) }"

definition QF_gc :: "bool \<Rightarrow> nat \<Rightarrow> pools \<Rightarrow> pools option" where
  "QF_gc ret e s =
     do { ev \<leftarrow> QF_evts s e;
          if poolId ev = 0 then Some s
          else if refCtr ev > 1 then do { evts \<leftarrow> QF_EVT_REF_CTR_DEC e (QF_evts s); Some (s\<lparr>QF_evts := evts\<rparr>) }
          else do {
            let idx = poolId ev - 1;
            Q_ASSERT ret (idx < QF_maxPool s);
            p \<leftarrow> pool_at (unat idx) (QF_pool s);
            (p, mem) \<leftarrow> QMPool_put ret e p (QF_mem s);
            Some (s\<lparr>QF_pool := (QF_pool s)[unat idx := p], QF_mem := mem, QF_evts := (QF_evts s)(e := None)\<rparr>) } }"

definition getPoolMargin :: "bool \<Rightarrow> u8 \<Rightarrow> pools \<Rightarrow> u32 option" where
  "getPoolMargin ret pid s =
     do { Q_ASSERT ret (1 \<le> pid \<and> pid \<le> QF_maxPool s);
          map_option mp_nMin (pool_at (unat (pid - 1)) (QF_pool s)) }"

section \<open>Setting up a pool\<close>

text \<open>The number of cells of a block of \<open>w\<close> bytes, at least one.\<close>

definition cells_of :: "nat \<Rightarrow> nat \<Rightarrow> nat" where
  "cells_of s w = max 1 ((w + s - 1) div s)"

lemma cells_of_least:
  assumes "0 < s" "1 \<le> k"
  shows "k < cells_of s w \<longleftrightarrow> k * s < w"
proof -
  have "k < (w + s - 1) div s \<longleftrightarrow> Suc k * s \<le> w + s - 1"
    using assms(1) by (simp add: Suc_le_eq [symmetric] less_eq_div_iff_mult_less_eq)
  also have "\<dots> \<longleftrightarrow> k * s < w" using assms(1) by auto
  finally show ?thesis using assms(2) by (auto simp: cells_of_def)
qed

lemma cells_of_bound:
  assumes "0 < s" "0 < w"
  shows "w \<le> cells_of s w * s" "cells_of s w * s < w + s"
proof -
  show "w \<le> cells_of s w * s" using cells_of_least [OF assms(1), of "cells_of s w" w] by (simp add: cells_of_def)
  show "cells_of s w * s < w + s"
  proof (cases "cells_of s w = 1")
    case False
    then have "1 \<le> cells_of s w - 1" "cells_of s w - 1 < cells_of s w" by (auto simp: cells_of_def)
    then have "(cells_of s w - 1) * s < w" using cells_of_least [OF assms(1), of "cells_of s w - 1" w] by simp
    then show ?thesis by (simp add: diff_mult_distrib)
  qed (use assms in simp)
qed

lemma of_nat_small: "n < 2 ^ 32 \<Longrightarrow> unat (of_nat n :: u32) = n"
  by (simp add: unsigned_of_nat take_bit_nat_eq_self)

lemma round_up_spec:
  assumes "0 < unat sz" "0 < unat want" "unat want + unat sz \<le> 2 ^ 32" "1 \<le> k" "k \<le> cells_of (unat sz) (unat want)"
  defines "K \<equiv> cells_of (unat sz) (unat want)"
  shows "round_up sz want (of_nat (k * unat sz)) (of_nat k) = Some (of_nat (K * unat sz), of_nat K)"
  using assms(4,5)
proof (induction "K - k" arbitrary: k)
  case 0
  then have "k = K" by (simp add: K_def)
  have "K * unat sz < 2 ^ 32" "unat want \<le> K * unat sz"
    using cells_of_bound [OF assms(1,2)] assms(3) unfolding K_def by linarith+
  then have "\<not> of_nat (K * unat sz) < want"
    unfolding word_less_nat_alt by (subst of_nat_small) linarith+
  then show ?case using \<open>k = K\<close> by (subst round_up.simps) simp
next
  case (Suc m)
  then have k: "k < cells_of (unat sz) (unat want)" by (simp add: K_def)
  then have lt: "k * unat sz < unat want" using cells_of_least [OF assms(1) Suc.prems(1)] by blast
  then have "of_nat (k * unat sz) < want"
    unfolding word_less_nat_alt using assms(3) by (subst of_nat_small) linarith+
  moreover have "of_nat (k * unat sz) + sz = of_nat (Suc k * unat sz)" by simp
  moreover have "of_nat k + 1 = (of_nat (Suc k) :: u32)" by simp
  moreover have "round_up sz want (of_nat (Suc k * unat sz)) (of_nat (Suc k)) = Some (of_nat (K * unat sz), of_nat K)"
    using Suc.hyps(1) [of "Suc k"] Suc.hyps(2) Suc.prems k by simp
  ultimately show ?case by (subst round_up.simps) (simp only: if_True)
qed

definition cell :: "cells \<Rightarrow> nat \<Rightarrow> nat option option" where
  "cell mem a = (if a < length mem then mem ! a else None)"

lemma rd_cell: "rd mem (int a) = cell mem a"
  by (simp add: rd_def cell_def)

lemma wr_cell: "a < length mem \<Longrightarrow> \<exists>mem'. wr mem (int a) x = Some mem' \<and> cell mem' = (cell mem)(a \<mapsto> x) \<and> length mem' = length mem"
  by (auto simp: wr_def cell_def fun_eq_iff)

lemma chain_blocks_spec:
  assumes "0 < B" "m = A div B" "A < 2 ^ 32" "B < 2 ^ 32" "K < 2 ^ 32" "0 < K" "fb + m * K < length mem"
  shows "\<exists>mem'. chain_blocks (of_nat B) (of_nat K) (of_nat A) fb t mem = Some (fb + m * K, t + of_nat m, mem') \<and>
     length mem' = length mem \<and> (\<forall>a. a \<notin> (\<lambda>i. fb + i * K) ` {..<m} \<longrightarrow> cell mem' a = cell mem a) \<and>
     seg (cell mem') (Some fb) (map (\<lambda>i. fb + i * K) [0..<m]) (Some (fb + m * K))"
  using assms(2,3,7)
proof (induction m arbitrary: A fb t mem)
  case 0
  then have "A < B" using assms(1) by (simp add: div_eq_0_iff)
  then have "\<not> (of_nat B :: u32) \<le> of_nat A" using 0 assms(4) by (simp add: word_le_nat_alt of_nat_small)
  then show ?case by (subst chain_blocks.simps) simp
next
  case (Suc m)
  have le: "B \<le> A" using Suc.prems(1) assms(1) by (metis div_less not_less old.nat.distinct(2))
  have m: "m = (A - B) div B" using Suc.prems(1) le assms(1) by (simp add: le_div_geq)
  have ge: "(of_nat B :: u32) \<le> of_nat A" using le Suc.prems(2) assms(4) by (simp add: word_le_nat_alt of_nat_small)
  have sub: "(of_nat A :: u32) - of_nat B = of_nat (A - B)" using le by (simp add: of_nat_diff)
  have n: "unat (of_nat K :: u32) = K" using assms(5) by (rule of_nat_small)
  obtain mem1 where w: "wr mem (int fb) (Some (fb + K)) = Some mem1" "cell mem1 = (cell mem)(fb \<mapsto> Some (fb + K))" "length mem1 = length mem"
    using wr_cell [of fb mem] Suc.prems(3) by auto
  have "fb + K + m * K < length mem1" using Suc.prems(3) w(3) by (simp add: algebra_simps)
  moreover have "A - B < 2 ^ 32" using Suc.prems(2) by linarith
  ultimately obtain mem' where
    r: "chain_blocks (of_nat B) (of_nat K) (of_nat (A - B)) (fb + K) (t + 1) mem1 = Some (fb + K + m * K, t + 1 + of_nat m, mem')"
    "length mem' = length mem1" "\<And>a. a \<notin> (\<lambda>i. fb + K + i * K) ` {..<m} \<Longrightarrow> cell mem' a = cell mem1 a"
    "seg (cell mem') (Some (fb + K)) (map (\<lambda>i. fb + K + i * K) [0..<m]) (Some (fb + K + m * K))"
    using Suc.IH [OF m, of "fb + K" mem1 "t + 1"] by blast
  have shift: "(\<lambda>i. fb + K + i * K) = (\<lambda>i. fb + Suc i * K)" by (simp add: fun_eq_iff)
  have xs: "map (\<lambda>i. fb + i * K) [0..<Suc m] = fb # map (\<lambda>i. fb + K + i * K) [0..<m]"
    unfolding shift by (simp add: map_upt_Suc del: upt_Suc)
  have "fb \<notin> (\<lambda>i. fb + K + i * K) ` {..<m}" using assms(6) by auto
  then have "cell mem' fb = Some (Some (fb + K))" using r(3) w(2) by simp
  then have "seg (cell mem') (Some fb) (map (\<lambda>i. fb + i * K) [0..<Suc m]) (Some (fb + Suc m * K))"
    unfolding xs using r(4) by (simp add: algebra_simps)
  moreover have "cell mem' a = cell mem a" if "a \<notin> (\<lambda>i. fb + i * K) ` {..<Suc m}" for a
  proof -
    have "a \<noteq> fb" "a \<notin> (\<lambda>i. fb + K + i * K) ` {..<m}"
      using that by (force, auto simp: image_iff) (metis (no_types) Suc_mono add.assoc lessThan_iff mult_Suc)
    then show ?thesis using r(3) w(2) by simp
  qed
  ultimately show ?case
    using ge sub n w(1,3) r(1,2) by (subst chain_blocks.simps) (simp add: algebra_simps)
qed

section \<open>What a pool promises\<close>

definition pool_blocks :: "nat \<Rightarrow> QMPool \<Rightarrow> nat set" where
  "pool_blocks K p = (\<lambda>i. mp_start p + i * K) ` {..<unat (mp_nTot p)}"

definition pool_ok :: "nat \<Rightarrow> QMPool \<Rightarrow> cells \<Rightarrow> nat list \<Rightarrow> bool" where
  "pool_ok K p mem xs \<longleftrightarrow>
     0 < K \<and> 0 < unat (mp_nTot p) \<and> mp_end p = mp_start p + (unat (mp_nTot p) - 1) * K \<and> mp_end p < length mem \<and>
     seg (cell mem) (mp_free p) xs None \<and> distinct xs \<and> set xs \<subseteq> pool_blocks K p \<and>
     unat (mp_nFree p) = length xs \<and> mp_nMin p \<le> mp_nFree p"

lemma card_blocks: "0 < K \<Longrightarrow> finite (pool_blocks K p) \<and> card (pool_blocks K p) = unat (mp_nTot p)"
  by (simp add: pool_blocks_def card_image inj_on_def)

text \<open>A pool that was set up has all its blocks in the free list.\<close>

lemma init_pool:
  fixes sz want poolSize :: u32
  defines "K \<equiv> cells_of (unat sz) (unat want)"
  defines "N \<equiv> unat poolSize div (K * unat sz)"
  assumes "0 < unat sz" "0 < unat want" "unat want + unat sz < 2 ^ 32" "K * unat sz \<le> unat poolSize" "start + N * K \<le> length mem"
  shows "\<exists>p mem'. QMPool_init ret sz (Some start) poolSize want mem = Some (p, mem') \<and> length mem' = length mem \<and>
     pool_ok K p mem' (map (\<lambda>i. start + i * K) [0..<N]) \<and> unat (mp_blockSize p) = K * unat sz \<and> unat (mp_nTot p) = N \<and>
     mp_start p = start \<and> (\<forall>a. a \<notin> pool_blocks K p \<longrightarrow> cell mem' a = cell mem a)"
proof -
  let ?B = "K * unat sz"
  have K: "1 \<le> K" by (simp add: K_def cells_of_def)
  have B: "0 < ?B" "?B < 2 ^ 32" "unat sz \<le> ?B" "K < 2 ^ 32"
  proof -
    show "0 < ?B" "unat sz \<le> ?B" using K assms(3) by auto
    show "?B < 2 ^ 32" using assms(6) unsigned_less [of poolSize, where ?'a = nat] by simp
    moreover have "K \<le> ?B" using assms(3) by simp
    ultimately show "K < 2 ^ 32" by linarith
  qed
  have N: "0 < N" "(unat poolSize - ?B) div ?B = N - 1" "N \<le> unat poolSize" "N < 2 ^ 32"
  proof -
    show n: "0 < N" using assms(6) B(1) by (simp add: N_def div_greater_zero_iff)
    show "(unat poolSize - ?B) div ?B = N - 1" using assms(6) B(1) by (simp add: N_def le_div_geq)
    show le: "N \<le> unat poolSize" by (simp add: N_def)
    show "N < 2 ^ 32" using le unsigned_less [of poolSize, where ?'a = nat] by simp
  qed
  have want: "want < want + sz"
  proof -
    have "unat want + unat sz < 2 ^ LENGTH(32)" using assms(5) by simp
    then have "unat (want + sz) = unat want + unat sz" by (subst (asm) unat_add_lem) simp
    then show ?thesis using assms(3) by (simp add: word_less_nat_alt)
  qed
  have req: "(Some start \<noteq> None \<and> sz \<le> poolSize \<and> want < want + sz) = True"
    using order_trans [OF B(3) assms(6)] want unfolding word_le_nat_alt by simp
  have ru: "round_up sz want sz 1 = Some (of_nat ?B, of_nat K)"
    using round_up_spec [of sz want 1] assms(3-5) K by (simp add: K_def)
  have ob: "unat (of_nat ?B :: u32) = ?B" using B(2) by (rule of_nat_small)
  have big: "((of_nat ?B :: u32) \<le> poolSize) = True" using assms(6) by (simp only: word_le_nat_alt ob)
  have sub: "poolSize - of_nat ?B = of_nat (unat poolSize - ?B)" using assms(6) by (subst of_nat_diff) simp_all
  have lst: "start + (N - 1) * K < length mem"
  proof -
    have "(N - 1) * K + K = N * K" using N(1) by (cases N) simp_all
    then show ?thesis using K assms(7) by linarith
  qed
  obtain mem1 where c: "chain_blocks (of_nat ?B) (of_nat K) (poolSize - of_nat ?B) start 1 mem = Some (start + (N - 1) * K, 1 + of_nat (N - 1), mem1)"
    "length mem1 = length mem" "\<And>a. a \<notin> (\<lambda>i. start + i * K) ` {..<N - 1} \<Longrightarrow> cell mem1 a = cell mem a"
    "seg (cell mem1) (Some start) (map (\<lambda>i. start + i * K) [0..<N - 1]) (Some (start + (N - 1) * K))"
  proof -
    have "unat poolSize - ?B < 2 ^ 32" using unsigned_less [of poolSize, where ?'a = nat] by simp
    moreover have "0 < K" using K by simp
    ultimately show thesis using chain_blocks_spec [OF B(1) N(2) [symmetric] _ B(2,4) _ lst, of 1, folded sub] that by blast
  qed
  obtain mem2 where w: "wr mem1 (int (start + (N - 1) * K)) None = Some mem2" "cell mem2 = (cell mem1)(start + (N - 1) * K \<mapsto> None)" "length mem2 = length mem1"
    using wr_cell [of "start + (N - 1) * K" mem1] lst c(2) by auto
  have upt: "[0..<N] = [0..<N - 1] @ [N - 1]" using N(1) by (metis Suc_diff_1 le0 upt_Suc_append)
  let ?p = "\<lparr>mp_start = start, mp_end = start + (N - 1) * K, mp_free = Some start, mp_blockSize = of_nat ?B,
      mp_nTot = of_nat N, mp_nFree = of_nat N, mp_nMin = of_nat N\<rparr>"
  have one: "1 + of_nat (N - 1) = (of_nat N :: u32)" using N(1) by (cases N) simp_all
  have run: "QMPool_init ret sz (Some start) poolSize want mem = Some (?p, mem2)"
    using req ru big c(1) w(1) by (simp only: QMPool_init_def Q_ASSERT_true one) simp
  have nn: "unat (of_nat N :: u32) = N" using N(4) by (rule of_nat_small)
  have blocks: "pool_blocks K ?p = (\<lambda>i. start + i * K) ` {..<N}" by (simp add: pool_blocks_def nn)
  have "start + (N - 1) * K \<notin> set (map (\<lambda>i. start + i * K) [0..<N - 1])" using K by auto
  then have sg: "seg (cell mem2) (Some start) (map (\<lambda>i. start + i * K) [0..<N]) None"
    unfolding upt w(2) using c(4) by (auto simp: seg_append)
  have "cell mem2 a = cell mem a" if "a \<notin> pool_blocks K ?p" for a
  proof -
    have "a \<noteq> start + (N - 1) * K" "a \<notin> (\<lambda>i. start + i * K) ` {..<N - 1}" using that N(1) unfolding blocks by auto
    then show ?thesis using w(2) c(3) by simp
  qed
  moreover have "pool_ok K ?p mem2 (map (\<lambda>i. start + i * K) [0..<N])"
    unfolding pool_ok_def blocks using K N(1) nn lst w(3) c(2) sg by (auto simp: distinct_map inj_on_def)
  ultimately show ?thesis using run w(3) c(2) ob nn by (intro exI [of _ ?p] exI [of _ mem2]) simp
qed

lemma get_pool:
  assumes "pool_ok K p mem (x # xs)"
  shows "\<exists>p'. QMPool_get ret p mem = Some (Some x, p') \<and> pool_ok K p' mem xs \<and> pool_blocks K p' = pool_blocks K p \<and>
     mp_blockSize p' = mp_blockSize p"
proof -
  obtain y where f: "mp_free p = Some x" "cell mem x = Some y" "seg (cell mem) y xs None" using assms by (auto simp: pool_ok_def)
  have u: "unat (mp_nFree p) = Suc (length xs)" using assms by (simp add: pool_ok_def)
  then have "mp_nFree p \<noteq> 0" by auto
  with u have n: "unat (mp_nFree p - 1) = length xs" "0 < mp_nFree p" by (simp_all add: unat_minus_one word_gt_0)
  let ?p = "p\<lparr>mp_free := y, mp_nFree := mp_nFree p - 1\<rparr>"
  let ?q = "if mp_nMin ?p > mp_nFree ?p then ?p\<lparr>mp_nMin := mp_nFree ?p\<rparr> else ?p"
  have "QMPool_get ret p mem = Some (Some x, ?q)"
    using f(1,2) n(2) by (simp add: QMPool_get_def rd_cell Let_def)
  moreover have "pool_ok K ?q mem xs" "pool_blocks K ?q = pool_blocks K p" "mp_blockSize ?q = mp_blockSize p"
    using assms f(3) n(1) by (auto simp: pool_ok_def pool_blocks_def not_less)
  ultimately show ?thesis by blast
qed

lemma put_pool:
  assumes "pool_ok K p mem xs" "b \<in> pool_blocks K p" "b \<notin> set xs"
  shows "\<exists>p' mem'. QMPool_put ret b p mem = Some (p', mem') \<and> pool_ok K p' mem' (b # xs) \<and> pool_blocks K p' = pool_blocks K p \<and>
     mp_blockSize p' = mp_blockSize p \<and> length mem' = length mem \<and> cell mem' = (cell mem)(b \<mapsto> mp_free p)"
proof -
  have ok: "0 < K" "mp_end p = mp_start p + (unat (mp_nTot p) - 1) * K" "mp_end p < length mem" "distinct xs" "set xs \<subseteq> pool_blocks K p"
    "unat (mp_nFree p) = length xs" using assms(1) by (simp_all add: pool_ok_def)
  have "length xs < unat (mp_nTot p)"
  proof -
    have "card (set xs) < card (pool_blocks K p)" using card_blocks [OF ok(1), of p] ok(5) assms(2,3) by (intro psubset_card_mono) auto
    then show ?thesis using card_blocks [OF ok(1), of p] ok(4) by (simp add: distinct_card)
  qed
  then have n: "(mp_nFree p < mp_nTot p) = True" "unat (mp_nFree p + 1) = Suc (length xs)"
    using ok(6) unat_succ [of "mp_nFree p" "mp_nTot p"] by (simp_all add: word_less_nat_alt)
  have range: "mp_start p \<le> b" "b \<le> mp_end p" using assms(2) ok(2) by (auto simp: pool_blocks_def)
  then have rng: "(mp_start p \<le> b \<and> b \<le> mp_end p) = True" by simp
  obtain mem' where w: "wr mem (int b) (mp_free p) = Some mem'" "cell mem' = (cell mem)(b \<mapsto> mp_free p)" "length mem' = length mem"
    using wr_cell [of b mem] range ok(3) by auto
  have "mp_nFree p \<le> mp_nFree p + 1" using n(2) ok(6) by (simp add: word_le_nat_alt)
  then have "pool_ok K (p\<lparr>mp_free := Some b, mp_nFree := mp_nFree p + 1\<rparr>) mem' (b # xs)"
    using assms n(2) w(2,3) by (auto simp: pool_ok_def pool_blocks_def intro: order_trans)
  moreover have "QMPool_put ret b p mem = Some (p\<lparr>mp_free := Some b, mp_nFree := mp_nFree p + 1\<rparr>, mem')"
    unfolding QMPool_put_def n(1) rng using w(1) by simp
  ultimately show ?thesis using w(2,3) by (simp add: pool_blocks_def)
qed

text \<open>Whoever holds a block may write anything into its cells.\<close>

definition in_block :: "nat \<Rightarrow> nat \<Rightarrow> nat \<Rightarrow> bool" where
  "in_block K b a \<longleftrightarrow> b \<le> a \<and> a < b + K"

definition store :: "nat \<Rightarrow> nat option option \<Rightarrow> cells \<Rightarrow> cells" where
  "store a v mem = mem[a := v]"

lemma store_pool:
  assumes "pool_ok K p mem xs" "b \<in> pool_blocks K p" "b \<notin> set xs" "in_block K b a"
  shows "pool_ok K p (store a v mem) xs"
proof -
  have "a \<notin> set xs"
  proof
    assume "a \<in> set xs"
    then have "a \<in> pool_blocks K p" "a \<noteq> b" using assms(1,3) by (auto simp: pool_ok_def)
    then obtain i j where ij: "a = mp_start p + i * K" "b = mp_start p + j * K" "a \<noteq> b"
      using assms(2) unfolding pool_blocks_def by blast
    then have "j * K \<le> i * K" "i * K < j * K + K" using assms(4) by (auto simp: in_block_def)
    then have "j \<le> i" "i < Suc j" by (simp_all add: mult_le_cancel2) (metis add.commute mult_Suc mult_less_cancel2)+
    then show False using ij by simp
  qed
  then have "seg (cell (store a v mem)) q xs r = seg (cell mem) q xs r" for q r
    by (intro seg_cong) (auto simp: cell_def store_def, metis nth_list_update_neq)
  then show ?thesis using assms(1) by (simp add: pool_ok_def store_def)
qed

text \<open>The contract: a stack of free blocks. A client takes and returns blocks and writes into those it holds.\<close>

datatype pool_op = Alloc | Release nat | Scribble nat "nat option option"

fun pool_run ::
  "('s \<Rightarrow> (nat option \<times> 's) option) \<Rightarrow> (nat \<Rightarrow> 's \<Rightarrow> 's option) \<Rightarrow> (nat \<Rightarrow> nat option option \<Rightarrow> 's \<Rightarrow> 's) \<Rightarrow>
     pool_op list \<Rightarrow> 's \<Rightarrow> (nat option list \<times> 's) option" where
  "pool_run gt pt wt [] s = Some ([], s)"
| "pool_run gt pt wt (Alloc # ops) s = do { (r, s) \<leftarrow> gt s; (rs, s) \<leftarrow> pool_run gt pt wt ops s; Some (r # rs, s) }"
| "pool_run gt pt wt (Release b # ops) s = do { s \<leftarrow> pt b s; pool_run gt pt wt ops s }"
| "pool_run gt pt wt (Scribble a v # ops) s = pool_run gt pt wt ops (wt a v s)"

text \<open>None if the client returns what it does not hold or writes elsewhere.\<close>

fun pool_spec :: "(nat \<Rightarrow> nat \<Rightarrow> bool) \<Rightarrow> pool_op list \<Rightarrow> nat list \<Rightarrow> nat list \<Rightarrow> (nat option list \<times> nat list \<times> nat list) option" where
  "pool_spec ins [] xs held = Some ([], xs, held)"
| "pool_spec ins (Alloc # ops) [] held = do { (rs, r) \<leftarrow> pool_spec ins ops [] held; Some (None # rs, r) }"
| "pool_spec ins (Alloc # ops) (x # xs) held = do { (rs, r) \<leftarrow> pool_spec ins ops xs (x # held); Some (Some x # rs, r) }"
| "pool_spec ins (Release b # ops) xs held = (if b \<in> set held then pool_spec ins ops (b # xs) (remove1 b held) else None)"
| "pool_spec ins (Scribble a v # ops) xs held = (if \<exists>b \<in> set held. ins b a then pool_spec ins ops xs held else None)"

locale block_pool =
  fixes get' :: "'s \<Rightarrow> (nat option \<times> 's) option" and put' :: "nat \<Rightarrow> 's \<Rightarrow> 's option" and
    write' :: "nat \<Rightarrow> nat option option \<Rightarrow> 's \<Rightarrow> 's" and inside :: "nat \<Rightarrow> nat \<Rightarrow> bool" and
    free :: "'s \<Rightarrow> nat list \<Rightarrow> bool" and blocks :: "'s \<Rightarrow> nat set"
  assumes get_none: "free s [] \<Longrightarrow> get' s = Some (None, s)"
    and get_some: "free s (x # xs) \<Longrightarrow> \<exists>s'. get' s = Some (Some x, s') \<and> free s' xs \<and> blocks s' = blocks s"
    and put_block: "free s xs \<Longrightarrow> b \<in> blocks s \<Longrightarrow> b \<notin> set xs \<Longrightarrow> \<exists>s'. put' b s = Some s' \<and> free s' (b # xs) \<and> blocks s' = blocks s"
    and write_block: "free s xs \<Longrightarrow> b \<in> blocks s \<Longrightarrow> b \<notin> set xs \<Longrightarrow> inside b a \<Longrightarrow> free (write' a v s) xs \<and> blocks (write' a v s) = blocks s"
begin

lemma pool_refines:
  assumes "free s xs" "distinct (xs @ held)" "set (xs @ held) = blocks s" "pool_spec inside ops xs held = Some (rs, ys, held')"
  shows "\<exists>s'. pool_run get' put' write' ops s = Some (rs, s') \<and> free s' ys \<and> distinct (ys @ held') \<and> set (ys @ held') = blocks s"
  using assms
proof (induction ops arbitrary: s xs held rs)
  case (Cons x ops)
  show ?case
  proof (cases x)
    case Alloc
    show ?thesis
    proof (cases xs)
      case Nil
      with Alloc Cons.prems obtain rs1 where "rs = None # rs1" "pool_spec inside ops [] held = Some (rs1, ys, held')"
        by (auto simp: Option.bind_eq_Some_conv)
      with Cons.IH [of s "[]" held rs1] Cons.prems Nil Alloc get_none show ?thesis by auto
    next
      case xs: (Cons y xs')
      with Alloc Cons.prems obtain rs1 where rs: "rs = Some y # rs1" "pool_spec inside ops xs' (y # held) = Some (rs1, ys, held')"
        by (auto simp: Option.bind_eq_Some_conv)
      from get_some [of s y xs'] Cons.prems(1) xs obtain s1 where s1: "get' s = Some (Some y, s1)" "free s1 xs'" "blocks s1 = blocks s" by blast
      have "distinct (xs' @ y # held)" "set (xs' @ y # held) = blocks s1" using Cons.prems(2,3) xs s1(3) by auto
      from Cons.IH [OF s1(2) this rs(2)] show ?thesis using Alloc rs(1) s1 by auto
    qed
  next
    case (Release b)
    with Cons.prems have b: "b \<in> set held" "pool_spec inside ops (b # xs) (remove1 b held) = Some (rs, ys, held')" by (auto split: if_splits)
    then have "b \<in> blocks s" "b \<notin> set xs" using Cons.prems(2,3) by auto
    from put_block [OF Cons.prems(1) this] obtain s1 where s1: "put' b s = Some s1" "free s1 (b # xs)" "blocks s1 = blocks s" by blast
    have "distinct ((b # xs) @ remove1 b held)" "set ((b # xs) @ remove1 b held) = blocks s1"
      using Cons.prems(2,3) b(1) s1(3) by auto
    from Cons.IH [OF s1(2) this b(2)] show ?thesis using Release s1 by auto
  next
    case (Scribble a v)
    with Cons.prems obtain b where b: "b \<in> set held" "inside b a" "pool_spec inside ops xs held = Some (rs, ys, held')"
      by (auto split: if_splits)
    then have "b \<in> blocks s" "b \<notin> set xs" using Cons.prems(2,3) by auto
    from write_block [OF Cons.prems(1) this b(2), of v] Cons.IH [of "write' a v s" xs held rs] Cons.prems(2,3) b(3) Scribble
    show ?thesis by auto
  qed
qed auto

end

interpretation qmpool: block_pool "\<lambda>(p, mem). do { (e, p) \<leftarrow> QMPool_get ret p mem; Some (e, p, mem) }"
  "\<lambda>b (p, mem). QMPool_put ret b p mem" "\<lambda>a v (p, mem). (p, store a v mem)" "in_block K"
  "\<lambda>(p, mem) xs. pool_ok K p mem xs" "\<lambda>(p, mem). pool_blocks K p" for ret K
proof (unfold_locales, goal_cases)
  case (1 s)
  then have "mp_free (fst s) = None" by (auto simp: pool_ok_def)
  then show ?case by (auto simp: QMPool_get_def split: prod.split)
next
  case (2 s x xs)
  obtain p mem where s: "s = (p, mem)" by (cases s)
  from 2 s get_pool [of K p mem x xs ret] show ?case by auto
next
  case (3 s xs b)
  obtain p mem where s: "s = (p, mem)" by (cases s)
  from 3 s put_pool [of K p mem xs b ret] show ?case by auto
next
  case (4 s xs b a v)
  obtain p mem where s: "s = (p, mem)" by (cases s)
  from 4 s store_pool [of K p mem xs b a v] show ?case by auto
qed

text \<open>
  C14: A memory pool is a stack of disjoint blocks that lie in its storage: any sequence of
  allocations, releases and writes into allocated blocks has the stack's results, and no block
  is lost or given out twice.
\<close>

theorem pool_is_stack:
  assumes "0 < unat sz" "0 < unat want" "unat want + unat sz < 2 ^ 32" "K = cells_of (unat sz) (unat want)" "N = unat poolSize div (K * unat sz)"
    and "K * unat sz \<le> unat poolSize" "start + N * K \<le> length mem"
    and "pool_spec (in_block K) ops (map (\<lambda>i. start + i * K) [0..<N]) [] = Some (rs, ys, held)"
  shows "\<exists>p0 mem0 p mem'. QMPool_init ret sz (Some start) poolSize want mem = Some (p0, mem0) \<and>
     pool_run (\<lambda>(p, mem). do { (e, p) \<leftarrow> QMPool_get ret p mem; Some (e, p, mem) }) (\<lambda>b (p, mem). QMPool_put ret b p mem)
       (\<lambda>a v (p, mem). (p, store a v mem)) ops (p0, mem0) = Some (rs, p, mem') \<and>
     unat (mp_nFree p) = length ys \<and> distinct (ys @ held) \<and> set (ys @ held) = (\<lambda>i. start + i * K) ` {..<N}"
proof -
  obtain p0 mem0 where i: "QMPool_init ret sz (Some start) poolSize want mem = Some (p0, mem0)"
    "pool_ok K p0 mem0 (map (\<lambda>i. start + i * K) [0..<N])" "pool_blocks K p0 = (\<lambda>i. start + i * K) ` {..<N}"
    using init_pool [of sz want poolSize start mem ret] assms by (auto simp: pool_blocks_def)
  define xs0 where "xs0 = map (\<lambda>i. start + i * K) [0..<N]"
  have "distinct (xs0 @ [])" "set (xs0 @ []) = pool_blocks K p0"
    using i(2) unfolding i(3) by (auto simp: pool_ok_def xs0_def)
  then obtain p mem' where
    "pool_run (\<lambda>(p, mem). do { (e, p) \<leftarrow> QMPool_get ret p mem; Some (e, p, mem) }) (\<lambda>b (p, mem). QMPool_put ret b p mem)
       (\<lambda>a v (p, mem). (p, store a v mem)) ops (p0, mem0) = Some (rs, p, mem')"
    "pool_ok K p mem' ys" "distinct (ys @ held)" "set (ys @ held) = pool_blocks K p0"
    using qmpool.pool_refines [of K "(p0, mem0)" xs0 "[]" ops rs ys held ret] i(2) assms(8) unfolding xs0_def [symmetric] by auto
  then show ?thesis using i(1,3) by (auto simp: pool_ok_def)
qed

theorem pool_is_stack_witness:
  "\<exists>p0 mem0 p mem'. QMPool_init False 4 (Some 2) 40 10 (fresh 20) = Some (p0, mem0) \<and>
     pool_run (\<lambda>(p, mem). do { (e, p) \<leftarrow> QMPool_get False p mem; Some (e, p, mem) }) (\<lambda>b (p, mem). QMPool_put False b p mem)
       (\<lambda>a v (p, mem). (p, store a v mem)) [Alloc, Alloc, Scribble 4 None, Release 2, Alloc, Alloc, Alloc] (p0, mem0)
     = Some ([Some 2, Some 5, Some 2, Some 8, None], p, mem')"
proof -
  have "pool_spec (in_block 3) [Alloc, Alloc, Scribble 4 None, Release 2, Alloc, Alloc, Alloc] (map (\<lambda>i. 2 + i * 3) [0..<3]) []
      = Some ([Some 2, Some 5, Some 2, Some 8, None], [], [8, 2, 5])"
    by (simp add: upt_rec numeral_eq_Suc in_block_def)
  from pool_is_stack [of 4 10 3 3 40 2 "fresh 20" "[Alloc, Alloc, Scribble 4 None, Release 2, Alloc, Alloc, Alloc]" _ _ _ False, OF _ _ _ _ _ _ _ this]
  show ?thesis by (auto simp: cells_of_def fresh_def)
qed

section \<open>The life of a dynamic event\<close>

text \<open>A reference is taken by every post and given back by the collector.\<close>

datatype ref_op = Ref | Unref

fun ref_run :: "bool \<Rightarrow> nat \<Rightarrow> ref_op list \<Rightarrow> pools \<Rightarrow> pools option" where
  "ref_run ret e [] s = Some s"
| "ref_run ret e (Ref # ops) s = do { evts \<leftarrow> count_event e (QF_evts s); ref_run ret e ops (s\<lparr>QF_evts := evts\<rparr>) }"
| "ref_run ret e (Unref # ops) s = do { s \<leftarrow> QF_gc ret e s; ref_run ret e ops s }"

text \<open>
  The number of references at the end, or None inside if the last operation gave back the last one; no
  result where an event is used afterwards or counted beyond 255.
\<close>

fun lifetime :: "ref_op list \<Rightarrow> nat \<Rightarrow> nat option option" where
  "lifetime [] c = Some (Some c)"
| "lifetime (Ref # ops) c = (if c < 255 then lifetime ops (Suc c) else None)"
| "lifetime (Unref # ops) c = (if 1 < c then lifetime ops (c - 1) else if ops = [] then Some None else None)"

definition pool_event :: "nat \<Rightarrow> nat \<Rightarrow> nat \<Rightarrow> nat list \<Rightarrow> pools \<Rightarrow> bool" where
  "pool_event K i e xs s \<longleftrightarrow>
     i < length (QF_pool s) \<and> i < 255 \<and> i < unat (QF_maxPool s) \<and>
     pool_ok K (QF_pool s ! i) (QF_mem s) xs \<and> e \<in> pool_blocks K (QF_pool s ! i) \<and> e \<notin> set xs \<and>
     (\<exists>ev. QF_evts s e = Some ev \<and> poolId ev = of_nat i + 1)"

lemma of_nat_small8: "n < 256 \<Longrightarrow> unat (of_nat n :: u8) = n"
  by (simp add: unsigned_of_nat take_bit_nat_eq_self)

lemma pool_number: "i < 255 \<Longrightarrow> of_nat i + 1 \<noteq> (0 :: u8) \<and> of_nat i + 1 - 1 = (of_nat i :: u8) \<and> unat (of_nat i :: u8) = i"
proof -
  assume i: "i < 255"
  have "unat (of_nat (Suc i) :: u8) = Suc i" by (rule of_nat_small8) (use i in simp)
  then have "of_nat (Suc i) \<noteq> (0 :: u8)" by (metis nat.distinct(1) unsigned_0)
  then have "of_nat i + 1 \<noteq> (0 :: u8)" by (simp add: add.commute)
  moreover have "unat (of_nat i :: u8) = i" by (rule of_nat_small8) (use i in simp)
  ultimately show ?thesis by simp
qed

text \<open>Giving back the last reference puts the block on the free list; giving back another one counts down.\<close>

lemma gc_last:
  assumes "pool_event K i e xs s" "QF_evts s e = Some ev" "unat (refCtr ev) \<le> 1"
  shows "\<exists>s'. QF_gc ret e s = Some s' \<and> QF_evts s' = (QF_evts s)(e := None) \<and>
     pool_ok K (QF_pool s' ! i) (QF_mem s') (e # xs) \<and> QF_pool s' = (QF_pool s)[i := QF_pool s' ! i] \<and>
     QF_maxPool s' = QF_maxPool s \<and> pool_blocks K (QF_pool s' ! i) = pool_blocks K (QF_pool s ! i)"
proof -
  have p: "i < length (QF_pool s)" "i < 255" "i < unat (QF_maxPool s)" "pool_ok K (QF_pool s ! i) (QF_mem s) xs"
    "e \<in> pool_blocks K (QF_pool s ! i)" "e \<notin> set xs" "poolId ev = of_nat i + 1"
    using assms(1,2) by (auto simp: pool_event_def)
  note num = pool_number [OF p(2)]
  obtain p' mem' where put: "QMPool_put ret e (QF_pool s ! i) (QF_mem s) = Some (p', mem')" "pool_ok K p' mem' (e # xs)"
    "pool_blocks K p' = pool_blocks K (QF_pool s ! i)" using put_pool [OF p(4-6), of ret] by blast
  have "\<not> refCtr ev > 1" using assms(3) by (simp add: word_less_nat_alt)
  moreover have "((of_nat i :: u8) < QF_maxPool s) = True" using p(3) num by (simp add: word_less_nat_alt)
  ultimately have "QF_gc ret e s = Some (s\<lparr>QF_pool := (QF_pool s)[i := p'], QF_mem := mem', QF_evts := (QF_evts s)(e := None)\<rparr>)"
    using assms(2) p(1,7) num put(1) by (simp add: QF_gc_def pool_at_def Let_def)
  then show ?thesis using put(2,3) p(1) by simp
qed

lemma gc_count:
  assumes "QF_evts s e = Some ev" "poolId ev \<noteq> 0" "1 < unat (refCtr ev)"
  shows "QF_gc ret e s = Some (s\<lparr>QF_evts := (QF_evts s)(e \<mapsto> ev\<lparr>refCtr := refCtr ev - 1\<rparr>)\<rparr>)"
  using assms by (simp add: QF_gc_def QF_EVT_REF_CTR_DEC_def word_less_nat_alt)

lemma pool_event_count: "pool_event K i e xs s \<Longrightarrow> QF_evts s e = Some ev \<Longrightarrow>
    pool_event K i e xs (s\<lparr>QF_evts := (QF_evts s)(e \<mapsto> ev\<lparr>refCtr := r\<rparr>)\<rparr>)"
  by (simp add: pool_event_def)

text \<open>
  C15: A dynamic event lives as long as it is referred to: under any posts and collections that
  keep the number of references below 256 its counter is that number, and the collection of the
  last reference, and no other, returns its block to the pool. A post stands for what it does to
  the counter.
\<close>

theorem event_lifetime:
  assumes "pool_event K i e xs s" "QF_evts s e = Some ev" "lifetime ops (unat (refCtr ev)) = Some r"
  shows "\<exists>s'. ref_run ret e ops s = Some s' \<and>
     (case r of
        Some c \<Rightarrow> s' = s\<lparr>QF_evts := (QF_evts s)(e \<mapsto> ev\<lparr>refCtr := of_nat c\<rparr>)\<rparr>
      | None \<Rightarrow> QF_evts s' = (QF_evts s)(e := None) \<and> pool_ok K (QF_pool s' ! i) (QF_mem s') (e # xs))"
  using assms
proof (induction ops arbitrary: s ev)
  case Nil
  then show ?case by (auto simp: fun_upd_idem)
next
  case (Cons x ops)
  have dyn: "poolId ev \<noteq> 0" using Cons.prems(1,2) pool_number by (auto simp: pool_event_def)
  show ?case
  proof (cases x)
    case Ref
    let ?ev = "ev\<lparr>refCtr := refCtr ev + 1\<rparr>"
    let ?s = "s\<lparr>QF_evts := (QF_evts s)(e \<mapsto> ?ev)\<rparr>"
    have c: "unat (refCtr ev) < 255" "lifetime ops (Suc (unat (refCtr ev))) = Some r"
      using Cons.prems(3) Ref by (auto split: if_splits)
    have "unat (refCtr ?ev) = Suc (unat (refCtr ev))" using c(1) by (simp add: unat_word_ariths)
    with Cons.IH [of ?s ?ev] pool_event_count [OF Cons.prems(1,2)] c(2) obtain s' where
      "ref_run ret e ops ?s = Some s'"
      "case r of Some c \<Rightarrow> s' = ?s\<lparr>QF_evts := (QF_evts ?s)(e \<mapsto> ?ev\<lparr>refCtr := of_nat c\<rparr>)\<rparr>
       | None \<Rightarrow> QF_evts s' = (QF_evts ?s)(e := None) \<and> pool_ok K (QF_pool s' ! i) (QF_mem s') (e # xs)" by auto
    then show ?thesis
      using Ref Cons.prems(2) dyn by (auto simp: count_event_def QF_EVT_REF_CTR_INC_def split: option.splits)
  next
    case Unref
    show ?thesis
    proof (cases "1 < unat (refCtr ev)")
      case True
      let ?ev = "ev\<lparr>refCtr := refCtr ev - 1\<rparr>"
      let ?s = "s\<lparr>QF_evts := (QF_evts s)(e \<mapsto> ?ev)\<rparr>"
      have "refCtr ev \<noteq> 0" using True by auto
      then have "unat (refCtr ?ev) = unat (refCtr ev) - 1" by (simp add: unat_minus_one)
      with Cons.IH [of ?s ?ev] pool_event_count [OF Cons.prems(1,2)] Cons.prems(3) True Unref obtain s' where
        "ref_run ret e ops ?s = Some s'"
        "case r of Some c \<Rightarrow> s' = ?s\<lparr>QF_evts := (QF_evts ?s)(e \<mapsto> ?ev\<lparr>refCtr := of_nat c\<rparr>)\<rparr>
         | None \<Rightarrow> QF_evts s' = (QF_evts ?s)(e := None) \<and> pool_ok K (QF_pool s' ! i) (QF_mem s') (e # xs)" by auto
      then show ?thesis using Unref gc_count [OF Cons.prems(2) dyn True, of ret] by (auto split: option.splits)
    next
      case False
      then have "ops = []" "r = None" using Cons.prems(3) Unref by (auto split: if_splits)
      with gc_last [OF Cons.prems(1,2), of ret] False Unref show ?thesis by auto
    qed
  qed
qed

text \<open>
  The counter has eight bits. An event posted 256 times, which the queue of the old driver has room for,
  counts as unreferenced; the first one to be finished with it gives the block back.
\<close>

fun post_times :: "bool \<Rightarrow> nat \<Rightarrow> nat \<Rightarrow> evts \<times> QActive \<Rightarrow> (evts \<times> QActive) option" where
  "post_times ret 0 e s = Some s"
| "post_times ret (Suc n) e s = do { s \<leftarrow> QActive_postFIFO ret e s; post_times ret n e s }"

lemma post_times_contents:
  assumes "queue_ok (m_eQueue me)" "length (contents (m_eQueue me)) + n \<le> capacity (m_eQueue me)" "evts e = Some ev" "poolId ev \<noteq> 0"
  shows "\<exists>me'. post_times ret n e (evts, me) = Some (evts(e \<mapsto> ev\<lparr>refCtr := refCtr ev + of_nat n\<rparr>), me') \<and>
     queue_ok (m_eQueue me') \<and> contents (m_eQueue me') = contents (m_eQueue me) @ replicate n e"
  using assms
proof (induction n arbitrary: evts me ev)
  case 0
  then show ?case by (simp add: fun_upd_idem)
next
  case (Suc n)
  let ?ev = "ev\<lparr>refCtr := refCtr ev + 1\<rparr>"
  have "length (contents (m_eQueue me)) < capacity (m_eQueue me)" using Suc.prems(2) by simp
  from post_fifo_queue [OF Suc.prems(1) this, of e ret] obtain q where q:
    "(if m_frontEvt (m_eQueue me) = None then Some ((m_eQueue me)\<lparr>m_frontEvt := Some e\<rparr>) else ring_fifo ret e (m_eQueue me)) = Some q"
    "queue_ok q" "contents q = contents (m_eQueue me) @ [e]" "capacity q = capacity (m_eQueue me)" by blast
  obtain me1 where me1: "QActive_postFIFO ret e (evts, me) = Some (evts(e \<mapsto> ?ev), me1)" "m_eQueue me1 = q"
    using q(1) Suc.prems(3,4)
    by (auto simp: QActive_postFIFO_def count_event_def QF_EVT_REF_CTR_INC_def QACTIVE_EQUEUE_SIGNAL_def split: if_splits)
  have "queue_ok (m_eQueue me1)" "length (contents (m_eQueue me1)) + n \<le> capacity (m_eQueue me1)"
    "(evts(e \<mapsto> ?ev)) e = Some ?ev" "poolId ?ev \<noteq> 0"
    using q(2-4) me1(2) Suc.prems(2,4) by simp_all
  from Suc.IH [where evts = "evts(e \<mapsto> ?ev)" and me = me1 and ev = ?ev, OF this] obtain me' where
    "post_times ret n e (evts(e \<mapsto> ?ev), me1) = Some ((evts(e \<mapsto> ?ev))(e \<mapsto> ?ev\<lparr>refCtr := refCtr ?ev + of_nat n\<rparr>), me')"
    "queue_ok (m_eQueue me')" "contents (m_eQueue me') = contents (m_eQueue me1) @ replicate n e" by blast
  moreover have "refCtr ev + of_nat (Suc n) = refCtr ?ev + of_nat n" by simp
  ultimately show ?case using me1 q(3) by (simp add: fun_eq_iff add.assoc)
qed

text \<open>
  C20: The counter of references has 8 bits: an event that is posted 256 times counts none, and
  when the first reference is collected its block goes back to the pool while the queue still
  holds it 255 times.
\<close>

theorem references_wrap:
  assumes "pool_event K i e xs s" "QF_evts s e = Some ev" "refCtr ev = 0"
    and "queue_ok (m_eQueue me)" "contents (m_eQueue me) = []" "256 \<le> capacity (m_eQueue me)"
  shows "\<exists>evts me' me'' s'. post_times ret 256 e (QF_evts s, me) = Some (evts, me') \<and>
     QActive_get me' = Some (Gets (e, me'')) \<and> QF_gc ret e (s\<lparr>QF_evts := evts\<rparr>) = Some s' \<and>
     contents (m_eQueue me'') = replicate 255 e \<and> QF_evts s' e = None \<and> pool_ok K (QF_pool s' ! i) (QF_mem s') (e # xs)"
proof -
  have dyn: "poolId ev \<noteq> 0" using assms(1,2) pool_number by (auto simp: pool_event_def)
  have wrap: "refCtr ev + of_nat 256 = 0" using assms(3) by simp
  have rep: "replicate 256 e = e # replicate 255 e" using replicate_Suc [of 255 e] by simp
  obtain me' where p: "post_times ret 256 e (QF_evts s, me) = Some ((QF_evts s)(e \<mapsto> ev\<lparr>refCtr := 0\<rparr>), me')"
    "queue_ok (m_eQueue me')" "contents (m_eQueue me') = e # replicate 255 e"
    using post_times_contents [of me 256 "QF_evts s" e ev ret] assms(2,4-6) dyn unfolding wrap rep by auto
  obtain me'' where g: "QActive_get me' = Some (Gets (e, me''))" "contents (m_eQueue me'') = replicate 255 e"
    using get_queue [OF p(2,3)] by (auto simp: QActive_get_def)
  have "pool_event K i e xs (s\<lparr>QF_evts := (QF_evts s)(e \<mapsto> ev\<lparr>refCtr := 0\<rparr>)\<rparr>)" using pool_event_count [OF assms(1,2)] .
  from gc_last [OF this, of "ev\<lparr>refCtr := 0\<rparr>" ret] p(1) g show ?thesis by auto
qed

text \<open>A pool of one block, which holds an event, and a queue for as many events as that of the old driver.\<close>

definition one_pool :: QMPool where
  "one_pool = \<lparr>mp_start = 0, mp_end = 0, mp_free = None, mp_blockSize = 4, mp_nTot = 1, mp_nFree = 0, mp_nMin = 0\<rparr>"

definition one_event :: "u8 \<Rightarrow> pools" where
  "one_event r = \<lparr>QF_pool = [one_pool], QF_maxPool = 1, QF_mem = fresh 1, QF_evts = [0 \<mapsto> \<lparr>evt_sig = 4, poolId = 1, refCtr = r\<rparr>]\<rparr>"

lemma one_pool_event: "pool_event 1 0 0 [] (one_event r)"
  by (simp add: pool_event_def one_event_def one_pool_def pool_ok_def pool_blocks_def fresh_def)

theorem event_lifetime_witness:
  "\<exists>s. ref_run False 0 [Ref, Ref, Unref, Ref, Unref, Unref] (one_event 0) = Some s \<and> QF_evts s 0 = None \<and>
     pool_ok 1 (QF_pool s ! 0) (QF_mem s) [0]"
proof -
  have "QF_evts (one_event 0) 0 = Some \<lparr>evt_sig = 4, poolId = 1, refCtr = 0\<rparr>" by (simp add: one_event_def)
  from event_lifetime [OF one_pool_event this, of "[Ref, Ref, Unref, Ref, Unref, Unref]" None False] show ?thesis by auto
qed

theorem references_wrap_witness:
  "\<exists>evts me' me'' s'. post_times True 256 0 (QF_evts (one_event 0),
       \<lparr>m_eQueue = QEQueue_init (fresh 50000) 50000, m_osObject = 0, m_thread = 1, m_prio = 1\<rparr>) = Some (evts, me') \<and>
     QActive_get me' = Some (Gets (0, me'')) \<and> QF_gc True 0 ((one_event 0)\<lparr>QF_evts := evts\<rparr>) = Some s' \<and>
     contents (m_eQueue me'') = replicate 255 0 \<and> QF_evts s' 0 = None"
proof -
  have q: "queue_ok (QEQueue_init (fresh 50000) 50000)" "contents (QEQueue_init (fresh 50000) 50000) = []"
    "capacity (QEQueue_init (fresh 50000) 50000) = 50001"
    using init_ok [of "fresh 50000" 50000] by (simp_all add: fresh_def)
  have e: "QF_evts (one_event 0) 0 = Some \<lparr>evt_sig = 4, poolId = 1, refCtr = 0\<rparr>" by (simp add: one_event_def)
  from references_wrap [OF one_pool_event e, of "\<lparr>m_eQueue = QEQueue_init (fresh 50000) 50000, m_osObject = 0, m_thread = 1, m_prio = 1\<rparr>" True] q
  show ?thesis by auto
qed

end
