(* ===== verification/Publish.thy ===== *)
theory Publish
  imports Priority_Set Event_Pool
begin

text \<open>
  Active objects and the events published to them, \<open>library/qpcpp/qf/source/qf_act.cpp\<close>, \<open>qf_psini.cpp\<close>,
  \<open>qf_pspub.cpp\<close>, \<open>qa_sub.cpp\<close>, \<open>qa_usub.cpp\<close> and \<open>qa_usuba.cpp\<close>, and the threads of \<open>ports/posix/gnu/qf_port.cpp\<close>.
  Every priority belongs to one object; the subscribers of a signal are the bits of an array.
\<close>

section \<open>The framework's tables\<close>

record qf =
  qf_pools :: pools
  qf_objs :: "nat \<Rightarrow> QActive option"
  qf_active :: "nat option list"
  qf_subscrList :: "u8 cbuf list"
  qf_maxSignal :: int

definition QF_MAX_ACTIVE :: u8 where "QF_MAX_ACTIVE = 63"

definition active_at :: "u8 \<Rightarrow> qf \<Rightarrow> nat option option" where
  "active_at p s = (if unat p < length (qf_active s) then Some (qf_active s ! unat p) else None)"

definition valid_prio :: "u8 \<Rightarrow> bool" where
  "valid_prio p \<longleftrightarrow> 0 < p \<and> p \<le> QF_MAX_ACTIVE"

definition QF_add :: "bool \<Rightarrow> nat \<Rightarrow> qf \<Rightarrow> qf option" where
  "QF_add ret a s =
     do { me \<leftarrow> qf_objs s a;
          let p = m_prio me;
          Q_ASSERT ret (valid_prio p \<and> active_at p s = Some None);
          _ \<leftarrow> active_at p s;
          Some (s\<lparr>qf_active := (qf_active s)[unat p := Some a]\<rparr>) }"

definition QF_remove :: "bool \<Rightarrow> nat \<Rightarrow> qf \<Rightarrow> qf option" where
  "QF_remove ret a s =
     do { me \<leftarrow> qf_objs s a;
          let p = m_prio me;
          Q_ASSERT ret (valid_prio p \<and> active_at p s = Some (Some a));
          _ \<leftarrow> active_at p s;
          Some (s\<lparr>qf_active := (qf_active s)[unat p := None]\<rparr>) }"

text \<open>The least number of free places a queue has had.\<close>

definition getQueueMargin :: "bool \<Rightarrow> u8 \<Rightarrow> qf \<Rightarrow> u32 option" where
  "getQueueMargin ret p s =
     do { Q_ASSERT ret (p \<le> QF_MAX_ACTIVE \<and> active_at p s \<noteq> Some None);
          a \<leftarrow> active_at p s;
          a \<leftarrow> a;
          map_option (\<lambda>me. q_nMin (m_eQueue me)) (qf_objs s a) }"

section \<open>Subscriptions\<close>

definition QF_psInit :: "u8 cbuf list \<Rightarrow> u32 \<Rightarrow> qf \<Rightarrow> qf" where
  "QF_psInit subscrSto maxSignal s = s\<lparr>qf_subscrList := subscrSto, qf_maxSignal := uint maxSignal\<rparr>"

definition subscr_at :: "int \<Rightarrow> qf \<Rightarrow> u8 cbuf option" where
  "subscr_at sig s = (if 0 \<le> sig \<and> nat sig < length (qf_subscrList s) then Some (qf_subscrList s ! nat sig) else None)"

text \<open>One byte of the subscribers of a signal is changed.\<close>

definition change_subscr :: "int \<Rightarrow> u8 \<Rightarrow> (u8 \<Rightarrow> u8) \<Rightarrow> qf \<Rightarrow> qf option" where
  "change_subscr sig i f s =
     do { l \<leftarrow> subscr_at sig s;
          x \<leftarrow> rd l (uint i);
          l \<leftarrow> wr l (uint i) (f x);
          Some (s\<lparr>qf_subscrList := (qf_subscrList s)[nat sig := l]\<rparr>) }"

definition QActive_subscribe :: "bool \<Rightarrow> nat \<Rightarrow> int \<Rightarrow> qf \<Rightarrow> qf option" where
  "QActive_subscribe ret a sig s =
     do { me \<leftarrow> qf_objs s a;
          let p = m_prio me;
          Q_ASSERT ret (4 \<le> sig \<and> sig < qf_maxSignal s \<and> valid_prio p \<and> active_at p s = Some (Some a));
          i \<leftarrow> lookup QF_div8Lkup p;
          b \<leftarrow> lookup QF_pwr2Lkup p;
          change_subscr sig i (\<lambda>x. x OR b) s }"

definition QActive_unsubscribe :: "bool \<Rightarrow> nat \<Rightarrow> int \<Rightarrow> qf \<Rightarrow> qf option" where
  "QActive_unsubscribe ret a sig s =
     do { me \<leftarrow> qf_objs s a;
          let p = m_prio me;
          Q_ASSERT ret (4 \<le> sig \<and> sig < qf_maxSignal s \<and> valid_prio p \<and> active_at p s = Some (Some a));
          i \<leftarrow> lookup QF_div8Lkup p;
          b \<leftarrow> lookup QF_invPwr2Lkup p;
          change_subscr sig i (\<lambda>x. x AND b) s }"

fun unsubscribe_sigs :: "u8 \<Rightarrow> u8 \<Rightarrow> u8 \<Rightarrow> nat list \<Rightarrow> qf \<Rightarrow> qf option" where
  "unsubscribe_sigs i b nb [] s = Some s"
| "unsubscribe_sigs i b nb (sig # sigs) s =
     do { l \<leftarrow> subscr_at (int sig) s;
          x \<leftarrow> rd l (uint i);
          s \<leftarrow> (if x AND b \<noteq> 0 then change_subscr (int sig) i (\<lambda>x. x AND nb) s else Some s);
          unsubscribe_sigs i b nb sigs s }"

definition QActive_unsubscribeAll :: "bool \<Rightarrow> nat \<Rightarrow> qf \<Rightarrow> qf option" where
  "QActive_unsubscribeAll ret a s =
     do { me \<leftarrow> qf_objs s a;
          let p = m_prio me;
          Q_ASSERT ret (valid_prio p \<and> active_at p s = Some (Some a));
          i \<leftarrow> lookup QF_div8Lkup p;
          b \<leftarrow> lookup QF_pwr2Lkup p;
          nb \<leftarrow> lookup QF_invPwr2Lkup p;
          unsubscribe_sigs i b nb [4..<nat (qf_maxSignal s)] s }"

section \<open>Publishing\<close>

text \<open>Posting to an object; the events are those of the pools.\<close>

definition QF_post :: "bool \<Rightarrow> nat \<Rightarrow> nat \<Rightarrow> qf \<Rightarrow> qf option" where
  "QF_post ret a e s =
     do { me \<leftarrow> qf_objs s a;
          (evts, me) \<leftarrow> QActive_postFIFO ret e (QF_evts (qf_pools s), me);
          Some (s\<lparr>qf_pools := (qf_pools s)\<lparr>QF_evts := evts\<rparr>, qf_objs := (qf_objs s)(a \<mapsto> me)\<rparr>) }"

text \<open>The subscribers of one byte, the greatest priority first.\<close>

partial_function (option) publish_byte :: "bool \<Rightarrow> nat \<Rightarrow> u8 \<Rightarrow> u8 \<Rightarrow> qf \<Rightarrow> qf option" where
  "publish_byte ret e i tmp s =
     (if tmp = 0 then Some s
      else do {
        p \<leftarrow> QF_LOG2 tmp;
        m \<leftarrow> lookup QF_invPwr2Lkup p;
        a \<leftarrow> active_at (p + push_bit 3 i) s;
        Q_ASSERT ret (a \<noteq> None);
        a \<leftarrow> a;
        s \<leftarrow> QF_post ret a e s;
        publish_byte ret e i (tmp AND m) s })"

fun publish_bytes :: "bool \<Rightarrow> nat \<Rightarrow> int \<Rightarrow> nat \<Rightarrow> qf \<Rightarrow> qf option" where
  "publish_bytes ret e sig 0 s = Some s"
| "publish_bytes ret e sig (Suc i) s =
     do { l \<leftarrow> subscr_at sig s;
          tmp \<leftarrow> rd l (int i);
          s \<leftarrow> publish_byte ret e (of_nat i) tmp s;
          publish_bytes ret e sig i s }"

definition QF_publish :: "bool \<Rightarrow> nat \<Rightarrow> qf \<Rightarrow> qf option" where
  "QF_publish ret e s =
     do { ev \<leftarrow> QF_evts (qf_pools s) e;
          Q_ASSERT ret (uint (evt_sig ev) < qf_maxSignal s);
          evts \<leftarrow> count_event e (QF_evts (qf_pools s));
          s \<leftarrow> publish_bytes ret e (uint (evt_sig ev)) 8 (s\<lparr>qf_pools := (qf_pools s)\<lparr>QF_evts := evts\<rparr>\<rparr>);
          pools \<leftarrow> QF_gc ret e (qf_pools s);
          Some (s\<lparr>qf_pools := pools\<rparr>) }"

section \<open>The threads\<close>

definition QActive_stop :: "nat \<Rightarrow> qf \<Rightarrow> qf option" where
  "QActive_stop a s = do { me \<leftarrow> qf_objs s a; Some (s\<lparr>qf_objs := (qf_objs s)(a \<mapsto> me\<lparr>m_thread := 0\<rparr>)\<rparr>) }"

text \<open>
  The loop of a thread; \<open>disp\<close> is the dispatching of an event to the object's state machine, which may
  stop the object, post or publish. The result tells whether the thread has ended; otherwise it waits.
\<close>

partial_function (option) QF_thread :: "bool \<Rightarrow> (nat \<Rightarrow> qf \<Rightarrow> qf option) \<Rightarrow> nat \<Rightarrow> qf \<Rightarrow> (bool \<times> qf) option" where
  "QF_thread ret disp a s =
     do { me \<leftarrow> qf_objs s a;
          r \<leftarrow> QActive_get me;
          case r of
            Waits \<Rightarrow> Some (False, s)
          | Gets x \<Rightarrow> do {
              let s = s\<lparr>qf_objs := (qf_objs s)(a \<mapsto> snd x)\<rparr>;
              s \<leftarrow> disp (fst x) s;
              pools \<leftarrow> QF_gc ret (fst x) (qf_pools s);
              let s = s\<lparr>qf_pools := pools\<rparr>;
              me \<leftarrow> qf_objs s a;
              if m_thread me \<noteq> 0 then QF_thread ret disp a s
              else do { s \<leftarrow> QF_remove ret a s; Some (True, s) } } }"

text \<open>
  Starting an object: \<open>tran\<close> is its initial transition, \<open>created\<close> tells whether the thread was created at
  the first or the second attempt, and \<open>others\<close> is what the threads, the new one among them, do until
  \<open>start\<close> marks the object as running.
\<close>

definition QActive_start ::
  "bool \<Rightarrow> (qf \<Rightarrow> qf option) \<Rightarrow> bool \<times> bool \<Rightarrow> (qf \<Rightarrow> qf option) \<Rightarrow> nat \<Rightarrow> u8 \<Rightarrow> nat cbuf \<Rightarrow> u32 \<Rightarrow> nat option \<Rightarrow> qf \<Rightarrow> qf option" where
  "QActive_start ret tran created others a prio qSto qLen stkSto s =
     do { Q_ASSERT ret (stkSto = None);
          me \<leftarrow> qf_objs s a;
          let me = me\<lparr>m_eQueue := QEQueue_init qSto qLen, m_osObject := 0, m_prio := prio\<rparr>;
          s \<leftarrow> QF_add ret a (s\<lparr>qf_objs := (qf_objs s)(a \<mapsto> me)\<rparr>);
          s \<leftarrow> tran s;
          Q_ASSERT ret (fst created \<or> snd created);
          s \<leftarrow> (if fst created \<or> snd created then others s else Some s);
          me \<leftarrow> qf_objs s a;
          Some (s\<lparr>qf_objs := (qf_objs s)(a \<mapsto> me\<lparr>m_thread := 1\<rparr>)\<rparr>) }"

section \<open>Who gets a published event\<close>

fun post_all :: "bool \<Rightarrow> nat \<Rightarrow> nat list \<Rightarrow> qf \<Rightarrow> qf option" where
  "post_all ret e [] s = Some s"
| "post_all ret e (a # as) s = do { s \<leftarrow> QF_post ret a e s; post_all ret e as s }"

lemma post_all_append: "post_all ret e (as @ bs) s = do { s \<leftarrow> post_all ret e as s; post_all ret e bs s }"
  by (induction as arbitrary: s) (auto split: bind_split)

lemma QF_post_tables:
  "QF_post ret a e s = Some s' \<Longrightarrow> qf_active s' = qf_active s \<and> qf_subscrList s' = qf_subscrList s \<and> qf_maxSignal s' = qf_maxSignal s"
  by (auto simp: QF_post_def Option.bind_eq_Some_conv)

lemma post_all_tables:
  "post_all ret e as s = Some s' \<Longrightarrow> qf_active s' = qf_active s \<and> qf_subscrList s' = qf_subscrList s \<and> qf_maxSignal s' = qf_maxSignal s"
  by (induction as arbitrary: s) (auto simp: Option.bind_eq_Some_conv dest: QF_post_tables)

lemma greatest_first:
  fixes S :: "nat set"
  assumes "finite S" "S \<noteq> {}"
  shows "rev (sorted_list_of_set S) = Max S # rev (sorted_list_of_set (S - {Max S}))"
proof -
  have "Max S \<in> S" using assms by (rule Max_in)
  have "sorted_list_of_set S = sorted_list_of_set (S - {Max S}) @ [Max S]"
  proof (rule sorted_distinct_set_unique)
    show "sorted (sorted_list_of_set (S - {Max S}) @ [Max S])" using assms by (simp add: sorted_append)
  qed (use assms(1) \<open>Max S \<in> S\<close> in auto)
  then show ?thesis by simp
qed

text \<open>The owner of a priority, for the priorities in use.\<close>

definition owns :: "qf \<Rightarrow> (nat \<Rightarrow> nat) \<Rightarrow> nat set \<Rightarrow> bool" where
  "owns s f P \<longleftrightarrow> length (qf_active s) = 64 \<and> (\<forall>p \<in> P. p < 64 \<and> qf_active s ! p = Some (f p))"

lemma publish_byte_posts:
  assumes "i < 8" "owns s f ((\<lambda>k. 8 * i + k) ` byte_set tmp)"
  shows "publish_byte ret e (of_nat i) tmp s = post_all ret e (map (\<lambda>k. f (8 * i + k)) (rev (sorted_list_of_set (byte_set tmp)))) s"
  using assms(2)
proof (induction "card (byte_set tmp)" arbitrary: tmp s)
  case 0
  then have "tmp = 0" by (simp add: byte_set_empty_iff)
  then show ?case using byte_set_empty_iff [of 0] by (subst publish_byte.simps) simp
next
  case (Suc n)
  let ?S = "byte_set tmp" and ?m = "Max (byte_set tmp)"
  have ne: "tmp \<noteq> 0" "?S \<noteq> {}" using Suc.hyps(2) byte_set_empty_iff [of tmp] by auto
  have mem: "?m \<in> ?S" using ne(2) by (intro Max_in) simp_all
  then have m: "1 \<le> ?m" "?m \<le> 8" "Suc (?m - 1) = ?m" by (auto simp: byte_set_def)
  have owner: "8 * i + ?m < 64" "qf_active s ! (8 * i + ?m) = Some (f (8 * i + ?m))" "length (qf_active s) = 64"
    using Suc.prems mem by (auto simp: owns_def)
  have inv: "lookup QF_invPwr2Lkup (of_nat ?m) = Some (NOT (2 ^ (?m - 1)))"
    using lookup_powers(2) [of ?m] m by simp
  have idx: "unat (of_nat ?m + push_bit 3 (of_nat i) :: u8) = 8 * i + ?m"
  proof -
    have eq: "of_nat ?m + push_bit 3 (of_nat i) = (of_nat (8 * i + ?m) :: u8)" by (simp add: push_bit_eq_mult)
    show ?thesis unfolding eq by (rule of_nat_small8) (use owner(1) in simp)
  qed
  have act: "active_at (of_nat ?m + push_bit 3 (of_nat i)) s = Some (Some (f (8 * i + ?m)))"
    unfolding active_at_def idx using owner by simp
  have rest: "byte_set (tmp AND NOT (2 ^ (?m - 1))) = ?S - {?m}" using byte_set_and_not [of tmp "?m - 1"] m by simp
  have card: "n = card (byte_set (tmp AND NOT (2 ^ (?m - 1))))" using rest Suc.hyps(2) mem by simp
  have step: "publish_byte ret e (of_nat i) (tmp AND NOT (2 ^ (?m - 1))) s1
      = post_all ret e (map (\<lambda>k. f (8 * i + k)) (rev (sorted_list_of_set (?S - {?m})))) s1" if "QF_post ret (f (8 * i + ?m)) e s = Some s1" for s1
  proof -
    have "owns s1 f ((\<lambda>k. 8 * i + k) ` byte_set (tmp AND NOT (2 ^ (?m - 1))))"
      using Suc.prems QF_post_tables [OF that] unfolding rest owns_def by auto
    from Suc.hyps(1) [OF card this] show ?thesis unfolding rest .
  qed
  have log: "QF_LOG2 tmp = Some (of_nat ?m)" using QF_LOG2_max [of tmp] ne(1) by simp
  show ?case
    using ne(1) log inv act step unfolding greatest_first [OF finite_byte_set ne(2)]
    by (subst publish_byte.simps) (auto split: bind_split)
qed

definition upto_byte :: "u8 cbuf \<Rightarrow> nat \<Rightarrow> nat set" where
  "upto_byte l n = {p \<in> bytes_elems l. p \<le> 8 * n}"

lemma upto_byte_Suc:
  assumes "bytes_ok l" "n < 8" "l ! n = Some x"
  shows "sorted_list_of_set (upto_byte l (Suc n)) = sorted_list_of_set (upto_byte l n) @ map (\<lambda>k. 8 * n + k) (sorted_list_of_set (byte_set x))"
proof -
  have fin: "finite (upto_byte l m)" for m by (rule finite_subset [of _ "{..8 * m}"]) (auto simp: upto_byte_def)
  have new: "p \<in> bytes_elems l \<and> 8 * n < p \<and> p \<le> 8 * Suc n \<longleftrightarrow> p \<in> (\<lambda>k. 8 * n + k) ` byte_set x" for p
  proof
    assume p: "p \<in> bytes_elems l \<and> 8 * n < p \<and> p \<le> 8 * Suc n"
    define k where "k = p - 8 * n"
    have k: "p = 8 * n + k" "1 \<le> k" "k \<le> 8" using p by (auto simp: k_def)
    with p assms(3) block_index [of k n] show "p \<in> (\<lambda>k. 8 * n + k) ` byte_set x"
      by (auto simp: bytes_elems_def byte_set_def)
  next
    assume "p \<in> (\<lambda>k. 8 * n + k) ` byte_set x"
    then obtain k where k: "p = 8 * n + k" "1 \<le> k" "k \<le> 8" "bit x (k - 1)" by (auto simp: byte_set_def)
    with assms(2,3) block_index [of k n] show "p \<in> bytes_elems l \<and> 8 * n < p \<and> p \<le> 8 * Suc n"
      by (auto simp: bytes_elems_def)
  qed
  have set: "upto_byte l (Suc n) = upto_byte l n \<union> (\<lambda>k. 8 * n + k) ` byte_set x"
    using new unfolding upto_byte_def by (auto simp: not_le [symmetric])
  have gt: "8 * n < p" if "p \<in> (\<lambda>k. 8 * n + k) ` byte_set x" for p using that new by blast
  show ?thesis
  proof (rule sorted_distinct_set_unique)
    show "sorted (sorted_list_of_set (upto_byte l n) @ map (\<lambda>k. 8 * n + k) (sorted_list_of_set (byte_set x)))"
      using gt fin by (auto simp: sorted_append sorted_map upto_byte_def intro: sorted_wrt_mono_rel [OF _ sorted_sorted_list_of_set])
    show "distinct (sorted_list_of_set (upto_byte l n) @ map (\<lambda>k. 8 * n + k) (sorted_list_of_set (byte_set x)))"
      using gt fin by (auto simp: distinct_map upto_byte_def) (fastforce dest: gt)
  qed (use fin set in auto)
qed

lemma publish_bytes_posts:
  assumes "n \<le> 8" "subscr_at sig s = Some l" "bytes_ok l" "owns s f (upto_byte l n)"
  shows "publish_bytes ret e sig n s = post_all ret e (map f (rev (sorted_list_of_set (upto_byte l n)))) s"
  using assms
proof (induction n arbitrary: s)
  case 0
  have "upto_byte l 0 = {}" by (auto simp: upto_byte_def bytes_elems_def)
  then show ?case by simp
next
  case (Suc n)
  obtain x where x: "l ! n = Some x" using bytes_okD [OF Suc.prems(3), of n] Suc.prems(1) by auto
  have "length l = 8" using Suc.prems(3) by (simp add: bytes_ok_def)
  then have rd: "rd l (int n) = Some x" using x Suc.prems(1) by (simp add: rd_def)
  have fin: "finite (upto_byte l m)" for m by (rule finite_subset [of _ "{..8 * m}"]) (auto simp: upto_byte_def)
  have lt: "n < 8" using Suc.prems(1) by simp
  note split = upto_byte_Suc [OF Suc.prems(3) lt x]
  have sets: "upto_byte l (Suc n) = upto_byte l n \<union> (\<lambda>k. 8 * n + k) ` byte_set x"
    using arg_cong [OF split, of set] fin by simp
  have own: "owns s f ((\<lambda>k. 8 * n + k) ` byte_set x)" using Suc.prems(4) unfolding sets owns_def by blast
  have "publish_bytes ret e sig n s1 = post_all ret e (map f (rev (sorted_list_of_set (upto_byte l n)))) s1"
    if "post_all ret e (map (\<lambda>k. f (8 * n + k)) (rev (sorted_list_of_set (byte_set x)))) s = Some s1" for s1
    using post_all_tables [OF that] Suc.prems(1-4) by (intro Suc.IH) (auto simp: subscr_at_def owns_def sets)
  then show ?case
    using Suc.prems(2) rd publish_byte_posts [OF lt own, of ret e]
    by (simp add: split rev_map [symmetric] post_all_append o_def) (auto split: bind_split simp: rev_map o_def)
qed

lemma upto_all: "upto_byte l 8 = bytes_elems l"
  by (auto simp: upto_byte_def bytes_elems_def)

section \<open>What a post does\<close>

definition counted :: "nat \<Rightarrow> QEvt \<Rightarrow> QEvt" where
  "counted n ev = (if poolId ev \<noteq> 0 then ev\<lparr>refCtr := refCtr ev + of_nat n\<rparr> else ev)"

definition has_room :: "qf \<Rightarrow> nat \<Rightarrow> bool" where
  "has_room s a \<longleftrightarrow> (\<exists>me. qf_objs s a = Some me \<and> queue_ok (m_eQueue me) \<and> length (contents (m_eQueue me)) < capacity (m_eQueue me))"

text \<open>An object has got an event: nothing else about it has changed.\<close>

definition posted_to :: "nat \<Rightarrow> QActive \<Rightarrow> QActive \<Rightarrow> bool" where
  "posted_to e me me' \<longleftrightarrow> queue_ok (m_eQueue me') \<and> contents (m_eQueue me') = contents (m_eQueue me) @ [e] \<and>
     m_prio me' = m_prio me \<and> m_thread me' = m_thread me"

lemma counted_simps: "counted 0 ev = ev" "poolId (counted n ev) = poolId ev" "evt_sig (counted n ev) = evt_sig ev"
  "counted n (counted m ev) = counted (m + n) ev"
  by (simp_all add: counted_def add.assoc)

lemma count_counted: "evts e = Some ev \<Longrightarrow> count_event e evts = Some (evts(e \<mapsto> counted 1 ev))"
  by (auto simp: count_event_def QF_EVT_REF_CTR_INC_def counted_def fun_upd_idem)

lemma QF_post_delivers:
  assumes "has_room s a" "QF_evts (qf_pools s) e = Some ev"
  shows "\<exists>me me'. qf_objs s a = Some me \<and> posted_to e me me' \<and>
     QF_post ret a e s = Some (s\<lparr>qf_pools := (qf_pools s)\<lparr>QF_evts := (QF_evts (qf_pools s))(e \<mapsto> counted 1 ev)\<rparr>,
       qf_objs := (qf_objs s)(a \<mapsto> me')\<rparr>)"
proof -
  obtain me where me: "qf_objs s a = Some me" "queue_ok (m_eQueue me)" "length (contents (m_eQueue me)) < capacity (m_eQueue me)"
    using assms(1) by (auto simp: has_room_def)
  from post_fifo_queue [OF me(2,3), of e ret] obtain q where q:
    "(if m_frontEvt (m_eQueue me) = None then Some ((m_eQueue me)\<lparr>m_frontEvt := Some e\<rparr>) else ring_fifo ret e (m_eQueue me)) = Some q"
    "queue_ok q" "contents q = contents (m_eQueue me) @ [e]" by blast
  then have "\<exists>me'. QActive_postFIFO ret e (QF_evts (qf_pools s), me) = Some ((QF_evts (qf_pools s))(e \<mapsto> counted 1 ev), me') \<and> posted_to e me me'"
    using count_counted [of "QF_evts (qf_pools s)" e ev] assms(2)
    by (auto simp: QActive_postFIFO_def QACTIVE_EQUEUE_SIGNAL_def posted_to_def split: if_splits)
  then show ?thesis using me(1) by (auto simp: QF_post_def)
qed

lemma post_all_delivers:
  assumes "distinct as" "\<forall>a \<in> set as. has_room s a" "QF_evts (qf_pools s) e = Some ev"
  shows "\<exists>s'. post_all ret e as s = Some s' \<and>
     qf_pools s' = (qf_pools s)\<lparr>QF_evts := (QF_evts (qf_pools s))(e \<mapsto> counted (length as) ev)\<rparr> \<and>
     (\<forall>a \<in> set as. \<exists>me me'. qf_objs s a = Some me \<and> qf_objs s' a = Some me' \<and> posted_to e me me') \<and>
     (\<forall>a. a \<notin> set as \<longrightarrow> qf_objs s' a = qf_objs s a)"
  using assms
proof (induction as arbitrary: s ev)
  case Nil
  then show ?case by (simp add: counted_simps fun_upd_idem)
next
  case (Cons a as)
  obtain me me' where p: "qf_objs s a = Some me" "posted_to e me me'"
    "QF_post ret a e s = Some (s\<lparr>qf_pools := (qf_pools s)\<lparr>QF_evts := (QF_evts (qf_pools s))(e \<mapsto> counted 1 ev)\<rparr>,
       qf_objs := (qf_objs s)(a \<mapsto> me')\<rparr>)" (is "_ = Some ?s")
    using QF_post_delivers [of s a e ev ret] Cons.prems(2,3) by auto
  have pre: "distinct as" "\<forall>b \<in> set as. has_room ?s b" "QF_evts (qf_pools ?s) e = Some (counted 1 ev)"
    using Cons.prems(1,2) by (auto simp: has_room_def)
  from Cons.IH [OF pre] obtain s' where s': "post_all ret e as ?s = Some s'"
    "qf_pools s' = (qf_pools ?s)\<lparr>QF_evts := (QF_evts (qf_pools ?s))(e \<mapsto> counted (length as) (counted 1 ev))\<rparr>"
    "\<forall>b \<in> set as. \<exists>me me'. qf_objs ?s b = Some me \<and> qf_objs s' b = Some me' \<and> posted_to e me me'"
    "\<forall>b. b \<notin> set as \<longrightarrow> qf_objs s' b = qf_objs ?s b"
    by blast
  have "qf_objs s' a = Some me'" using s'(4) Cons.prems(1) by simp
  moreover have "\<exists>me me'. qf_objs s b = Some me \<and> qf_objs s' b = Some me' \<and> posted_to e me me'" if "b \<in> set as" for b
    using s'(3) that Cons.prems(1) by (cases "b = a") auto
  ultimately have "\<forall>b \<in> set (a # as). \<exists>me me'. qf_objs s b = Some me \<and> qf_objs s' b = Some me' \<and> posted_to e me me'"
    using p(1,2) by auto
  moreover have "\<forall>b. b \<notin> set (a # as) \<longrightarrow> qf_objs s' b = qf_objs s b" using s'(4) by simp
  moreover have "qf_pools s' = (qf_pools s)\<lparr>QF_evts := (QF_evts (qf_pools s))(e \<mapsto> counted (length (a # as)) ev)\<rparr>"
    unfolding s'(2) by (simp add: counted_simps)
  moreover have "post_all ret e (a # as) s = Some s'" using p(3) s'(1) by simp
  ultimately show ?case by blast
qed

text \<open>
  C16: Publishing an event puts it at the end of the queue of every subscriber of its signal,
  once, touches no other object, and leaves the event with one reference for each subscriber;
  without subscribers it is returned to its pool.
\<close>

theorem publish_delivers:
  assumes "pool_event K i e xs (qf_pools s)" "QF_evts (qf_pools s) e = Some ev" "refCtr ev = 0"
    and "uint (evt_sig ev) < qf_maxSignal s" "subscr_at (uint (evt_sig ev)) s = Some l" "bytes_ok l" "P = bytes_elems l"
    and "owns s f P" "inj_on f P" "\<forall>p \<in> P. has_room s (f p)"
  shows "\<exists>s'. QF_publish ret e s = Some s' \<and>
     (\<forall>a \<in> f ` P. \<exists>me me'. qf_objs s a = Some me \<and> qf_objs s' a = Some me' \<and> posted_to e me me') \<and>
     (\<forall>a. a \<notin> f ` P \<longrightarrow> qf_objs s' a = qf_objs s a) \<and>
     (P = {} \<longrightarrow> QF_evts (qf_pools s') e = None \<and> pool_ok K (QF_pool (qf_pools s') ! i) (QF_mem (qf_pools s')) (e # xs)) \<and>
     (P \<noteq> {} \<longrightarrow> QF_evts (qf_pools s') e = Some (ev\<lparr>refCtr := of_nat (card P)\<rparr>))"
proof -
  let ?as = "map f (rev (sorted_list_of_set P))"
  let ?evts = "(QF_evts (qf_pools s))(e \<mapsto> counted 1 ev)"
  let ?s = "s\<lparr>qf_pools := (qf_pools s)\<lparr>QF_evts := ?evts\<rparr>\<rparr>"
  have fin: "finite P" unfolding assms(7) by (rule finite_subset [of _ "{..64}"]) (auto simp: bytes_elems_def)
  have card: "card P \<le> 64"
  proof -
    have "P \<subseteq> {1..64}" unfolding assms(7) by (auto simp: bytes_elems_def)
    from card_mono [OF _ this] show ?thesis by simp
  qed
  have dyn: "poolId ev \<noteq> 0" using assms(1,2) pool_number by (auto simp: pool_event_def)
  have as: "distinct ?as" "set ?as = f ` P" "length ?as = card P" using fin assms(9) by (simp_all add: distinct_map)
  have room: "\<forall>a \<in> set ?as. has_room ?s a" using assms(10) fin by (auto simp: has_room_def)
  have sub: "subscr_at (uint (evt_sig ev)) ?s = Some l" unfolding assms(5) [symmetric] by (simp add: subscr_at_def)
  have "owns ?s f (upto_byte l 8)" using assms(7,8) by (simp add: upto_all owns_def)
  from publish_bytes_posts [OF order_refl sub assms(6) this, of ret e]
  have "publish_bytes ret e (uint (evt_sig ev)) 8 ?s = post_all ret e ?as ?s" unfolding upto_all assms(7) .
  moreover obtain s1 where s1: "post_all ret e ?as ?s = Some s1"
    "qf_pools s1 = (qf_pools ?s)\<lparr>QF_evts := (QF_evts (qf_pools ?s))(e \<mapsto> counted (card P) (counted 1 ev))\<rparr>"
    "\<forall>a \<in> set ?as. \<exists>me me'. qf_objs ?s a = Some me \<and> qf_objs s1 a = Some me' \<and> posted_to e me me'"
    "\<forall>a. a \<notin> set ?as \<longrightarrow> qf_objs s1 a = qf_objs ?s a"
    using post_all_delivers [OF as(1) room, of e "counted 1 ev" ret] as(3) by auto
  ultimately have run: "QF_publish ret e s = do { pools \<leftarrow> QF_gc ret e (qf_pools s1); Some (s1\<lparr>qf_pools := pools\<rparr>) }"
    using assms(2,4) count_counted [where evts = "QF_evts (qf_pools s)" and e = e and ev = ev] by (simp add: QF_publish_def)
  let ?ev = "ev\<lparr>refCtr := 1 + of_nat (card P)\<rparr>"
  have ev: "counted (card P) (counted 1 ev) = ?ev" using dyn assms(3) by (simp add: counted_def)
  have pools: "qf_pools s1 = (qf_pools s)\<lparr>QF_evts := (QF_evts (qf_pools s))(e \<mapsto> ?ev)\<rparr>"
    using s1(2) unfolding ev by simp
  have cnt: "unat (refCtr ?ev) = Suc (card P)"
    using of_nat_small8 [of "Suc (card P)"] card by simp
  have objs: "\<forall>a \<in> f ` P. \<exists>me me'. qf_objs s a = Some me \<and> qf_objs s1 a = Some me' \<and> posted_to e me me'"
    "\<forall>a. a \<notin> f ` P \<longrightarrow> qf_objs s1 a = qf_objs s a"
    using s1(3,4) unfolding as(2) by simp_all
  show ?thesis
  proof (cases "P = {}")
    case True
    have pe: "pool_event K i e xs (qf_pools s1)" unfolding pools by (rule pool_event_count [OF assms(1,2)])
    have at: "QF_evts (qf_pools s1) e = Some ?ev" unfolding pools by simp
    have "unat (refCtr ?ev) \<le> 1" using cnt True by simp
    from gc_last [OF pe at this, of ret] show ?thesis using run objs True by auto
  next
    case False
    then have "0 < card P" using fin by (simp add: card_gt_0_iff)
    then have "1 < unat (refCtr ?ev)" using cnt by simp
    moreover have "QF_evts (qf_pools s1) e = Some ?ev" unfolding pools by simp
    ultimately have "QF_gc ret e (qf_pools s1) = Some ((qf_pools s1)\<lparr>QF_evts := (QF_evts (qf_pools s1))(e \<mapsto> ?ev\<lparr>refCtr := refCtr ?ev - 1\<rparr>)\<rparr>)"
      using dyn gc_count [of "qf_pools s1" e ?ev ret] by simp
    then show ?thesis using run objs False by auto
  qed
qed

section \<open>Stopping and starting\<close>

lemma post_all_none:
  assumes "\<forall>s1. post_all ret e as s = Some s1 \<longrightarrow> g s1 = None"
  shows "do { s1 \<leftarrow> post_all ret e as s; g s1 } = None"
  using assms by (cases "post_all ret e as s") auto

text \<open>A bit of a subscriber that is not registered any more: the loop does not get past it.\<close>

lemma publish_byte_missing:
  assumes "i < 8" "length (qf_active s) = 64" "k \<in> byte_set tmp" "qf_active s ! (8 * i + k) = None" "8 * i + k < 64"
  shows "publish_byte ret e (of_nat i) tmp s = None"
  using assms(2-5)
proof (induction "card (byte_set tmp)" arbitrary: tmp s)
  case 0
  then show ?case by simp
next
  case (Suc n)
  let ?S = "byte_set tmp" and ?m = "Max (byte_set tmp)"
  have ne: "tmp \<noteq> 0" "?S \<noteq> {}" using Suc.hyps(2) byte_set_empty_iff [of tmp] by auto
  have mem: "?m \<in> ?S" using ne(2) by (intro Max_in) simp_all
  then have m: "1 \<le> ?m" "?m \<le> 8" "Suc (?m - 1) = ?m" by (auto simp: byte_set_def)
  have inv: "lookup QF_invPwr2Lkup (of_nat ?m) = Some (NOT (2 ^ (?m - 1)))" using lookup_powers(2) [of ?m] m by simp
  have log: "QF_LOG2 tmp = Some (of_nat ?m)" using QF_LOG2_max [of tmp] ne(1) by simp
  have idx: "unat (of_nat ?m + push_bit 3 (of_nat i) :: u8) = 8 * i + ?m"
  proof -
    have eq: "of_nat ?m + push_bit 3 (of_nat i) = (of_nat (8 * i + ?m) :: u8)" by (simp add: push_bit_eq_mult)
    show ?thesis unfolding eq by (rule of_nat_small8) (use m assms(1) in simp)
  qed
  have rest: "byte_set (tmp AND NOT (2 ^ (?m - 1))) = ?S - {?m}" using byte_set_and_not [of tmp "?m - 1"] m by simp
  have card: "n = card (byte_set (tmp AND NOT (2 ^ (?m - 1))))" using rest Suc.hyps(2) mem by simp
  show ?case
  proof (cases "active_at (of_nat ?m + push_bit 3 (of_nat i)) s")
    case None
    then show ?thesis using ne(1) log inv by (subst publish_byte.simps) simp
  next
    case (Some r)
    show ?thesis
    proof (cases r)
      case None
      then show ?thesis using ne(1) log inv Some by (subst publish_byte.simps) (simp add: Q_ASSERT_def)
    next
      case a: (Some a)
      then have km: "k \<noteq> ?m" using Some Suc.prems(3) unfolding active_at_def idx by (auto split: if_splits)
      have "publish_byte ret e (of_nat i) (tmp AND NOT (2 ^ (?m - 1))) s1 = None" if "QF_post ret a e s = Some s1" for s1
      proof (rule Suc.hyps(1) [OF card])
        show "k \<in> byte_set (tmp AND NOT (2 ^ (?m - 1)))" unfolding rest using Suc.prems(2) km by simp
      qed (use QF_post_tables [OF that] Suc.prems in simp_all)
      then show ?thesis using ne(1) log inv Some a by (subst publish_byte.simps) (auto split: bind_split)
    qed
  qed
qed

lemma publish_byte_tables:
  assumes "publish_byte ret e i tmp s = Some s'"
  shows "qf_active s' = qf_active s \<and> qf_subscrList s' = qf_subscrList s"
  using assms
proof (rule publish_byte.raw_induct [rotated], goal_cases)
  case (1 f ret e i tmp s s')
  show ?case
  proof (cases "tmp = 0")
    case False
    with 1(2) obtain m s1 a where s1: "QF_post ret a e s = Some s1" "f ret e i (tmp AND m) s1 = Some s'"
      by (auto simp: Option.bind_eq_Some_conv)
    from 1(1) [OF s1(2)] QF_post_tables [OF s1(1)] show ?thesis by simp
  qed (use 1 in simp)
qed

lemma publish_bytes_missing:
  assumes "n \<le> 8" "subscr_at sig s = Some l" "bytes_ok l" "length (qf_active s) = 64" "p \<in> bytes_elems l" "p \<le> 8 * n" "p < 64" "qf_active s ! p = None"
  shows "publish_bytes ret e sig n s = None"
  using assms
proof (induction n arbitrary: s)
  case 0
  then show ?case by (auto simp: bytes_elems_def)
next
  case (Suc n)
  obtain x where x: "l ! n = Some x" using bytes_okD [OF Suc.prems(3), of n] Suc.prems(1) by auto
  have "length l = 8" using Suc.prems(3) by (simp add: bytes_ok_def)
  then have rd: "rd l (int n) = Some x" using x Suc.prems(1) by (simp add: rd_def)
  show ?case
  proof (cases "p \<le> 8 * n")
    case True
    have "publish_bytes ret e sig n s1 = None" if "publish_byte ret e (of_nat n) x s = Some s1" for s1
    proof (rule Suc.IH)
      show "subscr_at sig s1 = Some l" using publish_byte_tables [OF that] unfolding Suc.prems(2) [symmetric] by (simp add: subscr_at_def)
    qed (use publish_byte_tables [OF that] Suc.prems True in simp_all)
    then show ?thesis using Suc.prems(2) rd by (auto split: bind_split)
  next
    case False
    define k where "k = p - 8 * n"
    have k: "p = 8 * n + k" "1 \<le> k" "k \<le> 8" using False Suc.prems(6) by (auto simp: k_def)
    have "k \<in> byte_set x" using Suc.prems(5) x block_index [OF k(2,3), of n] unfolding k(1) by (auto simp: bytes_elems_def byte_set_def k(2,3))
    from publish_byte_missing [OF _ Suc.prems(4) this] Suc.prems(1,7,8) k(1) have "publish_byte ret e (of_nat n) x s = None" by simp
    then show ?thesis using Suc.prems(2) rd by simp
  qed
qed

text \<open>
  The framework removes a stopped object from its table but not from the subscriptions: the next
  event it had subscribed to finds no object and fails.
\<close>

theorem publish_after_stop:
  assumes "qf_objs s a = Some me" "m_prio me = of_nat p" "1 \<le> p" "p \<le> 63" "length (qf_active s) = 64" "qf_active s ! p = Some a"
    and "4 \<le> sig" "int sig < qf_maxSignal s" "subscr_at (int sig) s = Some l" "bytes_ok l"
    and "QF_evts (qf_pools s) e = Some ev" "evt_sig ev = of_nat sig" "sig < 2 ^ 16"
  shows "\<exists>s1 s2. QActive_subscribe ret a (int sig) s = Some s1 \<and> QF_remove ret a s1 = Some s2 \<and> QF_publish ret e s2 = None"
proof -
  define i k where ik: "i = (p - 1) div 8" "k = (p - 1) mod 8"
  have idx: "i < 8" "k < 8" "8 * i + Suc k = p" "1 \<le> Suc k" "Suc k \<le> 8"
    using assms(3,4) div_mult_mod_eq [of "p - 1" 8] by (auto simp: ik less_eq_Suc_le [symmetric])
  have pu: "unat (of_nat p :: u8) = p" by (rule of_nat_small8) (use assms(4) in simp)
  have valid: "valid_prio (of_nat p)" using assms(3,4) pu by (simp add: valid_prio_def QF_MAX_ACTIVE_def word_less_nat_alt word_le_nat_alt)
  have act: "active_at (of_nat p) s = Some (Some a)" using assms(4-6) pu by (simp add: active_at_def)
  have look: "lookup QF_pwr2Lkup (of_nat p) = Some (2 ^ k)" "lookup QF_div8Lkup (of_nat p) = Some (of_nat i)"
    using lookup_powers(1,3) [of p] assms(3,4) by (simp_all add: ik)
  obtain x where x: "l ! i = Some x" using bytes_okD [OF assms(10) idx(1)] by blast
  let ?l = "l[i := Some (x OR 2 ^ k)]"
  have len: "length l = 8" using assms(10) by (simp add: bytes_ok_def)
  have ui: "uint (of_nat i :: u8) = int i" using lookup_byte(3) [OF idx(1)] .
  have rw: "rd l (int i) = Some x" "wr l (int i) y = Some (l[i := Some y])" for y
    using idx(1) len x by (simp_all add: rd_def wr_def)
  let ?s1 = "s\<lparr>qf_subscrList := (qf_subscrList s)[sig := ?l]\<rparr>"
  let ?s2 = "?s1\<lparr>qf_active := (qf_active s)[p := None]\<rparr>"
  have sub: "QActive_subscribe ret a (int sig) s = Some ?s1"
    using assms(1,2,7-9) valid act look rw by (simp add: QActive_subscribe_def change_subscr_def ui)
  have act1: "active_at (of_nat p) ?s1 = Some (Some a)" using assms(4-6) pu by (simp add: active_at_def)
  have rem: "QF_remove ret a ?s1 = Some ?s2"
    using assms(1,2) valid act1 by (simp add: QF_remove_def pu)
  have at: "subscr_at (int sig) ?s2 = Some ?l" using assms(9) by (auto simp: subscr_at_def split: if_splits)
  have ok: "bytes_ok ?l" "p \<in> bytes_elems ?l"
    using bytes_update(1) [OF assms(10) idx(1)] bytes_change(1) [OF assms(10) idx(1) x idx(4,5) byte_set_or [OF idx(2)]] idx(3) by simp_all
  have sig: "uint (evt_sig ev) = int sig"
    using assms(12,13) by (simp add: unsigned_of_nat take_bit_nat_eq_self)
  have "publish_bytes ret e (int sig) 8 s3 = None" if "qf_active s3 = qf_active ?s2" "qf_subscrList s3 = qf_subscrList ?s2" for s3
  proof (rule publish_bytes_missing [where l = ?l and p = p])
    show "subscr_at (int sig) s3 = Some ?l" unfolding at [symmetric] by (simp add: subscr_at_def that)
  qed (use that ok assms(4,5) in simp_all)
  then have "QF_publish ret e ?s2 = None"
    using assms(11) sig by (auto simp: QF_publish_def split: bind_split)
  with sub rem show ?thesis by blast
qed

text \<open>
  \<open>start\<close> marks the object as running after its thread was created. A thread that has got an event before
  that sees the mark of a stopped object after it and ends; its object is taken out of the table, while
  the mark is set.
\<close>

theorem start_race:
  assumes "qf_objs s a = Some me" "m_thread me = 0" "m_prio me = prio" "valid_prio prio" "length (qf_active s) = 64" "qf_active s ! unat prio = Some a"
    and "queue_ok (m_eQueue me)" "contents (m_eQueue me) = e # es"
    and "\<forall>me'. \<exists>s'. disp e (s\<lparr>qf_objs := (qf_objs s)(a \<mapsto> me')\<rparr>) = Some s' \<and> qf_objs s' a = Some me' \<and>
        qf_active s' = qf_active s \<and> QF_gc ret e (qf_pools s') \<noteq> None"
  shows "\<exists>me' s'. QF_thread ret disp a s = Some (True, s') \<and> qf_objs s' a = Some me' \<and> contents (m_eQueue me') = es \<and>
     qf_active s' ! unat prio = None"
proof -
  obtain q where q: "ring_get (m_eQueue me) = Some q" "m_frontEvt (m_eQueue me) = Some e" "contents q = es"
    using get_queue [OF assms(7,8)] by blast
  let ?me = "me\<lparr>m_eQueue := q\<rparr>"
  obtain s1 pools where s1: "disp e (s\<lparr>qf_objs := (qf_objs s)(a \<mapsto> ?me)\<rparr>) = Some s1" "qf_objs s1 a = Some ?me"
    "qf_active s1 = qf_active s" "QF_gc ret e (qf_pools s1) = Some pools"
    using assms(9) [rule_format, of ?me] by auto
  let ?s2 = "s1\<lparr>qf_pools := pools\<rparr>"
  have len: "unat prio < 64" using assms(4) by (simp add: valid_prio_def QF_MAX_ACTIVE_def word_le_nat_alt)
  then have "active_at prio ?s2 = Some (Some a)" using assms(5,6) s1(3) by (simp add: active_at_def)
  then have "QF_remove ret a ?s2 = Some (?s2\<lparr>qf_active := (qf_active s)[unat prio := None]\<rparr>)"
    using assms(3,4) s1(2,3) by (simp add: QF_remove_def)
  then have "QF_thread ret disp a s = Some (True, ?s2\<lparr>qf_active := (qf_active s)[unat prio := None]\<rparr>)"
    using assms(1,2) q s1 by (subst QF_thread.simps) (simp add: QActive_get_def)
  then show ?thesis using s1(2) q(3) len assms(5) by auto
qed

subsection \<open>Examples\<close>

text \<open>Two objects, of priorities 1 and 17, subscribed to signal 4; the event is the block of the example pool.\<close>

definition some_object :: "u8 \<Rightarrow> QActive" where
  "some_object p = \<lparr>m_eQueue = QEQueue_init (fresh 2) 2, m_osObject = 0, m_thread = 0, m_prio = p\<rparr>"

definition two_objects :: qf where
  "two_objects =
     \<lparr>qf_pools = one_event 0, qf_objs = [7 \<mapsto> some_object 1, 8 \<mapsto> some_object 17],
      qf_active = (replicate 64 None)[1 := Some 7, 17 := Some 8],
      qf_subscrList = replicate 4 (init (replicate 8 0)) @ [init [1, 0, 1, 0, 0, 0, 0, 0]], qf_maxSignal = 5\<rparr>"

lemma some_object_room: "queue_ok (m_eQueue (some_object p))" "contents (m_eQueue (some_object p)) = []" "capacity (m_eQueue (some_object p)) = 3"
  using init_ok [of "fresh 2" 2] by (simp_all add: some_object_def fresh_def)

lemma two_subscribers: "bytes_elems (init [1, 0, 1, 0, 0, 0, 0, 0]) = {1, 17}"
proof -
  have zero: "bytes_ok (init (replicate 8 0))" "bytes_elems (init (replicate 8 0)) = {}"
    by (auto simp: bytes_ok_def bytes_elems_def init_def)
  have one: "byte_set 1 = {1}" using byte_set_or [of 0 0] byte_set_empty_iff [of 0] by simp
  have "bytes_elems ((init (replicate 8 0))[0 := Some 1]) = {1}"
    using bytes_update(2) [OF zero(1), of 0 1] by (simp add: zero(2) one)
  moreover have "bytes_ok ((init (replicate 8 0))[0 := Some 1])" using bytes_update(1) [OF zero(1)] by simp
  ultimately have "bytes_elems ((init (replicate 8 0))[0 := Some 1, 2 := Some 1]) = {1, 17}"
    using bytes_update(2) [of "(init (replicate 8 0))[0 := Some 1]" 2 1] by (auto simp: one)
  then show ?thesis by (simp add: init_def numeral_eq_Suc)
qed

theorem publish_delivers_witness:
  "\<exists>s' me. QF_publish False 0 two_objects = Some s' \<and> qf_objs s' 8 = Some me \<and> contents (m_eQueue me) = [0] \<and>
     QF_evts (qf_pools s') 0 = Some \<lparr>evt_sig = 4, poolId = 1, refCtr = 2\<rparr>"
proof -
  let ?l = "init [1, 0, 1, 0, 0, 0, 0, 0] :: u8 cbuf" and ?f = "\<lambda>p :: nat. if p = 1 then 7 else 8 :: nat"
  have "pool_event 1 0 0 [] (qf_pools two_objects)" using one_pool_event by (simp add: two_objects_def)
  moreover have "QF_evts (qf_pools two_objects) 0 = Some \<lparr>evt_sig = 4, poolId = 1, refCtr = 0\<rparr>" by (simp add: two_objects_def one_event_def)
  moreover have "subscr_at (uint (4 :: u16)) two_objects = Some ?l" "bytes_ok ?l"
    by (simp_all add: subscr_at_def two_objects_def nth_append bytes_ok_def init_def)
  moreover have "owns two_objects ?f {1, 17}" "inj_on ?f {1, 17}" by (simp_all add: owns_def two_objects_def)
  moreover have "\<forall>p \<in> {1, 17}. has_room two_objects (?f p)" using some_object_room by (simp add: has_room_def two_objects_def)
  ultimately show ?thesis
    using publish_delivers [of 1 0 0 "[]" two_objects "\<lparr>evt_sig = 4, poolId = 1, refCtr = 0\<rparr>" ?l "{1, 17}" ?f False] two_subscribers some_object_room
    by (auto simp: two_objects_def posted_to_def)
qed

theorem publish_after_stop_witness:
  "\<exists>s1 s2. QActive_subscribe True 7 4 two_objects = Some s1 \<and> QF_remove True 7 s1 = Some s2 \<and> QF_publish True 0 s2 = None"
proof -
  have "subscr_at (int 4) two_objects = Some (init [1, 0, 1, 0, 0, 0, 0, 0])" "bytes_ok (init [1, 0, 1, 0, 0, 0, 0, 0])"
    by (simp_all add: subscr_at_def two_objects_def nth_append bytes_ok_def init_def)
  from publish_after_stop [of two_objects 7 "some_object 1" 1 4, OF _ _ _ _ _ _ _ _ this, of 0 "\<lparr>evt_sig = 4, poolId = 1, refCtr = 0\<rparr>" True]
  show ?thesis by (simp add: two_objects_def some_object_def one_event_def)
qed

definition posted_object :: QActive where
  "posted_object = (some_object 1)\<lparr>m_eQueue := (QEQueue_init (fresh 2) 2)\<lparr>m_frontEvt := Some 0\<rparr>\<rparr>"

theorem start_race_witness:
  "\<exists>s'. QF_thread False (\<lambda>e s. Some s) 7 (two_objects\<lparr>qf_objs := [7 \<mapsto> posted_object]\<rparr>) = Some (True, s') \<and> qf_active s' ! 1 = None"
proof -
  have "queue_ok (QEQueue_init (fresh 2) 2)" "m_frontEvt (QEQueue_init (fresh 2) 2) = None"
    using init_ok [of "fresh 2" 2] by (simp add: fresh_def, simp add: QEQueue_init_def)
  note front = front_only [OF this]
  have ok: "queue_ok (m_eQueue posted_object)" "contents (m_eQueue posted_object) = [0]"
    by (simp_all add: posted_object_def queue_ok_front contents_front front)
  have gc: "QF_gc False 0 (one_event 0) \<noteq> None"
  proof -
    have "QF_evts (one_event 0) 0 = Some \<lparr>evt_sig = 4, poolId = 1, refCtr = 0\<rparr>" by (simp add: one_event_def)
    from gc_last [OF one_pool_event this, of False] show ?thesis by auto
  qed
  have "valid_prio 1" by (simp add: valid_prio_def QF_MAX_ACTIVE_def)
  then show ?thesis
    using start_race [of "two_objects\<lparr>qf_objs := [7 \<mapsto> posted_object]\<rparr>" 7 posted_object 1 0 "[]" "\<lambda>e s. Some s" False] ok gc
    by (auto simp: two_objects_def posted_object_def some_object_def)
qed

end
