(* ===== verification/Time_Events.thy ===== *)
theory Time_Events
  imports Event_Queue Linked_List
begin

text \<open>
  Time events, \<open>library/qpcpp/qf/source/qte_*.cpp\<close> and \<open>qf_tick.cpp\<close> with class \<open>QTimeEvt\<close> of \<open>include/qf.h\<close>: armed
  events are linked in a list that every clock tick walks through. An event that is disarmed stays in the
  list until the next tick; its reference counter tells that it is linked. The tick frees the critical
  section while it posts an event: what other threads do to the list meanwhile is a parameter. The code
  between entering a critical section and leaving it is one step, and a post appends the event and its
  receiver to a log; what it does to the receiver's queue is in \<open>Event_Queue\<close>.
\<close>

section \<open>Time events\<close>

record QTimeEvt = QEvt +
  te_next :: "nat option"
  te_act :: "nat option"
  te_ctr :: u32
  te_interval :: u32

text \<open>The events by their addresses, the head of the list, and what has been posted: events and active objects.\<close>

record time_evts =
  tevts :: "nat \<Rightarrow> QTimeEvt option"
  timeEvtListHead :: "nat option"
  posted :: "(nat \<times> nat) list"

definition Q_USER_SIG :: int where [simp]: "Q_USER_SIG = 4"

definition new_QTimeEvt :: "bool \<Rightarrow> int \<Rightarrow> QTimeEvt option" where
  "new_QTimeEvt ret s =
     do { Q_ASSERT ret (Q_USER_SIG \<le> s);
          Some \<lparr>evt_sig = word_of_int s, poolId = 0, refCtr = 0, te_next = None, te_act = None, te_ctr = 0, te_interval = 0\<rparr> }"

definition set_tevt :: "nat \<Rightarrow> (QTimeEvt \<Rightarrow> QTimeEvt) \<Rightarrow> time_evts \<Rightarrow> time_evts option" where
  "set_tevt t f st = do { e \<leftarrow> tevts st t; Some (st\<lparr>tevts := (tevts st)(t \<mapsto> f e)\<rparr>) }"

definition noTimeEvtsActive :: "time_evts \<Rightarrow> bool" where
  "noTimeEvtsActive st \<longleftrightarrow> timeEvtListHead st = None"

definition link_tevt :: "nat \<Rightarrow> time_evts \<Rightarrow> time_evts option" where
  "link_tevt t st =
     do { st \<leftarrow> set_tevt t (\<lambda>e. e\<lparr>te_next := timeEvtListHead st, refCtr := refCtr e + 1\<rparr>) st;
          Some (st\<lparr>timeEvtListHead := Some t\<rparr>) }"

definition arm :: "bool \<Rightarrow> nat \<Rightarrow> nat option \<Rightarrow> u32 \<Rightarrow> time_evts \<Rightarrow> time_evts option" where
  "arm ret t act nTicks st =
     do { e \<leftarrow> tevts st t;
          Q_ASSERT ret (nTicks > 0 \<and> act \<noteq> None \<and> te_ctr e = 0 \<and> uint (evt_sig e) \<ge> Q_USER_SIG);
          st \<leftarrow> set_tevt t (\<lambda>e. e\<lparr>te_ctr := nTicks, te_act := act\<rparr>) st;
          if refCtr e = 0 then link_tevt t st else Some st }"

definition postIn :: "bool \<Rightarrow> nat \<Rightarrow> nat option \<Rightarrow> u32 \<Rightarrow> time_evts \<Rightarrow> time_evts option" where
  "postIn ret t act nTicks st = do { st \<leftarrow> set_tevt t (\<lambda>e. e\<lparr>te_interval := 0\<rparr>) st; arm ret t act nTicks st }"

definition postEvery :: "bool \<Rightarrow> nat \<Rightarrow> nat option \<Rightarrow> u32 \<Rightarrow> time_evts \<Rightarrow> time_evts option" where
  "postEvery ret t act nTicks st = do { st \<leftarrow> set_tevt t (\<lambda>e. e\<lparr>te_interval := nTicks\<rparr>) st; arm ret t act nTicks st }"

definition disarm :: "nat \<Rightarrow> time_evts \<Rightarrow> (bool \<times> time_evts) option" where
  "disarm t st =
     do { e \<leftarrow> tevts st t;
          if te_ctr e \<noteq> 0 then do { st \<leftarrow> set_tevt t (\<lambda>e. e\<lparr>te_ctr := 0\<rparr>) st; Some (True, st) }
          else Some (False, st) }"

definition rearm :: "bool \<Rightarrow> nat \<Rightarrow> u32 \<Rightarrow> time_evts \<Rightarrow> (bool \<times> time_evts) option" where
  "rearm ret t nTicks st =
     do { e \<leftarrow> tevts st t;
          Q_ASSERT ret (nTicks > 0 \<and> te_act e \<noteq> None \<and> uint (evt_sig e) \<ge> Q_USER_SIG);
          st \<leftarrow> (if te_ctr e = 0 then
                   if timeEvtListHead st \<noteq> None then link_tevt t st
                   else set_tevt t (\<lambda>e. e\<lparr>te_next := timeEvtListHead st\<rparr>) st
                 else Some st);
          st \<leftarrow> set_tevt t (\<lambda>e. e\<lparr>te_ctr := nTicks\<rparr>) st;
          Some (te_ctr e \<noteq> 0, st) }"

definition ctr :: "nat \<Rightarrow> time_evts \<Rightarrow> u32 option" where
  "ctr t st = map_option te_ctr (tevts st t)"

section \<open>The clock tick\<close>

definition unlink :: "bool \<Rightarrow> nat option \<Rightarrow> nat \<Rightarrow> time_evts \<Rightarrow> time_evts option" where
  "unlink ret prev t st =
     do { e \<leftarrow> tevts st t;
          st \<leftarrow> (if timeEvtListHead st = Some t then Some (st\<lparr>timeEvtListHead := te_next e\<rparr>)
                 else do { Q_ASSERT ret (prev \<noteq> None); p \<leftarrow> prev; set_tevt p (\<lambda>p. p\<lparr>te_next := te_next e\<rparr>) st });
          set_tevt t (\<lambda>e. e\<lparr>refCtr := refCtr e - 1\<rparr>) st }"

text \<open>One event of the list; \<open>others\<close> runs while the critical section is free. The result has the new \<open>prev\<close>.\<close>

definition tick_event ::
  "bool \<Rightarrow> (time_evts \<Rightarrow> time_evts option) \<Rightarrow> nat option \<Rightarrow> nat \<Rightarrow> time_evts \<Rightarrow> (nat option \<times> time_evts) option" where
  "tick_event ret others prev t st =
     do { e \<leftarrow> tevts st t;
          if te_ctr e = 0 then do { st \<leftarrow> unlink ret prev t st; Some (prev, st) }
          else do {
            st \<leftarrow> set_tevt t (\<lambda>e. e\<lparr>te_ctr := te_ctr e - 1\<rparr>) st;
            if te_ctr e - 1 = 0 then do {
              st \<leftarrow> (if te_interval e \<noteq> 0 then set_tevt t (\<lambda>e. e\<lparr>te_ctr := te_interval e\<rparr>) st else Some st);
              a \<leftarrow> te_act e;
              st \<leftarrow> others (st\<lparr>posted := posted st @ [(t, a)]\<rparr>);
              e \<leftarrow> tevts st t;
              if te_ctr e = 0 then do { st \<leftarrow> unlink ret prev t st; Some (prev, st) }
              else Some (Some t, st) }
            else Some (Some t, st) } }"

partial_function (option) tick_from ::
  "bool \<Rightarrow> (time_evts \<Rightarrow> time_evts option) \<Rightarrow> nat option \<Rightarrow> nat option \<Rightarrow> time_evts \<Rightarrow> time_evts option" where
  "tick_from ret others prev t st =
     (case t of
        None \<Rightarrow> Some st
      | Some t \<Rightarrow> do { (prev, st) \<leftarrow> tick_event ret others prev t st; e \<leftarrow> tevts st t; tick_from ret others prev (te_next e) st })"

definition QF_tick :: "bool \<Rightarrow> (time_evts \<Rightarrow> time_evts option) \<Rightarrow> time_evts \<Rightarrow> time_evts option" where
  "QF_tick ret others st = tick_from ret others None (timeEvtListHead st) st"

text \<open>Ticks during which no other thread touches the events.\<close>

fun quiet_ticks :: "bool \<Rightarrow> nat \<Rightarrow> time_evts \<Rightarrow> time_evts option" where
  "quiet_ticks ret 0 st = Some st"
| "quiet_ticks ret (Suc k) st = do { st \<leftarrow> QF_tick ret Some st; quiet_ticks ret k st }"

section \<open>The list\<close>

definition nexts :: "time_evts \<Rightarrow> nat \<Rightarrow> nat option option" where
  "nexts st x = map_option te_next (tevts st x)"

definition links :: "time_evts \<Rightarrow> nat \<Rightarrow> u8 option" where
  "links st x = map_option refCtr (tevts st x)"

text \<open>What a time event means: its counter, interval and active object.\<close>

definition timer :: "time_evts \<Rightarrow> nat \<Rightarrow> (u32 \<times> u32 \<times> nat option) option" where
  "timer st x = map_option (\<lambda>e. (te_ctr e, te_interval e, te_act e)) (tevts st x)"

definition linked :: "time_evts \<Rightarrow> nat list \<Rightarrow> bool" where
  "linked st xs \<longleftrightarrow>
     seg (nexts st) (timeEvtListHead st) xs None \<and> distinct xs \<and>
     (\<forall>x r. links st x = Some r \<longrightarrow> r = of_bool (x \<in> set xs)) \<and>
     (\<forall>x c i a. timer st x = Some (c, i, a) \<longrightarrow> (c \<noteq> 0 \<longrightarrow> x \<in> set xs) \<and> (x \<in> set xs \<longrightarrow> a \<noteq> None))"

section \<open>A quiet tick\<close>

definition tick_ctr :: "u32 \<Rightarrow> u32 \<Rightarrow> u32" where
  "tick_ctr c i = (if c = 0 then 0 else if c = 1 then i else c - 1)"

definition tick_timer :: "u32 \<times> u32 \<times> nat option \<Rightarrow> u32 \<times> u32 \<times> nat option" where
  "tick_timer x = (case x of (c, i, a) \<Rightarrow> (tick_ctr c i, i, a))"

definition alive :: "time_evts \<Rightarrow> nat \<Rightarrow> bool" where
  "alive st x \<longleftrightarrow> (case timer st x of None \<Rightarrow> False | Some (c, i, a) \<Rightarrow> tick_ctr c i \<noteq> 0)"

definition due :: "time_evts \<Rightarrow> nat \<Rightarrow> (nat \<times> nat) list" where
  "due st x = (case timer st x of Some (c, i, Some a) \<Rightarrow> (if c = 1 then [(x, a)] else []) | _ \<Rightarrow> [])"

lemma tick_event_quiet:
  assumes "tevts st t = Some e" "te_act e = Some a"
  defines "c \<equiv> tick_ctr (te_ctr e) (te_interval e)"
  defines "st1 \<equiv> st\<lparr>tevts := (tevts st)(t \<mapsto> e\<lparr>te_ctr := c\<rparr>), posted := posted st @ (if te_ctr e = 1 then [(t, a)] else [])\<rparr>"
  shows "tick_event ret Some prev t st = (if c = 0 then do { st \<leftarrow> unlink ret prev t st1; Some (prev, st) } else Some (Some t, st1))"
proof (cases "te_ctr e = 0")
  case True
  then have "c = 0" by (simp add: c_def tick_ctr_def)
  moreover have "e\<lparr>te_ctr := 0\<rparr> = e" using True by (cases e) simp
  ultimately have "st1 = st" using True assms(1) by (simp add: st1_def fun_upd_idem)
  then show ?thesis using True assms(1) \<open>c = 0\<close> by (simp add: tick_event_def)
next
  case False
  then show ?thesis
    using assms(1,2) by (auto simp: tick_event_def set_tevt_def c_def st1_def tick_ctr_def)
qed

lemma seg_node:
  assumes "seg (nexts st) p (ks @ x # xs) q"
  shows "\<exists>e. tevts st x = Some e \<and> seg (nexts st) p ks (Some x) \<and> seg (nexts st) (te_next e) xs q"
proof -
  have "nexts st x = Some y \<Longrightarrow> \<exists>e. tevts st x = Some e \<and> te_next e = y" for y by (auto simp: nexts_def)
  then show ?thesis using assms by (fastforce simp: seg_append)
qed

lemma timer_Some: "tevts st x = Some e \<Longrightarrow> timer st x = Some (te_ctr e, te_interval e, te_act e)"
  by (simp add: timer_def)

text \<open>Removing an event redirects the link that led to it.\<close>

lemma unlink_list:
  assumes "seg (nexts st) (timeEvtListHead st) (ks @ x # xs) None" "distinct (ks @ x # xs)"
    and "prev = (if ks = [] then None else Some (last ks))"
  shows "\<exists>st'. unlink ret prev x st = Some st' \<and> seg (nexts st') (timeEvtListHead st') (ks @ xs) None \<and>
     nexts st' x = nexts st x \<and> posted st' = posted st \<and> timer st' = timer st \<and>
     links st' = (links st)(x := map_option (\<lambda>r. r - 1) (links st x))"
proof -
  obtain e where e: "tevts st x = Some e" and tl: "seg (nexts st) (te_next e) xs None"
    using seg_node [OF assms(1)] by blast
  show ?thesis
  proof (cases ks rule: rev_cases)
    case Nil
    then have "timeEvtListHead st = Some x" using assms(1) by simp
    moreover have "x \<notin> set xs" using assms(2) by simp
    moreover have "nexts (st\<lparr>timeEvtListHead := te_next e, tevts := (tevts st)(x \<mapsto> e\<lparr>refCtr := refCtr e - 1\<rparr>)\<rparr>) = nexts st"
      using e by (auto simp: nexts_def)
    ultimately show ?thesis
      using e tl Nil assms(3)
      by (auto simp: unlink_def set_tevt_def nexts_def timer_def links_def)
  next
    case (snoc ks' k)
    obtain ek where ek: "tevts st k = Some ek" and hd: "seg (nexts st) (timeEvtListHead st) (ks' @ [k]) (Some x)"
      using seg_node [of st "timeEvtListHead st" ks' k "x # xs" None] seg_node [OF assms(1)] assms(1) snoc by auto
    have ne: "timeEvtListHead st \<noteq> Some x" "k \<noteq> x" "k \<notin> set ks'" "x \<notin> set xs" "k \<notin> set xs"
      using assms(1,2) snoc by (cases ks'; auto)+
    let ?st = "st\<lparr>tevts := (tevts st)(k \<mapsto> ek\<lparr>te_next := te_next e\<rparr>, x \<mapsto> e\<lparr>refCtr := refCtr e - 1\<rparr>)\<rparr>"
    have nx: "nexts ?st = (nexts st)(k \<mapsto> te_next e)" using e ne by (auto simp: nexts_def)
    have "seg (nexts ?st) (timeEvtListHead ?st) (ks' @ [k]) (te_next e)"
      unfolding nx using seg_redirect [OF hd ne(3)] by simp
    moreover have "seg (nexts ?st) (te_next e) xs None" unfolding nx using tl ne(5) by simp
    ultimately have "seg (nexts ?st) (timeEvtListHead ?st) (ks @ xs) None" using snoc by (auto simp: seg_append)
    moreover have "unlink ret prev x st = Some ?st"
      using e ek ne snoc assms(3) by (simp add: unlink_def set_tevt_def)
    moreover have "nexts ?st x = nexts st x" "timer ?st = timer st"
      "links ?st = (links st)(x := map_option (\<lambda>r. r - 1) (links st x))"
      using e ek ne(2) unfolding nx by (auto simp: timer_def links_def)
    ultimately show ?thesis by (intro exI [of _ ?st]) simp
  qed
qed

lemma walk:
  assumes "seg (nexts st) (timeEvtListHead st) (ks @ xs) None" "distinct (ks @ xs)"
    and "prev = (if ks = [] then None else Some (last ks))"
    and "\<And>x. x \<in> set xs \<Longrightarrow> \<exists>c i a. timer st x = Some (c, i, Some a)"
  shows "\<exists>st'. tick_from ret Some prev (case xs of [] \<Rightarrow> None | x # _ \<Rightarrow> Some x) st = Some st' \<and>
     seg (nexts st') (timeEvtListHead st') (ks @ filter (alive st) xs) None \<and>
     posted st' = posted st @ concat (map (due st) xs) \<and>
     (\<forall>x. timer st' x = (if x \<in> set xs then map_option tick_timer (timer st x) else timer st x)) \<and>
     (\<forall>x. links st' x = (if x \<in> set xs \<and> \<not> alive st x then map_option (\<lambda>r. r - 1) (links st x) else links st x))"
  using assms
proof (induction xs arbitrary: ks prev st)
  case Nil
  then show ?case by (subst tick_from.simps) simp
next
  case (Cons x xs)
  obtain e where e: "tevts st x = Some e" and tl: "seg (nexts st) (te_next e) xs None"
    using seg_node [OF Cons.prems(1)] by blast
  obtain a where a: "te_act e = Some a" using Cons.prems(4) [of x] e by (auto simp: timer_def)
  let ?c = "tick_ctr (te_ctr e) (te_interval e)"
  define st1 where "st1 = st\<lparr>tevts := (tevts st)(x \<mapsto> e\<lparr>te_ctr := ?c\<rparr>), posted := posted st @ (if te_ctr e = 1 then [(x, a)] else [])\<rparr>"
  note step = tick_event_quiet [OF e a, of ret prev, folded st1_def]
  have s: "nexts st1 = nexts st" "links st1 = links st" "timer st1 = (timer st)(x \<mapsto> tick_timer (te_ctr e, te_interval e, te_act e))"
    "timeEvtListHead st1 = timeEvtListHead st"
    using e by (auto simp: st1_def nexts_def links_def timer_def tick_timer_def)
  have at: "tevts st1 x = Some (e\<lparr>te_ctr := ?c\<rparr>)" by (simp add: st1_def)
  have nx: "x \<notin> set xs" "x \<notin> set ks" using Cons.prems(2) by auto
  have post: "posted st1 = posted st @ due st x" using a by (simp add: st1_def due_def timer_Some [OF e])
  have live: "alive st x \<longleftrightarrow> ?c \<noteq> 0" by (simp add: alive_def timer_Some [OF e])
  have others: "alive st' y = alive st y" "due st' y = due st y" if "y \<in> set xs" "timer st' = timer st1" for st' y
    using nx(1) that by (auto simp: alive_def due_def s(3))
  have known: "\<exists>c i a. timer st' y = Some (c, i, Some a)" if "y \<in> set xs" "timer st' = timer st1" for st' y
    using Cons.prems(4) [of y] nx(1) that by (auto simp: s(3))
  have first: "te_next e = (case xs of [] \<Rightarrow> None | x # _ \<Rightarrow> Some x)" using seg_head [OF tl] .
  show ?case
  proof (cases "?c = 0")
    case False
    have "\<exists>st'. tick_from ret Some (Some x) (case xs of [] \<Rightarrow> None | x # _ \<Rightarrow> Some x) st1 = Some st' \<and>
       seg (nexts st') (timeEvtListHead st') ((ks @ [x]) @ filter (alive st1) xs) None \<and>
       posted st' = posted st1 @ concat (map (due st1) xs) \<and>
       (\<forall>y. timer st' y = (if y \<in> set xs then map_option tick_timer (timer st1 y) else timer st1 y)) \<and>
       (\<forall>y. links st' y = (if y \<in> set xs \<and> \<not> alive st1 y then map_option (\<lambda>r. r - 1) (links st1 y) else links st1 y))"
      by (rule Cons.IH) (use Cons.prems(1-3) s(1,4) known in auto)
    then obtain st' where st': "tick_from ret Some (Some x) (te_next e) st1 = Some st'"
      "seg (nexts st') (timeEvtListHead st') ((ks @ [x]) @ filter (alive st1) xs) None"
      "posted st' = posted st1 @ concat (map (due st1) xs)"
      "\<And>y. timer st' y = (if y \<in> set xs then map_option tick_timer (timer st1 y) else timer st1 y)"
      "\<And>y. links st' y = (if y \<in> set xs \<and> \<not> alive st1 y then map_option (\<lambda>r. r - 1) (links st1 y) else links st1 y)"
      unfolding first by blast
    have "tick_from ret Some prev (Some x) st = Some st'"
      using step False st'(1) at by (subst tick_from.simps) simp
    moreover have "filter (alive st1) xs = filter (alive st) xs" "concat (map (due st1) xs) = concat (map (due st) xs)"
      using others by (auto intro!: filter_cong arg_cong [of _ _ concat])
    moreover have "timer st' y = (if y \<in> set (x # xs) then map_option tick_timer (timer st y) else timer st y)" for y
      using st'(4) [of y] nx(1) by (auto simp: s(3) timer_Some [OF e])
    moreover have "links st' y = (if y \<in> set (x # xs) \<and> \<not> alive st y then map_option (\<lambda>r. r - 1) (links st y) else links st y)" for y
      using st'(5) [of y] nx(1) live False others(1) [of y st1] by (auto simp: s(2))
    ultimately show ?thesis
      using st'(2,3) live False post by (intro exI [of _ st']) simp
  next
    case True
    obtain st2 where u: "unlink ret prev x st1 = Some st2" "seg (nexts st2) (timeEvtListHead st2) (ks @ xs) None"
      "nexts st2 x = nexts st1 x" "posted st2 = posted st1" "timer st2 = timer st1"
      "links st2 = (links st1)(x := map_option (\<lambda>r. r - 1) (links st1 x))"
      using unlink_list [of st1 ks x xs prev ret] Cons.prems(1-3) s(1,4) by auto
    obtain e2 where e2: "tevts st2 x = Some e2" "te_next e2 = te_next e" using u(3) s(1) e by (auto simp: nexts_def)
    have "\<exists>st'. tick_from ret Some prev (case xs of [] \<Rightarrow> None | x # _ \<Rightarrow> Some x) st2 = Some st' \<and>
       seg (nexts st') (timeEvtListHead st') (ks @ filter (alive st2) xs) None \<and>
       posted st' = posted st2 @ concat (map (due st2) xs) \<and>
       (\<forall>y. timer st' y = (if y \<in> set xs then map_option tick_timer (timer st2 y) else timer st2 y)) \<and>
       (\<forall>y. links st' y = (if y \<in> set xs \<and> \<not> alive st2 y then map_option (\<lambda>r. r - 1) (links st2 y) else links st2 y))"
      by (rule Cons.IH) (use Cons.prems(2,3) u(2,5) known in auto)
    then obtain st' where st': "tick_from ret Some prev (te_next e) st2 = Some st'"
      "seg (nexts st') (timeEvtListHead st') (ks @ filter (alive st2) xs) None"
      "posted st' = posted st2 @ concat (map (due st2) xs)"
      "\<And>y. timer st' y = (if y \<in> set xs then map_option tick_timer (timer st2 y) else timer st2 y)"
      "\<And>y. links st' y = (if y \<in> set xs \<and> \<not> alive st2 y then map_option (\<lambda>r. r - 1) (links st2 y) else links st2 y)"
      unfolding first by blast
    have "tick_from ret Some prev (Some x) st = Some st'"
      using step True u(1) e2 st'(1) by (subst tick_from.simps) simp
    moreover have "filter (alive st2) xs = filter (alive st) xs" "concat (map (due st2) xs) = concat (map (due st) xs)"
      using others u(5) by (auto intro!: filter_cong arg_cong [of _ _ concat])
    moreover have "timer st' y = (if y \<in> set (x # xs) then map_option tick_timer (timer st y) else timer st y)" for y
      using st'(4) [of y] nx(1) by (auto simp: u(5) s(3) timer_Some [OF e])
    moreover have "links st' y = (if y \<in> set (x # xs) \<and> \<not> alive st y then map_option (\<lambda>r. r - 1) (links st y) else links st y)" for y
      using st'(5) [of y] nx(1) live True others(1) [of y st2] by (auto simp: u(5,6) s(2))
    ultimately show ?thesis
      using st'(2,3) live True post u(4) by (intro exI [of _ st']) simp
  qed
qed

text \<open>A quiet tick counts every timer down, posts the events that are due in the order of the list, and unlinks the others.\<close>

lemma tick_linked:
  assumes "linked st xs"
  shows "\<exists>st'. QF_tick ret Some st = Some st' \<and> linked st' (filter (alive st) xs) \<and>
     posted st' = posted st @ concat (map (due st) xs) \<and> (\<forall>x. timer st' x = map_option tick_timer (timer st x))"
proof -
  have l: "seg (nexts st) (timeEvtListHead st) xs None" "distinct xs" "\<And>x r. links st x = Some r \<Longrightarrow> r = of_bool (x \<in> set xs)"
    "\<And>x c i a. timer st x = Some (c, i, a) \<Longrightarrow> (c \<noteq> 0 \<longrightarrow> x \<in> set xs) \<and> (x \<in> set xs \<longrightarrow> a \<noteq> None)"
    using assms by (auto simp: linked_def)
  have known: "\<exists>c i a. timer st x = Some (c, i, Some a)" if "x \<in> set xs" for x
  proof -
    obtain ys zs where "xs = ys @ x # zs" using split_list \<open>x \<in> set xs\<close> by metis
    then obtain e where "tevts st x = Some e" using seg_node l(1) by blast
    then show ?thesis using l(4) [of x] that by (auto simp: timer_def)
  qed
  from walk [of st "[]" xs None ret] l(1,2) known seg_head [OF l(1)] obtain st' where
    st': "QF_tick ret Some st = Some st'" "seg (nexts st') (timeEvtListHead st') (filter (alive st) xs) None"
    "posted st' = posted st @ concat (map (due st) xs)"
    "\<And>x. timer st' x = (if x \<in> set xs then map_option tick_timer (timer st x) else timer st x)"
    "\<And>x. links st' x = (if x \<in> set xs \<and> \<not> alive st x then map_option (\<lambda>r. r - 1) (links st x) else links st x)"
    by (auto simp: QF_tick_def)
  have tm: "timer st' x = map_option tick_timer (timer st x)" for x
  proof (cases "x \<in> set xs")
    case False
    then show ?thesis using st'(4) [of x] l(4) [of x] by (cases "timer st x") (auto simp: tick_timer_def tick_ctr_def)
  qed (use st'(4) in simp)
  have "linked st' (filter (alive st) xs)"
    unfolding linked_def
  proof (intro conjI allI impI)
    show "seg (nexts st') (timeEvtListHead st') (filter (alive st) xs) None" "distinct (filter (alive st) xs)"
      using st'(2) l(2) by simp_all
  next
    fix x r
    assume "links st' x = Some r"
    then show "r = of_bool (x \<in> set (filter (alive st) xs))"
      using st'(5) [of x] l(3) [of x] by (auto split: if_splits)
  next
    fix x c i a
    assume t: "timer st' x = Some (c, i, a)"
    then obtain c0 where t0: "timer st x = Some (c0, i, a)" "c = tick_ctr c0 i" using tm [of x] by (auto simp: tick_timer_def)
    show "x \<in> set (filter (alive st) xs)" if "c \<noteq> 0"
      using that t0 l(4) [OF t0(1)] by (auto simp: alive_def tick_ctr_def split: if_splits)
    show "a \<noteq> None" if "x \<in> set (filter (alive st) xs)" using that l(4) [OF t0(1)] by simp
  qed
  with st'(1,3) tm show ?thesis by blast
qed

section \<open>When an event fires\<close>

fun fires :: "nat \<Rightarrow> u32 \<Rightarrow> u32 \<Rightarrow> nat" where
  "fires 0 c i = 0"
| "fires (Suc k) c i = of_bool (c = 1) + fires k (tick_ctr c i) i"

lemma count_due:
  assumes "distinct xs" "timer st x = Some (c, i, Some a)" "c \<noteq> 0 \<Longrightarrow> x \<in> set xs"
  shows "count_list (concat (map (due st) xs)) (x, a) = of_bool (c = 1)"
proof -
  have other: "count_list (due st y) (x, a) = 0" if "y \<noteq> x" for y
    using that by (auto simp: due_def split: option.split prod.split)
  have none: "x \<notin> set ys \<Longrightarrow> count_list (concat (map (due st) ys)) (x, a) = 0" for ys
    by (induction ys) (auto simp: other)
  have self: "count_list (due st x) (x, a) = of_bool (c = 1)" by (simp add: due_def assms(2))
  show ?thesis
  proof (cases "x \<in> set xs")
    case True
    then obtain ys zs where "xs = ys @ x # zs" by (meson split_list)
    with assms(1) none [of ys] none [of zs] self show ?thesis by simp
  next
    case False
    with none [OF False] assms(3) show ?thesis by auto
  qed
qed

lemma ticks_count:
  assumes "linked st xs" "timer st x = Some (c, i, Some a)"
  shows "\<exists>st' ys. quiet_ticks ret k st = Some st' \<and> linked st' ys \<and>
     count_list (posted st') (x, a) = count_list (posted st) (x, a) + fires k c i"
  using assms
proof (induction k arbitrary: st xs c)
  case (Suc k)
  obtain st1 where t: "QF_tick ret Some st = Some st1" "linked st1 (filter (alive st) xs)"
    "posted st1 = posted st @ concat (map (due st) xs)" "\<And>x. timer st1 x = map_option tick_timer (timer st x)"
    using tick_linked [OF Suc.prems(1), of ret] by blast
  have "timer st1 x = Some (tick_ctr c i, i, Some a)" using t(4) Suc.prems(2) by (simp add: tick_timer_def)
  from Suc.IH [OF t(2) this] obtain st' ys where s: "quiet_ticks ret k st1 = Some st'" "linked st' ys"
    "count_list (posted st') (x, a) = count_list (posted st1) (x, a) + fires k (tick_ctr c i) i" by blast
  have "count_list (concat (map (due st) xs)) (x, a) = of_bool (c = 1)"
    using Suc.prems by (intro count_due) (auto simp: linked_def)
  with s t(1,3) show ?case by (intro exI [of _ st'] exI [of _ ys]) simp
qed auto

lemma fires_once: "fires k c 0 = of_bool (c \<noteq> 0 \<and> unat c \<le> k)"
proof (induction k arbitrary: c)
  case 0
  then show ?case by (simp add: unat_eq_0)
next
  case (Suc k)
  have "unat (c - 1) = unat c - 1" "c - 1 \<noteq> 0" if "c \<noteq> 0" "c \<noteq> 1" using that by (simp_all add: unat_minus_one)
  moreover have "0 < unat c" if "c \<noteq> 0" using that by (simp add: unat_gt_0)
  ultimately show ?case by (auto simp: Suc tick_ctr_def)
qed

lemma fires_every:
  assumes "c \<noteq> 0" "i \<noteq> 0"
  shows "fires k c i = (if k < unat c then 0 else Suc ((k - unat c) div unat i))"
  using assms(1)
proof (induction k arbitrary: c)
  case 0
  then show ?case by (simp add: unat_gt_0)
next
  case (Suc k)
  have pos: "0 < unat c" "0 < unat i" using Suc.prems assms(2) by (simp_all add: unat_gt_0)
  show ?case
  proof (cases "c = 1")
    case True
    have "(Suc k - 1) div unat i = (if k < unat i then 0 else Suc ((k - unat i) div unat i))"
      using pos(2) by (simp add: le_div_geq)
    then show ?thesis using Suc.IH [OF assms(2)] True by (simp add: tick_ctr_def)
  next
    case False
    then have c: "c - 1 \<noteq> 0" "unat (c - 1) = unat c - 1" using Suc.prems by (simp_all add: unat_minus_one)
    from c(2) pos(1) have e: "Suc k - unat c = k - unat (c - 1)" "Suc k < unat c \<longleftrightarrow> k < unat (c - 1)" by linarith+
    have "fires (Suc k) c i = fires k (c - 1) i" using Suc.prems False by (simp add: tick_ctr_def)
    then show ?thesis unfolding e Suc.IH [OF c(1)] .
  qed
qed

section \<open>Arming\<close>

lemma arm_linked:
  assumes "linked st xs" "tevts st x = Some e" "te_ctr e = 0" "Q_USER_SIG \<le> uint (evt_sig e)" "n \<noteq> 0"
  shows "\<exists>st' ys. arm ret x (Some a) n st = Some st' \<and> linked st' ys \<and>
     timer st' = (timer st)(x \<mapsto> (n, te_interval e, Some a)) \<and> posted st' = posted st"
proof -
  have l: "seg (nexts st) (timeEvtListHead st) xs None" "distinct xs" "\<And>x r. links st x = Some r \<Longrightarrow> r = of_bool (x \<in> set xs)"
    "\<And>x c i a. timer st x = Some (c, i, a) \<Longrightarrow> (c \<noteq> 0 \<longrightarrow> x \<in> set xs) \<and> (x \<in> set xs \<longrightarrow> a \<noteq> None)"
    using assms(1) by (auto simp: linked_def)
  have ok: "(n > 0 \<and> Some a \<noteq> None \<and> te_ctr e = 0 \<and> uint (evt_sig e) \<ge> Q_USER_SIG) = True"
    using assms(3-5) by (simp add: word_greater_zero_iff)
  have ref: "refCtr e = of_bool (x \<in> set xs)" using l(3) [of x] assms(2) by (simp add: links_def)
  show ?thesis
  proof (cases "x \<in> set xs")
    case True
    let ?st = "st\<lparr>tevts := (tevts st)(x \<mapsto> e\<lparr>te_ctr := n, te_act := Some a\<rparr>)\<rparr>"
    have s: "nexts ?st = nexts st" "links ?st = links st" "timer ?st = (timer st)(x \<mapsto> (n, te_interval e, Some a))"
      using assms(2) by (auto simp: nexts_def links_def timer_def)
    have "linked ?st xs" unfolding linked_def s using l True by auto
    moreover have "arm ret x (Some a) n st = Some ?st" using assms(2) ok ref True by (simp add: arm_def set_tevt_def)
    ultimately show ?thesis using s(3) by (intro exI [of _ ?st] exI [of _ xs]) simp
  next
    case False
    let ?st = "st\<lparr>tevts := (tevts st)(x \<mapsto> e\<lparr>te_ctr := n, te_act := Some a, te_next := timeEvtListHead st, refCtr := 1\<rparr>),
                  timeEvtListHead := Some x\<rparr>"
    have s: "nexts ?st = (nexts st)(x \<mapsto> timeEvtListHead st)" "links ?st = (links st)(x \<mapsto> 1)"
      "timer ?st = (timer st)(x \<mapsto> (n, te_interval e, Some a))"
      by (auto simp: nexts_def links_def timer_def)
    have "linked ?st (x # xs)" unfolding linked_def s using l False by (auto split: if_splits)
    moreover have "arm ret x (Some a) n st = Some ?st"
      using assms(2) ok ref False by (simp add: arm_def set_tevt_def link_tevt_def)
    ultimately show ?thesis using s(3) by (intro exI [of _ ?st] exI [of _ "x # xs"]) simp
  qed
qed

lemma interval_linked:
  assumes "linked st xs" "tevts st x = Some e"
  shows "linked (st\<lparr>tevts := (tevts st)(x \<mapsto> e\<lparr>te_interval := i\<rparr>)\<rparr>) xs"
proof -
  have "nexts (st\<lparr>tevts := (tevts st)(x \<mapsto> e\<lparr>te_interval := i\<rparr>)\<rparr>) = nexts st"
    "links (st\<lparr>tevts := (tevts st)(x \<mapsto> e\<lparr>te_interval := i\<rparr>)\<rparr>) = links st"
    "timer (st\<lparr>tevts := (tevts st)(x \<mapsto> e\<lparr>te_interval := i\<rparr>)\<rparr>) = (timer st)(x \<mapsto> (te_ctr e, i, te_act e))"
    using assms(2) by (auto simp: nexts_def links_def timer_def)
  moreover have "timer st x = Some (te_ctr e, te_interval e, te_act e)" by (rule timer_Some [OF assms(2)])
  ultimately show ?thesis using assms(1) by (auto simp: linked_def)
qed

lemma disarm_linked:
  assumes "linked st xs" "timer st x = Some (c, i, a)"
  shows "\<exists>st'. disarm x st = Some (c \<noteq> 0, st') \<and> linked st' xs \<and> timer st' = (timer st)(x \<mapsto> (0, i, a)) \<and> posted st' = posted st"
proof -
  obtain e where e: "tevts st x = Some e" "te_ctr e = c" "te_interval e = i" "te_act e = a" using assms(2) by (auto simp: timer_def)
  show ?thesis
  proof (cases "c = 0")
    case True
    then show ?thesis using assms e by (auto simp: disarm_def)
  next
    case False
    let ?st = "st\<lparr>tevts := (tevts st)(x \<mapsto> e\<lparr>te_ctr := 0\<rparr>)\<rparr>"
    have s: "nexts ?st = nexts st" "links ?st = links st" "timer ?st = (timer st)(x \<mapsto> (0, i, a))"
      using e by (auto simp: nexts_def links_def timer_def)
    have "linked ?st xs" unfolding linked_def s using assms by (auto simp: linked_def)
    then show ?thesis using e False s(3) by (intro exI [of _ ?st]) (simp add: disarm_def set_tevt_def)
  qed
qed

text \<open>
  C17: A time event armed for \<open>n\<close> ticks is posted once, at the \<open>n\<close>-th
  of them, and a periodic one every \<open>n\<close> ticks, whatever other time events there
  are; the ticks end and leave a well-formed list.
\<close>

theorem time_event_fires:
  assumes "linked st xs" "tevts st x = Some e" "te_ctr e = 0" "Q_USER_SIG \<le> uint (evt_sig e)" "n \<noteq> 0"
  shows "(\<exists>st1 st2 ys. postIn ret x (Some a) n st = Some st1 \<and> quiet_ticks ret k st1 = Some st2 \<and> linked st2 ys \<and>
       count_list (posted st2) (x, a) = count_list (posted st) (x, a) + of_bool (unat n \<le> k)) \<and>
     (\<exists>st1 st2 ys. postEvery ret x (Some a) n st = Some st1 \<and> quiet_ticks ret k st1 = Some st2 \<and> linked st2 ys \<and>
       count_list (posted st2) (x, a) = count_list (posted st) (x, a) + k div unat n)"
proof -
  have run: "\<exists>st1 st2 ys. arm ret x (Some a) n (st\<lparr>tevts := (tevts st)(x \<mapsto> e\<lparr>te_interval := i\<rparr>)\<rparr>) = Some st1 \<and>
      quiet_ticks ret k st1 = Some st2 \<and> linked st2 ys \<and>
      count_list (posted st2) (x, a) = count_list (posted st) (x, a) + fires k n i" for i
  proof -
    let ?st = "st\<lparr>tevts := (tevts st)(x \<mapsto> e\<lparr>te_interval := i\<rparr>)\<rparr>"
    obtain st1 ys where a: "arm ret x (Some a) n ?st = Some st1" "linked st1 ys" "timer st1 x = Some (n, i, Some a)" "posted st1 = posted st"
      using arm_linked [OF interval_linked [OF assms(1,2), of i], where x = x and e = "e\<lparr>te_interval := i\<rparr>" and n = n and a = a and ret = ret]
        assms(3-5) by auto
    from ticks_count [OF a(2,3), of ret k] a(1,4) show ?thesis by auto
  qed
  have "fires k n n = k div unat n"
    using fires_every [OF assms(5,5), of k] assms(5) by (simp add: unat_gt_0 le_div_geq)
  with run [of 0] run [of n] assms(2,5) show ?thesis
    by (simp add: postIn_def postEvery_def set_tevt_def fires_once)
qed

section \<open>What goes wrong\<close>

subsection \<open>Arming another event while a tick posts\<close>

text \<open>
  C21: If another thread arms a time event while \<open>tick\<close> posts the expiring first
  one of the list, \<open>tick\<close> fails: the event it wants to remove is no longer the
  first, and it has no predecessor for it.
\<close>

theorem tick_race:
  assumes "linked st (x # xs)" "timer st x = Some (1, 0, Some a)"
    and "tevts st u = Some eu" "te_ctr eu = 0" "refCtr eu = 0" "Q_USER_SIG \<le> uint (evt_sig eu)" "n \<noteq> 0"
  shows "QF_tick ret (arm ret u (Some b) n) st = None"
proof -
  obtain e where e: "tevts st x = Some e" "te_ctr e = 1" "te_interval e = 0" "te_act e = Some a"
    using assms(2) by (auto simp: timer_def)
  have hd: "timeEvtListHead st = Some x" using assms(1) by (simp add: linked_def)
  have ne: "u \<noteq> x" using e(1,2) assms(3,4) by auto
  have ok: "(n > 0 \<and> Some b \<noteq> None \<and> te_ctr eu = 0 \<and> uint (evt_sig eu) \<ge> Q_USER_SIG) = True"
    using assms(4,6,7) by (simp add: word_greater_zero_iff)
  have "tick_event ret (arm ret u (Some b) n) None x st = None"
    using e assms(3,5) ne ok by (simp add: tick_event_def set_tevt_def arm_def link_tevt_def unlink_def Q_ASSERT_def)
  then show ?thesis by (simp add: QF_tick_def hd tick_from.simps)
qed

subsection \<open>Rearming an event that is not armed\<close>

text \<open>A list that runs into itself is never left.\<close>

definition closed :: "nat set \<Rightarrow> time_evts \<Rightarrow> bool" where
  "closed C st \<longleftrightarrow> (\<forall>x \<in> C. \<exists>y \<in> C. nexts st x = Some (Some y))"

lemma unlink_closed:
  assumes "unlink ret prev t st = Some st'" "closed C st" "t \<in> C"
  shows "closed C st'"
proof -
  obtain e y where e: "tevts st t = Some e" "te_next e = Some y" "y \<in> C"
    using assms(2,3) by (auto simp: closed_def nexts_def)
  show ?thesis
  proof (cases "timeEvtListHead st = Some t")
    case True
    then have "nexts st' = nexts st" using assms(1) e(1) by (auto simp: unlink_def set_tevt_def nexts_def)
    then show ?thesis using assms(2) by (simp add: closed_def)
  next
    case False
    then obtain p ep where "prev = Some p" "tevts st p = Some ep"
      using assms(1) e(1) by (auto simp: unlink_def set_tevt_def bind_eq_Some_conv)
    then have "nexts st' = (nexts st)(p \<mapsto> te_next e)"
      using False assms(1) e(1) by (auto simp: unlink_def set_tevt_def nexts_def bind_eq_Some_conv split: if_splits)
    then show ?thesis using assms(2) e(2,3) by (auto simp: closed_def)
  qed
qed

lemma tick_event_closed:
  assumes "tick_event ret Some prev t st = Some (prev', st')" "closed C st" "t \<in> C"
  shows "closed C st'"
proof -
  obtain e where e: "tevts st t = Some e" using assms(2,3) by (auto simp: closed_def nexts_def)
  have keep: "closed C st1" if "tevts st1 = (tevts st)(t \<mapsto> e\<lparr>te_ctr := c\<rparr>)" for st1 c
  proof -
    have "nexts st1 = nexts st" using that e by (auto simp: nexts_def)
    with assms(2) show ?thesis by (simp add: closed_def)
  qed
  show ?thesis
  proof (cases "te_act e")
    case (Some a)
    show ?thesis
      using assms(1) unlink_closed [OF _ keep assms(3)] keep
      unfolding tick_event_quiet [OF e Some] by (auto simp: bind_eq_Some_conv split: if_splits)
  next
    case None
    then have "te_ctr e \<noteq> 1" using assms(1) e by (auto simp: tick_event_def set_tevt_def)
    then show ?thesis
      using None assms(1) e unlink_closed [OF _ assms(2,3)] keep [of st'] assms(2)
      by (auto simp: tick_event_def set_tevt_def bind_eq_Some_conv split: if_splits)
  qed
qed

lemma cycle_never_ends:
  assumes "closed C st" "t \<in> C"
  shows "tick_from ret Some prev (Some t) st = None"
proof -
  have "others = Some \<longrightarrow> (\<forall>C t. p = Some t \<longrightarrow> closed C st \<longrightarrow> t \<notin> C)"
    if "tick_from ret others prev p st = Some r" for others prev p st r
    using that
  proof (rule tick_from.raw_induct [rotated], goal_cases)
    case (1 f ret others prev p st r)
    show ?case
    proof (intro impI allI notI)
      fix C t
      assume a: "others = Some" "p = Some t" "closed C st" "t \<in> C"
      then obtain prev1 st1 e where s: "tick_event ret Some prev t st = Some (prev1, st1)" "tevts st1 t = Some e"
        "f ret Some prev1 (te_next e) st1 = Some r"
        using 1(2) by (auto simp: bind_eq_Some_conv)
      have "closed C st1" using tick_event_closed [OF s(1) a(3,4)] .
      moreover from this obtain y where "te_next e = Some y" "y \<in> C" using a(4) s(2) by (auto simp: closed_def nexts_def)
      ultimately show False using 1(1) [OF s(3)] by blast
    qed
  qed
  with assms show ?thesis by (metis not_None_eq)
qed

text \<open>
  C22: Rearming a time event that is not armed works only if the list has events and the event
  is not among them: if the list is empty the event counts as armed but never fires, and if it
  is still linked, as after \<open>disarm\<close>, the list is made a cycle and the next tick
  never ends.
\<close>

theorem rearm_disarmed:
  assumes "linked st xs" "tevts st x = Some e" "te_ctr e = 0" "te_act e \<noteq> None" "Q_USER_SIG \<le> uint (evt_sig e)" "n \<noteq> 0"
  shows "\<exists>st'. rearm ret x n st = Some (False, st') \<and> ctr x st' = Some n \<and> posted st' = posted st \<and>
     (xs = [] \<longrightarrow> quiet_ticks ret k st' = Some st') \<and>
     (xs \<noteq> [] \<longrightarrow> x \<notin> set xs \<longrightarrow> linked st' (x # xs)) \<and>
     (x \<in> set xs \<longrightarrow> QF_tick ret Some st' = None)"
proof -
  have l: "seg (nexts st) (timeEvtListHead st) xs None" "distinct xs" "\<And>x r. links st x = Some r \<Longrightarrow> r = of_bool (x \<in> set xs)"
    "\<And>x c i a. timer st x = Some (c, i, a) \<Longrightarrow> (c \<noteq> 0 \<longrightarrow> x \<in> set xs) \<and> (x \<in> set xs \<longrightarrow> a \<noteq> None)"
    using assms(1) by (auto simp: linked_def)
  have ok: "(n > 0 \<and> te_act e \<noteq> None \<and> uint (evt_sig e) \<ge> Q_USER_SIG) = True"
    using assms(4-6) by (simp add: word_greater_zero_iff)
  show ?thesis
  proof (cases xs)
    case Nil
    then have hd: "timeEvtListHead st = None" using l(1) by simp
    let ?st = "st\<lparr>tevts := (tevts st)(x \<mapsto> e\<lparr>te_next := None, te_ctr := n\<rparr>)\<rparr>"
    have "QF_tick ret Some ?st = Some ?st" by (simp add: QF_tick_def hd tick_from.simps)
    then have "quiet_ticks ret k ?st = Some ?st" by (induction k) simp_all
    moreover have "rearm ret x n st = Some (False, ?st)" using assms(2,3) ok hd by (simp add: rearm_def set_tevt_def)
    ultimately show ?thesis using Nil by (intro exI [of _ ?st]) (simp add: ctr_def)
  next
    case (Cons y ys)
    then have hd: "timeEvtListHead st = Some y" using l(1) by simp
    let ?st = "st\<lparr>tevts := (tevts st)(x \<mapsto> e\<lparr>te_next := Some y, refCtr := refCtr e + 1, te_ctr := n\<rparr>), timeEvtListHead := Some x\<rparr>"
    have s: "nexts ?st = (nexts st)(x \<mapsto> Some y)" "links ?st = (links st)(x \<mapsto> refCtr e + 1)"
      "timer ?st = (timer st)(x \<mapsto> (n, te_interval e, te_act e))"
      by (auto simp: nexts_def links_def timer_def)
    have re: "rearm ret x n st = Some (False, ?st)" using assms(2,3) ok hd by (simp add: rearm_def set_tevt_def link_tevt_def)
    have new: "linked ?st (x # xs)" if "x \<notin> set xs"
    proof -
      have "refCtr e = 0" using l(3) [of x] assms(2) that by (simp add: links_def)
      then show ?thesis unfolding linked_def s using l(1-4) that assms(4) hd by (auto split: if_splits)
    qed
    have cyc: "QF_tick ret Some ?st = None" if in_list: "x \<in> set xs"
    proof -
      obtain ps qs where ps: "xs = ps @ x # qs" using split_list [OF in_list] by metis
      then have "seg (nexts st) (Some y) ps (Some x)" "x \<notin> set ps" using l(1,2) hd by (auto simp: seg_append)
      then have "closed (insert x (set ps)) ?st" using seg_closed unfolding closed_def s by fastforce
      then show ?thesis unfolding QF_tick_def using cycle_never_ends [of "insert x (set ps)" ?st x ret None] by simp
    qed
    show ?thesis
      using re new cyc Cons by (intro exI [of _ ?st]) (simp add: ctr_def)
  qed
qed

subsection \<open>Examples\<close>

text \<open>Three events: one periodic and armed, one disarmed and still linked, one not linked.\<close>

definition some_tevt :: "nat option \<Rightarrow> u8 \<Rightarrow> u32 \<Rightarrow> u32 \<Rightarrow> QTimeEvt" where
  "some_tevt nxt r c i = \<lparr>evt_sig = 5, poolId = 0, refCtr = r, te_next = nxt, te_act = Some 7, te_ctr = c, te_interval = i\<rparr>"

definition three_tevts :: time_evts where
  "three_tevts =
     \<lparr>tevts = [1 \<mapsto> some_tevt (Some 2) 1 1 0, 2 \<mapsto> some_tevt None 1 0 0, 3 \<mapsto> some_tevt None 0 0 0],
      timeEvtListHead = Some 1, posted = []\<rparr>"

lemma three_linked: "linked three_tevts [1, 2]"
  by (auto simp: linked_def three_tevts_def some_tevt_def nexts_def links_def timer_def split: if_splits)

theorem time_event_fires_witness:
  "\<exists>st1 st2. postEvery False 3 (Some 7) 5 three_tevts = Some st1 \<and> quiet_ticks False 17 st1 = Some st2 \<and>
     count_list (posted st2) (3, 7) = 3"
proof -
  have "tevts three_tevts 3 = Some (some_tevt None 0 0 0)" by (simp add: three_tevts_def)
  from time_event_fires [OF three_linked this, of 5 False 7 17] show ?thesis
    by (auto simp: some_tevt_def three_tevts_def)
qed

theorem tick_race_witness: "QF_tick True (arm True 3 (Some 8) 4) three_tevts = None"
  using tick_race [OF three_linked, of 7 3 "some_tevt None 0 0 0" 4 True 8]
  by (simp add: three_tevts_def some_tevt_def timer_def)

theorem rearm_disarmed_witness:
  "(\<exists>st. rearm False 2 9 three_tevts = Some (False, st) \<and> QF_tick False Some st = None) \<and>
   (\<exists>st. rearm False 1 9 \<lparr>tevts = [1 \<mapsto> some_tevt None 0 0 0], timeEvtListHead = None, posted = []\<rparr> = Some (False, st) \<and>
      ctr 1 st = Some 9 \<and> quiet_ticks False 1000 st = Some st \<and> posted st = [])"
proof
  have "tevts three_tevts 2 = Some (some_tevt None 1 0 0)" by (simp add: three_tevts_def)
  from rearm_disarmed [OF three_linked this, of 9 False 0]
  show "\<exists>st. rearm False 2 9 three_tevts = Some (False, st) \<and> QF_tick False Some st = None" by (auto simp: some_tevt_def)
next
  let ?st = "\<lparr>tevts = [1 \<mapsto> some_tevt None 0 0 0], timeEvtListHead = None, posted = []\<rparr>"
  have "linked ?st []" by (simp add: linked_def links_def timer_def some_tevt_def)
  from rearm_disarmed [OF this, of 1 "some_tevt None 0 0 0" 9 False 1000]
  show "\<exists>st. rearm False 1 9 ?st = Some (False, st) \<and> ctr 1 st = Some 9 \<and> quiet_ticks False 1000 st = Some st \<and> posted st = []"
    by (auto simp: some_tevt_def)
qed

end
