(* ===== verification/Driver_Frame.thy ===== *)
theory Driver_Frame
  imports Active_Object State_Chart Publish Time_Events
begin

text \<open>
  The frame of the old driver, \<open>src/qpobject.cpp\<close>, \<open>src/bsp.cpp\<close> and \<open>src/ActivityQP.h\<close>, on the framework's main
  loop in \<open>ports/posix/gnu/qf_port.cpp\<close>; and its active object of theory \<open>Active_Object\<close> as a state machine of
  the framework's processor.
\<close>

section \<open>The object as a state machine of the framework\<close>

fun mgr_signal :: "signal QSignal \<Rightarrow> signal" where
  "mgr_signal QEP_ENTRY = Q_ENTRY_SIG"
| "mgr_signal QEP_EXIT = Q_EXIT_SIG"
| "mgr_signal (User e) = e"
| "mgr_signal _ = Other_SIG"

text \<open>The handlers by state; no state is the framework's \<open>top\<close>.\<close>

fun mgr_handlers :: "'w os \<Rightarrow> ('w mstate \<Rightarrow> 'w mstate option) \<Rightarrow> (q_state option, signal, ModbusMgr \<times> 'w mstate) handlers" where
  "mgr_handlers os set_rts None sig x = Some (QHsm_top x)"
| "mgr_handlers os set_rts (Some Initial) sig (t, me, st) =
     do { (me, st) \<leftarrow> initial os set_rts me st; Some (Q_TRAN (Some Running) (t, me, st)) }"
| "mgr_handlers os set_rts (Some Running) sig (t, me, st) =
     do { ((r, me), st) \<leftarrow> running os (mgr_signal sig) me st;
          Some (case r of Q_HANDLED \<Rightarrow> (Q_RET_HANDLED, t, me, st) | Q_SUPER_top \<Rightarrow> Q_SUPER None (t, me, st)) }"

definition mgr_running :: "ModbusMgr \<times> 'w mstate \<Rightarrow> (q_state option, ModbusMgr \<times> 'w mstate) QHsm" where
  "mgr_running x = \<lparr>m_state = Some Running, m_temp = Some Running, m_data = x\<rparr>"

lemma mgr_empty [simp]:
  "running os Other_SIG me st = Some ((Q_SUPER_top, me), st)"
  by (simp add: running_def)

lemma mgr_dispatch:
  "QHsm_dispatch ret (mgr_handlers os set_rts) (User e) (mgr_running (me, st)) =
     do { ((_, me), st) \<leftarrow> running os e me st; Some (mgr_running (me, st)) }"
proof (cases "running os e me st")
  case None
  then show ?thesis by (simp add: QHsm_dispatch_def mgr_running_def offer.simps)
next
  case (Some y)
  then obtain r me' st' where y: "running os e me st = Some ((r, me'), st')" by (cases y) auto
  have top: "offer (mgr_handlers os set_rts) (User e) (None, me', st') = Some (Q_RET_IGNORED, None, None, me', st')"
    by (subst offer.simps) (simp add: QHsm_top_def)
  show ?thesis
    using y top by (cases r) (simp_all add: QHsm_dispatch_def mgr_running_def Q_SUPER_def Let_def offer.simps [of _ _ "(Some Running, me, st)"])
qed

text \<open>
  C19: The active object of the old driver, run as a state machine by the framework's processor,
  starts and reacts to any sequence of events exactly as its two handlers called directly.
\<close>

theorem object_on_framework:
  "QHsm_init ret (mgr_handlers os set_rts) None e0 (new_QHsm None (Some Initial) (me, st)) = map_option mgr_running (start_object os set_rts me st) \<and>
   QHsm_events ret (mgr_handlers os set_rts) es (mgr_running (me, st)) = map_option mgr_running (dispatch os es me st)"
proof
  show "QHsm_init ret (mgr_handlers os set_rts) None e0 (new_QHsm None (Some Initial) (me, st)) = map_option mgr_running (start_object os set_rts me st)"
  proof (cases "initial os set_rts me st")
    case None
    then show ?thesis by (simp add: QHsm_init_def new_QHsm_def start_object_def)
  next
    case (Some y)
    then obtain me1 st1 where y: "initial os set_rts me st = Some (me1, st1)" by (cases y) auto
    have w: "wr (fresh QEP_MAX_NEST_DEPTH) 0 (Some Running) = Some ((fresh QEP_MAX_NEST_DEPTH)[0 := Some (Some Running)])"
      by (simp add: wr_def fresh_def QEP_MAX_NEST_DEPTH_def)
    have r: "rd ((fresh QEP_MAX_NEST_DEPTH)[0 := Some (Some Running)]) 0 = Some (Some Running)"
      by (simp add: rd_def fresh_def QEP_MAX_NEST_DEPTH_def)
    obtain z where z: "running os Q_ENTRY_SIG me1 st1 = Some ((Q_HANDLED, z), st1)" by (simp add: running_def)
    show ?thesis
      using y w r z
      by (simp add: QHsm_init_def new_QHsm_def start_object_def Q_TRAN_def init_tran_def trig_def Q_SUPER_def path_up.simps
          QEP_MAX_NEST_DEPTH_def drill.simps Let_def mgr_running_def)
  qed
  show "QHsm_events ret (mgr_handlers os set_rts) es (mgr_running (me, st)) = map_option mgr_running (dispatch os es me st)"
  proof (induction es arbitrary: me st)
    case (Cons e es)
    then show ?case by (cases "running os e me st") (auto simp: mgr_dispatch)
  qed simp
qed

section \<open>The main loop and its activity\<close>

text \<open>
  The clock of the framework: the length of a tick in microseconds. Dividing by zero is undefined.
\<close>

definition QF_setTickRate :: "u32 \<Rightarrow> nat option" where
  "QF_setTickRate ticksPerSec = (if ticksPerSec = 0 then None else Some (1000000 div unat ticksPerSec))"

lemma tick_length: "QF_setTickRate (of_nat BSP_TICKS_PER_SEC) = Some 2000"
  by (simp add: QF_setTickRate_def BSP_TICKS_PER_SEC_def)

text \<open>
  Starting the application: the subscribers of the signals below \<open>MAX_PUB_SIG\<close>, a pool of 100 small events of
  \<open>w\<close> bytes at \<open>smlPoolSto\<close> (\<open>sz\<close> bytes are the size of an address), and the active object \<open>a\<close> with
  priority 1 and its long queue. \<open>QActive_start\<close> has the other arguments.
\<close>

definition MAX_PUB_SIG :: u32 where "MAX_PUB_SIG = 8"

definition qpRun_start ::
  "bool \<Rightarrow> u32 \<Rightarrow> u32 \<Rightarrow> (qf \<Rightarrow> qf option) \<Rightarrow> bool \<times> bool \<Rightarrow> (qf \<Rightarrow> qf option) \<Rightarrow> u8 cbuf list \<Rightarrow> nat \<Rightarrow> nat \<Rightarrow> qf \<Rightarrow> qf option" where
  "qpRun_start ret sz w tran created others subscrSto smlPoolSto a s =
     do { let s = QF_psInit subscrSto MAX_PUB_SIG s;
          pools \<leftarrow> QF_poolInit ret sz (Some smlPoolSto) (100 * w) w (qf_pools s);
          QActive_start ret tran created others a 1 (fresh 50000) 50000 None (s\<lparr>qf_pools := pools\<rparr>) }"

lemma round_up_least: "round_up sz want b n = Some y \<Longrightarrow> want \<le> fst y"
  by (rule round_up.raw_induct [where P = "\<lambda>sz want b n y. want \<le> fst y"]) (auto split: if_splits)

lemma poolInit_count:
  assumes "QF_poolInit ret sz sto nbytes w s = Some s'" "QF_maxPool s < 255"
  shows "unat (QF_maxPool s') = Suc (unat (QF_maxPool s)) \<and> unat (QF_maxPool s) < length (QF_pool s') \<and>
     w \<le> getBlockSize (QF_pool s' ! unat (QF_maxPool s))"
proof -
  let ?n = "unat (QF_maxPool s)"
  obtain p mem where p: "QMPool_init ret sz sto nbytes w (QF_mem s) = Some (p, mem)" "?n < length (QF_pool s)"
    "s' = s\<lparr>QF_pool := (QF_pool s)[?n := p], QF_maxPool := QF_maxPool s + 1, QF_mem := mem\<rparr>"
    using assms(1) by (auto simp: QF_poolInit_def pool_at_def Option.bind_eq_Some_conv Let_def split: if_splits)
  have "unat (QF_maxPool s + 1) = Suc ?n" using assms(2) by (simp add: word_less_nat_alt unat_word_ariths)
  moreover have "w \<le> getBlockSize p"
    using p(1) by (auto simp: QMPool_init_def getBlockSize_def Option.bind_eq_Some_conv dest: round_up_least)
  ultimately show ?thesis using p(2,3) by simp
qed

text \<open>
  A second start of the application fails at the pool, which must be for greater events than the one before:
  the assertion holds only once.
\<close>

theorem second_start_refused:
  assumes "QF_poolInit ret sz sto nbytes w (qf_pools s) = Some pools" "QF_maxPool (qf_pools s) < 255"
  shows "qpRun_start False sz w tran created others subscrSto smlPoolSto a (t\<lparr>qf_pools := pools\<rparr>) = None"
proof -
  note c = poolInit_count [OF assms]
  then have "QF_poolInit False sz (Some smlPoolSto) (100 * w) w pools = None"
    by (auto simp: QF_poolInit_def Q_ASSERT_def pool_at_def linorder_not_less [symmetric])
  then show ?thesis by (simp add: qpRun_start_def QF_psInit_def Let_def)
qed

text \<open>
  \<open>ActivityQP\<close> runs \<open>qpRun\<close> in a thread of its own until it is stopped. The states of that thread are:
  before the test of \<open>isStopped\<close>; in \<open>qpRun\<close>, before \<open>run\<close> sets \<open>l_running\<close>; at the test of the loop;
  in a tick; behind the loop; and ended. The caller of \<open>stop\<close> has still to call \<open>BSP_terminate\<close>, to call
  \<open>_activity.stop\<close>, to wait, or has returned. The mutex is initialised where it is declared, so once.
\<close>

datatype worker = Tests | Starts | Loops | Ticks | Leaves | Ended

datatype stopper = Terminates | Stops | Waits_for_end | Returned

record frame =
  l_running :: bool
  is_stopped :: bool
  mutex_alive :: bool
  worker_at :: worker
  stopper_at :: stopper

text \<open>The steps of \<open>QF::run\<close>, which ends with the destruction of the mutex, and of \<open>runActivity\<close>, which calls it.\<close>

definition QF_run_step :: "frame \<Rightarrow> frame option" where
  "QF_run_step f =
     (case worker_at f of
        Starts \<Rightarrow> Some (f\<lparr>l_running := True, worker_at := Loops\<rparr>)
      | Loops \<Rightarrow> Some (f\<lparr>worker_at := if l_running f then Ticks else Leaves\<rparr>)
      | Ticks \<Rightarrow> Some (f\<lparr>worker_at := Loops\<rparr>)
      | Leaves \<Rightarrow> Some (f\<lparr>mutex_alive := False, worker_at := Tests\<rparr>)
      | _ \<Rightarrow> None)"

definition run_activity :: "frame \<Rightarrow> frame option" where
  "run_activity f =
     (case worker_at f of
        Tests \<Rightarrow> Some (f\<lparr>worker_at := if is_stopped f then Ended else Starts\<rparr>)
      | _ \<Rightarrow> QF_run_step f)"

definition QF_stop :: "frame \<Rightarrow> frame" where
  "QF_stop f = f\<lparr>l_running := False\<rparr>"

definition BSP_terminate :: "int \<Rightarrow> frame \<Rightarrow> frame" where
  "BSP_terminate r f = QF_stop f"

definition stop_activity :: "frame \<Rightarrow> frame option" where
  "stop_activity f =
     (case stopper_at f of
        Terminates \<Rightarrow> Some ((BSP_terminate (- 1) f)\<lparr>stopper_at := Stops\<rparr>)
      | Stops \<Rightarrow> Some (f\<lparr>is_stopped := True, stopper_at := Waits_for_end\<rparr>)
      | Waits_for_end \<Rightarrow> if worker_at f = Ended then Some (f\<lparr>stopper_at := Returned\<rparr>) else None
      | Returned \<Rightarrow> None)"

lemmas frame_defs = run_activity_def QF_run_step_def stop_activity_def BSP_terminate_def QF_stop_def

inductive frame_steps :: "frame \<Rightarrow> frame \<Rightarrow> bool" where
  frame_here: "frame_steps f f"
| frame_worker: "frame_steps f g \<Longrightarrow> run_activity g = Some k \<Longrightarrow> frame_steps f k"
| frame_stopper: "frame_steps f g \<Longrightarrow> stop_activity g = Some k \<Longrightarrow> frame_steps f k"

definition started :: frame where
  "started = \<lparr>l_running = False, is_stopped = False, mutex_alive = True, worker_at = Tests, stopper_at = Terminates\<rparr>"

text \<open>A list of steps, \<open>True\<close> for those of the thread.\<close>

fun frame_run :: "bool list \<Rightarrow> frame \<Rightarrow> frame option" where
  "frame_run [] f = Some f"
| "frame_run (b # bs) f = do { f \<leftarrow> (if b then run_activity f else stop_activity f); frame_run bs f }"

lemma frame_run_steps: "frame_run bs g = Some k \<Longrightarrow> frame_steps f g \<Longrightarrow> frame_steps f k"
  by (induction bs arbitrary: g)
    (auto simp: Option.bind_eq_Some_conv split: if_splits intro: frame_worker frame_stopper)

lemma frame_stuck:
  assumes "frame_steps f g" "l_running f" "stopper_at f = Waits_for_end" "worker_at f \<in> {Loops, Ticks}"
  shows "l_running g \<and> stopper_at g = Waits_for_end \<and> worker_at g \<in> {Loops, Ticks}"
  using assms by (induction rule: frame_steps.induct) (auto simp: frame_defs split: if_splits)

text \<open>
  Stopping can succeed. But \<open>run\<close> sets \<open>l_running\<close> whenever it comes to its loop, so a call of \<open>stop\<close>
  that was earlier is lost: the caller then waits for ever, if the thread is only starting and also if
  it has left the loop and goes round once more. Then it even runs on a mutex it has destroyed.
\<close>

theorem stop_may_hang:
  "\<exists>f. frame_steps started f \<and> stopper_at f = Returned"
  "\<exists>f. frame_steps started f \<and> mutex_alive f \<and> stopper_at f = Waits_for_end \<and> \<not> (\<exists>g. frame_steps f g \<and> stopper_at g = Returned)"
  "\<exists>f. frame_steps started f \<and> \<not> mutex_alive f \<and> worker_at f = Ticks \<and> \<not> (\<exists>g. frame_steps f g \<and> stopper_at g = Returned)"
proof -
  have "frame_run [False, False, True, False] started = Some \<lparr>l_running = False, is_stopped = True, mutex_alive = True, worker_at = Ended, stopper_at = Returned\<rparr>"
    by (simp add: started_def frame_defs)
  from frame_run_steps [OF this frame_here]
  show "\<exists>f. frame_steps started f \<and> stopper_at f = Returned" by force
  have "frame_run [True, False, True, False] started = Some \<lparr>l_running = True, is_stopped = True, mutex_alive = True, worker_at = Loops, stopper_at = Waits_for_end\<rparr>"
    by (simp add: started_def frame_defs)
  from frame_run_steps [OF this frame_here]
  show "\<exists>f. frame_steps started f \<and> mutex_alive f \<and> stopper_at f = Waits_for_end \<and> \<not> (\<exists>g. frame_steps f g \<and> stopper_at g = Returned)"
    by (force dest: frame_stuck)
  have "frame_run [True, True, False, True, True, True, True, False, True] started =
      Some \<lparr>l_running = True, is_stopped = True, mutex_alive = False, worker_at = Ticks, stopper_at = Waits_for_end\<rparr>"
    by (simp add: started_def frame_defs)
  from frame_run_steps [OF this frame_here]
  show "\<exists>f. frame_steps started f \<and> \<not> mutex_alive f \<and> worker_at f = Ticks \<and> \<not> (\<exists>g. frame_steps f g \<and> stopper_at g = Returned)"
    by (force dest: frame_stuck)
qed

end
