(* ===== verification/Spec2Isabelle.thy ===== *)
theory Spec2Isabelle
  imports Main_Loop Limits Link Poll_Rounds Active_Object Shared_Memory Image_File Runtime_Threads Runtime_Clock Gpio Net_Config Hsm_Test Driver_Frame
begin

text \<open>
  A verification library for the driver of a small Linux-based remote terminal unit (RTU), which
  talks Modbus to its input/output modules.

  \<^bold>\<open>The program.\<close> \<open>library/modbus\<close> is libmodbus 3.0.5 in C with patches of the repository: a client and a
  server for the Modbus protocol over serial lines (RTU) and over TCP. Three programs use it or stand
  beside it. \<open>kw/src\<close> runs a PLC: \<open>driver.c\<close> polls four modules on one RS-485 line and
  \<open>CONSEN_IO.cpp\<close> copies their values into the process image of the runtime. \<open>system/src/Consen.cpp\<close> polls
  slaves on two lines by a configured list of tasks. \<open>system/src/main.cpp\<close> and
  \<open>system/src/ModbusChannelManager.cpp\<close> exchange frames with a co-processor on an SPI bus that serves the
  modules; \<open>system/src/Gpio.cpp\<close> gives it the pin on which the co-processor reports.
  The runtime of the PLC is a binary library; \<open>kw/src\<close> also holds what it needs of the system, namely threads
  (\<open>threadimpl.cpp\<close>), files (\<open>linuxfile.cpp\<close>), the image of its application (\<open>eclrImageFile.cpp\<close>), clocks
  (\<open>eclrEnvironment.cpp\<close>) and pins (\<open>gpio.cpp\<close>). The programs share one piece of memory, laid out in
  \<open>system/inc/Interface.h\<close>. \<open>src/modbus-mgr.cpp\<close> is an older driver for one slave as a state machine. It runs on \<open>library/qpcpp\<close>, the
  QP/C++ framework of active objects: \<open>qep\<close> processes state machines, \<open>qf\<close> has the queues, pools, timers and
  subscriptions of events, and \<open>ports/posix/gnu\<close> the threads. \<open>dbus\<close> and \<open>tools\<close> set the network up.

  \<^bold>\<open>The model.\<close> A C function is a HOL function on explicit state, in the option monad: \<open>None\<close> stands for
  undefined behaviour (an access outside an array, the use of an element that was never set), and for a
  loop that never ends where a loop may not end (\<open>partial_function\<close>). Errors of the code are its
  return values and \<open>errno\<close>. The system calls are a record \<open>os\<close> of functions on an arbitrary world, so
  every theorem holds for every operating system that satisfies its hypotheses; the other programs have
  records of their own for the calls they make. Threads are step relations. C's \<open>int\<close> is
  \<open>int\<close>; no value of the modelled code leaves its range, and where a value is narrowed to 8, 16 or 32
  bits the conversion is written out on words. Arrays are lists of optional elements.

  \<^item> \<open>Prelude\<close>: arrays and their reads and writes, bytes of integers, counted loops; the lemma
    collections \<open>c_mem\<close> and \<open>c_arith\<close>.
  \<^item> \<open>Modbus_Types\<close>: \<open>modbus.h\<close>, \<open>modbus-private.h\<close> and the private headers of the backends: constants,
    error codes, the context \<open>modbus_t\<close>, the table of backend operations, the system calls.
  \<^item> \<open>Context\<close>: the parts of \<open>modbus.c\<close> that set up and read a context, the register mapping, \<open>strlcpy\<close> and
    the wait for input.
  \<^item> \<open>Bits\<close>: \<open>modbus-data.c\<close>.
  \<^item> \<open>Framing\<close>: the locales \<open>framing\<close>, \<open>server_link\<close> and \<open>client_link\<close>, the contract a backend fulfils: how
    it frames a PDU and takes the frame apart again.
  \<^item> \<open>Transport\<close>: \<open>send_msg\<close>, the stepwise receiver \<open>receive_msg\<close> and \<open>check_confirmation\<close> of \<open>modbus.c\<close>, with
    what the receiver does on any line proved once in \<open>framing\<close>.
  \<^item> \<open>Device\<close>: the abstract server, a function \<open>serve\<close> from a request PDU and the tables of a device to
    the response PDU and the new tables. It is the specification of the server and of the client's peer.
  \<^item> \<open>Server\<close>: \<open>modbus_reply\<close> and \<open>modbus_reply_exception\<close>; in \<open>server_link\<close>, the refinement of \<open>serve\<close>.
  \<^item> \<open>Client\<close>: the reading and writing calls; in \<open>client_link\<close>, what they yield on a line whose peer answers
    as the protocol asks.
  \<^item> \<open>Crc\<close>, \<open>Rtu\<close>: \<open>modbus-rtu.c\<close>. The CRC by tables equals the bitwise definition and detects errors in
    neighbouring bytes; the locales are interpreted for the RTU backend.
  \<^item> \<open>Tcp\<close>: \<open>modbus-tcp.c\<close>, both backends, and the interpretations of the locales for TCP.
  \<^item> \<open>Exchange\<close>: the client composed with the abstract device at the other end of the line.
  \<^item> \<open>Bsp_Driver\<close>: \<open>driver.c\<close>, with a line of four modules that are abstract devices.
  \<^item> \<open>Process_Image\<close>: \<open>CONSEN_IO.cpp\<close>.
  \<^item> \<open>Consen\<close>: \<open>Consen.cpp\<close> and \<open>Consen.h\<close>.
  \<^item> \<open>Channel_Manager\<close>: \<open>ModbusChannelManager.cpp\<close>, \<open>DataChannel.h\<close> and \<open>Interface.h\<close>.
  \<^item> \<open>Main_Loop\<close>: \<open>system/src/main.cpp\<close>, which waits for a pin of \<open>Gpio\<close>.
  \<^item> \<open>Limits\<close>: what happens beyond the library's checks.
  \<^item> \<open>Link\<close>: what the arguments of \<open>modbus_new_rtu\<close> make of the line, and the link recovery of \<open>send_msg\<close>.
  \<^item> \<open>Interleaving\<close>: threads on shared state; the locales \<open>guarantee\<close> and \<open>isolation\<close>, contracts of a thread's step
    and what every interleaving keeps under them.
  \<^item> \<open>Poll_Threads\<close>: the two threads of \<open>Consen.cpp\<close>. \<open>line_step\<close> is a step of one of them, \<open>poll_step\<close> of
    either. It fulfils both contracts of \<open>Interleaving\<close>.
  \<^item> \<open>Poll_Rounds\<close>: the specification of one line's thread in bits, words and devices, \<open>task_spec\<close>, and the
    proof that the thread alone implements it, round after round, for tasks of every command.
  \<^item> \<open>Active_Object\<close>: \<open>src/modbus-mgr.cpp\<close>.
  \<^item> \<open>Shared_Memory\<close>: the layout in \<open>Interface.h\<close>, which the numbers in \<open>Process_Image\<close> follow, and \<open>fnShareMemory\<close> of
    \<open>system/src/main.cpp\<close>.
  \<^item> \<open>Image_File\<close>: \<open>eclrImageFile.cpp\<close> over \<open>linuxfile.cpp\<close>, over the streams and files of the C library.
  \<^item> \<open>Runtime_Threads\<close>: \<open>threadimpl.cpp\<close>. \<open>task_step\<close> is what a thread and its signal handlers do, \<open>reaches\<close> adds
    the calls of the others.
  \<^item> \<open>Runtime_Clock\<close>: \<open>eclrEnvironment.cpp\<close> and the class \<open>TimeUpdater\<close> of \<open>system/src/main.cpp\<close>.
  \<^item> \<open>Gpio\<close>: \<open>kw/src/gpio.cpp\<close> and \<open>system/src/Gpio.cpp\<close>.
  \<^item> \<open>Priority_Set\<close>: \<open>qpset.h\<close> of the framework and its tables. The locale \<open>priority_set\<close> is the contract of a
    set of priorities; both classes fulfil it.
  \<^item> \<open>Event_Queue\<close>: events, their counters and the queues of events. The locale \<open>event_queue\<close> is the contract
    of a queue that is a bounded list; the raw queue and that of an active object fulfil it.
  \<^item> \<open>State_Machine\<close>: \<open>qep/source\<close>, how \<open>init\<close> and \<open>dispatch\<close> find the way between states by asking the handlers.
  \<^item> \<open>State_Chart\<close>: what a tree of states with actions means, without any path array. The locale
    \<open>state_machine\<close> is the contract of handlers that report such a chart; under it the functions of
    \<open>State_Machine\<close> do what the chart says.
  \<^item> \<open>Hsm_Test\<close>: the test machine \<open>examples/posix/gnu/qhsmtst\<close>, which fulfils \<open>state_machine\<close>.
  \<^item> \<open>Linked_List\<close>: segments of linked lists, shared by the next two theories.
  \<^item> \<open>Time_Events\<close>: the list of time events and the clock tick.
  \<^item> \<open>Event_Pool\<close>: memory pools, with the locale \<open>block_pool\<close> as their contract, and the life of dynamic events.
  \<^item> \<open>Publish\<close>: the table of active objects, subscriptions, publishing, and the threads of the objects.
  \<^item> \<open>Driver_Frame\<close>: the object of \<open>Active_Object\<close> as a state machine of the framework; \<open>src/qpobject.cpp\<close>, the
    main loop of the framework and \<open>src/ActivityQP.h\<close>, which starts and stops it.
  \<^item> \<open>Net_Config\<close>: \<open>dbus/net_config.cpp\<close>, \<open>tools/net_config.cpp\<close> and \<open>tools/rtu_sh.cpp\<close>.

  \<^bold>\<open>The properties.\<close> Each is marked by an identifier in its theory. C1 and C2: the server refines the
  abstract device. C3 to C5: the client composed with it. C6 and C7: the receiver takes one frame
  from a stream and is total on every input. C8 and C9: which frames are accepted and rejected. C10:
  the CRC. C11 and C12: state machines. C13: queues. C14 and C15: pools and the life of events. C16: publishing.
  C17: time events. C18: sets of priorities. C19: the old driver on the framework. C20 to C22: what
  goes wrong in the framework. C23: mappings. C24 to C26: the PLC's driver and process image. C27: the poll of
  one line. C28: the rounds of one line. C29 to C31: the threads of two lines, what they keep and how they disturb each other. C32 to C35:
  the module manager on SPI. C36: over-long requests. C37: a serial line that was lost. C38: the
  image file. C39: threads of the runtime. C40: the old driver. The theorems without an identifier are those of the same
  kind on the other operations, among them the client's writes, transaction identifiers, failed
  connections, the handshake of the module manager, the events and clocks of the runtime, and the end of the framework's threads.

  \<^bold>\<open>Bounds and fuel.\<close> No fuel is used. The receiver's loop, the sending loop, the sleeping loop and the loops that
  wait for input or for a pin are \<open>partial_function\<close>s, as a system call may be interrupted for ever;
  C6, C7 and the theorems over a line prove that the calls return, under the hypotheses that reads return some of the
  bytes asked for and that \<open>select\<close> returns. The loops of the framework that follow states or
  links are \<open>partial_function\<close>s too: C11 proves that they end for the machines of a chart, whose depth is at most
  the six states of the code's array, C14, C16 and C17 for the lists and bytes of well-formed states. All other loops are structural or counted. Message
  buffers have the 260 bytes of the code, and the theorems prove that they suffice. The framework's assertions call \<open>Q_onAssert\<close> of the application, which may return; the
  first argument of the operations tells whether it does, and most theorems hold for both.

  \<^bold>\<open>What is assumed.\<close> Theorems about a line assume that it delivers the bytes of the peer in order
  (\<open>byte_stream\<close>) and that the peer answers a request as the device does (\<open>settled\<close>, \<open>answers\<close>). The CRC of
  the Poco library, the serial library and the SPI driver are parameters of \<open>Channel_Manager\<close>.

  \<^bold>\<open>Not modelled.\<close> Debug output and messages; releasing memory; the code that is compiled for Windows only.
  In \<open>Poll_Threads\<close> the exchange of a task on its line, with the filling of the buffer, is one step, and
  each line has a kernel of its own. In \<open>Image_File\<close> no write fails or is short. In \<open>Event_Pool\<close> a post of an event
  is what it does to the event's counter. \<open>modbus_rtu_set_rts\<close>, which \<open>src/modbus-mgr.cpp\<close> calls, is not in the library and so
  a parameter, of which C40 assumes no more than that it returns and leaves the context's fields alone, as are the connection manager on the bus, \<open>lexical_cast\<close> and the
  splitting of command lines. Critical sections of the framework are single steps, and in \<open>Time_Events\<close> what other
  threads do between two of them is an argument, and a post an entry in a log. Its software tracing, which is compiled out, its other
  kernels and ports, and its other examples are not modelled, nor are the server application
  (\<open>src/main.cpp\<close>), the serial library, the runtime's
  headers in \<open>kw/include\<close> and its \<open>eclr_main.cpp\<close>, the generated proxies in \<open>dbus\<close> and \<open>tools\<close>, and \<open>web\<close>, which have
  no logic of this program.
\<close>

end
